(* ===== verification/Prelude.thy ===== *)
theory Prelude
  imports Complex_Main "HOL-Library.Char_ord" "HOL-Library.List_Lexorder"
begin

section \<open>Shared library\<close>

text \<open>
  What every component shares: results with errors as values, the tables of the bridge's
  SQLite state file, and the two generic machines the components are instances of.

  \<^item> A Python call that may raise returns \<open>'e + 'a\<close>: \<open>Inl\<close> is the exception, \<open>Inr\<close> the
    value. A stateful call returns the new state beside it, because several operations of the
    bridge change state before they raise.
  \<^item> A table with a primary key is the list of its rows in rowid order. \<open>SELECT\<close> is
    \<open>tbl_select\<close> or \<open>tbl_fetch\<close> (\<open>fetchone\<close>), \<open>UPDATE ... WHERE\<close> is \<open>tbl_update\<close>,
    \<open>INSERT\<close> is \<open>tbl_insert\<close> (\<open>None\<close> is sqlite3's \<open>IntegrityError\<close>) and
    \<open>INSERT ... ON CONFLICT DO UPDATE\<close> is \<open>tbl_upsert\<close>. A transaction that ends in
    \<open>ROLLBACK\<close> returns the table it started from.
  \<^item> The locale \<open>op_machine\<close> lifts an invariant of one operation to every sequence of
    operations; \<open>single_use\<close> is the contract of a token that can be spent once.
\<close>

named_theorems tbl_simps \<open>what the table operations do to a lookup\<close>
named_theorems inv_intros \<open>an operation keeps its component's invariant\<close>

type_synonym ('e, 'a) result = "'e + 'a"

text \<open>
  An instant in UTC: microseconds since the epoch. The bridge stores it as the text
  \<open>datetime.isoformat()\<close> gives, and compares the texts.
\<close>

type_synonym utc = int
type_synonym 'r table = "'r list"

subsection \<open>Calls that may raise\<close>

definition bind_r :: "('e, 'a) result \<Rightarrow> ('a \<Rightarrow> ('e, 'b) result) \<Rightarrow> ('e, 'b) result" where
  "bind_r x f = (case x of Inl e \<Rightarrow> Inl e | Inr a \<Rightarrow> f a)"

text \<open>A loop that appends the value of a call, or stops at the first exception.\<close>

fun traverse :: "('a \<Rightarrow> ('e, 'b) result) \<Rightarrow> 'a list \<Rightarrow> ('e, 'b list) result" where
  "traverse f [] = Inr []"
| "traverse f (x # xs) = bind_r (f x) (\<lambda>y. bind_r (traverse f xs) (\<lambda>ys. Inr (y # ys)))"

text \<open>A stateful call that may raise: the state changed so far survives the exception.\<close>

definition bind_s :: "'s \<times> ('e, 'a) result \<Rightarrow> ('s \<Rightarrow> 'a \<Rightarrow> 's \<times> ('e, 'b) result) \<Rightarrow> 's \<times> ('e, 'b) result" where
  "bind_s x f = (case x of (s, Inl e) \<Rightarrow> (s, Inl e) | (s, Inr a) \<Rightarrow> f s a)"

lemma bind_s_simps [simp]: "bind_s (s, Inl e) f = (s, Inl e)" "bind_s (s, Inr a) f = f s a"
  by (simp_all add: bind_s_def)

lemma bind_s_Inr_iff: "bind_s x f = (s', Inr b) \<longleftrightarrow> (\<exists>s a. x = (s, Inr a) \<and> f s a = (s', Inr b))"
  by (cases x; cases "snd x") auto

lemma bind_s_cong [fundef_cong]:
  "x = y \<Longrightarrow> (\<And>s a. y = (s, Inr a) \<Longrightarrow> f s a = g s a) \<Longrightarrow> bind_s x f = bind_s y g"
  by (cases y; cases "snd y") auto

text \<open>A \<open>for\<close> loop over a stateful body.\<close>

fun for_each :: "('a \<Rightarrow> 's \<Rightarrow> 's \<times> ('e, unit) result) \<Rightarrow> 'a list \<Rightarrow> 's \<Rightarrow> 's \<times> ('e, unit) result" where
  "for_each f [] s = (s, Inr ())"
| "for_each f (x # xs) s = bind_s (f x s) (\<lambda>s _. for_each f xs s)"

lemma bind_r_simps [simp]: "bind_r (Inl e) f = Inl e" "bind_r (Inr a) f = f a"
  by (simp_all add: bind_r_def)

lemma bind_r_Inr_iff: "bind_r x f = Inr b \<longleftrightarrow> (\<exists>a. x = Inr a \<and> f a = Inr b)"
  by (cases x) simp_all

lemma bind_r_Inl_iff: "bind_r x f = Inl e \<longleftrightarrow> x = Inl e \<or> (\<exists>a. x = Inr a \<and> f a = Inl e)"
  by (cases x) simp_all

lemma bind_r_cong [fundef_cong]:
  "x = y \<Longrightarrow> (\<And>a. y = Inr a \<Longrightarrow> f a = g a) \<Longrightarrow> bind_r x f = bind_r y g"
  by (cases y) simp_all

lemma traverse_Inr_iff: "traverse f xs = Inr ys \<longleftrightarrow> list_all2 (\<lambda>x y. f x = Inr y) xs ys"
  by (induction xs arbitrary: ys) (auto simp: bind_r_Inr_iff list_all2_Cons1)

lemma traverse_mem: "traverse f xs = Inr ys \<Longrightarrow> x \<in> set xs \<Longrightarrow> \<exists>y \<in> set ys. f x = Inr y"
  by (induction xs arbitrary: ys) (auto simp: bind_r_Inr_iff)

lemma traverse_mem_rev: "traverse f xs = Inr ys \<Longrightarrow> y \<in> set ys \<Longrightarrow> \<exists>x \<in> set xs. f x = Inr y"
  by (induction xs arbitrary: ys) (auto simp: bind_r_Inr_iff)

subsection \<open>Identifiers\<close>

definition ascii_lower :: "char \<Rightarrow> bool" where
  "ascii_lower c \<longleftrightarrow> CHR ''a'' \<le> c \<and> c \<le> CHR ''z''"

definition ascii_alnum :: "char \<Rightarrow> bool" where
  "ascii_alnum c \<longleftrightarrow>
     ascii_lower c \<or> (CHR ''A'' \<le> c \<and> c \<le> CHR ''Z'') \<or> (CHR ''0'' \<le> c \<and> c \<le> CHR ''9'')"

text \<open>
  The language of \<^verbatim>\<open>[A-Za-z0-9][A-Za-z0-9<extra>]{0,n}\<close>, and what \<open>re.match\<close> accepts for it
  between \<^verbatim>\<open>^\<close> and \<^verbatim>\<open>$\<close>: Python's \<^verbatim>\<open>$\<close> also matches before a final newline.
\<close>

fun re_ident :: "char list \<Rightarrow> nat \<Rightarrow> string \<Rightarrow> bool" where
  "re_ident extra n [] = False"
| "re_ident extra n (c # cs) =
     (ascii_alnum c \<and> length cs \<le> n \<and> list_all (\<lambda>d. ascii_alnum d \<or> d \<in> set extra) cs)"

definition re_match_ident :: "char list \<Rightarrow> nat \<Rightarrow> string \<Rightarrow> bool" where
  "re_match_ident extra n s \<longleftrightarrow>
     re_ident extra n s \<or> (s \<noteq> [] \<and> last s = CHR 0x0A \<and> re_ident extra n (butlast s))"

subsection \<open>Tables with a primary key\<close>

definition tbl_select :: "('r \<Rightarrow> bool) \<Rightarrow> 'r table \<Rightarrow> 'r list" where
  "tbl_select p t = filter p t"

definition tbl_fetch :: "('r \<Rightarrow> bool) \<Rightarrow> 'r table \<Rightarrow> 'r option" where
  "tbl_fetch p t = find p t"

definition tbl_update :: "('r \<Rightarrow> bool) \<Rightarrow> ('r \<Rightarrow> 'r) \<Rightarrow> 'r table \<Rightarrow> 'r table" where
  "tbl_update p f t = map (\<lambda>r. if p r then f r else r) t"

definition tbl_insert :: "('r \<Rightarrow> 'k) \<Rightarrow> 'r \<Rightarrow> 'r table \<Rightarrow> 'r table option" where
  "tbl_insert key r t = (if key r \<in> key ` set t then None else Some (t @ [r]))"

definition tbl_upsert :: "('r \<Rightarrow> 'k) \<Rightarrow> ('r \<Rightarrow> 'r) \<Rightarrow> 'r \<Rightarrow> 'r table \<Rightarrow> 'r table" where
  "tbl_upsert key merge r t =
     (if key r \<in> key ` set t then tbl_update (\<lambda>x. key x = key r) merge t else t @ [r])"

text \<open>Lookup of the row with a given key.\<close>

definition tbl_get :: "('r \<Rightarrow> 'k) \<Rightarrow> 'k \<Rightarrow> 'r table \<Rightarrow> 'r option" where
  "tbl_get key k t = tbl_fetch (\<lambda>r. key r = k) t"

definition tbl_ok :: "('r \<Rightarrow> 'k) \<Rightarrow> 'r table \<Rightarrow> bool" where
  "tbl_ok key t \<longleftrightarrow> distinct (map key t)"

lemma tbl_get_Nil [simp]: "tbl_get key k [] = None"
  by (simp add: tbl_get_def tbl_fetch_def)

lemma tbl_get_Cons [simp]:
  "tbl_get key k (r # t) = (if key r = k then Some r else tbl_get key k t)"
  by (simp add: tbl_get_def tbl_fetch_def)

lemma tbl_get_snoc:
  "key r \<notin> key ` set t \<Longrightarrow>
   tbl_get key k (t @ [r]) = (if k = key r then Some r else tbl_get key k t)"
  by (induction t) auto

lemma tbl_get_None_iff: "tbl_get key k t = None \<longleftrightarrow> k \<notin> key ` set t"
  by (induction t) auto

lemma tbl_get_snoc_fresh [tbl_simps]:
  "tbl_get key (key r) t = None \<Longrightarrow>
   tbl_get key k (t @ [r]) = (if k = key r then Some r else tbl_get key k t)"
  by (simp add: tbl_get_None_iff tbl_get_snoc)

lemma tbl_get_SomeD: "tbl_get key k t = Some r \<Longrightarrow> r \<in> set t \<and> key r = k"
  by (induction t) (auto split: if_splits)

lemma tbl_get_mem: "tbl_ok key t \<Longrightarrow> r \<in> set t \<Longrightarrow> tbl_get key (key r) t = Some r"
  by (induction t) (auto simp: tbl_ok_def)

lemma tbl_update_Nil [simp]: "tbl_update p f [] = []"
  and tbl_update_Cons [simp]: "tbl_update p f (r # t) = (if p r then f r else r) # tbl_update p f t"
  by (simp_all add: tbl_update_def)

lemma map_key_tbl_update:
  assumes "\<And>r. key (f r) = key r"
  shows "map key (tbl_update p f t) = map key t"
  using assms by (induction t) auto

text \<open>An update that keeps keys changes exactly the rows its condition selects.\<close>

lemma tbl_get_update [tbl_simps]:
  assumes "\<And>r. key (f r) = key r"
  shows "tbl_get key k (tbl_update p f t) =
    map_option (\<lambda>r. if p r then f r else r) (tbl_get key k t)"
  using assms by (induction t) auto

lemma tbl_get_update_key [tbl_simps]:
  assumes "\<And>r. key (f r) = key r"
  shows "tbl_get key j (tbl_update (\<lambda>r. key r = k) f t) =
    (if j = k then map_option f (tbl_get key k t) else tbl_get key j t)"
  using assms by (induction t) auto

lemma tbl_get_insert [tbl_simps]:
  "tbl_insert key r t = Some t' \<Longrightarrow>
   tbl_get key k t' = (if k = key r then Some r else tbl_get key k t)"
  by (auto simp: tbl_insert_def tbl_get_snoc split: if_splits)

lemma tbl_insert_None_iff: "tbl_insert key r t = None \<longleftrightarrow> tbl_get key (key r) t \<noteq> None"
  by (auto simp: tbl_insert_def tbl_get_None_iff)

lemma tbl_insert_SomeD: "tbl_insert key r t = Some t' \<Longrightarrow> tbl_get key (key r) t = None"
  by (simp add: tbl_insert_def tbl_get_None_iff split: if_splits)

lemma tbl_get_upsert [tbl_simps]:
  assumes "\<And>x. key (merge x) = key x"
  shows "tbl_get key k (tbl_upsert key merge r t) =
    (if k = key r
     then Some (case tbl_get key k t of None \<Rightarrow> r | Some x \<Rightarrow> merge x)
     else tbl_get key k t)"
proof (cases "key r \<in> key ` set t")
  case True
  then obtain x where x: "tbl_get key (key r) t = Some x"
    by (metis tbl_get_None_iff option.exhaust)
  have "map_option (\<lambda>y. if key y = key r then merge y else y) (tbl_get key k t) = tbl_get key k t"
    if "k \<noteq> key r"
    using that by (cases "tbl_get key k t") (auto dest: tbl_get_SomeD)
  with True x assms show ?thesis
    by (auto simp: tbl_upsert_def tbl_get_update dest: tbl_get_SomeD)
next
  case False
  then have "tbl_get key (key r) t = None" by (simp add: tbl_get_None_iff)
  with False show ?thesis by (simp add: tbl_upsert_def tbl_get_snoc)
qed

lemma tbl_ok_Nil [simp]: "tbl_ok key []"
  by (simp add: tbl_ok_def)

lemma tbl_ok_update [inv_intros]:
  "tbl_ok key t \<Longrightarrow> (\<And>r. key (f r) = key r) \<Longrightarrow> tbl_ok key (tbl_update p f t)"
  by (simp add: tbl_ok_def map_key_tbl_update)

lemma tbl_ok_insert [inv_intros]:
  "tbl_ok key t \<Longrightarrow> tbl_insert key r t = Some t' \<Longrightarrow> tbl_ok key t'"
  by (auto simp: tbl_ok_def tbl_insert_def split: if_splits)

lemma tbl_ok_upsert [inv_intros]:
  "tbl_ok key t \<Longrightarrow> (\<And>x. key (merge x) = key x) \<Longrightarrow> tbl_ok key (tbl_upsert key merge r t)"
  by (auto simp: tbl_upsert_def tbl_ok_def map_key_tbl_update)

lemma mem_tbl_upsertD:
  assumes "x \<in> set (tbl_upsert key merge r t)" "\<And>y. key (merge y) = key y"
  shows "(x \<in> set t \<and> key x \<noteq> key r) \<or>
    (key x = key r \<and> (x = r \<or> (\<exists>y \<in> set t. key y = key r \<and> x = merge y)))"
proof (cases "key r \<in> key ` set t")
  case True
  with assms show ?thesis by (auto simp: tbl_upsert_def tbl_update_def)
next
  case False
  with assms(1) show ?thesis by (auto simp: tbl_upsert_def) (metis image_eqI)
qed

lemma mem_tbl_upsertI:
  "x \<in> set t \<Longrightarrow> key x \<noteq> key r \<Longrightarrow> x \<in> set (tbl_upsert key merge r t)"
  by (auto simp: tbl_upsert_def tbl_update_def)

lemma set_tbl_update: "set (tbl_update p f t) = (\<lambda>r. if p r then f r else r) ` set t"
  by (simp add: tbl_update_def)

subsection \<open>Operations in sequence\<close>

definition run_ops :: "('s \<Rightarrow> 'o \<Rightarrow> 's) \<Rightarrow> 's \<Rightarrow> 'o list \<Rightarrow> 's" where
  "run_ops step s os = foldl step s os"

lemma run_ops_Nil [simp]: "run_ops step s [] = s"
  and run_ops_Cons [simp]: "run_ops step s (x # xs) = run_ops step (step s x) xs"
  and run_ops_append [simp]: "run_ops step s (xs @ ys) = run_ops step (run_ops step s xs) ys"
  by (simp_all add: run_ops_def)

locale op_machine =
  fixes step :: "'s \<Rightarrow> 'o \<Rightarrow> 's"
    and inv :: "'s \<Rightarrow> bool"
  assumes step_inv: "inv s \<Longrightarrow> inv (step s x)"
begin

lemma run_inv: "inv s \<Longrightarrow> inv (run_ops step s xs)"
  by (induction xs arbitrary: s) (auto intro: step_inv)

end

text \<open>
  A token that can be spent once. \<open>spends s x\<close> says that operation \<open>x\<close>, run in state \<open>s\<close>,
  succeeds in spending the token; \<open>spent s\<close> that the token is gone; \<open>frees x\<close> that operation \<open>x\<close>
  may give it back. Over any sequence of operations none of which frees it, the token is then
  spent at most once, whatever else happens in between.
\<close>

fun spend_count :: "('s \<Rightarrow> 'o \<Rightarrow> 's) \<Rightarrow> ('s \<Rightarrow> 'o \<Rightarrow> bool) \<Rightarrow> 's \<Rightarrow> 'o list \<Rightarrow> nat" where
  "spend_count step spends s [] = 0"
| "spend_count step spends s (x # xs) =
     (if spends s x then 1 else 0) + spend_count step spends (step s x) xs"

locale single_use = op_machine step inv
  for step :: "'s \<Rightarrow> 'o \<Rightarrow> 's" and inv :: "'s \<Rightarrow> bool" +
  fixes spends :: "'s \<Rightarrow> 'o \<Rightarrow> bool"
    and spent :: "'s \<Rightarrow> bool"
    and frees :: "'o \<Rightarrow> bool"
  assumes spends_fresh: "inv s \<Longrightarrow> spends s x \<Longrightarrow> \<not> spent s"
    and spends_spent: "inv s \<Longrightarrow> spends s x \<Longrightarrow> spent (step s x)"
    and spent_stays: "inv s \<Longrightarrow> spent s \<Longrightarrow> \<not> frees x \<Longrightarrow> spent (step s x)"
begin

lemma spent_count_0:
  "inv s \<Longrightarrow> spent s \<Longrightarrow> \<forall>x \<in> set xs. \<not> frees x \<Longrightarrow> spend_count step spends s xs = 0"
  by (induction xs arbitrary: s) (auto intro: step_inv spent_stays dest: spends_fresh)

lemma spend_at_most_once:
  "inv s \<Longrightarrow> \<forall>x \<in> set xs. \<not> frees x \<Longrightarrow> spend_count step spends s xs \<le> 1"
proof (induction xs arbitrary: s)
  case Nil
  then show ?case by simp
next
  case (Cons x xs)
  show ?case
  proof (cases "spends s x")
    case True
    with Cons.prems have "spend_count step spends (step s x) xs = 0"
      by (intro spent_count_0) (auto intro: step_inv spends_spent)
    then show ?thesis by simp
  next
    case False
    with Cons show ?thesis by (simp add: step_inv)
  qed
qed

end

end
