(* ===== verification/Circuit.thy ===== *)
theory Circuit
  imports Prelude
begin

section \<open>Circuit breaker (resilience/circuit.py)\<close>

text \<open>
  One breaker per upstream, closed, open or half-open. The breaker reads its clock at most
  once in each public call, so every operation takes the clock's reading \<open>now\<close> as an
  argument. Seconds are reals. The metrics calls \<open>_record_transition\<close> and
  \<open>_record_rejection\<close> are events appended to the breaker's log.
\<close>

subsection \<open>State\<close>

datatype circuit_state = CLOSED | OPEN | HALF_OPEN

record circuit_config =
  failure_threshold :: int
  recovery_seconds :: real
  half_open_max_calls :: int
  success_threshold :: int

datatype config_error =
  Bad_failure_threshold | Bad_recovery_seconds | Bad_half_open_max_calls | Bad_success_threshold

definition circuit_config_default :: circuit_config where
  "circuit_config_default = \<lparr>failure_threshold = 5, recovery_seconds = 30,
     half_open_max_calls = 1, success_threshold = 1\<rparr>"

text \<open>\<open>CircuitBreakerConfig.__post_init__\<close>: the checks in the order the code makes them.\<close>

definition circuit_config_new :: "circuit_config \<Rightarrow> (config_error, circuit_config) result" where
  "circuit_config_new c =
     (if \<not> (1 \<le> failure_threshold c \<and> failure_threshold c \<le> 1000) then Inl Bad_failure_threshold
      else if \<not> (0 < recovery_seconds c \<and> recovery_seconds c \<le> 3600) then Inl Bad_recovery_seconds
      else if \<not> (1 \<le> half_open_max_calls c \<and> half_open_max_calls c \<le> 100) then Inl Bad_half_open_max_calls
      else if \<not> (1 \<le> success_threshold c \<and> success_threshold c \<le> 100) then Inl Bad_success_threshold
      else Inr c)"

datatype circuit_event = Transition_event string circuit_state | Rejection_event string

record breaker =
  cb_name :: string
  cb_config :: circuit_config
  cb_state :: circuit_state
  cb_failures :: int
  cb_successes :: int
  cb_half_open_calls :: int
  cb_opened_at :: real
  cb_transitions :: int
  cb_rejections :: int
  cb_log :: "circuit_event list"

definition breaker_key :: "string \<Rightarrow> string" where
  "breaker_key name = (let key = take 32 name in if key = [] then ''upstream'' else key)"

definition breaker_new :: "string \<Rightarrow> circuit_config option \<Rightarrow> breaker" where
  "breaker_new name config =
     \<lparr>cb_name = breaker_key name,
      cb_config = (case config of None \<Rightarrow> circuit_config_default | Some c \<Rightarrow> c),
      cb_state = CLOSED, cb_failures = 0, cb_successes = 0, cb_half_open_calls = 0,
      cb_opened_at = 0, cb_transitions = 0, cb_rejections = 0, cb_log = []\<rparr>"

subsection \<open>Operations\<close>

definition transition :: "real \<Rightarrow> circuit_state \<Rightarrow> breaker \<Rightarrow> breaker" where
  "transition now target b =
     (if target = cb_state b then b
      else b\<lparr>cb_state := target,
             cb_transitions := cb_transitions b + 1,
             cb_failures := 0,
             cb_successes := 0,
             cb_half_open_calls := 0,
             cb_opened_at := (if target = OPEN then now else cb_opened_at b),
             cb_log := cb_log b @ [Transition_event (cb_name b) target]\<rparr>)"

definition maybe_half_open :: "real \<Rightarrow> breaker \<Rightarrow> breaker" where
  "maybe_half_open now b =
     (if cb_state b \<noteq> OPEN then b
      else if now - cb_opened_at b \<ge> recovery_seconds (cb_config b) then transition now HALF_OPEN b
      else b)"

text \<open>The \<open>state\<close> property and \<open>snapshot\<close> move an elapsed open breaker to half-open as they read it.\<close>

definition breaker_state :: "real \<Rightarrow> breaker \<Rightarrow> breaker \<times> circuit_state" where
  "breaker_state now b = (let b = maybe_half_open now b in (b, cb_state b))"

record circuit_snapshot =
  snap_name :: string
  snap_state :: circuit_state
  snap_failures :: int
  snap_successes :: int
  snap_transitions :: int
  snap_rejections :: int

definition snapshot :: "real \<Rightarrow> breaker \<Rightarrow> breaker \<times> circuit_snapshot" where
  "snapshot now b =
     (let b = maybe_half_open now b
      in (b, \<lparr>snap_name = cb_name b, snap_state = cb_state b, snap_failures = cb_failures b,
              snap_successes = cb_successes b, snap_transitions = cb_transitions b,
              snap_rejections = cb_rejections b\<rparr>))"

definition allows :: "real \<Rightarrow> breaker \<Rightarrow> breaker \<times> bool" where
  "allows now b =
     (let b = maybe_half_open now b
      in (b, case cb_state b of
               OPEN \<Rightarrow> False
             | HALF_OPEN \<Rightarrow> cb_half_open_calls b < half_open_max_calls (cb_config b)
             | CLOSED \<Rightarrow> True))"

datatype circuit_open_error = CircuitOpenError string

definition acquire :: "real \<Rightarrow> breaker \<Rightarrow> breaker \<times> (circuit_open_error, unit) result" where
  "acquire now b =
     (let b = maybe_half_open now b
      in if cb_state b = OPEN \<or>
            (cb_state b = HALF_OPEN \<and> cb_half_open_calls b \<ge> half_open_max_calls (cb_config b))
         then (b\<lparr>cb_rejections := cb_rejections b + 1,
                 cb_log := cb_log b @ [Rejection_event (cb_name b)]\<rparr>,
               Inl (CircuitOpenError (cb_name b)))
         else if cb_state b = HALF_OPEN
         then (b\<lparr>cb_half_open_calls := cb_half_open_calls b + 1\<rparr>, Inr ())
         else (b, Inr ()))"

definition record_success :: "real \<Rightarrow> breaker \<Rightarrow> breaker" where
  "record_success now b =
     (if cb_state b = HALF_OPEN
      then let b = b\<lparr>cb_successes := cb_successes b + 1,
                     cb_half_open_calls := max 0 (cb_half_open_calls b - 1)\<rparr>
           in if cb_successes b \<ge> success_threshold (cb_config b) then transition now CLOSED b else b
      else b\<lparr>cb_failures := 0\<rparr>)"

definition record_failure :: "real \<Rightarrow> breaker \<Rightarrow> breaker" where
  "record_failure now b =
     (if cb_state b = HALF_OPEN
      then transition now OPEN (b\<lparr>cb_half_open_calls := max 0 (cb_half_open_calls b - 1)\<rparr>)
      else let b = b\<lparr>cb_failures := cb_failures b + 1\<rparr>
           in if cb_failures b \<ge> failure_threshold (cb_config b) then transition now OPEN b else b)"

definition reset :: "real \<Rightarrow> breaker \<Rightarrow> breaker" where
  "reset now b = transition now CLOSED b"

text \<open>The process-wide registry: a dictionary in insertion order.\<close>

type_synonym breaker_registry = "(string \<times> breaker) list"

definition get_breaker ::
  "string \<Rightarrow> circuit_config option \<Rightarrow> breaker_registry \<Rightarrow> breaker_registry \<times> breaker" where
  "get_breaker name config reg =
     (let key = breaker_key name
      in case map_of reg key of
           None \<Rightarrow> (let b = breaker_new key config in (reg @ [(key, b)], b))
         | Some b \<Rightarrow> (reg, b))"

text \<open>
  \<open>breaker_snapshots\<close>: every registered breaker is snapshotted at its own clock's reading,
  and the snapshots are sorted by name.
\<close>

definition breaker_snapshots ::
  "(string \<Rightarrow> real) \<Rightarrow> breaker_registry \<Rightarrow> breaker_registry \<times> circuit_snapshot list" where
  "breaker_snapshots now reg =
     (map (\<lambda>(k, b). (k, fst (snapshot (now k) b))) reg,
      sort_key snap_name (map (\<lambda>(k, b). snd (snapshot (now k) b)) reg))"

definition reset_breakers :: "breaker_registry \<Rightarrow> breaker_registry" where
  "reset_breakers reg = []"

subsection \<open>The breaker as a machine\<close>

datatype circuit_op =
  Op_state | Op_snapshot | Op_allows | Op_acquire | Op_success | Op_failure | Op_reset

fun circuit_step :: "breaker \<Rightarrow> real \<times> circuit_op \<Rightarrow> breaker" where
  "circuit_step b (now, Op_state) = fst (breaker_state now b)"
| "circuit_step b (now, Op_snapshot) = fst (snapshot now b)"
| "circuit_step b (now, Op_allows) = fst (allows now b)"
| "circuit_step b (now, Op_acquire) = fst (acquire now b)"
| "circuit_step b (now, Op_success) = record_success now b"
| "circuit_step b (now, Op_failure) = record_failure now b"
| "circuit_step b (now, Op_reset) = reset now b"

fun is_transition_event :: "circuit_event \<Rightarrow> bool" where
  "is_transition_event (Transition_event n s) = True"
| "is_transition_event (Rejection_event n) = False"

definition circuit_inv :: "breaker \<Rightarrow> bool" where
  "circuit_inv b \<longleftrightarrow>
     circuit_config_new (cb_config b) = Inr (cb_config b) \<and>
     0 \<le> cb_failures b \<and>
     (cb_state b = CLOSED \<longrightarrow>
        cb_failures b < failure_threshold (cb_config b) \<and>
        cb_successes b = 0 \<and> cb_half_open_calls b = 0) \<and>
     (cb_state b = OPEN \<longrightarrow> cb_successes b = 0 \<and> cb_half_open_calls b = 0) \<and>
     (cb_state b = HALF_OPEN \<longrightarrow>
        cb_failures b = 0 \<and>
        0 \<le> cb_successes b \<and> cb_successes b < success_threshold (cb_config b) \<and>
        0 \<le> cb_half_open_calls b \<and>
        cb_half_open_calls b \<le> half_open_max_calls (cb_config b)) \<and>
     cb_transitions b = int (length (filter is_transition_event (cb_log b))) \<and>
     cb_rejections b = int (length (filter (\<lambda>e. \<not> is_transition_event e) (cb_log b)))"

lemmas circuit_defs =
  breaker_state_def snapshot_def allows_def acquire_def record_success_def record_failure_def
  reset_def maybe_half_open_def transition_def

lemma circuit_config_new_Inr:
  "circuit_config_new c = Inr c' \<longleftrightarrow>
     c' = c \<and> 1 \<le> failure_threshold c \<and> failure_threshold c \<le> 1000 \<and>
     0 < recovery_seconds c \<and> recovery_seconds c \<le> 3600 \<and>
     1 \<le> half_open_max_calls c \<and> half_open_max_calls c \<le> 100 \<and>
     1 \<le> success_threshold c \<and> success_threshold c \<le> 100"
  by (auto simp: circuit_config_new_def)

lemma circuit_inv_new [inv_intros]:
  "circuit_config_new c = Inr c \<Longrightarrow> circuit_inv (breaker_new name (Some c))"
  by (simp add: circuit_inv_def breaker_new_def circuit_config_new_Inr)

lemma circuit_inv_transition:
  "circuit_inv b \<Longrightarrow> circuit_inv (transition now target b)"
  by (cases target) (auto simp: circuit_inv_def transition_def circuit_config_new_Inr)

lemma circuit_inv_maybe_half_open:
  "circuit_inv b \<Longrightarrow> circuit_inv (maybe_half_open now b)"
  by (simp add: maybe_half_open_def circuit_inv_transition)

lemma circuit_inv_acquire:
  assumes "circuit_inv b"
  shows "circuit_inv (fst (acquire now b))"
  using circuit_inv_maybe_half_open [OF assms, of now]
  by (auto simp: acquire_def Let_def circuit_inv_def)

lemma circuit_inv_success: "circuit_inv b \<Longrightarrow> circuit_inv (record_success now b)"
  by (cases "cb_state b")
     (auto simp: record_success_def Let_def circuit_inv_def transition_def circuit_config_new_Inr)

lemma circuit_inv_failure: "circuit_inv b \<Longrightarrow> circuit_inv (record_failure now b)"
  by (cases "cb_state b")
     (auto simp: record_failure_def Let_def circuit_inv_def transition_def circuit_config_new_Inr)

interpretation cbm: op_machine circuit_step circuit_inv
proof
  fix b and x :: "real \<times> circuit_op"
  assume inv: "circuit_inv b"
  obtain now p where x: "x = (now, p)" by (cases x)
  from inv show "circuit_inv (circuit_step b x)"
    unfolding x by (cases p)
      (simp_all add: breaker_state_def snapshot_def allows_def reset_def Let_def
        circuit_inv_maybe_half_open circuit_inv_acquire circuit_inv_success circuit_inv_failure
        circuit_inv_transition)
qed

subsection \<open>Properties\<close>

text \<open>
  A breaker built from a configuration that passes its checks keeps its invariant under
  every sequence of calls: a closed breaker has fewer failures than the threshold, a half-open
  one never has more outstanding probes than \<open>half_open_max_calls\<close> nor enough successes to
  close, and the transition and rejection counters equal the emitted metric events.
\<close>

theorem circuit_run_inv:
  assumes "circuit_config_new c = Inr c"
  shows "circuit_inv (run_ops circuit_step (breaker_new name (Some c)) ops)"
  using assms by (intro cbm.run_inv circuit_inv_new)

theorem circuit_run_inv_witness:
  "circuit_inv (run_ops circuit_step (breaker_new ''health'' (Some circuit_config_default))
     [(0, Op_failure), (1, Op_acquire)])"
  by (rule circuit_run_inv) (simp add: circuit_config_new_def circuit_config_default_def)

lemma circuit_step_open:
  assumes "cb_state b = OPEN" "now - cb_opened_at b < recovery_seconds (cb_config b)" "p \<noteq> Op_reset"
  shows "cb_state (circuit_step b (now, p)) = OPEN"
    and "cb_opened_at (circuit_step b (now, p)) = cb_opened_at b"
    and "cb_config (circuit_step b (now, p)) = cb_config b"
    and "cb_name (circuit_step b (now, p)) = cb_name b"
  using assms by (cases p; simp add: circuit_defs Let_def)+

lemma circuit_open_rejects:
  assumes "cb_state b = OPEN" "now - cb_opened_at b < recovery_seconds (cb_config b)"
  shows "snd (acquire now b) = Inl (CircuitOpenError (cb_name b))" "\<not> snd (allows now b)"
  using assms by (simp_all add: circuit_defs Let_def)

lemma circuit_open_run:
  assumes "cb_state b = OPEN"
    and "\<forall>(t, p) \<in> set ops. t - cb_opened_at b < recovery_seconds (cb_config b) \<and> p \<noteq> Op_reset"
  shows "cb_state (run_ops circuit_step b ops) = OPEN \<and>
    cb_opened_at (run_ops circuit_step b ops) = cb_opened_at b \<and>
    cb_config (run_ops circuit_step b ops) = cb_config b \<and>
    cb_name (run_ops circuit_step b ops) = cb_name b"
  using assms
proof (induction ops arbitrary: b)
  case Nil
  then show ?case by simp
next
  case (Cons x ops)
  obtain t p where x: "x = (t, p)" by (cases x)
  from Cons.prems x have tp: "t - cb_opened_at b < recovery_seconds (cb_config b)" "p \<noteq> Op_reset"
    by auto
  note step = circuit_step_open [OF Cons.prems(1) tp]
  from Cons.prems(2) have
    "\<forall>(u, q) \<in> set ops. u - cb_opened_at (circuit_step b x) <
       recovery_seconds (cb_config (circuit_step b x)) \<and> q \<noteq> Op_reset"
    by (simp add: x step)
  from Cons.IH [OF _ this] step show ?case by (simp add: x)
qed

text \<open>
  C28. Isolation window: while less than \<open>recovery_seconds\<close> have passed since the breaker opened,
  no sequence of calls (late results of earlier calls included) short of an explicit \<open>reset\<close>
  lets a call through: the breaker stays open since the same instant, \<open>allows\<close> is false and
  \<open>acquire\<close> raises \<open>CircuitOpenError\<close>.
\<close>

theorem circuit_open_window:
  assumes "cb_state b = OPEN"
    and "\<forall>(t, p) \<in> set ops. t - cb_opened_at b < recovery_seconds (cb_config b) \<and> p \<noteq> Op_reset"
    and "now - cb_opened_at b < recovery_seconds (cb_config b)"
  shows "cb_state (run_ops circuit_step b ops) = OPEN \<and>
    snd (acquire now (run_ops circuit_step b ops)) = Inl (CircuitOpenError (cb_name b)) \<and>
    \<not> snd (allows now (run_ops circuit_step b ops))"
proof -
  note run = circuit_open_run [OF assms(1,2)]
  with assms(3) show ?thesis
    using circuit_open_rejects [of "run_ops circuit_step b ops" now] by simp
qed

theorem circuit_open_window_witness:
  "let b = (breaker_new ''runs'' None)\<lparr>cb_state := OPEN, cb_opened_at := 100\<rparr>
   in cb_state (run_ops circuit_step b [(110, Op_success), (120, Op_acquire)]) = OPEN \<and>
    snd (acquire 129 (run_ops circuit_step b [(110, Op_success), (120, Op_acquire)])) =
      Inl (CircuitOpenError ''runs'') \<and>
    \<not> snd (allows 129 (run_ops circuit_step b [(110, Op_success), (120, Op_acquire)]))"
proof -
  let ?b = "(breaker_new ''runs'' None)\<lparr>cb_state := OPEN, cb_opened_at := 100\<rparr>"
  have n: "cb_name ?b = ''runs''" by (simp add: breaker_new_def breaker_key_def)
  show ?thesis
    using circuit_open_window [of ?b "[(110, Op_success), (120, Op_acquire)]" 129]
    unfolding n Let_def by (simp add: breaker_new_def circuit_config_default_def)
qed

lemma circuit_failures_open:
  "cb_state b = OPEN \<Longrightarrow>
   cb_state (run_ops circuit_step b (map (\<lambda>t. (t, Op_failure)) ts)) = OPEN \<and>
   cb_opened_at (run_ops circuit_step b (map (\<lambda>t. (t, Op_failure)) ts)) = cb_opened_at b"
proof (induction ts arbitrary: b)
  case Nil
  then show ?case by simp
next
  case (Cons t ts)
  have s: "cb_state (record_failure t b) = OPEN" "cb_opened_at (record_failure t b) = cb_opened_at b"
    using Cons.prems by (simp_all add: record_failure_def transition_def Let_def)
  from Cons.IH [OF s(1)] s(2) show ?case by simp
qed

text \<open>
  Tripping: a closed breaker hit by consecutive failures opens exactly when the failures
  counted since the last success reach \<open>failure_threshold\<close>, and it records the instant of that
  failure as the moment it opened.
\<close>

theorem circuit_trips:
  assumes "circuit_inv b" "cb_state b = CLOSED"
  shows "let n = nat (failure_threshold (cb_config b) - cb_failures b);
             b' = run_ops circuit_step b (map (\<lambda>t. (t, Op_failure)) ts)
         in (cb_state b' = (if n \<le> length ts then OPEN else CLOSED)) \<and>
            (n \<le> length ts \<longrightarrow> cb_opened_at b' = ts ! (n - 1))"
  using assms unfolding Let_def
proof (induction ts arbitrary: b)
  case Nil
  then show ?case by (auto simp: circuit_inv_def)
next
  case (Cons t ts)
  let ?d = "failure_threshold (cb_config b) - cb_failures b"
  have pos: "0 < ?d" using Cons.prems by (simp add: circuit_inv_def)
  show ?case
  proof (cases "?d = 1")
    case True
    then have "cb_state (record_failure t b) = OPEN" "cb_opened_at (record_failure t b) = t"
      using Cons.prems(2) by (simp_all add: record_failure_def transition_def Let_def)
    with circuit_failures_open [of "record_failure t b" ts] True show ?thesis
      by simp
  next
    case False
    have c: "cb_state (record_failure t b) = CLOSED"
      "cb_failures (record_failure t b) = cb_failures b + 1"
      "cb_config (record_failure t b) = cb_config b"
      using Cons.prems(2) False pos by (simp_all add: record_failure_def transition_def Let_def)
    have inv: "circuit_inv (record_failure t b)"
      using Cons.prems(1) by (rule circuit_inv_failure)
    define m where "m = nat (?d - 1)"
    have m: "nat ?d = Suc m" "0 < m" using pos False by (auto simp: m_def)
    have "nat (failure_threshold (cb_config b) - (cb_failures b + 1)) = m"
      by (simp add: m_def)
    with Cons.IH [OF inv c(1)] show ?thesis
      using m by (auto simp: c nth_Cons' split: if_splits)
  qed
qed

theorem circuit_trips_witness:
  "(cb_state (run_ops circuit_step (breaker_new ''runs'' None)
      (map (\<lambda>t. (t, Op_failure)) [1, 2, 3, 4, 5, 6])) = OPEN) \<and>
   cb_opened_at (run_ops circuit_step (breaker_new ''runs'' None)
      (map (\<lambda>t. (t, Op_failure)) [1, 2, 3, 4, 5, 6])) = 5"
proof -
  have inv: "circuit_inv (breaker_new ''runs'' None)"
    by (simp add: circuit_inv_def breaker_new_def circuit_config_default_def circuit_config_new_def)
  have c: "cb_state (breaker_new ''runs'' None) = CLOSED" by (simp add: breaker_new_def)
  show ?thesis
    using circuit_trips [OF inv c, of "[1, 2, 3, 4, 5, 6]"]
    by (simp add: breaker_new_def circuit_config_default_def Let_def)
qed

text \<open>One probe round: a granted call followed by its success.\<close>

definition probe_rounds :: "(real \<times> real) list \<Rightarrow> (real \<times> circuit_op) list" where
  "probe_rounds rs = concat (map (\<lambda>(t, u). [(t, Op_acquire), (u, Op_success)]) rs)"

lemma probe_round_half_open:
  fixes t u :: real
  assumes "circuit_inv b" "cb_state b = HALF_OPEN" "cb_half_open_calls b = 0"
  defines "b' \<equiv> record_success u (fst (acquire t b))"
  shows "snd (acquire t b) = Inr ()"
    and "cb_config b' = cb_config b"
    and "cb_successes b + 1 < success_threshold (cb_config b) \<Longrightarrow>
      cb_state b' = HALF_OPEN \<and> cb_half_open_calls b' = 0 \<and> cb_successes b' = cb_successes b + 1"
    and "cb_successes b + 1 = success_threshold (cb_config b) \<Longrightarrow>
      cb_state b' = CLOSED \<and> cb_failures b' = 0"
  using assms
  by (auto simp: circuit_inv_def circuit_config_new_Inr acquire_def maybe_half_open_def
      record_success_def transition_def Let_def)

lemma probe_rounds_half_open:
  assumes "circuit_inv b" "cb_state b = HALF_OPEN" "cb_half_open_calls b = 0"
    and "rs \<noteq> []" "cb_successes b + int (length rs) = success_threshold (cb_config b)"
  shows "cb_state (run_ops circuit_step b (probe_rounds rs)) = CLOSED \<and>
    cb_failures (run_ops circuit_step b (probe_rounds rs)) = 0"
  using assms
proof (induction rs arbitrary: b)
  case Nil
  then show ?case by simp
next
  case (Cons r rs)
  obtain t u where r: "r = (t, u)" by (cases r)
  let ?b = "record_success u (fst (acquire t b))"
  note one = probe_round_half_open [OF Cons.prems(1-3)]
  have run: "run_ops circuit_step b (probe_rounds (r # rs)) = run_ops circuit_step ?b (probe_rounds rs)"
    by (simp add: probe_rounds_def r)
  show ?case
  proof (cases "rs = []")
    case True
    with one(4) Cons.prems(5) show ?thesis unfolding run by (simp add: probe_rounds_def)
  next
    case False
    then have "cb_successes b + 1 < success_threshold (cb_config b)"
      using Cons.prems(5) by (cases rs) auto
    with one(2,3) Cons.prems(5) False circuit_inv_success [OF circuit_inv_acquire [OF Cons.prems(1)]]
    show ?thesis unfolding run by (intro Cons.IH) auto
  qed
qed

text \<open>
  Recovery: once \<open>recovery_seconds\<close> have passed, an open breaker grants the next call, and
  \<open>success_threshold\<close> successful probe rounds bring it back to closed with no failures counted.
\<close>

theorem circuit_recovers:
  assumes "circuit_inv b" "cb_state b = OPEN"
    and "t - cb_opened_at b \<ge> recovery_seconds (cb_config b)"
    and "int (length ((t, u) # rs)) = success_threshold (cb_config b)"
  shows "snd (acquire t b) = Inr () \<and>
    cb_state (run_ops circuit_step b (probe_rounds ((t, u) # rs))) = CLOSED \<and>
    cb_failures (run_ops circuit_step b (probe_rounds ((t, u) # rs))) = 0"
proof -
  let ?h = "maybe_half_open t b"
  have h: "cb_state ?h = HALF_OPEN" "cb_half_open_calls ?h = 0" "cb_successes ?h = 0"
    "cb_config ?h = cb_config b"
    using assms by (simp_all add: maybe_half_open_def transition_def)
  have inv: "circuit_inv ?h" using assms(1) by (rule circuit_inv_maybe_half_open)
  have acq: "acquire t b = acquire t ?h"
    using h(1) by (simp add: acquire_def maybe_half_open_def [of t ?h])
  have "run_ops circuit_step b (probe_rounds ((t, u) # rs)) =
      run_ops circuit_step ?h (probe_rounds ((t, u) # rs))"
    by (simp add: probe_rounds_def acq)
  moreover have "snd (acquire t ?h) = Inr ()"
    using h inv by (intro probe_round_half_open(1))
  ultimately show ?thesis
    using probe_rounds_half_open [of ?h "(t, u) # rs"] h inv assms(4) acq by simp
qed

theorem circuit_recovers_witness:
  "let b = (breaker_new ''runs'' None)\<lparr>cb_state := OPEN, cb_opened_at := 100\<rparr>
   in snd (acquire 130 b) = Inr () \<and>
      cb_state (run_ops circuit_step b (probe_rounds [(130, 131)])) = CLOSED \<and>
      cb_failures (run_ops circuit_step b (probe_rounds [(130, 131)])) = 0"
  unfolding Let_def
  by (rule circuit_recovers)
     (simp_all add: circuit_inv_def breaker_new_def circuit_config_default_def circuit_config_new_def)

end
