(* ===== verification/Locks.thy ===== *)
theory Locks
  imports Prelude
begin

section \<open>Resource locks (locks.py)\<close>

text \<open>
  \<open>LockRegistry\<close>: typed locks with a time to live, one row per lock key and owner. Every
  operation runs in one \<open>BEGIN IMMEDIATE\<close> transaction under a process-wide mutex, so
  operations are atomic and a run is a sequence of them. \<open>acquire\<close> reads the clock twice
  (in \<open>_reap_expired\<close> and for the new row); both readings are arguments. The lifecycle
  telemetry \<open>record_lock_event(''expired'', duration)\<close> is a log of durations in microseconds
  beside the table: it is not part of the transaction.
\<close>

subsection \<open>State\<close>

datatype lock_type = READ_SHARED | INTENT_TO_WRITE | WRITE_EXCLUSIVE | APPROVAL_PENDING

datatype lock_status = LOCK_ACTIVE | LOCK_EXPIRED | LOCK_RELEASED

text \<open>\<open>ResourceLock\<close>, and equally a row of \<open>resource_locks\<close>; \<open>metadata\<close> is its JSON text.\<close>

record resource_lock =
  lock_key :: string
  lock_type :: lock_type
  owner :: string
  execution_id :: "string option"
  context_text :: "string option"
  ttl_seconds :: int
  acquired_at :: "utc option"
  renewed_at :: "utc option"
  expires_at :: "utc option"
  status :: lock_status
  metadata :: string

record lock_db =
  resource_locks :: "resource_lock table"
  lock_events :: "int option list"

datatype lock_error = LockError string lock_type string | Lock_OverflowError

definition row_key :: "resource_lock \<Rightarrow> string \<times> string" where
  "row_key r = (lock_key r, owner r)"

definition incompatible_lock_pairs :: "(lock_type \<times> lock_type) set" where
  "incompatible_lock_pairs =
     {(WRITE_EXCLUSIVE, READ_SHARED), (WRITE_EXCLUSIVE, WRITE_EXCLUSIVE),
      (WRITE_EXCLUSIVE, INTENT_TO_WRITE), (WRITE_EXCLUSIVE, APPROVAL_PENDING),
      (INTENT_TO_WRITE, WRITE_EXCLUSIVE), (APPROVAL_PENDING, WRITE_EXCLUSIVE)}"

subsection \<open>Operations\<close>

text \<open>The loop of \<open>_enforce_compatibility\<close> over the active rows of the key.\<close>

fun check_conflicts :: "resource_lock \<Rightarrow> resource_lock list \<Rightarrow> (lock_error, unit) result" where
  "check_conflicts req [] = Inr ()"
| "check_conflicts req (r # rs) =
     (if owner r = owner req then check_conflicts req rs
      else if (lock_type req, lock_type r) \<in> incompatible_lock_pairs
      then Inl (LockError (lock_key req) (lock_type r) (owner r))
      else check_conflicts req rs)"

definition enforce_compatibility ::
  "resource_lock table \<Rightarrow> resource_lock \<Rightarrow> (lock_error, unit) result" where
  "enforce_compatibility t req =
     (if lock_type req = READ_SHARED then Inr ()
      else check_conflicts req
        (tbl_select (\<lambda>r. lock_key r = lock_key req \<and> status r = LOCK_ACTIVE) t))"

definition lapsed :: "utc \<Rightarrow> resource_lock \<Rightarrow> bool" where
  "lapsed now r \<longleftrightarrow>
     status r = LOCK_ACTIVE \<and> (case expires_at r of None \<Rightarrow> False | Some e \<Rightarrow> e \<le> now)"

text \<open>A row without a readable \<open>acquired_at\<close> is counted with no duration.\<close>

definition lock_durations :: "utc \<Rightarrow> resource_lock list \<Rightarrow> int option list" where
  "lock_durations now rs = map (\<lambda>r. map_option (\<lambda>a. max 0 (now - a)) (acquired_at r)) rs"

definition reap_expired :: "utc \<Rightarrow> lock_db \<Rightarrow> lock_db" where
  "reap_expired now db =
     (let rows = tbl_select (lapsed now) (resource_locks db)
      in if rows = [] then db
         else db\<lparr>resource_locks :=
                  tbl_update (lapsed now) (\<lambda>r. r\<lparr>status := LOCK_EXPIRED\<rparr>) (resource_locks db),
                 lock_events := lock_events db @ lock_durations now rows\<rparr>)"

text \<open>\<open>datetime.max\<close>: the addition raises \<open>OverflowError\<close> beyond it.\<close>

definition datetime_max :: utc where
  "datetime_max = 253402300799999999"

definition lock_expires_at :: "utc \<Rightarrow> int \<Rightarrow> (lock_error, utc option) result" where
  "lock_expires_at now ttl =
     (if ttl \<le> 0 then Inr None
      else if now + ttl * 1000000 > datetime_max then Inl Lock_OverflowError
      else Inr (Some (now + ttl * 1000000)))"

definition row_to_lock :: "string \<Rightarrow> string \<Rightarrow> resource_lock \<Rightarrow> resource_lock" where
  "row_to_lock k own r =
     \<lparr>lock_key = k, lock_type = lock_type r, owner = own, execution_id = execution_id r,
      context_text = context_text r, ttl_seconds = ttl_seconds r, acquired_at = acquired_at r,
      renewed_at = renewed_at r, expires_at = expires_at r, status = status r,
      metadata = metadata r\<rparr>"

definition lock_get :: "lock_db \<Rightarrow> string \<Rightarrow> string \<Rightarrow> resource_lock option" where
  "lock_get db k own =
     map_option (row_to_lock k own) (tbl_get row_key (k, own) (resource_locks db))"

text \<open>The row \<open>INSERT\<close> writes, and what \<open>ON CONFLICT DO UPDATE\<close> makes of a stored row.\<close>

definition inserted_row :: "resource_lock \<Rightarrow> utc \<Rightarrow> utc option \<Rightarrow> resource_lock" where
  "inserted_row req now expires =
     req\<lparr>acquired_at := Some now, renewed_at := Some now, expires_at := expires,
         status := LOCK_ACTIVE\<rparr>"

definition renewed_row :: "resource_lock \<Rightarrow> utc \<Rightarrow> utc option \<Rightarrow> resource_lock \<Rightarrow> resource_lock" where
  "renewed_row req now expires r =
     r\<lparr>lock_type := lock_type req, execution_id := execution_id req,
       context_text := context_text req, ttl_seconds := ttl_seconds req,
       renewed_at := Some now, expires_at := expires, status := LOCK_ACTIVE,
       metadata := metadata req\<rparr>"

definition lock_acquire ::
  "utc \<Rightarrow> utc \<Rightarrow> resource_lock \<Rightarrow> lock_db \<Rightarrow> lock_db \<times> (lock_error, resource_lock option) result" where
  "lock_acquire now_reap now req db =
     (case enforce_compatibility (resource_locks db) req of
        Inl e \<Rightarrow> (db, Inl e)
      | Inr _ \<Rightarrow>
          let db1 = reap_expired now_reap db
          in case lock_expires_at now (ttl_seconds req) of
               Inl e \<Rightarrow> (db1\<lparr>resource_locks := resource_locks db\<rparr>, Inl e)
             | Inr expires \<Rightarrow>
                 let db2 = db1\<lparr>resource_locks :=
                       tbl_upsert row_key (renewed_row req now expires)
                         (inserted_row req now expires) (resource_locks db1)\<rparr>
                 in (db2, Inr (lock_get db2 (lock_key req) (owner req))))"

definition lock_release :: "utc \<Rightarrow> string \<Rightarrow> string \<Rightarrow> lock_db \<Rightarrow> lock_db \<times> resource_lock option" where
  "lock_release now k own db =
     (case tbl_get row_key (k, own) (resource_locks db) of
        None \<Rightarrow> (db, None)
      | Some r \<Rightarrow>
          (db\<lparr>resource_locks := tbl_update (\<lambda>x. row_key x = (k, own))
                (\<lambda>x. x\<lparr>status := LOCK_RELEASED, renewed_at := Some now\<rparr>) (resource_locks db)\<rparr>,
           Some (row_to_lock k own r)))"

definition lock_list_status :: "lock_db \<Rightarrow> string option \<Rightarrow> resource_lock list" where
  "lock_list_status db k =
     (case k of None \<Rightarrow> resource_locks db
      | Some k \<Rightarrow> tbl_select (\<lambda>r. lock_key r = k) (resource_locks db))"

subsection \<open>The registry as a machine\<close>

datatype lock_op = Lock_acquire utc utc resource_lock | Lock_release utc string string

fun lock_step :: "lock_db \<Rightarrow> lock_op \<Rightarrow> lock_db" where
  "lock_step db (Lock_acquire t0 t1 req) = fst (lock_acquire t0 t1 req db)"
| "lock_step db (Lock_release t k own) = fst (lock_release t k own db)"

definition active :: "lock_db \<Rightarrow> resource_lock \<Rightarrow> bool" where
  "active db r \<longleftrightarrow> r \<in> set (resource_locks db) \<and> status r = LOCK_ACTIVE"

text \<open>
  What the registry really guarantees between holders: next to an active exclusive lock, the
  only active locks of other owners on the same key are shared reads.
\<close>

definition lock_inv :: "lock_db \<Rightarrow> bool" where
  "lock_inv db \<longleftrightarrow>
     tbl_ok row_key (resource_locks db) \<and>
     (\<forall>r s. active db r \<longrightarrow> active db s \<longrightarrow> lock_key r = lock_key s \<longrightarrow> owner r \<noteq> owner s \<longrightarrow>
        lock_type r = WRITE_EXCLUSIVE \<longrightarrow> lock_type s = READ_SHARED)"

definition lock_db_empty :: lock_db where
  "lock_db_empty = \<lparr>resource_locks = [], lock_events = []\<rparr>"

lemma row_key_updates [simp]:
  "row_key (r\<lparr>status := s\<rparr>) = row_key r"
  "row_key (r\<lparr>status := s, renewed_at := n\<rparr>) = row_key r"
  "row_key (renewed_row req now e r) = row_key r"
  "row_key (inserted_row req now e) = row_key req"
  by (simp_all add: row_key_def renewed_row_def inserted_row_def)

lemma check_conflicts_Inr:
  "check_conflicts req rs = Inr u \<longleftrightarrow>
     (\<forall>r \<in> set rs. owner r \<noteq> owner req \<longrightarrow> (lock_type req, lock_type r) \<notin> incompatible_lock_pairs)"
  by (induction rs) auto

lemma check_conflicts_Inl:
  "check_conflicts req rs = Inl e \<Longrightarrow>
   \<exists>r \<in> set rs. owner r \<noteq> owner req \<and> (lock_type req, lock_type r) \<in> incompatible_lock_pairs \<and>
      e = LockError (lock_key req) (lock_type r) (owner r)"
  by (induction rs) (auto split: if_splits)

lemma enforce_compatibility_Inr:
  "enforce_compatibility t req = Inr u \<longleftrightarrow>
     lock_type req = READ_SHARED \<or>
     (\<forall>r \<in> set t. lock_key r = lock_key req \<longrightarrow> status r = LOCK_ACTIVE \<longrightarrow>
        owner r \<noteq> owner req \<longrightarrow> (lock_type req, lock_type r) \<notin> incompatible_lock_pairs)"
  by (auto simp: enforce_compatibility_def check_conflicts_Inr tbl_select_def)

lemma incompatible_iff:
  "(a, b) \<in> incompatible_lock_pairs \<longleftrightarrow>
     a = WRITE_EXCLUSIVE \<or> (b = WRITE_EXCLUSIVE \<and> a \<noteq> READ_SHARED)"
  by (cases a; cases b) (simp_all add: incompatible_lock_pairs_def)

lemma set_reap_expired:
  "set (resource_locks (reap_expired now db)) =
     (\<lambda>r. if lapsed now r then r\<lparr>status := LOCK_EXPIRED\<rparr> else r) ` set (resource_locks db)"
proof (cases "tbl_select (lapsed now) (resource_locks db) = []")
  case True
  then have "\<forall>r \<in> set (resource_locks db). \<not> lapsed now r"
    by (simp add: tbl_select_def filter_empty_conv)
  with True show ?thesis by (force simp: reap_expired_def)
next
  case False
  then show ?thesis by (simp add: reap_expired_def Let_def set_tbl_update)
qed

lemma active_reap_expired: "active (reap_expired now db) r \<longleftrightarrow> active db r \<and> \<not> lapsed now r"
  by (auto simp: active_def set_reap_expired split: if_splits)

lemma tbl_ok_reap_expired:
  "tbl_ok row_key (resource_locks db) \<Longrightarrow> tbl_ok row_key (resource_locks (reap_expired now db))"
  by (auto simp: reap_expired_def Let_def intro!: tbl_ok_update)

text \<open>What a granted request leaves in the table.\<close>

lemma lock_acquire_cases:
  obtains (conflict) e where
      "enforce_compatibility (resource_locks db) req = Inl e"
      "lock_acquire t0 t1 req db = (db, Inl e)"
  | (overflow)
      "enforce_compatibility (resource_locks db) req = Inr ()"
      "snd (lock_acquire t0 t1 req db) = Inl Lock_OverflowError"
      "resource_locks (fst (lock_acquire t0 t1 req db)) = resource_locks db"
  | (granted) expires where
      "enforce_compatibility (resource_locks db) req = Inr ()"
      "lock_expires_at t1 (ttl_seconds req) = Inr expires"
      "resource_locks (fst (lock_acquire t0 t1 req db)) =
         tbl_upsert row_key (renewed_row req t1 expires) (inserted_row req t1 expires)
           (resource_locks (reap_expired t0 db))"
      "snd (lock_acquire t0 t1 req db) =
         Inr (lock_get (fst (lock_acquire t0 t1 req db)) (lock_key req) (owner req))"
proof (cases "enforce_compatibility (resource_locks db) req")
  case (Inl e)
  then show thesis by (intro conflict) (simp_all add: lock_acquire_def)
next
  case (Inr u)
  then show thesis
  proof (cases "lock_expires_at t1 (ttl_seconds req)")
    case (Inl e)
    then have "e = Lock_OverflowError" by (auto simp: lock_expires_at_def split: if_splits)
    with Inl Inr show thesis by (intro overflow) (simp_all add: lock_acquire_def)
  next
    case e: (Inr expires)
    with Inr show thesis by (intro granted) (simp_all add: lock_acquire_def Let_def)
  qed
qed

lemma granted_row:
  assumes "x \<in> set (tbl_upsert row_key (renewed_row req t1 e) (inserted_row req t1 e)
      (resource_locks (reap_expired t0 db)))"
    and "row_key x = row_key req"
  shows "lock_type x = lock_type req" "status x = LOCK_ACTIVE" "expires_at x = e"
  using mem_tbl_upsertD [OF assms(1)] assms(2)
  by (auto simp: inserted_row_def renewed_row_def row_key_def)

lemma granted_other_row:
  assumes "x \<in> set (tbl_upsert row_key (renewed_row req t1 e) (inserted_row req t1 e)
      (resource_locks (reap_expired t0 db)))"
    and "row_key x \<noteq> row_key req" "status x = LOCK_ACTIVE"
  shows "active db x \<and> \<not> lapsed t0 x"
  using mem_tbl_upsertD [OF assms(1)] assms(2,3) active_reap_expired [of t0 db x]
  by (auto simp: active_def)

lemma lock_inv_cong:
  "resource_locks db' = resource_locks db \<Longrightarrow> lock_inv db' = lock_inv db"
  by (simp add: lock_inv_def active_def)

lemma lock_inv_granted:
  assumes inv: "lock_inv db"
    and ok: "enforce_compatibility (resource_locks db) req = Inr ()"
    and t: "resource_locks db' = tbl_upsert row_key (renewed_row req t1 e) (inserted_row req t1 e)
      (resource_locks (reap_expired t0 db))" (is "_ = ?t")
  shows "lock_inv db'"
  unfolding lock_inv_def
proof (intro conjI allI impI)
  show "tbl_ok row_key (resource_locks db')"
    unfolding t using inv by (intro tbl_ok_upsert tbl_ok_reap_expired) (simp_all add: lock_inv_def)
next
  fix r s
  assume r: "active db' r" and s: "active db' s" and k: "lock_key r = lock_key s"
    and o: "owner r \<noteq> owner s" and w: "lock_type r = WRITE_EXCLUSIVE"
  have mem: "r \<in> set ?t" "s \<in> set ?t" "status r = LOCK_ACTIVE" "status s = LOCK_ACTIVE"
    using r s t by (auto simp: active_def)
  consider "row_key r = row_key req" "row_key s \<noteq> row_key req"
    | "row_key s = row_key req" "row_key r \<noteq> row_key req"
    | "row_key r \<noteq> row_key req" "row_key s \<noteq> row_key req"
    using o by (metis row_key_def prod.inject)
  then show "lock_type s = READ_SHARED"
  proof cases
    case 1
    have "active db s" using granted_other_row [OF mem(2) 1(2) mem(4)] by simp
    moreover have "lock_type req = WRITE_EXCLUSIVE" using granted_row(1) [OF mem(1) 1(1)] w by simp
    ultimately show ?thesis using ok k o 1(1)
      by (auto simp: enforce_compatibility_Inr incompatible_iff active_def row_key_def)
  next
    case 2
    have "active db r" using granted_other_row [OF mem(1) 2(2) mem(3)] by simp
    moreover have "lock_type req = lock_type s" using granted_row(1) [OF mem(2) 2(1)] by simp
    ultimately show ?thesis using ok k o w 2(1)
      by (auto simp: enforce_compatibility_Inr incompatible_iff active_def row_key_def)
  next
    case 3
    have "active db r" "active db s"
      using granted_other_row [OF mem(1) 3(1) mem(3)] granted_other_row [OF mem(2) 3(2) mem(4)]
      by simp_all
    with inv k o w show ?thesis by (auto simp: lock_inv_def)
  qed
qed

lemma lock_inv_acquire: "lock_inv db \<Longrightarrow> lock_inv (fst (lock_acquire t0 t1 req db))"
  by (cases rule: lock_acquire_cases [of db req t0 t1])
     (simp, metis lock_inv_cong, metis lock_inv_granted)

lemma active_release: "active (fst (lock_release t k own db)) r \<Longrightarrow> active db r"
  by (auto simp: lock_release_def active_def set_tbl_update split: option.splits if_splits)

lemma lock_inv_release: "lock_inv db \<Longrightarrow> lock_inv (fst (lock_release t k own db))"
  unfolding lock_inv_def
  by (auto dest!: active_release)
     (auto simp: lock_release_def intro!: tbl_ok_update split: option.splits)

interpretation lkm: op_machine lock_step lock_inv
proof
  show "lock_inv (lock_step db x)" if "lock_inv db" for db x
    using that by (cases x) (simp_all add: lock_inv_acquire lock_inv_release)
qed

subsection \<open>Properties\<close>

lemma lock_inv_empty [simp]: "lock_inv lock_db_empty"
  by (simp add: lock_inv_def lock_db_empty_def active_def)

text \<open>
  C27. Mutual exclusion of writers: in every state the registry reaches, an active
  \<open>WRITE_EXCLUSIVE\<close> lock excludes every active write, intent or approval lock of another owner
  on the same key; only shared reads can stand beside it.
\<close>

theorem lock_exclusive_run:
  assumes "db = run_ops lock_step lock_db_empty ops"
    and "active db r" "active db s" "lock_key r = lock_key s" "owner r \<noteq> owner s"
    and "lock_type r = WRITE_EXCLUSIVE"
  shows "lock_type s = READ_SHARED"
proof -
  have "lock_inv db" unfolding assms(1) by (rule lkm.run_inv) simp
  with assms show ?thesis by (auto simp: lock_inv_def)
qed

definition sample_lock :: "string \<Rightarrow> lock_type \<Rightarrow> int \<Rightarrow> resource_lock" where
  "sample_lock own ty ttl =
     \<lparr>lock_key = ''repo'', lock_type = ty, owner = own, execution_id = None, context_text = None,
      ttl_seconds = ttl, acquired_at = None, renewed_at = None, expires_at = None,
      status = LOCK_ACTIVE, metadata = ''{}''\<rparr>"

lemmas lock_eval =
  sample_lock_def lock_db_empty_def lock_acquire_def enforce_compatibility_def tbl_select_def
  reap_expired_def lock_expires_at_def datetime_max_def tbl_upsert_def inserted_row_def
  renewed_row_def row_key_def incompatible_lock_pairs_def lapsed_def active_def Let_def

theorem lock_exclusive_run_witness:
  "\<exists>db r s. db = run_ops lock_step lock_db_empty
       [Lock_acquire 0 0 (sample_lock ''a'' WRITE_EXCLUSIVE 60),
        Lock_acquire 1 1 (sample_lock ''b'' READ_SHARED 60)] \<and>
     active db r \<and> active db s \<and> lock_type r = WRITE_EXCLUSIVE \<and> owner s = ''b'' \<and>
     lock_type s = READ_SHARED"
proof -
  let ?db = "run_ops lock_step lock_db_empty
       [Lock_acquire 0 0 (sample_lock ''a'' WRITE_EXCLUSIVE 60),
        Lock_acquire 1 1 (sample_lock ''b'' READ_SHARED 60)]"
  let ?r = "(sample_lock ''a'' WRITE_EXCLUSIVE 60)\<lparr>acquired_at := Some 0, renewed_at := Some 0,
      expires_at := Some 60000000\<rparr>"
  let ?s = "(sample_lock ''b'' READ_SHARED 60)\<lparr>acquired_at := Some 1, renewed_at := Some 1,
      expires_at := Some 60000001\<rparr>"
  have r: "active ?db ?r" and s: "active ?db ?s" by (simp_all add: lock_eval)
  have f: "lock_key ?r = lock_key ?s" "owner ?r \<noteq> owner ?s" "lock_type ?r = WRITE_EXCLUSIVE"
    "owner ?s = ''b''" by (simp_all add: sample_lock_def)
  have "lock_type ?s = READ_SHARED" by (rule lock_exclusive_run [OF refl r s f(1-3)])
  with r s f show ?thesis by blast
qed

lemma granted_lock:
  assumes "lock_inv db" "snd (lock_acquire t0 t1 req db) = Inr res"
  shows "\<exists>r. res = Some r \<and> active (fst (lock_acquire t0 t1 req db)) r \<and>
      lock_key r = lock_key req \<and> owner r = owner req \<and> lock_type r = lock_type req \<and>
      expires_at r = (if ttl_seconds req \<le> 0 then None else Some (t1 + ttl_seconds req * 1000000)) \<and>
      (lock_type req = WRITE_EXCLUSIVE \<longrightarrow>
        (\<forall>s. active (fst (lock_acquire t0 t1 req db)) s \<longrightarrow> lock_key s = lock_key req \<longrightarrow>
          owner s = owner req))"
proof (cases rule: lock_acquire_cases [of db req t0 t1])
  case (conflict e)
  with assms(2) show ?thesis by simp
next
  case overflow
  with assms(2) show ?thesis by simp
next
  case (granted expires)
  let ?db = "fst (lock_acquire t0 t1 req db)"
  have "tbl_get row_key (row_key req) (resource_locks ?db) \<noteq> None"
    unfolding granted(3) by (simp add: tbl_get_upsert)
  then obtain r where get: "tbl_get row_key (row_key req) (resource_locks ?db) = Some r" by blast
  then have r: "r \<in> set (resource_locks ?db)" "row_key r = row_key req"
    by (auto dest: tbl_get_SomeD)
  note row = granted_row [OF r(1) [unfolded granted(3)] r(2)]
  have res: "res = Some r"
    using assms(2) granted(4) get r(2) by (auto simp: lock_get_def row_key_def row_to_lock_def)
  have "expires = (if ttl_seconds req \<le> 0 then None else Some (t1 + ttl_seconds req * 1000000))"
    using granted(2) by (auto simp: lock_expires_at_def split: if_splits)
  moreover have "owner s = owner req"
    if "lock_type req = WRITE_EXCLUSIVE" "active ?db s" "lock_key s = lock_key req" for s
  proof (rule ccontr)
    assume o: "owner s \<noteq> owner req"
    then have "row_key s \<noteq> row_key req" by (simp add: row_key_def)
    with that(2) granted(3) have "active db s"
      using granted_other_row [of s req t1 expires t0 db] by (simp add: active_def)
    with granted(1) that o show False
      by (auto simp: enforce_compatibility_Inr incompatible_iff active_def)
  qed
  ultimately show ?thesis using res r row by (auto simp: active_def row_key_def)
qed

text \<open>
  What a granted request gives: the caller's row is active with the requested type, the
  time to live counted from the second clock reading and no expiry for a non-positive one; a
  granted \<open>WRITE_EXCLUSIVE\<close> request leaves no active lock of any other owner on its key.
\<close>

theorem lock_acquire_granted:
  assumes "lock_inv db" "snd (lock_acquire t0 t1 req db) = Inr res"
  shows "\<exists>r. res = Some r \<and> active (fst (lock_acquire t0 t1 req db)) r \<and>
      lock_key r = lock_key req \<and> owner r = owner req \<and> lock_type r = lock_type req \<and>
      expires_at r = (if ttl_seconds req \<le> 0 then None else Some (t1 + ttl_seconds req * 1000000)) \<and>
      (lock_type req = WRITE_EXCLUSIVE \<longrightarrow>
        (\<forall>s. active (fst (lock_acquire t0 t1 req db)) s \<longrightarrow> lock_key s = lock_key req \<longrightarrow>
          owner s = owner req))"
  using assms by (rule granted_lock)

theorem lock_acquire_granted_witness:
  "\<exists>r. active (fst (lock_acquire 5 6 (sample_lock ''a'' WRITE_EXCLUSIVE 60) lock_db_empty)) r \<and>
      owner r = ''a'' \<and> expires_at r = Some 60000006"
proof -
  have g: "snd (lock_acquire 5 6 (sample_lock ''a'' WRITE_EXCLUSIVE 60) lock_db_empty) =
      Inr (lock_get (fst (lock_acquire 5 6 (sample_lock ''a'' WRITE_EXCLUSIVE 60) lock_db_empty))
        ''repo'' ''a'')"
    by (simp add: lock_eval)
  from lock_acquire_granted [OF lock_inv_empty g] show ?thesis
    by (auto simp: sample_lock_def)
qed

text \<open>
  A refused request changes nothing, and names a real conflict: an active lock of another
  owner on the same key whose type is declared incompatible with the requested one.
\<close>

theorem lock_conflict_reported:
  assumes "snd (lock_acquire t0 t1 req db) = Inl (LockError k ty own)"
  shows "fst (lock_acquire t0 t1 req db) = db \<and> k = lock_key req \<and>
    (\<exists>r. active db r \<and> lock_key r = k \<and> owner r = own \<and> own \<noteq> owner req \<and> lock_type r = ty \<and>
       (lock_type req, ty) \<in> incompatible_lock_pairs)"
proof (cases rule: lock_acquire_cases [of db req t0 t1])
  case (conflict e)
  with assms have "check_conflicts req
      (tbl_select (\<lambda>r. lock_key r = lock_key req \<and> status r = LOCK_ACTIVE) (resource_locks db)) =
      Inl (LockError k ty own)"
    by (auto simp: enforce_compatibility_def split: if_splits)
  from check_conflicts_Inl [OF this] conflict show ?thesis
    by (auto simp: tbl_select_def active_def)
next
  case overflow
  with assms show ?thesis by simp
next
  case (granted expires)
  with assms show ?thesis by simp
qed

theorem lock_conflict_reported_witness:
  "let db = fst (lock_acquire 0 0 (sample_lock ''a'' WRITE_EXCLUSIVE 60) lock_db_empty);
       req = sample_lock ''b'' INTENT_TO_WRITE 60
   in fst (lock_acquire 1 1 req db) = db \<and>
      (\<exists>r. active db r \<and> owner r = ''a'' \<and> (lock_type req, lock_type r) \<in> incompatible_lock_pairs)"
proof -
  let ?db = "fst (lock_acquire 0 0 (sample_lock ''a'' WRITE_EXCLUSIVE 60) lock_db_empty)"
  have "snd (lock_acquire 1 1 (sample_lock ''b'' INTENT_TO_WRITE 60) ?db) =
      Inl (LockError ''repo'' WRITE_EXCLUSIVE ''a'')"
    by (simp add: lock_eval)
  from lock_conflict_reported [OF this] show ?thesis by (auto simp: Let_def)
qed

text \<open>
  A shared read is never refused: it is granted even while another owner holds an active,
  unexpired \<open>WRITE_EXCLUSIVE\<close> lock on the key, although that pair is declared incompatible in
  the other order of arrival.
\<close>

theorem lock_read_ignores_exclusive:
  assumes "lock_inv db" "active db w" "lock_type w = WRITE_EXCLUSIVE" "\<not> lapsed t0 w"
    and "lock_type req = READ_SHARED" "lock_key req = lock_key w" "owner req \<noteq> owner w"
    and "ttl_seconds req \<le> 0"
  shows "\<exists>r. snd (lock_acquire t0 t1 req db) = Inr (Some r) \<and>
    active (fst (lock_acquire t0 t1 req db)) r \<and> lock_type r = READ_SHARED \<and>
    active (fst (lock_acquire t0 t1 req db)) w"
proof -
  have ok: "enforce_compatibility (resource_locks db) req = Inr ()"
    using assms(5) by (simp add: enforce_compatibility_def)
  have "lock_expires_at t1 (ttl_seconds req) = Inr None"
    using assms(8) by (simp add: lock_expires_at_def)
  then obtain res where res: "snd (lock_acquire t0 t1 req db) = Inr res"
    and t: "resource_locks (fst (lock_acquire t0 t1 req db)) =
         tbl_upsert row_key (renewed_row req t1 None) (inserted_row req t1 None)
           (resource_locks (reap_expired t0 db))"
    using ok by (simp add: lock_acquire_def Let_def)
  have "active (reap_expired t0 db) w" using assms(2,4) by (simp add: active_reap_expired)
  then have "active (fst (lock_acquire t0 t1 req db)) w"
    unfolding active_def t using assms(7)
    by (auto intro!: mem_tbl_upsertI simp: row_key_def inserted_row_def)
  with granted_lock [OF assms(1) res] res assms(5) show ?thesis by auto
qed

theorem lock_read_ignores_exclusive_witness:
  "let db = fst (lock_acquire 0 0 (sample_lock ''a'' WRITE_EXCLUSIVE 60) lock_db_empty)
   in \<exists>r. snd (lock_acquire 1 1 (sample_lock ''b'' READ_SHARED 0) db) = Inr (Some r) \<and>
        lock_type r = READ_SHARED"
proof -
  let ?db = "fst (lock_acquire 0 0 (sample_lock ''a'' WRITE_EXCLUSIVE 60) lock_db_empty)"
  let ?w = "(sample_lock ''a'' WRITE_EXCLUSIVE 60)\<lparr>acquired_at := Some 0, renewed_at := Some 0,
      expires_at := Some 60000000\<rparr>"
  have inv: "lock_inv ?db" by (rule lock_inv_acquire) simp
  have w: "active ?db ?w" "\<not> lapsed 1 ?w" by (simp_all add: lock_eval)
  show ?thesis unfolding Let_def
    using lock_read_ignores_exclusive [OF inv w(1) _ w(2), of "sample_lock ''b'' READ_SHARED 0" 1]
    by (auto simp: sample_lock_def)
qed

text \<open>
  The time to live does not free an exclusive lock: compatibility is checked before expired
  rows are reaped, so every later non-read request of another owner for the key is refused
  however long ago the lock expired, and none of them reaps it.
\<close>

theorem lock_expired_still_blocks:
  assumes "active db r" "lock_type r = WRITE_EXCLUSIVE" "expires_at r = Some e"
    and "\<forall>(t0, t1, req) \<in> set reqs. e \<le> t0 \<and> lock_key req = lock_key r \<and> owner req \<noteq> owner r \<and>
      lock_type req \<noteq> READ_SHARED"
  shows "run_ops lock_step db (map (\<lambda>(t0, t1, req). Lock_acquire t0 t1 req) reqs) = db \<and>
    (\<forall>(t0, t1, req) \<in> set reqs. \<exists>err. snd (lock_acquire t0 t1 req db) = Inl err)"
  using assms(4)
proof (induction reqs)
  case Nil
  then show ?case by simp
next
  case (Cons x reqs)
  obtain t0 t1 req where x: "x = (t0, t1, req)" by (cases x) auto
  with Cons.prems have q: "lock_key req = lock_key r" "owner req \<noteq> owner r" "lock_type req \<noteq> READ_SHARED"
    by auto
  have "enforce_compatibility (resource_locks db) req \<noteq> Inr ()"
    using assms(1,2) q by (auto simp: enforce_compatibility_Inr incompatible_iff active_def)
  then obtain err where "enforce_compatibility (resource_locks db) req = Inl err"
    by (cases "enforce_compatibility (resource_locks db) req") auto
  then have "lock_acquire t0 t1 req db = (db, Inl err)" by (simp add: lock_acquire_def)
  with Cons x show ?case by auto
qed

theorem lock_expired_still_blocks_witness:
  "let db = fst (lock_acquire 0 0 (sample_lock ''a'' WRITE_EXCLUSIVE 1) lock_db_empty)
   in run_ops lock_step db [Lock_acquire 9000000 9000000 (sample_lock ''b'' WRITE_EXCLUSIVE 1)] = db"
proof -
  let ?db = "fst (lock_acquire 0 0 (sample_lock ''a'' WRITE_EXCLUSIVE 1) lock_db_empty)"
  let ?r = "(sample_lock ''a'' WRITE_EXCLUSIVE 1)\<lparr>acquired_at := Some 0, renewed_at := Some 0,
      expires_at := Some 1000000\<rparr>"
  have r: "active ?db ?r" by (simp add: lock_eval)
  show ?thesis
    using lock_expired_still_blocks
      [OF r, of 1000000 "[(9000000, 9000000, sample_lock ''b'' WRITE_EXCLUSIVE 1)]"]
    by (simp add: sample_lock_def Let_def)
qed

text \<open>
  Release frees the key: after the holder releases, its row is no longer active, and a new
  exclusive request of another owner is granted provided nobody else holds an active lock there.
\<close>

theorem lock_release_frees:
  assumes "tbl_get row_key (k, own) (resource_locks db) = Some r"
    and "\<forall>s. active db s \<longrightarrow> lock_key s = k \<longrightarrow> owner s = own"
    and "lock_key req = k" "ttl_seconds req \<le> 0"
  shows "\<not> (\<exists>s. active (fst (lock_release t k own db)) s \<and> lock_key s = k) \<and>
    (\<exists>res. snd (lock_acquire t0 t1 req (fst (lock_release t k own db))) = Inr res)"
proof -
  let ?db = "fst (lock_release t k own db)"
  have none: "\<not> (\<exists>s. active ?db s \<and> lock_key s = k)"
  proof
    assume "\<exists>s. active ?db s \<and> lock_key s = k"
    then obtain s where s: "active ?db s" "lock_key s = k" by blast
    with assms(2) have "row_key s = (k, own)" by (auto dest: active_release simp: row_key_def)
    moreover have "resource_locks ?db = tbl_update (\<lambda>x. row_key x = (k, own))
        (\<lambda>x. x\<lparr>status := LOCK_RELEASED, renewed_at := Some t\<rparr>) (resource_locks db)"
      using assms(1) by (simp add: lock_release_def)
    ultimately show False
      using s(1) unfolding active_def by (auto simp: set_tbl_update split: if_splits)
  qed
  then have "enforce_compatibility (resource_locks ?db) req = Inr ()"
    using assms(3) by (auto simp: enforce_compatibility_Inr active_def)
  with none assms(4) show ?thesis by (simp add: lock_acquire_def lock_expires_at_def Let_def)
qed

theorem lock_release_frees_witness:
  "let db = fst (lock_acquire 0 0 (sample_lock ''a'' WRITE_EXCLUSIVE 0) lock_db_empty)
   in \<exists>res. snd (lock_acquire 2 2 (sample_lock ''b'' WRITE_EXCLUSIVE 0)
        (fst (lock_release 1 ''repo'' ''a'' db))) = Inr res"
proof -
  let ?db = "fst (lock_acquire 0 0 (sample_lock ''a'' WRITE_EXCLUSIVE 0) lock_db_empty)"
  let ?r = "(sample_lock ''a'' WRITE_EXCLUSIVE 0)\<lparr>acquired_at := Some 0, renewed_at := Some 0\<rparr>"
  have db: "resource_locks ?db = [?r]" by (simp add: lock_eval)
  have g: "tbl_get row_key (''repo'', ''a'') (resource_locks ?db) = Some ?r"
    unfolding db by (simp add: row_key_def sample_lock_def)
  have o: "\<forall>s. active ?db s \<longrightarrow> lock_key s = ''repo'' \<longrightarrow> owner s = ''a''"
    unfolding active_def db by (simp add: sample_lock_def)
  show ?thesis unfolding Let_def
    using lock_release_frees [OF g o, of "sample_lock ''b'' WRITE_EXCLUSIVE 0" 1 2 2]
    by (simp add: sample_lock_def)
qed

end
