(* ===== verification/Run_Registry.thy ===== *)
theory Run_Registry
  imports Prelude
begin

section \<open>Run registry (registry.py)\<close>

text \<open>
  \<open>RunRegistry\<close>: the durable map from a client's request id to the Hermes run it started.
  \<open>record\<close> and \<open>update_status\<close> run in a \<open>BEGIN IMMEDIATE\<close> transaction under the key's mutex;
  each reads the clock once. The fingerprint of a request is compared, never recomputed, here.
\<close>

subsection \<open>State\<close>

record run_row =
  client_request_id :: string
  fingerprint :: string
  run_execution_id :: string
  session_id :: "string option"
  last_status :: string
  created_at :: utc
  updated_at :: utc

datatype registry_error =
  ClientRequestId_length | ClientRequestId_characters | FingerprintConflictError

type_synonym run_db = "run_row table"

subsection \<open>Operations\<close>

definition validate_client_request_id :: "string \<Rightarrow> (registry_error, unit) result" where
  "validate_client_request_id k =
     (if \<not> (1 \<le> length k \<and> length k \<le> 160) then Inl ClientRequestId_length
      else if \<not> re_match_ident ''._:-'' 159 k then Inl ClientRequestId_characters
      else Inr ())"

definition run_get :: "run_db \<Rightarrow> string \<Rightarrow> (registry_error, run_row option) result" where
  "run_get db k =
     (case validate_client_request_id k of
        Inl e \<Rightarrow> Inl e
      | Inr _ \<Rightarrow> Inr (tbl_get client_request_id k db))"

definition run_record ::
  "utc \<Rightarrow> string \<Rightarrow> string \<Rightarrow> string \<Rightarrow> string option \<Rightarrow> string \<Rightarrow> run_db
    \<Rightarrow> run_db \<times> (registry_error, run_row option) result" where
  "run_record now k fp exec sess st db =
     (case validate_client_request_id k of
        Inl e \<Rightarrow> (db, Inl e)
      | Inr _ \<Rightarrow>
          (case tbl_get client_request_id k db of
             Some r \<Rightarrow>
               if fingerprint r \<noteq> fp then (db, Inl FingerprintConflictError)
               else let db' = tbl_update (\<lambda>r. client_request_id r = k) (\<lambda>r. r\<lparr>updated_at := now\<rparr>) db
                    in (db', run_get db' k)
           | None \<Rightarrow>
               let db' = db @ [\<lparr>client_request_id = k, fingerprint = fp, run_execution_id = exec,
                     session_id = sess, last_status = st, created_at = now, updated_at = now\<rparr>]
               in (db', run_get db' k)))"

definition run_update_status ::
  "utc \<Rightarrow> string \<Rightarrow> string \<Rightarrow> string option \<Rightarrow> run_db
    \<Rightarrow> run_db \<times> (registry_error, run_row option) result" where
  "run_update_status now k st exec db =
     (case validate_client_request_id k of
        Inl e \<Rightarrow> (db, Inl e)
      | Inr _ \<Rightarrow>
          (case tbl_get client_request_id k db of
             None \<Rightarrow> (db, Inr None)
           | Some _ \<Rightarrow>
               let db' = tbl_update (\<lambda>r. client_request_id r = k)
                     (\<lambda>r. case exec of
                        None \<Rightarrow> r\<lparr>last_status := st, updated_at := now\<rparr>
                      | Some x \<Rightarrow> r\<lparr>last_status := st, run_execution_id := x, updated_at := now\<rparr>) db
               in (db', run_get db' k)))"

text \<open>
  \<open>list_recent\<close>: \<open>ORDER BY updated_at DESC LIMIT\<close>, the limit clamped to 1..100. The columns it
  selects leave the fingerprint out.
\<close>

record recent_run =
  rr_client_request_id :: string
  rr_execution_id :: string
  rr_session_id :: "string option"
  rr_last_status :: string
  rr_created_at :: utc
  rr_updated_at :: utc

definition recent_of :: "run_row \<Rightarrow> recent_run" where
  "recent_of r = \<lparr>rr_client_request_id = client_request_id r, rr_execution_id = run_execution_id r,
     rr_session_id = session_id r, rr_last_status = last_status r, rr_created_at = created_at r,
     rr_updated_at = updated_at r\<rparr>"

definition run_list_recent :: "int \<Rightarrow> string option \<Rightarrow> run_db \<Rightarrow> recent_run list" where
  "run_list_recent limit st db =
     (let limit = max 1 (min 100 limit);
          rows = tbl_select (\<lambda>r. case st of None \<Rightarrow> True | Some s \<Rightarrow> last_status r = s) db
      in map recent_of (take (nat limit) (sort_key (\<lambda>r. - updated_at r) rows)))"

subsection \<open>The registry as a machine\<close>

datatype run_op =
  Run_record utc string string string "string option" string
| Run_update utc string string "string option"

fun run_step :: "run_db \<Rightarrow> run_op \<Rightarrow> run_db" where
  "run_step db (Run_record t k fp x s st) = fst (run_record t k fp x s st db)"
| "run_step db (Run_update t k st x) = fst (run_update_status t k st x db)"

definition run_inv :: "run_db \<Rightarrow> bool" where
  "run_inv db \<longleftrightarrow> tbl_ok client_request_id db \<and>
     (\<forall>r \<in> set db. validate_client_request_id (client_request_id r) = Inr ())"

lemma run_update_key [simp]:
  "client_request_id (case exec of None \<Rightarrow> r\<lparr>last_status := st, updated_at := now\<rparr>
     | Some x \<Rightarrow> r\<lparr>last_status := st, run_execution_id := x, updated_at := now\<rparr>) = client_request_id r"
  "fingerprint (case exec of None \<Rightarrow> r\<lparr>last_status := st, updated_at := now\<rparr>
     | Some x \<Rightarrow> r\<lparr>last_status := st, run_execution_id := x, updated_at := now\<rparr>) = fingerprint r"
  "session_id (case exec of None \<Rightarrow> r\<lparr>last_status := st, updated_at := now\<rparr>
     | Some x \<Rightarrow> r\<lparr>last_status := st, run_execution_id := x, updated_at := now\<rparr>) = session_id r"
  "created_at (case exec of None \<Rightarrow> r\<lparr>last_status := st, updated_at := now\<rparr>
     | Some x \<Rightarrow> r\<lparr>last_status := st, run_execution_id := x, updated_at := now\<rparr>) = created_at r"
  by (auto split: option.splits)

lemma run_inv_update:
  assumes "run_inv db" "\<And>r. client_request_id (f r) = client_request_id r"
  shows "run_inv (tbl_update p f db)"
  using assms by (auto simp: run_inv_def set_tbl_update intro!: tbl_ok_update)

lemma run_inv_record: "run_inv db \<Longrightarrow> run_inv (fst (run_record t k fp x s st db))"
  by (auto simp: run_record_def Let_def run_inv_update split: sum.splits option.splits)
     (auto simp: run_inv_def tbl_ok_def tbl_get_None_iff)

lemma run_inv_update_status: "run_inv db \<Longrightarrow> run_inv (fst (run_update_status t k st x db))"
  by (auto simp: run_update_status_def Let_def run_inv_update split: sum.splits option.splits)

interpretation rrm: op_machine run_step run_inv
proof
  show "run_inv (run_step db x)" if "run_inv db" for db x
    using that by (cases x) (simp_all add: run_inv_record run_inv_update_status)
qed

text \<open>What each operation does to the row of any key.\<close>

lemma run_get_record:
  "tbl_get client_request_id j (fst (run_record t k fp x s st db)) =
    (if j = k \<and> validate_client_request_id k = Inr ()
     then (case tbl_get client_request_id k db of
             None \<Rightarrow> Some \<lparr>client_request_id = k, fingerprint = fp, run_execution_id = x,
                session_id = s, last_status = st, created_at = t, updated_at = t\<rparr>
           | Some r \<Rightarrow> Some (if fingerprint r = fp then r\<lparr>updated_at := t\<rparr> else r))
     else tbl_get client_request_id j db)"
  by (cases "validate_client_request_id k"; cases "tbl_get client_request_id k db")
     (auto simp: run_record_def Let_def tbl_get_snoc_fresh tbl_get_update_key)

lemma run_get_update_status:
  "tbl_get client_request_id j (fst (run_update_status t k st x db)) =
    (if j = k \<and> validate_client_request_id k = Inr ()
     then map_option (\<lambda>r. case x of None \<Rightarrow> r\<lparr>last_status := st, updated_at := t\<rparr>
        | Some y \<Rightarrow> r\<lparr>last_status := st, run_execution_id := y, updated_at := t\<rparr>)
       (tbl_get client_request_id k db)
     else tbl_get client_request_id j db)"
  by (cases "validate_client_request_id k"; cases "tbl_get client_request_id k db")
     (auto simp: run_update_status_def Let_def tbl_get_update_key)

subsection \<open>Properties\<close>

lemma run_get_valid: "validate_client_request_id k = Inr () \<Longrightarrow> run_get db k = Inr (tbl_get client_request_id k db)"
  by (simp add: run_get_def)

text \<open>
  Idempotent reuse: for a key that is already recorded, \<open>record\<close> with the stored fingerprint
  returns the stored run (the caller's execution id, session and status are ignored, only
  \<open>updated_at\<close> moves), and with any other fingerprint it raises \<open>FingerprintConflictError\<close> and
  changes nothing. The rows of all other keys are untouched either way.
\<close>

theorem run_record_reuse:
  assumes "validate_client_request_id k = Inr ()" "tbl_get client_request_id k db = Some r"
  shows "snd (run_record t k fp x s st db) =
      (if fp = fingerprint r then Inr (Some (r\<lparr>updated_at := t\<rparr>)) else Inl FingerprintConflictError) \<and>
    (fp \<noteq> fingerprint r \<longrightarrow> fst (run_record t k fp x s st db) = db) \<and>
    (\<forall>j. j \<noteq> k \<longrightarrow> tbl_get client_request_id j (fst (run_record t k fp x s st db)) =
       tbl_get client_request_id j db)"
proof (intro conjI impI allI)
  show "tbl_get client_request_id j (fst (run_record t k fp x s st db)) = tbl_get client_request_id j db"
    if "j \<noteq> k" for j
    using that by (simp add: run_get_record)
qed (use assms in \<open>simp_all add: run_record_def Let_def run_get_valid tbl_get_update_key\<close>)

definition sample_run :: run_row where
  "sample_run = \<lparr>client_request_id = ''req-1'', fingerprint = ''f'', run_execution_id = ''run-1'',
     session_id = None, last_status = ''queued'', created_at = 5, updated_at = 5\<rparr>"

lemma sample_run_id: "validate_client_request_id ''req-1'' = Inr ()"
  by (simp add: validate_client_request_id_def re_match_ident_def ascii_alnum_def ascii_lower_def)

theorem run_record_reuse_witness:
  "snd (run_record 9 ''req-1'' ''f'' ''run-2'' None ''queued'' [sample_run]) =
     Inr (Some (sample_run\<lparr>updated_at := 9\<rparr>)) \<and>
   snd (run_record 9 ''req-1'' ''g'' ''run-2'' None ''queued'' [sample_run]) =
     Inl FingerprintConflictError"
proof -
  have "tbl_get client_request_id ''req-1'' [sample_run] = Some sample_run"
    by (simp add: sample_run_def)
  from run_record_reuse [OF sample_run_id this, of 9 "''f''" "''run-2''" None "''queued''"]
    run_record_reuse [OF sample_run_id this, of 9 "''g''" "''run-2''" None "''queued''"]
  show ?thesis by (simp add: sample_run_def)
qed

text \<open>
  Round trip: the first \<open>record\<close> of a valid key returns, and \<open>get\<close> then finds, exactly the
  run that was recorded, created and updated at the same instant.
\<close>

theorem run_record_first:
  assumes "validate_client_request_id k = Inr ()" "tbl_get client_request_id k db = None"
  shows "let r = \<lparr>client_request_id = k, fingerprint = fp, run_execution_id = x, session_id = s,
               last_status = st, created_at = t, updated_at = t\<rparr>
         in snd (run_record t k fp x s st db) = Inr (Some r) \<and>
            run_get (fst (run_record t k fp x s st db)) k = Inr (Some r)"
  using assms by (simp add: run_record_def Let_def run_get_valid tbl_get_snoc_fresh)

theorem run_record_first_witness:
  "run_get (fst (run_record 5 ''req-1'' ''f'' ''run-1'' None ''queued'' [])) ''req-1'' =
     Inr (Some sample_run)"
  using run_record_first [OF sample_run_id, of "[]" "''f''" "''run-1''" None "''queued''" 5]
  by (simp add: sample_run_def Let_def)

fun rebinds :: "string \<Rightarrow> run_op \<Rightarrow> bool" where
  "rebinds k (Run_record t j fp x s st) = False"
| "rebinds k (Run_update t j st x) = (j = k \<and> x \<noteq> None)"

lemma run_step_binding:
  assumes "tbl_get client_request_id k db = Some r"
  shows "\<exists>r'. tbl_get client_request_id k (run_step db p) = Some r' \<and>
    fingerprint r' = fingerprint r \<and> session_id r' = session_id r \<and> created_at r' = created_at r \<and>
    (\<not> rebinds k p \<longrightarrow> run_execution_id r' = run_execution_id r)"
proof (cases p)
  case (Run_record t j fp x s st)
  with assms show ?thesis by (auto simp: run_get_record)
next
  case (Run_update t j st x)
  with assms show ?thesis by (cases x) (auto simp: run_get_update_status)
qed

text \<open>
  A binding is permanent: once a key has a row, no sequence of \<open>record\<close> and
  \<open>update_status\<close> calls, on this or other keys, removes it or changes its fingerprint, session or
  creation time; its execution id changes only by an \<open>update_status\<close> that names a new one.
\<close>

theorem run_binding_stable:
  assumes "tbl_get client_request_id k db = Some r"
  shows "\<exists>r'. tbl_get client_request_id k (run_ops run_step db ops) = Some r' \<and>
    fingerprint r' = fingerprint r \<and> session_id r' = session_id r \<and> created_at r' = created_at r \<and>
    ((\<forall>p \<in> set ops. \<not> rebinds k p) \<longrightarrow> run_execution_id r' = run_execution_id r)"
  using assms
proof (induction ops arbitrary: db r)
  case Nil
  then show ?case by simp
next
  case (Cons p ops)
  obtain r1 where r1: "tbl_get client_request_id k (run_step db p) = Some r1"
    "fingerprint r1 = fingerprint r" "session_id r1 = session_id r" "created_at r1 = created_at r"
    "\<not> rebinds k p \<longrightarrow> run_execution_id r1 = run_execution_id r"
    using run_step_binding [OF Cons.prems, of p] by blast
  from Cons.IH [OF r1(1)] r1 show ?case by auto
qed

theorem run_binding_stable_witness:
  "\<exists>r'. tbl_get client_request_id ''req-1'' (run_ops run_step [sample_run]
       [Run_record 6 ''req-1'' ''g'' ''run-2'' None ''queued'', Run_update 7 ''req-1'' ''done'' None]) =
     Some r' \<and> fingerprint r' = ''f'' \<and> run_execution_id r' = ''run-1''"
  using run_binding_stable [of "''req-1''" "[sample_run]" sample_run
      "[Run_record 6 ''req-1'' ''g'' ''run-2'' None ''queued'', Run_update 7 ''req-1'' ''done'' None]"]
  by (auto simp: sample_run_def)

lemma take_sort_key_split:
  "set xs = set (take n (sort_key f xs)) \<union> set (drop n (sort_key f xs))"
  by (metis append_take_drop_id set_append set_sort)

lemma sorted_take_drop:
  assumes "sorted (map f ys)" "y \<in> set (take n ys)" "z \<in> set (drop n ys)"
  shows "f y \<le> f z"
proof -
  have "sorted (map f (take n ys) @ map f (drop n ys))"
    using assms(1) by (simp flip: map_append)
  with assms(2,3) show ?thesis by (auto simp: sorted_append)
qed

text \<open>
  \<open>list_recent\<close> returns at least the requested rows it may and at most 100, most recently
  updated first, all of them stored runs with the requested status, and never leaves out a run
  that was updated more recently than one it returns.
\<close>

theorem run_list_recent_spec:
  "let rows = filter (\<lambda>r. st = None \<or> st = Some (last_status r)) db;
       out = run_list_recent limit st db
   in length out = min (nat (max 1 (min 100 limit))) (length rows) \<and>
      sorted (map (\<lambda>r. - rr_updated_at r) out) \<and>
      set out \<subseteq> recent_of ` set rows \<and>
      (\<forall>r \<in> set rows. recent_of r \<notin> set out \<longrightarrow> (\<forall>q \<in> set out. updated_at r \<le> rr_updated_at q))"
proof -
  let ?rows = "filter (\<lambda>r. st = None \<or> st = Some (last_status r)) db"
  let ?s = "sort_key (\<lambda>r. - updated_at r) ?rows"
  let ?n = "nat (max 1 (min 100 limit))"
  have rows: "tbl_select (\<lambda>r. case st of None \<Rightarrow> True | Some s \<Rightarrow> last_status r = s) db = ?rows"
    unfolding tbl_select_def by (rule filter_cong) (auto split: option.splits)
  have out: "run_list_recent limit st db = map recent_of (take ?n ?s)"
    by (simp add: run_list_recent_def rows Let_def)
  have sorted: "sorted (map (\<lambda>r. - updated_at r) ?s)" by (rule sorted_sort_key)
  have upd: "map (\<lambda>r. - rr_updated_at r) (map recent_of ys) = map (\<lambda>r. - updated_at r) ys" for ys
    by (simp add: recent_of_def)
  have "sorted (map (\<lambda>r. - updated_at r) (take ?n ?s))"
    using sorted by (metis sorted_wrt_take take_map)
  moreover have "updated_at r \<le> rr_updated_at q"
    if "r \<in> set ?rows" "recent_of r \<notin> set (map recent_of (take ?n ?s))"
      "q \<in> set (map recent_of (take ?n ?s))" for r q
  proof -
    from that(3) obtain y where y: "y \<in> set (take ?n ?s)" "q = recent_of y" by auto
    have "r \<in> set (drop ?n ?s)"
      using that(1,2) take_sort_key_split [of ?rows ?n "\<lambda>r. - updated_at r"] by auto
    from sorted_take_drop [OF sorted y(1) this] y(2) show ?thesis by (simp add: recent_of_def)
  qed
  moreover have "set (take ?n ?s) \<subseteq> set ?rows" by (metis set_take_subset set_sort)
  ultimately show ?thesis unfolding Let_def out upd by (auto simp: min.commute)
qed

theorem run_list_recent_witness:
  "length (run_list_recent 0 None [sample_run, sample_run\<lparr>updated_at := 7\<rparr>]) = 1"
  using run_list_recent_spec [of None "[sample_run, sample_run\<lparr>updated_at := 7\<rparr>]" 0]
  by (simp add: Let_def)

text \<open>
  Whatever calls it has served, the registry holds at most one row per request id and every
  stored id passes the id check.
\<close>

theorem run_registry_inv: "run_inv (run_ops run_step [] ops)"
  by (rule rrm.run_inv) (simp add: run_inv_def)

text \<open>
  Request ids are checked with \<open>re.match\<close> and a final \<^verbatim>\<open>$\<close>, which also matches before a
  trailing newline: appending a newline to any valid shorter id gives an id that is accepted,
  although a newline is not among the allowed characters.
\<close>

theorem client_request_id_newline:
  assumes "re_ident ''._:-'' 159 k" "length k < 160"
  shows "validate_client_request_id (k @ [CHR 0x0A]) = Inr () \<and>
    \<not> re_ident ''._:-'' 159 (k @ [CHR 0x0A])"
proof -
  have "\<not> ascii_alnum (CHR 0x0A)" "CHR 0x0A \<notin> set ''._:-''"
    by (simp_all add: ascii_alnum_def ascii_lower_def)
  then have "\<not> re_ident ''._:-'' 159 (k @ [CHR 0x0A])" by (cases k) auto
  with assms show ?thesis by (simp add: validate_client_request_id_def re_match_ident_def)
qed

theorem client_request_id_newline_witness:
  "validate_client_request_id (''req-1'' @ [CHR 0x0A]) = Inr ()"
proof -
  have "re_ident ''._:-'' 159 ''req-1''"
    by (simp add: ascii_alnum_def ascii_lower_def)
  from client_request_id_newline [OF this] show ?thesis by simp
qed

end
