(* ===== verification/Approvals.thy ===== *)
theory Approvals
  imports Prelude
begin

section \<open>Approval registry (approvals.py)\<close>

text \<open>
  \<open>ApprovalRegistry\<close>: the lifecycle of an approval and its single-use consumption. Every
  mutating operation is one \<open>BEGIN IMMEDIATE\<close> transaction, so operations of concurrent callers
  are serialised and a run is a sequence of them. The expiry of a request is text chosen by the
  caller: it is represented by what \<open>datetime.fromisoformat\<close> makes of it, nothing
  (\<open>ValueError\<close>), an instant without a time zone, or an instant with one. The other instants are
  written by the bridge itself.
\<close>

subsection \<open>State\<close>

datatype approval_status = REQUESTED | APPROVED | REJECTED | EXPIRED | CONSUMED | STALE

datatype expiry = Exp_invalid | Exp_naive utc | Exp_aware utc

record approval =
  approval_id :: string
  action :: string
  resource :: "string option"
  resource_fingerprint :: "string option"
  principal :: "string option"
  delegation_chain_sanitized :: "string list"
  decision :: approval_status
  expires_at :: "expiry option"
  created_at :: utc
  decided_at :: "utc option"
  consumed_at :: "utc option"
  metadata_sanitized :: string
  approval_identity_assurance :: string

datatype approval_error =
  Id_length | Id_characters | ApprovalNotFound string | ApprovalStaleError string
| ApprovalExpiredError string | ApprovalStatusError approval_status | ApprovalConsumedError
| Approval_IntegrityError | Approval_ValueError | Approval_TypeError

type_synonym approval_db = "approval table"

subsection \<open>Operations\<close>

definition validate_approval_id :: "string \<Rightarrow> (approval_error, unit) result" where
  "validate_approval_id k =
     (if \<not> (1 \<le> length k \<and> length k \<le> 160) then Inl Id_length
      else if \<not> re_match_ident ''._:-'' 159 k then Inl Id_characters
      else Inr ())"

definition approval_get :: "approval_db \<Rightarrow> string \<Rightarrow> (approval_error, approval) result" where
  "approval_get db k =
     (case validate_approval_id k of
        Inl e \<Rightarrow> Inl e
      | Inr _ \<Rightarrow>
          (case tbl_get approval_id k db of
             None \<Rightarrow> Inl (ApprovalNotFound k)
           | Some r \<Rightarrow> Inr r))"

definition approval_create ::
  "approval \<Rightarrow> approval_db \<Rightarrow> approval_db \<times> (approval_error, approval) result" where
  "approval_create rec db =
     (case validate_approval_id (approval_id rec) of
        Inl e \<Rightarrow> (db, Inl e)
      | Inr _ \<Rightarrow>
          (case tbl_insert approval_id rec db of
             None \<Rightarrow> (db, Inl Approval_IntegrityError)
           | Some db' \<Rightarrow> (db', approval_get db' (approval_id rec))))"

text \<open>
  \<open>respond\<close> compares the parsed expiry with an aware instant: an unparsable text raises
  \<open>ValueError\<close>, an instant without a time zone raises \<open>TypeError\<close>.
\<close>

definition respond_expiry :: "utc \<Rightarrow> expiry option \<Rightarrow> (approval_error, unit) result" where
  "respond_expiry now e =
     (case e of
        None \<Rightarrow> Inr ()
      | Some Exp_invalid \<Rightarrow> Inl Approval_ValueError
      | Some (Exp_naive _) \<Rightarrow> Inl Approval_TypeError
      | Some (Exp_aware x) \<Rightarrow>
          if x \<le> now then Inl (ApprovalExpiredError ''approval expired'') else Inr ())"

definition approval_respond ::
  "utc \<Rightarrow> utc \<Rightarrow> string \<Rightarrow> approval_status \<Rightarrow> string option \<Rightarrow> approval_db
    \<Rightarrow> approval_db \<times> (approval_error, approval) result" where
  "approval_respond now now2 k dec who db =
     (case validate_approval_id k of
        Inl e \<Rightarrow> (db, Inl e)
      | Inr _ \<Rightarrow>
          (case tbl_get approval_id k db of
             None \<Rightarrow> (db, Inl (ApprovalNotFound k))
           | Some r \<Rightarrow>
               if decision r \<noteq> REQUESTED then (db, Inl (ApprovalStatusError (decision r)))
               else (case respond_expiry now2 (expires_at r) of
                       Inl e \<Rightarrow> (db, Inl e)
                     | Inr _ \<Rightarrow>
                         let db' = tbl_update (\<lambda>r. approval_id r = k)
                               (\<lambda>r. r\<lparr>decision := dec, decided_at := Some now,
                                      principal := (case who of None \<Rightarrow> principal r | Some p \<Rightarrow> Some p)\<rparr>) db
                         in (db', approval_get db' k))))"

text \<open>What \<open>consume\<close> makes of an expiry: invalid, lapsed at \<open>now\<close>, or still open.\<close>

datatype expiry_check = Expiry_bad | Expiry_lapsed | Expiry_open

definition consume_expiry :: "utc \<Rightarrow> expiry option \<Rightarrow> expiry_check" where
  "consume_expiry now e =
     (case e of
        None \<Rightarrow> Expiry_open
      | Some Exp_invalid \<Rightarrow> Expiry_bad
      | Some (Exp_naive x) \<Rightarrow> if x \<le> now then Expiry_lapsed else Expiry_open
      | Some (Exp_aware x) \<Rightarrow> if x \<le> now then Expiry_lapsed else Expiry_open)"

text \<open>\<open>hmac.compare_digest\<close> on two texts raises \<open>TypeError\<close> unless both are ASCII.\<close>

definition compare_digest :: "string \<Rightarrow> string \<Rightarrow> (approval_error, bool) result" where
  "compare_digest a b =
     (if list_all (\<lambda>c. c \<le> CHR 0x7F) a \<and> list_all (\<lambda>c. c \<le> CHR 0x7F) b then Inr (a = b)
      else Inl Approval_TypeError)"

definition falsy :: "string option \<Rightarrow> bool" where
  "falsy s \<longleftrightarrow> s = None \<or> s = Some []"

text \<open>The checks of \<open>consume\<close> after the expiry, in the order of the code.\<close>

definition consume_binding ::
  "utc \<Rightarrow> string option \<Rightarrow> bool \<Rightarrow> string option \<Rightarrow> approval \<Rightarrow> (approval_error, unit) result" where
  "consume_binding now fp require expected r =
     (if created_at r > now then Inl (ApprovalExpiredError ''approval created in the future'')
      else if expected \<noteq> None \<and> expected \<noteq> Some (action r)
      then Inl (ApprovalStaleError ''approval action does not match the requested action'')
      else if require \<and> falsy fp
      then Inl (ApprovalStaleError ''mutating consumption requires a resource fingerprint'')
      else if require \<and> falsy (resource_fingerprint r)
      then Inl (ApprovalStaleError ''approval has no fingerprint binding'')
      else (case (fp, resource_fingerprint r) of
              (Some a, Some b) \<Rightarrow>
                (case compare_digest a b of
                   Inl e \<Rightarrow> Inl e
                 | Inr True \<Rightarrow> Inr ()
                 | Inr False \<Rightarrow>
                     Inl (ApprovalStaleError ''resource fingerprint differs from approved fingerprint''))
            | (None, Some b) \<Rightarrow>
                Inl (ApprovalStaleError ''approval requires resource fingerprint for consumption'')
            | (_, None) \<Rightarrow> Inr ()))"

definition approval_consume ::
  "utc \<Rightarrow> string \<Rightarrow> string option \<Rightarrow> bool \<Rightarrow> string option \<Rightarrow> approval_db
    \<Rightarrow> approval_db \<times> (approval_error, approval) result" where
  "approval_consume now k fp require expected db =
     (case validate_approval_id k of
        Inl e \<Rightarrow> (db, Inl e)
      | Inr _ \<Rightarrow>
          (case tbl_get approval_id k db of
             None \<Rightarrow> (db, Inl (ApprovalNotFound k))
           | Some r \<Rightarrow>
               if decision r = CONSUMED \<or> consumed_at r \<noteq> None then (db, Inl ApprovalConsumedError)
               else if decision r = EXPIRED then (db, Inl (ApprovalExpiredError ''approval expired''))
               else if decision r \<noteq> APPROVED then (db, Inl (ApprovalStatusError (decision r)))
               else (case consume_expiry now (expires_at r) of
                 Expiry_bad \<Rightarrow> (db, Inl (ApprovalExpiredError ''approval expires_at is invalid''))
               | Expiry_lapsed \<Rightarrow>
                   (tbl_update (\<lambda>r. approval_id r = k)
                      (\<lambda>r. r\<lparr>decision := EXPIRED, decided_at := Some now\<rparr>) db,
                    Inl (ApprovalExpiredError ''approval expired''))
               | Expiry_open \<Rightarrow>
                   (case consume_binding now fp require expected r of
                      Inl e \<Rightarrow> (db, Inl e)
                    | Inr _ \<Rightarrow>
                        let hit = (\<lambda>r. approval_id r = k \<and> consumed_at r = None \<and> decision r = APPROVED);
                            db' = tbl_update hit (\<lambda>r. r\<lparr>consumed_at := Some now, decision := CONSUMED\<rparr>) db
                        in if tbl_select hit db = [] then (db, Inl ApprovalConsumedError)
                           else (db', approval_get db' k)))))"

definition approval_mark_stale ::
  "utc \<Rightarrow> string \<Rightarrow> approval_db \<Rightarrow> approval_db \<times> (approval_error, approval) result" where
  "approval_mark_stale now k db =
     (case validate_approval_id k of
        Inl e \<Rightarrow> (db, Inl e)
      | Inr _ \<Rightarrow>
          (case tbl_get approval_id k db of
             None \<Rightarrow> (db, Inl (ApprovalNotFound k))
           | Some r \<Rightarrow>
               if decision r \<in> {STALE, CONSUMED, REJECTED} then (db, approval_get db k)
               else let db' = tbl_update (\<lambda>r. approval_id r = k)
                          (\<lambda>r. r\<lparr>decision := STALE, decided_at := Some now\<rparr>) db
                    in (db', approval_get db' k)))"

definition approval_expire ::
  "utc \<Rightarrow> string \<Rightarrow> approval_db \<Rightarrow> approval_db \<times> (approval_error, approval) result" where
  "approval_expire now k db =
     (case validate_approval_id k of
        Inl e \<Rightarrow> (db, Inl e)
      | Inr _ \<Rightarrow>
          (case tbl_get approval_id k db of
             None \<Rightarrow> (db, Inl (ApprovalNotFound k))
           | Some r \<Rightarrow>
               if decision r \<noteq> REQUESTED then (db, approval_get db k)
               else let db' = tbl_update (\<lambda>r. approval_id r = k)
                          (\<lambda>r. r\<lparr>decision := EXPIRED, decided_at := Some now\<rparr>) db
                    in (db', approval_get db' k)))"

definition approval_list_recent :: "int \<Rightarrow> approval_db \<Rightarrow> approval list" where
  "approval_list_recent limit db =
     take (nat (max 1 (min 100 limit))) (sort_key (\<lambda>r. - created_at r) db)"

subsection \<open>The registry as a machine\<close>

datatype approval_op =
  Approval_create approval
| Approval_respond utc utc string approval_status "string option"
| Approval_consume utc string "string option" bool "string option"
| Approval_mark_stale utc string
| Approval_expire utc string

fun approval_step :: "approval_db \<Rightarrow> approval_op \<Rightarrow> approval_db" where
  "approval_step db (Approval_create rec) = fst (approval_create rec db)"
| "approval_step db (Approval_respond t u k d p) = fst (approval_respond t u k d p db)"
| "approval_step db (Approval_consume t k fp q x) = fst (approval_consume t k fp q x db)"
| "approval_step db (Approval_mark_stale t k) = fst (approval_mark_stale t k db)"
| "approval_step db (Approval_expire t k) = fst (approval_expire t k db)"

text \<open>The operation is a consumption of \<open>k\<close> that succeeds.\<close>

fun consumes :: "string \<Rightarrow> approval_db \<Rightarrow> approval_op \<Rightarrow> bool" where
  "consumes k db (Approval_consume t j fp q x) =
     (j = k \<and> (\<exists>r. snd (approval_consume t j fp q x db) = Inr r))"
| "consumes k db _ = False"

definition consumed :: "string \<Rightarrow> approval_db \<Rightarrow> bool" where
  "consumed k db \<longleftrightarrow> (\<exists>r. tbl_get approval_id k db = Some r \<and> consumed_at r \<noteq> None)"

definition approval_inv :: "approval_db \<Rightarrow> bool" where
  "approval_inv db \<longleftrightarrow> tbl_ok approval_id db"

subsection \<open>The life of one approval\<close>

text \<open>
  The abstract machine of a single approval: what each operation does to its row, seen without
  the table. The table operations refine it (\<open>approval_step_row\<close>).
\<close>

fun approval_row :: "approval_op \<Rightarrow> approval \<Rightarrow> approval" where
  "approval_row (Approval_create rec) r = r"
| "approval_row (Approval_respond t u k d p) r =
     (if k = approval_id r \<and> validate_approval_id k = Inr () \<and> decision r = REQUESTED \<and>
         respond_expiry u (expires_at r) = Inr ()
      then r\<lparr>decision := d, decided_at := Some t,
             principal := (case p of None \<Rightarrow> principal r | Some p \<Rightarrow> Some p)\<rparr>
      else r)"
| "approval_row (Approval_consume t k fp q x) r =
     (if k = approval_id r \<and> validate_approval_id k = Inr () \<and> decision r = APPROVED \<and>
         consumed_at r = None
      then (case consume_expiry t (expires_at r) of
              Expiry_bad \<Rightarrow> r
            | Expiry_lapsed \<Rightarrow> r\<lparr>decision := EXPIRED, decided_at := Some t\<rparr>
            | Expiry_open \<Rightarrow>
                if consume_binding t fp q x r = Inr ()
                then r\<lparr>consumed_at := Some t, decision := CONSUMED\<rparr> else r)
      else r)"
| "approval_row (Approval_mark_stale t k) r =
     (if k = approval_id r \<and> validate_approval_id k = Inr () \<and> decision r \<notin> {STALE, CONSUMED, REJECTED}
      then r\<lparr>decision := STALE, decided_at := Some t\<rparr> else r)"
| "approval_row (Approval_expire t k) r =
     (if k = approval_id r \<and> validate_approval_id k = Inr () \<and> decision r = REQUESTED
      then r\<lparr>decision := EXPIRED, decided_at := Some t\<rparr> else r)"

lemma approval_row_id [simp]: "approval_id (approval_row p r) = approval_id r"
  by (cases p) (auto split: expiry_check.splits)

lemma approval_get_valid:
  "validate_approval_id k = Inr () \<Longrightarrow>
   approval_get db k = (case tbl_get approval_id k db of None \<Rightarrow> Inl (ApprovalNotFound k) | Some r \<Rightarrow> Inr r)"
  by (simp add: approval_get_def)

text \<open>In a consumption that gets past every check the guarded \<open>UPDATE\<close> hits the row.\<close>

lemma tbl_get_guarded_update:
  assumes "\<And>r. key (f r) = key r"
  shows "tbl_get key j (tbl_update (\<lambda>r. key r = k \<and> q r) f t) =
    (if j = k then map_option (\<lambda>r. if q r then f r else r) (tbl_get key k t) else tbl_get key j t)"
  using assms by (induction t) auto

lemma approval_consume_row:
  assumes "tbl_get approval_id k db = Some r" "validate_approval_id k = Inr ()"
    "decision r = APPROVED" "consumed_at r = None"
  shows "approval_consume t k fp q x db =
    (case consume_expiry t (expires_at r) of
       Expiry_bad \<Rightarrow> (db, Inl (ApprovalExpiredError ''approval expires_at is invalid''))
     | Expiry_lapsed \<Rightarrow>
         (tbl_update (\<lambda>r. approval_id r = k) (\<lambda>r. r\<lparr>decision := EXPIRED, decided_at := Some t\<rparr>) db,
          Inl (ApprovalExpiredError ''approval expired''))
     | Expiry_open \<Rightarrow>
         (case consume_binding t fp q x r of
            Inl e \<Rightarrow> (db, Inl e)
          | Inr _ \<Rightarrow>
              (tbl_update (\<lambda>r. approval_id r = k \<and> consumed_at r = None \<and> decision r = APPROVED)
                 (\<lambda>r. r\<lparr>consumed_at := Some t, decision := CONSUMED\<rparr>) db,
               Inr (r\<lparr>consumed_at := Some t, decision := CONSUMED\<rparr>))))"
proof -
  have "r \<in> set db" "approval_id r = k" using assms(1) by (auto dest: tbl_get_SomeD)
  with assms(3,4) have
    hit: "tbl_select (\<lambda>r. approval_id r = k \<and> consumed_at r = None \<and> decision r = APPROVED) db \<noteq> []"
    by (auto simp: tbl_select_def filter_empty_conv)
  show ?thesis
    using assms hit
    by (auto simp: approval_consume_def Let_def approval_get_valid tbl_get_guarded_update
        split: expiry_check.splits sum.splits)
qed

lemma approval_consume_other:
  "j \<noteq> k \<Longrightarrow> tbl_get approval_id j (fst (approval_consume t k fp q x db)) = tbl_get approval_id j db"
  unfolding approval_consume_def Let_def
  by (simp add: tbl_get_update_key tbl_get_guarded_update
      split: sum.split option.split expiry_check.split)

lemma approval_consume_refused:
  "tbl_get approval_id k db = Some r \<Longrightarrow>
   \<not> (validate_approval_id k = Inr () \<and> decision r = APPROVED \<and> consumed_at r = None) \<Longrightarrow>
   fst (approval_consume t k fp q x db) = db"
  by (cases "validate_approval_id k") (auto simp: approval_consume_def)

lemma approval_step_row:
  assumes "tbl_get approval_id j db = Some r"
  shows "tbl_get approval_id j (approval_step db p) = Some (approval_row p r)"
proof -
  have id: "approval_id r = j" using assms by (auto dest: tbl_get_SomeD)
  show ?thesis
  proof (cases p)
    case (Approval_create rec)
    then show ?thesis using assms
      by (auto simp: approval_create_def tbl_get_insert dest: tbl_insert_SomeD
          split: sum.splits option.splits)
  next
    case (Approval_respond t u k d w)
    then show ?thesis using assms id
      by (auto simp: approval_respond_def Let_def tbl_get_update_key split: sum.splits option.splits)
  next
    case (Approval_consume t k fp q x)
    show ?thesis
    proof (cases "k = j \<and> validate_approval_id k = Inr () \<and> decision r = APPROVED \<and> consumed_at r = None")
      case True
      then show ?thesis using assms id Approval_consume
        by (auto simp: approval_consume_row tbl_get_update_key tbl_get_guarded_update
            split: expiry_check.splits sum.splits)
    next
      case False
      with id have row: "approval_row p r = r" unfolding Approval_consume approval_row.simps by argo
      show ?thesis
      proof (cases "k = j")
        case True
        with False have "fst (approval_consume t k fp q x db) = db"
          using approval_consume_refused [OF assms] by blast
        then show ?thesis using assms row Approval_consume by simp
      next
        case False
        then show ?thesis using assms row Approval_consume by (simp add: approval_consume_other)
      qed
    qed
  next
    case (Approval_mark_stale t k)
    then show ?thesis using assms id
      by (cases "validate_approval_id k"; cases "k = j"; cases "tbl_get approval_id k db")
         (simp_all add: approval_mark_stale_def Let_def tbl_get_update_key)
  next
    case (Approval_expire t k)
    then show ?thesis using assms id
      by (cases "validate_approval_id k"; cases "k = j"; cases "tbl_get approval_id k db")
         (simp_all add: approval_expire_def Let_def tbl_get_update_key)
  qed
qed

lemma approval_run_row:
  assumes "tbl_get approval_id j db = Some r"
  shows "tbl_get approval_id j (run_ops approval_step db ps) = Some (run_ops (\<lambda>r p. approval_row p r) r ps)"
  using assms by (induction ps arbitrary: db r) (auto simp: approval_step_row)

lemma approval_inv_step: "approval_inv db \<Longrightarrow> approval_inv (approval_step db p)"
  by (cases p)
     (auto simp: approval_inv_def approval_create_def approval_respond_def approval_consume_def
       approval_mark_stale_def approval_expire_def Let_def tbl_ok_update tbl_ok_insert
       split: sum.splits option.splits expiry_check.splits)

text \<open>A consumption succeeds exactly on an approved, unconsumed, open and matching approval.\<close>

definition consumable :: "utc \<Rightarrow> string option \<Rightarrow> bool \<Rightarrow> string option \<Rightarrow> approval \<Rightarrow> bool" where
  "consumable t fp q x r \<longleftrightarrow>
     validate_approval_id (approval_id r) = Inr () \<and> decision r = APPROVED \<and> consumed_at r = None \<and>
     consume_expiry t (expires_at r) = Expiry_open \<and> consume_binding t fp q x r = Inr ()"

lemma approval_consume_iff:
  "(\<exists>r'. snd (approval_consume t k fp q x db) = Inr r') \<longleftrightarrow>
   (\<exists>r. tbl_get approval_id k db = Some r \<and> consumable t fp q x r)"
proof (cases "tbl_get approval_id k db")
  case None
  then show ?thesis by (simp add: approval_consume_def split: sum.splits)
next
  case (Some r)
  then have id: "approval_id r = k" by (auto dest: tbl_get_SomeD)
  show ?thesis
  proof (cases "validate_approval_id k = Inr () \<and> decision r = APPROVED \<and> consumed_at r = None")
    case True
    with Some id show ?thesis
      by (auto simp: approval_consume_row consumable_def split: expiry_check.splits sum.splits)
  next
    case False
    with Some id show ?thesis by (auto simp: approval_consume_def consumable_def split: sum.splits)
  qed
qed

lemma consumes_iff:
  "consumes k db p \<longleftrightarrow>
     (\<exists>t fp q x r. p = Approval_consume t k fp q x \<and> tbl_get approval_id k db = Some r \<and>
        consumable t fp q x r)"
proof (cases p)
  case (Approval_consume t j fp q x)
  then show ?thesis using approval_consume_iff [of t j fp q x db] by auto
qed auto

lemma consumable_row:
  "consumable t fp q x r \<Longrightarrow>
   approval_row (Approval_consume t (approval_id r) fp q x) r = r\<lparr>consumed_at := Some t, decision := CONSUMED\<rparr>"
  by (simp add: consumable_def)

lemma consumed_at_stays: "consumed_at r \<noteq> None \<Longrightarrow> consumed_at (approval_row p r) \<noteq> None"
  by (cases p) auto

interpretation apu: single_use approval_step approval_inv "consumes k" "consumed k" "\<lambda>_. False" for k
proof
  fix db p
  show "approval_inv db \<Longrightarrow> approval_inv (approval_step db p)" by (rule approval_inv_step)
next
  fix db p
  assume "consumes k db p"
  then obtain t fp q x r where p: "p = Approval_consume t k fp q x"
    and r: "tbl_get approval_id k db = Some r" and c: "consumable t fp q x r"
    by (auto simp: consumes_iff)
  then have id: "approval_id r = k" by (auto dest: tbl_get_SomeD)
  from r c show "\<not> consumed k db" by (auto simp: consumed_def consumable_def)
  from approval_step_row [OF r, of p] consumable_row [OF c] id
  show "consumed k (approval_step db p)" by (auto simp: consumed_def p)
next
  fix db p
  assume "consumed k db"
  then show "consumed k (approval_step db p)"
    unfolding consumed_def using approval_step_row consumed_at_stays by blast
qed

subsection \<open>Properties\<close>

text \<open>
  C16. Single use: over any sequence of registry operations by any callers, at most one
  consumption of a given approval succeeds.
\<close>

theorem approval_single_use:
  "spend_count approval_step (consumes k) (run_ops approval_step [] ps) qs \<le> 1"
  by (rule apu.spend_at_most_once) (rule apu.run_inv, simp_all add: approval_inv_def)

text \<open>
  A consumption succeeds exactly when the stored approval is approved, not yet consumed,
  unexpired at the call, not created in the future, for the expected action and bound to the
  presented fingerprint; it then marks exactly that approval consumed and returns it.
\<close>

theorem approval_consume_exact:
  assumes "tbl_get approval_id k db = Some r"
  shows "((\<exists>r'. snd (approval_consume t k fp q x db) = Inr r') \<longleftrightarrow>
      validate_approval_id k = Inr () \<and> decision r = APPROVED \<and> consumed_at r = None \<and>
      (expires_at r = None \<or> (\<exists>e > t. expires_at r = Some (Exp_naive e) \<or> expires_at r = Some (Exp_aware e))) \<and>
      created_at r \<le> t \<and> (x = None \<or> x = Some (action r)) \<and>
      (q \<longrightarrow> \<not> falsy fp \<and> \<not> falsy (resource_fingerprint r)) \<and>
      (resource_fingerprint r = None \<or>
        (fp = resource_fingerprint r \<and> compare_digest (the fp) (the fp) = Inr True)))"
proof -
  have id: "approval_id r = k" using assms by (auto dest: tbl_get_SomeD)
  have e: "consume_expiry t (expires_at r) = Expiry_open \<longleftrightarrow>
      expires_at r = None \<or> (\<exists>e > t. expires_at r = Some (Exp_naive e) \<or> expires_at r = Some (Exp_aware e))"
    by (auto simp: consume_expiry_def split: option.splits expiry.splits if_splits)
  have b: "consume_binding t fp q x r = Inr () \<longleftrightarrow>
      created_at r \<le> t \<and> (x = None \<or> x = Some (action r)) \<and>
      (q \<longrightarrow> \<not> falsy fp \<and> \<not> falsy (resource_fingerprint r)) \<and>
      (resource_fingerprint r = None \<or>
        (fp = resource_fingerprint r \<and> compare_digest (the fp) (the fp) = Inr True))"
    by (auto simp: consume_binding_def compare_digest_def
        split: option.splits sum.splits bool.splits if_splits)
  show ?thesis unfolding approval_consume_iff using assms id e b by (auto simp: consumable_def)
qed

definition sample_approval :: approval where
  "sample_approval = \<lparr>approval_id = ''ap-1'', action = ''deploy'', resource = Some ''prod'',
     resource_fingerprint = Some ''ab12'', principal = None, delegation_chain_sanitized = [],
     decision = APPROVED, expires_at = Some (Exp_aware 900), created_at = 100, decided_at = Some 120,
     consumed_at = None, metadata_sanitized = ''{}'', approval_identity_assurance = ''caller_asserted''\<rparr>"

lemma sample_approval_id: "validate_approval_id ''ap-1'' = Inr ()"
  by (simp add: validate_approval_id_def re_match_ident_def ascii_alnum_def ascii_lower_def)

theorem approval_consume_exact_witness:
  "(\<exists>r'. snd (approval_consume 200 ''ap-1'' (Some ''ab12'') True (Some ''deploy'') [sample_approval]) = Inr r') \<and>
   \<not> (\<exists>r'. snd (approval_consume 200 ''ap-1'' (Some ''ab13'') True (Some ''deploy'') [sample_approval]) = Inr r')"
proof -
  have g: "tbl_get approval_id ''ap-1'' [sample_approval] = Some sample_approval"
    by (simp add: sample_approval_def)
  show ?thesis
    unfolding approval_consume_exact [OF g]
    by (simp add: sample_approval_id) (simp add: sample_approval_def falsy_def compare_digest_def)
qed

text \<open>
  C29. Refinement: whatever sequence of operations runs on the table, the row of an approval
  evolves exactly as the machine of that single approval prescribes; operations on other
  approvals never touch it, and it is never deleted or replaced.
\<close>

theorem approval_refines:
  assumes "tbl_get approval_id k db = Some r"
  shows "tbl_get approval_id k (run_ops approval_step db ps) =
    Some (run_ops (\<lambda>r p. approval_row p r) r ps)"
  using assms by (rule approval_run_row)

theorem approval_refines_witness:
  "tbl_get approval_id ''ap-1'' (run_ops approval_step [sample_approval]
     [Approval_expire 1 ''other'', Approval_mark_stale 2 ''ap-1'']) =
   Some (sample_approval\<lparr>decision := STALE, decided_at := Some 2\<rparr>)"
proof -
  have "tbl_get approval_id ''ap-1'' [sample_approval] = Some sample_approval"
    by (simp add: sample_approval_def)
  from approval_refines [OF this, of "[Approval_expire 1 ''other'', Approval_mark_stale 2 ''ap-1'']"]
  show ?thesis using sample_approval_id by (simp add: sample_approval_def)
qed

lemma approval_row_final:
  "decision r \<in> {REJECTED, STALE, CONSUMED} \<Longrightarrow> approval_row p r = r"
  by (cases p) auto

text \<open>
  Rejected, stale and consumed approvals are final: no sequence of operations changes any
  field of such a row.
\<close>

theorem approval_final:
  assumes "tbl_get approval_id k db = Some r" "decision r \<in> {REJECTED, STALE, CONSUMED}"
  shows "tbl_get approval_id k (run_ops approval_step db ps) = Some r"
proof -
  have "run_ops (\<lambda>r p. approval_row p r) r ps = r"
    using approval_row_final [OF assms(2)] by (induction ps) auto
  with approval_run_row [OF assms(1), of ps] show ?thesis by simp
qed

theorem approval_final_witness:
  "tbl_get approval_id ''ap-1'' (run_ops approval_step [sample_approval\<lparr>decision := REJECTED\<rparr>]
     [Approval_respond 1 1 ''ap-1'' APPROVED None, Approval_consume 2 ''ap-1'' None False None]) =
   Some (sample_approval\<lparr>decision := REJECTED\<rparr>)"
  by (rule approval_final) (simp_all add: sample_approval_def)

fun approves :: "string \<Rightarrow> approval_op \<Rightarrow> bool" where
  "approves k (Approval_respond t u j d p) = (j = k \<and> d = APPROVED)"
| "approves k _ = False"

lemma approval_row_not_approved:
  "decision r \<noteq> APPROVED \<Longrightarrow> \<not> approves (approval_id r) p \<Longrightarrow> decision (approval_row p r) \<noteq> APPROVED"
  by (cases p) auto

lemma approval_run_not_approved:
  "decision r \<noteq> APPROVED \<Longrightarrow> \<forall>p \<in> set ps. \<not> approves (approval_id r) p \<Longrightarrow>
   decision (run_ops (\<lambda>r p. approval_row p r) r ps) \<noteq> APPROVED"
proof (induction ps arbitrary: r)
  case Nil
  then show ?case by simp
next
  case (Cons p ps)
  then show ?case using approval_row_not_approved [of r p] by simp
qed

text \<open>
  No consumption without a response: an approval created in state requested can only be
  consumed if some earlier operation was a \<open>respond\<close> on it with decision approved.
\<close>

theorem approval_needs_response:
  assumes "tbl_get approval_id k db = Some r" "decision r = REQUESTED"
    and "consumes k (run_ops approval_step db ps) p"
  shows "\<exists>a \<in> set ps. approves k a"
proof (rule ccontr)
  assume none: "\<not> (\<exists>a \<in> set ps. approves k a)"
  have id: "approval_id r = k" using assms(1) by (auto dest: tbl_get_SomeD)
  have "decision (run_ops (\<lambda>r p. approval_row p r) r ps) \<noteq> APPROVED"
    using none id assms(2) by (intro approval_run_not_approved) auto
  with assms(3) approval_run_row [OF assms(1), of ps] show False
    by (auto simp: consumes_iff consumable_def)
qed

theorem approval_needs_response_witness:
  "\<exists>a \<in> set [Approval_respond 120 120 ''ap-1'' APPROVED None]. approves ''ap-1'' a"
proof (rule approval_needs_response)
  let ?r = "sample_approval\<lparr>decision := REQUESTED, decided_at := None\<rparr>"
  show "tbl_get approval_id ''ap-1'' [?r] = Some ?r" "decision ?r = REQUESTED"
    by (simp_all add: sample_approval_def)
  have ap: "tbl_get approval_id ''ap-1''
      (run_ops approval_step [?r] [Approval_respond 120 120 ''ap-1'' APPROVED None]) = Some sample_approval"
    using approval_run_row [of "''ap-1''" "[?r]" ?r "[Approval_respond 120 120 ''ap-1'' APPROVED None]"]
      sample_approval_id
    by (simp add: sample_approval_def respond_expiry_def)
  have "consumable 200 (Some ''ab12'') True (Some ''deploy'') sample_approval"
    using sample_approval_id
    by (simp add: consumable_def sample_approval_def consume_expiry_def consume_binding_def falsy_def
        compare_digest_def)
  with ap show "consumes ''ap-1'' (run_ops approval_step [?r]
      [Approval_respond 120 120 ''ap-1'' APPROVED None])
      (Approval_consume 200 ''ap-1'' (Some ''ab12'') True (Some ''deploy''))"
    unfolding consumes_iff by blast
qed

text \<open>
  Lapsed approvals are burnt: consuming an approved approval at or after its expiry raises
  \<open>ApprovalExpiredError\<close> and commits the expired state, so no later consumption succeeds, not
  even one whose clock reads an earlier time.
\<close>

theorem approval_lapse_is_permanent:
  assumes "tbl_get approval_id k db = Some r" "validate_approval_id k = Inr ()" "decision r = APPROVED"
    and "consumed_at r = None" "consume_expiry t (expires_at r) = Expiry_lapsed"
  shows "snd (approval_consume t k fp q x db) = Inl (ApprovalExpiredError ''approval expired'') \<and>
    \<not> consumes k (run_ops approval_step (fst (approval_consume t k fp q x db)) ps) p"
proof -
  let ?db = "fst (approval_consume t k fp q x db)"
  let ?r = "r\<lparr>decision := EXPIRED, decided_at := Some t\<rparr>"
  have id: "approval_id r = k" using assms(1) by (auto dest: tbl_get_SomeD)
  have r: "tbl_get approval_id k ?db = Some ?r"
    using approval_step_row [OF assms(1), of "Approval_consume t k fp q x"] assms id by simp
  have exp: "decision (approval_row p r') \<in> {EXPIRED, STALE}"
    if "decision r' \<in> {EXPIRED, STALE}" for r' p
    using that by (cases p) auto
  have "decision (run_ops (\<lambda>r p. approval_row p r) r' ps) \<in> {EXPIRED, STALE}"
    if "decision r' \<in> {EXPIRED, STALE}" for r'
    using that by (induction ps arbitrary: r') (simp_all only: run_ops_Nil run_ops_Cons exp)
  then have "decision (run_ops (\<lambda>r p. approval_row p r) ?r ps) \<in> {EXPIRED, STALE}" by simp
  with approval_run_row [OF r, of ps] have "\<not> consumes k (run_ops approval_step ?db ps) p"
    by (auto simp: consumes_iff consumable_def)
  moreover have "snd (approval_consume t k fp q x db) = Inl (ApprovalExpiredError ''approval expired'')"
    using assms by (simp add: approval_consume_row)
  ultimately show ?thesis by blast
qed

theorem approval_lapse_is_permanent_witness:
  "snd (approval_consume 900 ''ap-1'' None False None [sample_approval]) =
     Inl (ApprovalExpiredError ''approval expired'') \<and>
   \<not> consumes ''ap-1'' (run_ops approval_step
       (fst (approval_consume 900 ''ap-1'' None False None [sample_approval])) [])
       (Approval_consume 200 ''ap-1'' (Some ''ab12'') True (Some ''deploy''))"
  by (rule approval_lapse_is_permanent [where r = sample_approval])
     (simp_all add: sample_approval_id, simp_all add: sample_approval_def consume_expiry_def)

text \<open>
  The two readings of an expiry without a time zone disagree: \<open>consume\<close> reads it as UTC,
  but \<open>respond\<close> raises \<open>TypeError\<close>, so a request created with such an expiry can never be
  approved or rejected.
\<close>

theorem approval_naive_expiry_unanswerable:
  assumes "tbl_get approval_id k db = Some r" "validate_approval_id k = Inr ()"
    and "decision r = REQUESTED" "expires_at r = Some (Exp_naive e)"
  shows "approval_respond t u k d p db = (db, Inl Approval_TypeError)"
  using assms by (simp add: approval_respond_def respond_expiry_def)

theorem approval_naive_expiry_unanswerable_witness:
  "let db = [sample_approval\<lparr>decision := REQUESTED, expires_at := Some (Exp_naive 900)\<rparr>]
   in approval_respond 1 1 ''ap-1'' APPROVED None db = (db, Inl Approval_TypeError)"
  unfolding Let_def
  by (rule approval_naive_expiry_unanswerable
      [where r = "sample_approval\<lparr>decision := REQUESTED, expires_at := Some (Exp_naive 900)\<rparr>" and e = 900])
     (simp_all add: sample_approval_id, simp_all add: sample_approval_def)

end
