(* ===== verification/Idempotency.thy ===== *)
theory Idempotency
  imports Prelude "HOL-Library.AList"
begin

section \<open>Write-ahead idempotency store (v2/mutation\_idempotency.py)\<close>

text \<open>
  \<open>IdempotencyStore\<close>: before a provider call is issued for a mutation, its key is claimed and a
  lease on \<open>(repository, family, target)\<close> is taken; afterwards the record is resolved. Every
  operation runs under the store's mutex and takes \<open>now\<close> from its caller. The two dictionaries
  are association lists in insertion order. A shaped result is represented by its JSON text.
\<close>

subsection \<open>State\<close>

datatype mutation_outcome = PENDING | COMMITTED | FAILED_CLEAN | AMBIGUOUS | DENIED

datatype idempotency_status = NEW | REPLAYED | IN_PROGRESS

datatype reason_code =
  OPERATION_IN_PROGRESS | RECONCILIATION_REQUIRED | IDEMPOTENT_REPLAY | INVALID_ARGUMENTS
| OTHER_REASON string

datatype mutation_stage = IDEMPOTENCY_STAGE | APPROVAL_STAGE | SCOPE_STAGE

datatype mutation_error =
  IdempotencyConflictError reason_code string
| MutationDeniedError reason_code mutation_stage string

record mutation_lease =
  repository :: string
  operation :: string
  target :: string
  lease_owner :: string
  lease_acquired_at :: utc
  lease_expires_at :: utc

record idem_record =
  idempotency_key :: string
  rec_principal :: string
  rec_repository :: string
  rec_operation :: string
  operation_digest :: string
  outcome :: mutation_outcome
  rec_created_at :: utc
  rec_updated_at :: utc
  lease :: "mutation_lease option"
  rec_result :: "string option"
  reason :: "reason_code option"

record idem_decision =
  idem_status :: idempotency_status
  decided_record :: idem_record
  decided_lease :: "mutation_lease option"

record idem_store =
  lease_seconds :: int
  records :: "(string \<times> idem_record) list"
  leases :: "(string \<times> string) list"

subsection \<open>Keys\<close>

text \<open>\<^verbatim>\<open>\A[0-9a-f]{64}\Z\<close> and \<^verbatim>\<open>\A[A-Za-z0-9][A-Za-z0-9._-]{0,38}/[A-Za-z0-9][A-Za-z0-9._-]{0,99}\Z\<close>.\<close>

definition hex_lower :: "char \<Rightarrow> bool" where
  "hex_lower c \<longleftrightarrow> (CHR ''0'' \<le> c \<and> c \<le> CHR ''9'') \<or> (CHR ''a'' \<le> c \<and> c \<le> CHR ''f'')"

definition require_digest :: "string \<Rightarrow> string \<Rightarrow> (mutation_error, unit) result" where
  "require_digest d detail =
     (if length d = 64 \<and> list_all hex_lower d then Inr ()
      else Inl (MutationDeniedError INVALID_ARGUMENTS APPROVAL_STAGE detail))"

definition require_repository :: "string \<Rightarrow> (mutation_error, unit) result" where
  "require_repository s =
     (let own = takeWhile (\<lambda>c. c \<noteq> CHR ''/'') s; rest = dropWhile (\<lambda>c. c \<noteq> CHR ''/'') s
      in if re_ident ''._-'' 38 own \<and> rest \<noteq> [] \<and> re_ident ''._-'' 99 (tl rest) then Inr ()
         else Inl (MutationDeniedError INVALID_ARGUMENTS SCOPE_STAGE ''repository''))"

definition starts_with :: "string \<Rightarrow> string \<Rightarrow> bool" where
  "starts_with p s \<longleftrightarrow> take (length p) s = p"

text \<open>The last dotted segment, \<open>operation.rsplit(''.'', 1)[-1]\<close>.\<close>

definition last_segment :: "string \<Rightarrow> string" where
  "last_segment s = rev (takeWhile (\<lambda>c. c \<noteq> CHR ''.'') (rev s))"

definition operation_family :: "string \<Rightarrow> string" where
  "operation_family op =
     (let tail = last_segment op
      in if starts_with ''create_'' tail then drop 7 tail
         else if starts_with ''merge_'' tail then ''merge''
         else tail)"

datatype lease_lock_type = LOCK_INTENT_TO_WRITE | LOCK_WRITE_EXCLUSIVE

definition lock_type_for :: "string \<Rightarrow> lease_lock_type" where
  "lock_type_for op = (if operation_family op = ''merge'' then LOCK_WRITE_EXCLUSIVE else LOCK_INTENT_TO_WRITE)"

definition lease_lock_key :: "mutation_lease \<Rightarrow> string" where
  "lease_lock_key l = repository l @ ''#'' @ operation_family (operation l) @ ''#'' @ target l"

definition is_expired :: "mutation_lease \<Rightarrow> utc \<Rightarrow> bool" where
  "is_expired l now \<longleftrightarrow> now \<ge> lease_expires_at l"

definition executes_provider_call :: "idem_decision \<Rightarrow> bool" where
  "executes_provider_call d \<longleftrightarrow> idem_status d = NEW"

subsection \<open>Operations\<close>

definition store_new :: "int \<Rightarrow> (string, idem_store) result" where
  "store_new secs =
     (if secs \<le> 0 then Inl ''lease_seconds must be positive''
      else Inr \<lparr>lease_seconds = secs, records = [], leases = []\<rparr>)"

definition idem_get :: "string \<Rightarrow> idem_store \<Rightarrow> idem_record option" where
  "idem_get k s = map_of (records s) k"

definition put_record :: "string \<Rightarrow> idem_record \<Rightarrow> idem_store \<Rightarrow> idem_store" where
  "put_record k r s = s\<lparr>records := AList.update k r (records s)\<rparr>"

definition pop_lease :: "mutation_lease option \<Rightarrow> idem_store \<Rightarrow> idem_store" where
  "pop_lease l s =
     (case l of None \<Rightarrow> s | Some l \<Rightarrow> s\<lparr>leases := AList.delete (lease_lock_key l) (leases s)\<rparr>)"

definition lose_lease :: "utc \<Rightarrow> idem_record \<Rightarrow> idem_record" where
  "lose_lease moment r =
     r\<lparr>outcome := AMBIGUOUS, reason := Some RECONCILIATION_REQUIRED, rec_updated_at := moment,
       lease := None\<rparr>"

definition lease_live :: "idem_record \<Rightarrow> utc \<Rightarrow> bool" where
  "lease_live r now \<longleftrightarrow> (case lease r of None \<Rightarrow> False | Some l \<Rightarrow> \<not> is_expired l now)"

text \<open>\<open>_decide_existing\<close>: a decision, \<open>None\<close> to attempt again, or an exception.\<close>

definition decide_existing ::
  "idem_record \<Rightarrow> utc \<Rightarrow> idem_store \<Rightarrow> idem_store \<times> (mutation_error, idem_decision option) result" where
  "decide_existing ex moment s =
     (case outcome ex of
        COMMITTED \<Rightarrow> (s, Inr (Some \<lparr>idem_status = REPLAYED, decided_record = ex, decided_lease = None\<rparr>))
      | DENIED \<Rightarrow> (s, Inl (IdempotencyConflictError IDEMPOTENT_REPLAY ''denied''))
      | AMBIGUOUS \<Rightarrow> (s, Inl (IdempotencyConflictError RECONCILIATION_REQUIRED ''ambiguous''))
      | PENDING \<Rightarrow>
          if lease_live ex moment
          then (s, Inr (Some \<lparr>idem_status = IN_PROGRESS, decided_record = ex, decided_lease = lease ex\<rparr>))
          else (pop_lease (lease ex) (put_record (idempotency_key ex) (lose_lease moment ex) s),
                Inl (IdempotencyConflictError RECONCILIATION_REQUIRED ''lease_lost''))
      | FAILED_CLEAN \<Rightarrow> (pop_lease (lease ex) s, Inr None))"

text \<open>The part of \<open>begin\<close> after the existing record, if any, allows a new attempt.\<close>

definition new_lease :: "string \<Rightarrow> string \<Rightarrow> string \<Rightarrow> string \<Rightarrow> utc \<Rightarrow> idem_store \<Rightarrow> mutation_lease" where
  "new_lease princ repo op tgt moment s =
     \<lparr>repository = repo, operation = op, target = tgt, lease_owner = princ,
      lease_acquired_at = moment, lease_expires_at = moment + lease_seconds s * 1000000\<rparr>"

definition new_record ::
  "string \<Rightarrow> string \<Rightarrow> string \<Rightarrow> string \<Rightarrow> string \<Rightarrow> utc \<Rightarrow> mutation_lease \<Rightarrow> idem_record" where
  "new_record k princ repo op dig moment l =
     \<lparr>idempotency_key = k, rec_principal = princ, rec_repository = repo, rec_operation = op,
      operation_digest = dig, outcome = PENDING, rec_created_at = moment,
      rec_updated_at = moment, lease = Some l, rec_result = None, reason = None\<rparr>"

text \<open>The pending record of another key that holds a lock key.\<close>

definition held_by_other :: "string \<Rightarrow> string \<Rightarrow> idem_store \<Rightarrow> (string \<times> idem_record) option" where
  "held_by_other k lock s =
     (case map_of (leases s) lock of
        None \<Rightarrow> None
      | Some holder \<Rightarrow>
          if holder = k then None
          else (case map_of (records s) holder of
                  None \<Rightarrow> None
                | Some held \<Rightarrow> if outcome held = PENDING then Some (holder, held) else None))"

definition claim ::
  "string \<Rightarrow> string \<Rightarrow> string \<Rightarrow> string \<Rightarrow> string \<Rightarrow> string \<Rightarrow> utc \<Rightarrow> idem_store
    \<Rightarrow> idem_store \<times> (mutation_error, idem_decision) result" where
  "claim k princ repo op dig tgt moment s =
     (let l = new_lease princ repo op tgt moment s; r = new_record k princ repo op dig moment l
      in case held_by_other k (lease_lock_key l) s of
           None \<Rightarrow>
             ((put_record k r s)\<lparr>leases := AList.update (lease_lock_key l) k (leases s)\<rparr>,
              Inr \<lparr>idem_status = NEW, decided_record = r, decided_lease = Some l\<rparr>)
         | Some (holder, held) \<Rightarrow>
             if lease_live held moment
             then (s, Inl (IdempotencyConflictError OPERATION_IN_PROGRESS ''lock_key''))
             else (put_record holder (lose_lease moment held) s,
                   Inl (IdempotencyConflictError RECONCILIATION_REQUIRED ''lock_key'')))"

definition idem_begin ::
  "string \<Rightarrow> string \<Rightarrow> string \<Rightarrow> string \<Rightarrow> string \<Rightarrow> string \<Rightarrow> utc \<Rightarrow> idem_store
    \<Rightarrow> idem_store \<times> (mutation_error, idem_decision) result" where
  "idem_begin k princ repo op dig tgt moment s =
     (case require_digest k ''idempotency_key'' of Inl e \<Rightarrow> (s, Inl e) | Inr _ \<Rightarrow>
      case require_digest dig ''operation_digest'' of Inl e \<Rightarrow> (s, Inl e) | Inr _ \<Rightarrow>
      case require_repository repo of Inl e \<Rightarrow> (s, Inl e) | Inr _ \<Rightarrow>
      case map_of (records s) k of
        None \<Rightarrow> claim k princ repo op dig tgt moment s
      | Some ex \<Rightarrow>
          (case decide_existing ex moment s of
             (s', Inl e) \<Rightarrow> (s', Inl e)
           | (s', Inr (Some d)) \<Rightarrow> (s', Inr d)
           | (s', Inr None) \<Rightarrow> claim k princ repo op dig tgt moment s'))"

definition idem_resolve ::
  "string \<Rightarrow> mutation_outcome \<Rightarrow> utc \<Rightarrow> string option \<Rightarrow> reason_code option \<Rightarrow> idem_store
    \<Rightarrow> idem_store \<times> (mutation_error, idem_record) result" where
  "idem_resolve k out moment res rsn s =
     (case map_of (records s) k of
        None \<Rightarrow> (s, Inl (IdempotencyConflictError IDEMPOTENT_REPLAY ''unknown_key''))
      | Some r \<Rightarrow>
          if outcome r \<noteq> PENDING
          then (s, Inl (IdempotencyConflictError IDEMPOTENT_REPLAY ''already_resolved''))
          else let r' = r\<lparr>outcome := out, rec_updated_at := moment, lease := None,
                          rec_result := res, reason := rsn\<rparr>
               in (put_record k r' (pop_lease (lease r) s), Inr r'))"

definition idem_commit :: "string \<Rightarrow> string \<Rightarrow> utc \<Rightarrow> idem_store \<Rightarrow> idem_store \<times> (mutation_error, idem_record) result" where
  "idem_commit k res now s = idem_resolve k COMMITTED now (Some res) None s"

definition idem_fail_clean ::
  "string \<Rightarrow> reason_code \<Rightarrow> utc \<Rightarrow> idem_store \<Rightarrow> idem_store \<times> (mutation_error, idem_record) result" where
  "idem_fail_clean k rsn now s = idem_resolve k FAILED_CLEAN now None (Some rsn) s"

definition idem_mark_ambiguous :: "string \<Rightarrow> utc \<Rightarrow> idem_store \<Rightarrow> idem_store \<times> (mutation_error, idem_record) result" where
  "idem_mark_ambiguous k now s = idem_resolve k AMBIGUOUS now None (Some RECONCILIATION_REQUIRED) s"

definition idem_reconcile ::
  "string \<Rightarrow> bool \<Rightarrow> string option \<Rightarrow> utc \<Rightarrow> idem_store \<Rightarrow> idem_store \<times> (mutation_error, idem_record) result" where
  "idem_reconcile k committed res moment s =
     (case map_of (records s) k of
        None \<Rightarrow> (s, Inl (IdempotencyConflictError IDEMPOTENT_REPLAY ''not_ambiguous''))
      | Some r \<Rightarrow>
          if outcome r \<noteq> AMBIGUOUS
          then (s, Inl (IdempotencyConflictError IDEMPOTENT_REPLAY ''not_ambiguous''))
          else let r' = (if committed
                 then r\<lparr>outcome := COMMITTED, rec_updated_at := moment,
                        rec_result := Some (case res of None \<Rightarrow> ''{}'' | Some x \<Rightarrow> x), reason := None\<rparr>
                 else r\<lparr>outcome := FAILED_CLEAN, rec_updated_at := moment,
                        reason := Some RECONCILIATION_REQUIRED\<rparr>)
               in (put_record k r' s, Inr r'))"

definition purgeable :: "utc \<Rightarrow> idem_record \<Rightarrow> bool" where
  "purgeable cutoff r \<longleftrightarrow> outcome r \<notin> {PENDING, AMBIGUOUS} \<and> rec_updated_at r \<le> cutoff"

definition idem_purge_terminal :: "utc \<Rightarrow> int \<Rightarrow> idem_store \<Rightarrow> idem_store \<times> nat" where
  "idem_purge_terminal now retention s =
     (let cutoff = now - retention * 1000000
      in (s\<lparr>records := filter (\<lambda>(k, r). \<not> purgeable cutoff r) (records s)\<rparr>,
          length (filter (\<lambda>(k, r). purgeable cutoff r) (records s))))"

subsection \<open>The store as a machine\<close>

datatype idem_op =
  Begin string string string string string string utc
| Commit string string utc
| Fail_clean string reason_code utc
| Mark_ambiguous string utc
| Reconcile string bool "string option" utc
| Purge utc int

fun idem_step :: "idem_store \<Rightarrow> idem_op \<Rightarrow> idem_store" where
  "idem_step s (Begin k p rp op dg tg t) = fst (idem_begin k p rp op dg tg t s)"
| "idem_step s (Commit k res t) = fst (idem_commit k res t s)"
| "idem_step s (Fail_clean k rsn t) = fst (idem_fail_clean k rsn t s)"
| "idem_step s (Mark_ambiguous k t) = fst (idem_mark_ambiguous k t s)"
| "idem_step s (Reconcile k c res t) = fst (idem_reconcile k c res t s)"
| "idem_step s (Purge t n) = fst (idem_purge_terminal t n s)"

text \<open>
  The invariant: records are filed under their own key, exactly the pending ones hold a lease,
  and the lease table names the pending record of every lock key it holds.
\<close>

definition idem_inv :: "idem_store \<Rightarrow> bool" where
  "idem_inv s \<longleftrightarrow>
     distinct (map fst (records s)) \<and>
     (\<forall>k r. map_of (records s) k = Some r \<longrightarrow>
        idempotency_key r = k \<and> (outcome r = PENDING \<longleftrightarrow> lease r \<noteq> None) \<and>
        (\<forall>l. lease r = Some l \<longrightarrow> map_of (leases s) (lease_lock_key l) = Some k))"


subsection \<open>Invariant\<close>

lemma records_put [simp]: "map_of (records (put_record k r s)) = (map_of (records s))(k \<mapsto> r)"
  and leases_put [simp]: "leases (put_record k r s) = leases s"
  and secs_put [simp]: "lease_seconds (put_record k r s) = lease_seconds s"
  by (simp_all add: put_record_def update_conv')

lemma distinct_put [simp]:
  "distinct (map fst (records s)) \<Longrightarrow> distinct (map fst (records (put_record k r s)))"
  by (simp add: put_record_def distinct_update)

lemma records_pop [simp]: "records (pop_lease l s) = records s"
  and leases_pop_None [simp]: "pop_lease None s = s"
  and leases_pop_Some [simp]:
    "map_of (leases (pop_lease (Some m) s)) = (map_of (leases s))(lease_lock_key m := None)"
  by (simp_all add: pop_lease_def delete_conv' split: option.splits)

lemma idem_invD:
  assumes "idem_inv s" "map_of (records s) k = Some r"
  shows "idempotency_key r = k" and "outcome r = PENDING \<longleftrightarrow> lease r \<noteq> None"
    and "lease r = Some l \<Longrightarrow> map_of (leases s) (lease_lock_key l) = Some k"
  using assms by (auto simp: idem_inv_def)

lemma idem_inv_settle [inv_intros]:
  assumes "idem_inv s" "idempotency_key r = k" "outcome r \<noteq> PENDING" "lease r = None"
  shows "idem_inv (put_record k r s)"
  using assms by (simp add: idem_inv_def)

lemma idem_inv_release [inv_intros]:
  assumes inv: "idem_inv s" and q: "map_of (records s) k = Some q"
    and r: "idempotency_key r = k" "outcome r \<noteq> PENDING" "lease r = None"
  shows "idem_inv (put_record k r (pop_lease (lease q) s))"
proof (cases "lease q")
  case None
  with assms show ?thesis by (simp add: idem_inv_settle)
next
  case (Some l)
  have "lease_lock_key m \<noteq> lease_lock_key l"
    if "map_of (records s) j = Some x" "lease x = Some m" "j \<noteq> k" for j x m
    using idem_invD(3) [OF inv that(1,2)] idem_invD(3) [OF inv q Some] that(3) by auto
  with inv r Some show ?thesis by (auto simp: idem_inv_def)
qed

lemma put_pop: "put_record k r (pop_lease l s) = pop_lease l (put_record k r s)"
  by (simp add: put_record_def pop_lease_def split: option.split)

lemma idem_inv_resolve [inv_intros]:
  assumes "idem_inv s" "out \<noteq> PENDING"
  shows "idem_inv (fst (idem_resolve k out t res rsn s))"
  using assms idem_inv_release [OF assms(1)]
  by (auto simp: idem_resolve_def Let_def idem_invD(1) split: option.split)

lemma idem_inv_reconcile [inv_intros]:
  assumes "idem_inv s"
  shows "idem_inv (fst (idem_reconcile k c res t s))"
  using assms
  by (auto simp: idem_reconcile_def Let_def idem_invD(1) intro!: idem_inv_settle
      dest: idem_invD(2) split: option.split)

lemma map_of_filter_snd:
  "distinct (map fst xs) \<Longrightarrow>
   map_of (filter (\<lambda>(k, r). P r) xs) k = Option.bind (map_of xs k) (\<lambda>r. if P r then Some r else None)"
proof (induction xs)
  case (Cons x xs)
  then have "map_of xs (fst x) = None" by (simp add: map_of_eq_None_iff)
  with Cons show ?case by (cases x) auto
qed simp

lemma records_purge:
  assumes "idem_inv s"
  shows "map_of (records (fst (idem_purge_terminal t n s))) k =
    Option.bind (map_of (records s) k) (\<lambda>r. if purgeable (t - n * 1000000) r then None else Some r)"
proof -
  have "distinct (map fst (records s))" using assms by (simp add: idem_inv_def)
  from map_of_filter_snd [OF this, of "\<lambda>r. \<not> purgeable (t - n * 1000000) r" k]
  show ?thesis by (simp add: idem_purge_terminal_def Let_def if_distrib if_bool_eq_conj
        cong: if_cong bind_option_cong) (cases "map_of (records s) k"; simp)
qed

lemma idem_inv_purge [inv_intros]:
  assumes "idem_inv s"
  shows "idem_inv (fst (idem_purge_terminal t n s))"
proof -
  have "distinct (map fst (records (fst (idem_purge_terminal t n s))))"
    using assms by (simp add: idem_purge_terminal_def idem_inv_def Let_def distinct_map_filter)
  moreover have "leases (fst (idem_purge_terminal t n s)) = leases s"
    by (simp add: idem_purge_terminal_def Let_def)
  ultimately show ?thesis
    using assms records_purge [OF assms]
    by (auto simp: idem_inv_def bind_eq_Some_conv split: if_splits)
qed

text \<open>The three ways a claim ends.\<close>

lemma claim_cases:
  obtains (grant) l r where "l = new_lease p rp op tg t s" "r = new_record k p rp op dg t l"
      "held_by_other k (lease_lock_key l) s = None"
      "claim k p rp op dg tg t s =
        ((put_record k r s)\<lparr>leases := AList.update (lease_lock_key l) k (leases s)\<rparr>,
         Inr \<lparr>idem_status = NEW, decided_record = r, decided_lease = Some l\<rparr>)"
  | (busy) "claim k p rp op dg tg t s = (s, Inl (IdempotencyConflictError OPERATION_IN_PROGRESS ''lock_key''))"
  | (lost) j h where "j \<noteq> k" "map_of (records s) j = Some h" "outcome h = PENDING"
      "claim k p rp op dg tg t s =
        (put_record j (lose_lease t h) s, Inl (IdempotencyConflictError RECONCILIATION_REQUIRED ''lock_key''))"
proof (cases "held_by_other k (lease_lock_key (new_lease p rp op tg t s)) s")
  case None
  then show ?thesis by (intro grant [OF refl refl]) (simp_all add: claim_def Let_def)
next
  case (Some jh)
  obtain j h where jh: "jh = (j, h)" by (cases jh)
  with Some have j: "j \<noteq> k" "map_of (records s) j = Some h" "outcome h = PENDING"
    by (simp_all add: held_by_other_def split: option.splits if_splits)
  show ?thesis
  proof (cases "lease_live h t")
    case True
    with Some jh show ?thesis by (intro busy) (simp add: claim_def Let_def)
  next
    case False
    with Some jh show ?thesis by (intro lost [OF j]) (simp add: claim_def Let_def)
  qed
qed

lemma idem_inv_grant:
  assumes inv: "idem_inv s" and free: "held_by_other k (lease_lock_key l) s = None"
    and r: "idempotency_key r = k" "outcome r = PENDING" "lease r = Some l"
  shows "idem_inv ((put_record k r s)\<lparr>leases := AList.update (lease_lock_key l) k (leases s)\<rparr>)"
proof -
  have "lease_lock_key m \<noteq> lease_lock_key l"
    if "map_of (records s) j = Some x" "lease x = Some m" "j \<noteq> k" for j x m
  proof
    assume "lease_lock_key m = lease_lock_key l"
    with idem_invD(3) [OF inv that(1,2)] have "map_of (leases s) (lease_lock_key l) = Some j" by simp
    moreover have "outcome x = PENDING" using idem_invD(2) [OF inv that(1)] that(2) by simp
    ultimately show False using free that by (simp add: held_by_other_def)
  qed
  with inv r show ?thesis by (auto simp: idem_inv_def put_record_def update_conv' distinct_update)
qed

lemma lose_lease_simps [simp]:
  "idempotency_key (lose_lease t r) = idempotency_key r" "outcome (lose_lease t r) = AMBIGUOUS"
  "lease (lose_lease t r) = None"
  by (simp_all add: lose_lease_def)

lemma new_record_simps [simp]:
  "idempotency_key (new_record k p rp op dg t l) = k" "outcome (new_record k p rp op dg t l) = PENDING"
  "lease (new_record k p rp op dg t l) = Some l"
  by (simp_all add: new_record_def)

lemma idem_inv_claim [inv_intros]:
  assumes "idem_inv s"
  shows "idem_inv (fst (claim k p rp op dg tg t s))"
proof (cases rule: claim_cases [of p rp op tg t s k dg])
  case (grant l r)
  with idem_inv_grant [OF assms grant(3), of r] show ?thesis by simp
next
  case (lost j h)
  with idem_inv_settle [OF assms, of "lose_lease t h" j] idem_invD(1) [OF assms lost(2)]
  show ?thesis by simp
qed (use assms in simp)

text \<open>What an existing record decides, under the invariant.\<close>

lemma decide_existing_failed:
  assumes "idem_inv s" "map_of (records s) k = Some r" "outcome r = FAILED_CLEAN"
  shows "decide_existing r t s = (s, Inr None)"
  using assms idem_invD(2) [OF assms(1,2)] by (simp add: decide_existing_def)

lemma decide_existing_NoneD: "decide_existing r t s = (s', Inr None) \<Longrightarrow> outcome r = FAILED_CLEAN"
  by (auto simp: decide_existing_def split: mutation_outcome.splits if_splits)

lemma decide_existing_not_new:
  "decide_existing r t s = (s', Inr (Some d)) \<Longrightarrow> idem_status d \<noteq> NEW"
  by (auto simp: decide_existing_def split: mutation_outcome.splits if_splits)

lemma idem_inv_decide [inv_intros]:
  assumes inv: "idem_inv s" and r: "map_of (records s) k = Some r"
  shows "idem_inv (fst (decide_existing r t s))"
proof (cases "outcome r")
  case PENDING
  have k: "idempotency_key r = k" using idem_invD(1) [OF inv r] .
  from idem_inv_release [OF inv r, of "lose_lease t r"] k inv PENDING
  show ?thesis by (simp add: decide_existing_def put_pop)
next
  case FAILED_CLEAN
  with assms show ?thesis by (simp add: decide_existing_failed)
qed (use inv in \<open>simp_all add: decide_existing_def\<close>)

text \<open>\<open>begin\<close>, reduced to its three parts.\<close>

definition begin_valid :: "string \<Rightarrow> string \<Rightarrow> string \<Rightarrow> bool" where
  "begin_valid k dg rp \<longleftrightarrow> require_digest k ''idempotency_key'' = Inr () \<and>
     require_digest dg ''operation_digest'' = Inr () \<and> require_repository rp = Inr ()"

lemma idem_begin_invalid:
  assumes "\<not> begin_valid k dg rp"
  obtains e where "idem_begin k p rp op dg tg t s = (s, Inl e)"
proof -
  have "\<exists>e. idem_begin k p rp op dg tg t s = (s, Inl e)"
    using assms by (auto simp: begin_valid_def idem_begin_def split: sum.splits)
  with that show ?thesis by blast
qed

lemma idem_begin_fresh:
  assumes "begin_valid k dg rp" "idem_inv s"
    "map_of (records s) k = None \<or> (\<exists>r. map_of (records s) k = Some r \<and> outcome r = FAILED_CLEAN)"
  shows "idem_begin k p rp op dg tg t s = claim k p rp op dg tg t s"
  using assms by (auto simp: begin_valid_def idem_begin_def decide_existing_failed split: option.split)

lemma idem_begin_existing:
  assumes "begin_valid k dg rp" "map_of (records s) k = Some r" "outcome r \<noteq> FAILED_CLEAN"
  shows "idem_begin k p rp op dg tg t s =
    (fst (decide_existing r t s),
     case snd (decide_existing r t s) of Inl e \<Rightarrow> Inl e | Inr d \<Rightarrow> Inr (the d))"
  using assms decide_existing_NoneD [of r t s "fst (decide_existing r t s)"]
  by (cases "decide_existing r t s")
    (auto simp: begin_valid_def idem_begin_def split: sum.split option.split)

lemma idem_inv_begin [inv_intros]:
  assumes inv: "idem_inv s"
  shows "idem_inv (fst (idem_begin k p rp op dg tg t s))"
proof (cases "begin_valid k dg rp")
  case True
  show ?thesis
  proof (cases "\<exists>r. map_of (records s) k = Some r \<and> outcome r \<noteq> FAILED_CLEAN")
    case r: True
    then obtain r where "map_of (records s) k = Some r" "outcome r \<noteq> FAILED_CLEAN" by blast
    with True inv show ?thesis by (simp add: idem_begin_existing idem_inv_decide)
  next
    case False
    then have "map_of (records s) k = None \<or> (\<exists>r. map_of (records s) k = Some r \<and> outcome r = FAILED_CLEAN)"
      by auto
    with True inv show ?thesis by (simp add: idem_begin_fresh idem_inv_claim)
  qed
next
  case False
  with inv show ?thesis by (elim idem_begin_invalid [of k dg rp p op tg t s]) simp
qed

lemma idem_inv_step: "idem_inv s \<Longrightarrow> idem_inv (idem_step s x)"
  by (cases x) (simp_all add: inv_intros idem_commit_def idem_fail_clean_def idem_mark_ambiguous_def)

lemma idem_inv_empty: "idem_inv \<lparr>lease_seconds = n, records = [], leases = []\<rparr>"
  by (simp add: idem_inv_def)

subsection \<open>At most one provider call per key\<close>

text \<open>
  A \<open>begin\<close> that answers \<open>NEW\<close> is the permission to issue the provider call. It is spent while
  the key has a record that does not allow a new attempt; only the operations that file a clean
  failure, and the purge of old terminal records, give it back.
\<close>

definition allows_new_attempt :: "idem_record \<Rightarrow> bool" where
  "allows_new_attempt r \<longleftrightarrow> outcome r = FAILED_CLEAN"

fun issues_call :: "string \<Rightarrow> idem_store \<Rightarrow> idem_op \<Rightarrow> bool" where
  "issues_call k s (Begin j p rp op dg tg t) \<longleftrightarrow> j = k \<and>
     (case snd (idem_begin j p rp op dg tg t s) of Inl _ \<Rightarrow> False | Inr d \<Rightarrow> executes_provider_call d)"
| "issues_call k s _ \<longleftrightarrow> False"

definition call_spent :: "string \<Rightarrow> idem_store \<Rightarrow> bool" where
  "call_spent k s \<longleftrightarrow> (case map_of (records s) k of None \<Rightarrow> False | Some r \<Rightarrow> \<not> allows_new_attempt r)"

fun reopens :: "string \<Rightarrow> idem_op \<Rightarrow> bool" where
  "reopens k (Fail_clean j rsn t) \<longleftrightarrow> j = k"
| "reopens k (Reconcile j c res t) \<longleftrightarrow> j = k \<and> \<not> c"
| "reopens k (Purge t n) \<longleftrightarrow> True"
| "reopens k _ \<longleftrightarrow> False"

lemma claim_issues:
  "snd (claim k p rp op dg tg t s) = Inr d \<Longrightarrow>
   idem_status d = NEW \<and> map_of (records (fst (claim k p rp op dg tg t s))) k = Some (decided_record d)
   \<and> outcome (decided_record d) = PENDING"
  by (cases rule: claim_cases [of p rp op tg t s k dg]) auto

lemma issues_callD:
  assumes "idem_inv s" "issues_call k s (Begin j p rp op dg tg t)"
  shows "j = k" and "\<not> call_spent k s" and "call_spent k (idem_step s (Begin j p rp op dg tg t))"
proof -
  from assms show j: "j = k" by simp
  from assms obtain d where d: "snd (idem_begin k p rp op dg tg t s) = Inr d" "idem_status d = NEW"
    by (auto simp: executes_provider_call_def split: sum.splits)
  then have v: "begin_valid k dg rp"
    by (cases "begin_valid k dg rp") (auto elim: idem_begin_invalid [of k dg rp p op tg t s])
  show ns: "\<not> call_spent k s"
  proof
    assume "call_spent k s"
    then obtain r where r: "map_of (records s) k = Some r" "outcome r \<noteq> FAILED_CLEAN"
      by (auto simp: call_spent_def allows_new_attempt_def split: option.splits)
    from d obtain x where x: "snd (decide_existing r t s) = Inr x" "d = the x"
      by (auto simp: idem_begin_existing [OF v r] split: sum.splits)
    with r(2) obtain y where "x = Some y"
      using decide_existing_NoneD [of r t s] by (cases x) (auto simp: prod_eq_iff)
    with x d show False using decide_existing_not_new [of r t s] by (auto simp: prod_eq_iff)
  qed
  then have "map_of (records s) k = None \<or> (\<exists>r. map_of (records s) k = Some r \<and> outcome r = FAILED_CLEAN)"
    by (auto simp: call_spent_def allows_new_attempt_def split: option.splits)
  from idem_begin_fresh [OF v assms(1) this, of p op tg t] claim_issues [of k p rp op dg tg t s d] d j
  show "call_spent k (idem_step s (Begin j p rp op dg tg t))"
    by (simp add: call_spent_def allows_new_attempt_def)
qed

text \<open>A record that allows no new attempt keeps that status under every operation but those that reopen it.\<close>

lemma claim_keeps_spent:
  assumes "call_spent k s"
  shows "call_spent k (fst (claim j p rp op dg tg t s))"
  using assms
  by (cases rule: claim_cases [of p rp op tg t s j dg]) (auto simp: call_spent_def allows_new_attempt_def)

lemma decide_keeps_spent:
  assumes "idem_inv s" "map_of (records s) j = Some r" "call_spent k s"
  shows "call_spent k (fst (decide_existing r t s))"
  using assms
  by (cases "outcome r") (simp_all add: decide_existing_def call_spent_def allows_new_attempt_def)

lemma begin_keeps_spent:
  assumes "idem_inv s" "call_spent k s"
  shows "call_spent k (fst (idem_begin j p rp op dg tg t s))"
proof (cases "begin_valid j dg rp")
  case True
  show ?thesis
  proof (cases "\<exists>r. map_of (records s) j = Some r \<and> outcome r \<noteq> FAILED_CLEAN")
    case r: True
    then obtain r where "map_of (records s) j = Some r" "outcome r \<noteq> FAILED_CLEAN" by blast
    with True assms show ?thesis by (simp add: idem_begin_existing decide_keeps_spent)
  next
    case False
    then have "map_of (records s) j = None \<or> (\<exists>r. map_of (records s) j = Some r \<and> outcome r = FAILED_CLEAN)"
      by auto
    with True assms show ?thesis by (simp add: idem_begin_fresh claim_keeps_spent)
  qed
next
  case False
  with assms show ?thesis by (elim idem_begin_invalid [of j dg rp p op tg t s]) simp
qed

lemma resolve_keeps_spent:
  assumes "call_spent k s" "out = FAILED_CLEAN \<longrightarrow> j \<noteq> k"
  shows "call_spent k (fst (idem_resolve j out t res rsn s))"
  using assms
  by (auto simp: idem_resolve_def Let_def call_spent_def allows_new_attempt_def split: option.splits)

lemma reconcile_keeps_spent:
  assumes "call_spent k s" "j = k \<longrightarrow> c"
  shows "call_spent k (fst (idem_reconcile j c res t s))"
  using assms
  by (auto simp: idem_reconcile_def Let_def call_spent_def allows_new_attempt_def split: option.splits)

interpretation idu: single_use idem_step idem_inv "issues_call k" "call_spent k" "reopens k" for k
proof
  fix s x
  assume inv: "idem_inv s"
  then show "idem_inv (idem_step s x)" by (rule idem_inv_step)
  assume sp: "issues_call k s x"
  then obtain j p rp op dg tg t where x: "x = Begin j p rp op dg tg t" by (cases x) auto
  show "\<not> call_spent k s" "call_spent k (idem_step s x)"
    using issues_callD [OF inv sp [unfolded x]] x by simp_all
next
  fix s x
  assume "idem_inv s" "call_spent k s" "\<not> reopens k x"
  then show "call_spent k (idem_step s x)"
    by (cases x) (simp_all add: idem_commit_def idem_fail_clean_def idem_mark_ambiguous_def
        begin_keeps_spent resolve_keeps_spent reconcile_keeps_spent)
qed

subsection \<open>Settled records\<close>

text \<open>The operations that may touch a settled record: purges a terminal one, reconciliation an ambiguous one.\<close>

fun touches :: "string \<Rightarrow> mutation_outcome \<Rightarrow> idem_op \<Rightarrow> bool" where
  "touches k out (Purge t n) \<longleftrightarrow> out \<noteq> AMBIGUOUS"
| "touches k out (Reconcile j c res t) \<longleftrightarrow> j = k \<and> out = AMBIGUOUS"
| "touches k out _ \<longleftrightarrow> False"

definition settled :: "string \<Rightarrow> idem_record \<Rightarrow> idem_store \<Rightarrow> bool" where
  "settled k r s \<longleftrightarrow> map_of (records s) k = Some r \<and> outcome r \<in> {COMMITTED, AMBIGUOUS, DENIED}"

lemma settled_claim: "settled k r s \<Longrightarrow> j \<noteq> k \<Longrightarrow> settled k r (fst (claim j p rp op dg tg t s))"
  by (cases rule: claim_cases [of p rp op tg t s j dg]) (auto simp: settled_def)

lemma settled_decide:
  "idem_inv s \<Longrightarrow> map_of (records s) j = Some q \<Longrightarrow> settled k r s \<Longrightarrow>
   settled k r (fst (decide_existing q t s))"
  by (cases "outcome q"; cases "j = k") (auto simp: settled_def decide_existing_def idem_invD(1))

lemma settled_begin:
  assumes "idem_inv s" "settled k r s"
  shows "settled k r (fst (idem_begin j p rp op dg tg t s))"
proof (cases "begin_valid j dg rp")
  case True
  show ?thesis
  proof (cases "\<exists>q. map_of (records s) j = Some q \<and> outcome q \<noteq> FAILED_CLEAN")
    case q: True
    then obtain q where "map_of (records s) j = Some q" "outcome q \<noteq> FAILED_CLEAN" by blast
    with True assms show ?thesis by (simp add: idem_begin_existing settled_decide)
  next
    case False
    then have fresh: "map_of (records s) j = None \<or> (\<exists>q. map_of (records s) j = Some q \<and> outcome q = FAILED_CLEAN)"
      by auto
    with assms have "j \<noteq> k" by (auto simp: settled_def)
    with True fresh assms show ?thesis by (simp add: idem_begin_fresh settled_claim)
  qed
next
  case False
  with assms show ?thesis by (elim idem_begin_invalid [of j dg rp p op tg t s]) simp
qed

lemma settled_resolve: "settled k r s \<Longrightarrow> settled k r (fst (idem_resolve j out t res rsn s))"
  by (cases "j = k") (auto simp: settled_def idem_resolve_def Let_def split: option.split)

lemma settled_step:
  assumes "idem_inv s" "settled k r s" "\<not> touches k (outcome r) x"
  shows "settled k r (idem_step s x)"
proof (cases x)
  case (Reconcile j c res t)
  with assms(2,3) show ?thesis
    by (cases "j = k") (auto simp: settled_def idem_reconcile_def Let_def split: option.split)
next
  case (Purge t n)
  with assms show ?thesis by (simp add: settled_def records_purge purgeable_def)
qed (use assms in \<open>simp_all add: settled_begin settled_resolve idem_commit_def idem_fail_clean_def
       idem_mark_ambiguous_def\<close>)

lemma settled_run:
  "idem_inv s \<Longrightarrow> settled k r s \<Longrightarrow> \<forall>x \<in> set xs. \<not> touches k (outcome r) x \<Longrightarrow>
   settled k r (run_ops idem_step s xs)"
  by (induction xs arbitrary: s) (simp_all add: settled_step idem_inv_step)

lemma store_new_inv: "store_new n = Inr s \<Longrightarrow> idem_inv (run_ops idem_step s xs)"
  by (auto simp: store_new_def idem_inv_empty intro!: idu.run_inv split: if_splits)

lemma idem_commit_settles:
  assumes "snd (idem_commit k res t s) = Inr r"
  shows "settled k r (fst (idem_commit k res t s))" "outcome r = COMMITTED" "rec_result r = Some res"
  using assms
  by (auto simp: idem_commit_def idem_resolve_def Let_def settled_def split: option.splits if_splits)

subsection \<open>Properties\<close>

text \<open>
  C15. At most one provider call per key: from a new store, after any history \<open>ys\<close>, no sequence of
  store operations that neither files a clean failure of the key nor purges makes \<open>begin\<close> answer
  \<open>NEW\<close> for that key more than once.
\<close>

theorem idem_single_call:
  assumes "store_new n = Inr s" and "\<forall>x \<in> set xs. \<not> reopens k x"
  shows "spend_count idem_step (issues_call k) (run_ops idem_step s ys) xs \<le> 1"
  using store_new_inv [OF assms(1)] assms(2) by (rule idu.spend_at_most_once)

definition sample_key :: string where
  "sample_key = replicate 64 (CHR ''a'')"

definition sample_key2 :: string where
  "sample_key2 = replicate 64 (CHR ''b'')"

lemma sample_digest: "require_digest sample_key d = Inr ()" "require_digest sample_key2 d = Inr ()"
proof -
  have "hex_lower (CHR ''a'')" "hex_lower (CHR ''b'')" by code_simp+
  then show "require_digest sample_key d = Inr ()" "require_digest sample_key2 d = Inr ()"
    by (simp_all add: require_digest_def sample_key_def sample_key2_def list_all_iff)
qed

lemma sample_repository: "require_repository ''o/r'' = Inr ()"
  by code_simp

lemma sample_valid: "begin_valid sample_key sample_key ''o/r''" "begin_valid sample_key2 sample_key ''o/r''"
  by (simp_all add: begin_valid_def sample_digest sample_repository)

theorem idem_single_call_witness:
  "spend_count idem_step (issues_call sample_key)
     (run_ops idem_step \<lparr>lease_seconds = 120, records = [], leases = []\<rparr> [])
     [Begin sample_key ''p'' ''o/r'' ''x.merge_pr'' sample_key ''7'' 0,
      Begin sample_key ''p'' ''o/r'' ''x.merge_pr'' sample_key ''7'' 5,
      Commit sample_key ''{}'' 9,
      Begin sample_key ''p'' ''o/r'' ''x.merge_pr'' sample_key ''7'' 10] \<le> 1"
  by (rule idem_single_call [of 120]) (simp_all add: store_new_def)

text \<open>
  Replay: once \<open>commit\<close> has accepted a result, every later valid \<open>begin\<close> of the key answers
  \<open>REPLAYED\<close> with that very record and result and changes nothing, whatever operations other than
  a purge happened in between.
\<close>

theorem idem_replay:
  assumes "store_new n = Inr s" and "s1 = run_ops idem_step s ys"
    and "snd (idem_commit k res t s1) = Inr r"
    and "\<forall>x \<in> set xs. \<forall>u m. x \<noteq> Purge u m"
    and "s2 = run_ops idem_step (fst (idem_commit k res t s1)) xs"
    and "begin_valid k dg rp"
  shows "rec_result r = Some res \<and>
    idem_begin k p rp op dg tg u s2 =
      (s2, Inr \<lparr>idem_status = REPLAYED, decided_record = r, decided_lease = None\<rparr>)"
proof -
  have inv: "idem_inv (fst (idem_commit k res t s1))"
    using store_new_inv [OF assms(1)] assms(2) by (simp add: idem_commit_def idem_inv_resolve)
  note c = idem_commit_settles [OF assms(3)]
  have "\<not> touches k (outcome r) x" if "x \<in> set xs" for x
    using assms(4) that c(2) by (cases x) auto
  from settled_run [OF inv c(1)] this have "settled k r s2" by (simp add: assms(5))
  with c(2) have "map_of (records s2) k = Some r" "outcome r \<noteq> FAILED_CLEAN"
    by (simp_all add: settled_def)
  from idem_begin_existing [OF assms(6) this] c(2,3)
  show ?thesis by (simp add: decide_existing_def)
qed

lemmas idem_eval = idem_begin_def claim_def Let_def held_by_other_def new_lease_def new_record_def
  idem_commit_def idem_resolve_def put_record_def pop_lease_def lease_lock_key_def
  operation_family_def last_segment_def starts_with_def decide_existing_def lease_live_def is_expired_def
  lose_lease_def

theorem idem_replay_witness:
  "\<exists>r. snd (idem_begin sample_key ''p'' ''o/r'' ''x.merge_pr'' sample_key ''7'' 99
      (idem_step \<lparr>lease_seconds = 120, records =
         [(sample_key, new_record sample_key ''p'' ''o/r'' ''x.merge_pr'' sample_key 0
             \<lparr>repository = ''o/r'', operation = ''x.merge_pr'', target = ''7'', lease_owner = ''p'',
              lease_acquired_at = 0, lease_expires_at = 120000000\<rparr>)],
         leases = [(''o/r#merge#7'', sample_key)]\<rparr> (Commit sample_key ''{ok}'' 9))) =
     Inr \<lparr>idem_status = REPLAYED, decided_record = r, decided_lease = None\<rparr> \<and> rec_result r = Some ''{ok}''"
proof -
  let ?s = "\<lparr>lease_seconds = 120, records = [], leases = []\<rparr>"
  let ?b = "Begin sample_key ''p'' ''o/r'' ''x.merge_pr'' sample_key ''7'' 0"
  have b: "run_ops idem_step ?s [?b] = \<lparr>lease_seconds = 120, records =
         [(sample_key, new_record sample_key ''p'' ''o/r'' ''x.merge_pr'' sample_key 0
             \<lparr>repository = ''o/r'', operation = ''x.merge_pr'', target = ''7'', lease_owner = ''p'',
              lease_acquired_at = 0, lease_expires_at = 120000000\<rparr>)],
         leases = [(''o/r#merge#7'', sample_key)]\<rparr>" (is "_ = ?s1")
    using sample_valid(1) by (simp add: begin_valid_def idem_eval)
  have "\<exists>r. snd (idem_commit sample_key ''{ok}'' 9 ?s1) = Inr r"
    by (simp add: idem_eval)
  then obtain r where "snd (idem_commit sample_key ''{ok}'' 9 ?s1) = Inr r" by blast
  from idem_replay [of 120 ?s ?s1 "[?b]" sample_key "''{ok}''" 9 r "[]" _ sample_key "''o/r''"
      "''p''" "''x.merge_pr''" "''7''" 99, OF _ b [symmetric] this] sample_valid(1)
  show ?thesis by (simp add: store_new_def)
qed

text \<open>
  An ambiguous record is never forgotten and never retried blindly: no operation other than
  \<open>reconcile\<close> of its key changes it (not even a purge), and every valid \<open>begin\<close> of the key is
  refused with \<open>RECONCILIATION_REQUIRED\<close> and no effect.
\<close>

theorem idem_ambiguous_sticks:
  assumes "store_new n = Inr s" and "s1 = run_ops idem_step s ys"
    and "idem_get k s1 = Some r" and "outcome r = AMBIGUOUS"
    and "\<forall>x \<in> set xs. \<forall>c res u. x \<noteq> Reconcile k c res u"
    and "s2 = run_ops idem_step s1 xs" and "begin_valid k dg rp"
  shows "idem_get k s2 = Some r \<and>
    idem_begin k p rp op dg tg u s2 = (s2, Inl (IdempotencyConflictError RECONCILIATION_REQUIRED ''ambiguous''))"
proof -
  have inv: "idem_inv s1" using store_new_inv [OF assms(1)] assms(2) by simp
  have "\<not> touches k (outcome r) x" if "x \<in> set xs" for x
    using assms(4,5) that by (cases x) auto
  moreover have "settled k r s1" using assms(3,4) by (simp add: settled_def idem_get_def)
  ultimately have "settled k r s2" using settled_run [OF inv] by (simp add: assms(6))
  then have r: "map_of (records s2) k = Some r" by (simp add: settled_def)
  with idem_begin_existing [OF assms(7) r] assms(4)
  show ?thesis by (simp add: decide_existing_def idem_get_def)
qed

definition sample_lease :: mutation_lease where
  "sample_lease = \<lparr>repository = ''o/r'', operation = ''x.merge_pr'', target = ''7'',
     lease_owner = ''p'', lease_acquired_at = 0, lease_expires_at = 120000000\<rparr>"

definition sample_pending :: idem_store where
  "sample_pending = \<lparr>lease_seconds = 120,
     records = [(sample_key, new_record sample_key ''p'' ''o/r'' ''x.merge_pr'' sample_key 0 sample_lease)],
     leases = [(''o/r#merge#7'', sample_key)]\<rparr>"

lemma sample_pending_reached:
  "sample_pending = run_ops idem_step \<lparr>lease_seconds = 120, records = [], leases = []\<rparr>
     [Begin sample_key ''p'' ''o/r'' ''x.merge_pr'' sample_key ''7'' 0]"
  using sample_valid(1)
  by (simp add: begin_valid_def sample_pending_def sample_lease_def idem_eval)

lemma sample_keys_differ: "sample_key2 \<noteq> sample_key"
  by (simp add: sample_key_def sample_key2_def)

theorem idem_ambiguous_sticks_witness:
  "snd (idem_begin sample_key ''p'' ''o/r'' ''x.merge_pr'' sample_key ''7'' 99
     (run_ops idem_step sample_pending [Mark_ambiguous sample_key 5, Purge 999999999999 0])) =
   Inl (IdempotencyConflictError RECONCILIATION_REQUIRED ''ambiguous'')"
proof -
  let ?s1 = "run_ops idem_step sample_pending [Mark_ambiguous sample_key 5]"
  have r: "?s1 = run_ops idem_step \<lparr>lease_seconds = 120, records = [], leases = []\<rparr>
     [Begin sample_key ''p'' ''o/r'' ''x.merge_pr'' sample_key ''7'' 0, Mark_ambiguous sample_key 5]"
    unfolding sample_pending_reached by (simp only: run_ops_append [symmetric] append.simps)
  have "\<exists>r. idem_get sample_key ?s1 = Some r \<and> outcome r = AMBIGUOUS"
    by (simp add: sample_pending_def idem_mark_ambiguous_def idem_eval idem_get_def)
  then obtain q where "idem_get sample_key ?s1 = Some q" "outcome q = AMBIGUOUS" by blast
  from idem_ambiguous_sticks [OF _ r this, of 120 "[Purge 999999999999 0]" _ sample_key "''o/r''"
      "''p''" "''x.merge_pr''" "''7''" 99] sample_valid(1)
  show ?thesis by (simp add: store_new_def)
qed

text \<open>
  Mutual exclusion: in every reachable state a pending record holds a lease, no two pending
  records have leases on the same lock key, and while such a lease is live a \<open>begin\<close> of any other
  key for the same repository, family and target fails with \<open>OPERATION_IN_PROGRESS\<close> (or is
  answered from its own record) and never gets \<open>NEW\<close>.
\<close>

theorem idem_lock_excludes:
  assumes "store_new n = Inr s0" and "s = run_ops idem_step s0 ys"
    and "idem_get j s = Some h" and "outcome h = PENDING"
  shows "\<exists>l. lease h = Some l \<and>
    (\<forall>i x m. idem_get i s = Some x \<and> outcome x = PENDING \<and> lease x = Some m \<and>
       lease_lock_key m = lease_lock_key l \<longrightarrow> i = j) \<and>
    (\<forall>k p rp op dg tg t d. k \<noteq> j \<and> \<not> is_expired l t \<and>
       lease_lock_key l = lease_lock_key (new_lease p rp op tg t s) \<longrightarrow>
       snd (idem_begin k p rp op dg tg t s) = Inr d \<longrightarrow> \<not> executes_provider_call d)"
proof -
  have inv: "idem_inv s" using store_new_inv [OF assms(1)] assms(2) by simp
  have h: "map_of (records s) j = Some h" using assms(3) by (simp add: idem_get_def)
  obtain l where l: "lease h = Some l" using idem_invD(2) [OF inv h] assms(4) by auto
  have lj: "map_of (leases s) (lease_lock_key l) = Some j" using idem_invD(3) [OF inv h l] .
  have one: "i = j" if "idem_get i s = Some x" "lease x = Some m" "lease_lock_key m = lease_lock_key l" for i x m
    using idem_invD(3) [OF inv, of i x m] that lj by (simp add: idem_get_def)
  have "\<not> executes_provider_call d"
    if k: "k \<noteq> j" "\<not> is_expired l t" "lease_lock_key l = lease_lock_key (new_lease p rp op tg t s)"
      and d: "snd (idem_begin k p rp op dg tg t s) = Inr d" for k p rp op dg tg t d
  proof
    assume new: "executes_provider_call d"
    from k lj h assms(4) have "held_by_other k (lease_lock_key (new_lease p rp op tg t s)) s = Some (j, h)"
      by (simp add: held_by_other_def)
    then have "snd (claim k p rp op dg tg t s) = Inl (IdempotencyConflictError OPERATION_IN_PROGRESS ''lock_key'')"
      using k(2) l by (simp add: claim_def Let_def lease_live_def)
    moreover from issues_callD(2) [of s k k p rp op dg tg t] inv d new have "\<not> call_spent k s" by simp
    then have "map_of (records s) k = None \<or> (\<exists>r. map_of (records s) k = Some r \<and> outcome r = FAILED_CLEAN)"
      by (auto simp: call_spent_def allows_new_attempt_def split: option.splits)
    moreover have "begin_valid k dg rp"
      using d by (cases "begin_valid k dg rp") (auto elim: idem_begin_invalid [of k dg rp p op tg t s])
    ultimately show False using idem_begin_fresh [of k dg rp s p op tg t] inv d by simp
  qed
  with l one show ?thesis by blast
qed

theorem idem_lock_excludes_witness:
  "\<not> issues_call sample_key2 sample_pending
       (Begin sample_key2 ''q'' ''o/r'' ''y.merge_pr'' sample_key ''7'' 5)"
proof -
  have g: "idem_get sample_key sample_pending =
      Some (new_record sample_key ''p'' ''o/r'' ''x.merge_pr'' sample_key 0 sample_lease)"
    by (simp add: sample_pending_def idem_get_def)
  have k: "lease_lock_key sample_lease = lease_lock_key (new_lease ''q'' ''o/r'' ''y.merge_pr'' ''7'' 5 sample_pending)"
    by (simp add: sample_lease_def idem_eval)
  have e: "\<not> is_expired sample_lease 5" by (simp add: is_expired_def sample_lease_def)
  have n: "store_new 120 = Inr \<lparr>lease_seconds = 120, records = [], leases = []\<rparr>"
    by (simp add: store_new_def)
  show ?thesis
  proof
    assume "issues_call sample_key2 sample_pending
       (Begin sample_key2 ''q'' ''o/r'' ''y.merge_pr'' sample_key ''7'' 5)"
    then obtain d where "snd (idem_begin sample_key2 ''q'' ''o/r'' ''y.merge_pr'' sample_key ''7'' 5
        sample_pending) = Inr d" "executes_provider_call d"
      by (auto split: sum.splits)
    with idem_lock_excludes [OF n sample_pending_reached g] k e sample_keys_differ show False
      by fastforce
  qed
qed

text \<open>
  After a lease is lost the guarantee is weaker than the first refusal suggests: the first
  \<open>begin\<close> of another key after the holder's lease expired fails with \<open>RECONCILIATION_REQUIRED\<close>
  and files the holder as ambiguous, but the same \<open>begin\<close> repeated is granted \<open>NEW\<close> although
  nobody reconciled the holder, whose record is still ambiguous.
\<close>

theorem idem_lost_lease_regranted:
  assumes "store_new n = Inr s0" and "s = run_ops idem_step s0 ys"
    and "idem_get j s = Some h" and "lease h = Some l" and "is_expired l t"
    and "k \<noteq> j" and "idem_get k s = None" and "begin_valid k dg rp"
    and "lease_lock_key l = lease_lock_key (new_lease p rp op tg t s)"
  shows "\<exists>s1 s2 d. idem_begin k p rp op dg tg t s =
      (s1, Inl (IdempotencyConflictError RECONCILIATION_REQUIRED ''lock_key'')) \<and>
    idem_begin k p rp op dg tg t s1 = (s2, Inr d) \<and> executes_provider_call d \<and>
    idem_get j s2 = Some (lose_lease t h)"
proof -
  have inv: "idem_inv s" using store_new_inv [OF assms(1)] assms(2) by simp
  have h: "map_of (records s) j = Some h" using assms(3) by (simp add: idem_get_def)
  have pend: "outcome h = PENDING" using idem_invD(2) [OF inv h] assms(4) by simp
  have lj: "map_of (leases s) (lease_lock_key l) = Some j" using idem_invD(3) [OF inv h assms(4)] .
  define s1 where "s1 = put_record j (lose_lease t h) s"
  have c1: "claim k p rp op dg tg t s =
      (s1, Inl (IdempotencyConflictError RECONCILIATION_REQUIRED ''lock_key''))"
    using lj h pend assms(4-6,9) by (simp add: claim_def Let_def held_by_other_def lease_live_def s1_def)
  have inv1: "idem_inv s1" unfolding s1_def
    using idem_inv_settle [OF inv, of "lose_lease t h" j] idem_invD(1) [OF inv h] by simp
  have k0: "map_of (records s) k = None" "map_of (records s1) k = None"
    using assms(6,7) by (simp_all add: idem_get_def s1_def)
  have nl: "new_lease p rp op tg t s1 = new_lease p rp op tg t s" by (simp add: new_lease_def s1_def)
  have "held_by_other k (lease_lock_key (new_lease p rp op tg t s1)) s1 = None"
    using lj assms(6,9) nl by (simp add: held_by_other_def s1_def)
  then obtain s2 d where c2: "claim k p rp op dg tg t s1 = (s2, Inr d)" "idem_status d = NEW"
      "map_of (records s2) = (map_of (records s1))(k \<mapsto> decided_record d)"
    by (simp add: claim_def Let_def)
  have "idem_begin k p rp op dg tg t s = (s1, Inl (IdempotencyConflictError RECONCILIATION_REQUIRED ''lock_key''))"
    using idem_begin_fresh [OF assms(8) inv] k0 c1 by simp
  moreover have "idem_begin k p rp op dg tg t s1 = (s2, Inr d)"
    using idem_begin_fresh [OF assms(8) inv1] k0 c2 by simp
  moreover have "idem_get j s2 = Some (lose_lease t h)"
    using c2(3) assms(6) by (simp add: idem_get_def s1_def)
  ultimately show ?thesis using c2(2) by (auto simp: executes_provider_call_def)
qed

theorem idem_lost_lease_regranted_witness:
  "\<exists>s1 s2 d. idem_begin sample_key2 ''q'' ''o/r'' ''y.merge_pr'' sample_key ''7'' 120000000 sample_pending =
      (s1, Inl (IdempotencyConflictError RECONCILIATION_REQUIRED ''lock_key'')) \<and>
    idem_begin sample_key2 ''q'' ''o/r'' ''y.merge_pr'' sample_key ''7'' 120000000 s1 = (s2, Inr d) \<and>
    executes_provider_call d"
proof -
  have g: "idem_get sample_key sample_pending =
      Some (new_record sample_key ''p'' ''o/r'' ''x.merge_pr'' sample_key 0 sample_lease)"
    by (simp add: sample_pending_def idem_get_def)
  have "lease_lock_key sample_lease =
      lease_lock_key (new_lease ''q'' ''o/r'' ''y.merge_pr'' ''7'' 120000000 sample_pending)"
    by (simp add: sample_lease_def idem_eval)
  moreover have "is_expired sample_lease 120000000" by (simp add: is_expired_def sample_lease_def)
  moreover have "idem_get sample_key2 sample_pending = None"
    using sample_keys_differ by (simp add: sample_pending_def idem_get_def)
  ultimately show ?thesis
    using idem_lost_lease_regranted [OF _ sample_pending_reached g, of 120 sample_lease 120000000 sample_key2
        sample_key "''o/r''" "''q''" "''y.merge_pr''" "''7''"] sample_keys_differ sample_valid(2)
    by (auto simp: store_new_def)
qed

end
