(* ===== verification/Json.thy ===== *)
theory Json
  imports Prelude "HOL-Library.Multiset"
begin

section \<open>Canonical JSON (v2/canonical.py)\<close>

text \<open>
  The values that flow through plans, checkpoints and digests, and their canonical text. A Python
  \<open>str\<close> is represented by its UTF-8 bytes: byte-wise lexicographic order of UTF-8 is code point
  order, so sorting keys agrees with Python, and the length of the list is the length of the
  encoded text. A \<open>dict\<close> is an association list with distinct keys in insertion order; a finite
  \<open>float\<close> is a rational.

  The result that matters to the digests built on it is \<open>canonical_json_text_eq\<close>: two values
  have the same canonical text exactly when they are the same value up to the order of keys.
\<close>

datatype json =
  JNull
| JBool bool
| JInt int
| JFloat rat
| JStr string
| JList "json list"
| JObj "(string \<times> json) list"

fun json_wf :: "json \<Rightarrow> bool" where
  "json_wf (JList xs) \<longleftrightarrow> (\<forall>x \<in> set xs. json_wf x)"
| "json_wf (JObj kvs) \<longleftrightarrow> distinct (map fst kvs) \<and> (\<forall>(k, v) \<in> set kvs. json_wf v)"
| "json_wf _ \<longleftrightarrow> True"

text \<open>\<open>_validate\<close>: floats have no canonical text. (Keys are strings by their type here.)\<close>

fun json_validate :: "json \<Rightarrow> bool" where
  "json_validate (JFloat r) \<longleftrightarrow> False"
| "json_validate (JList xs) \<longleftrightarrow> (\<forall>x \<in> set xs. json_validate x)"
| "json_validate (JObj kvs) \<longleftrightarrow> (\<forall>(k, v) \<in> set kvs. json_validate v)"
| "json_validate _ \<longleftrightarrow> True"

subsection \<open>\<open>json.dumps\<close> with sorted keys, compact separators and raw UTF-8\<close>

definition digit :: "nat \<Rightarrow> char" where
  "digit n = char_of (48 + n)"

fun nat_text :: "nat \<Rightarrow> string" where
  "nat_text n = (if n < 10 then [digit n] else nat_text (n div 10) @ [digit (n mod 10)])"

declare nat_text.simps [simp del]

definition int_text :: "int \<Rightarrow> string" where
  "int_text i = (if i < 0 then CHR ''-'' # nat_text (nat (- i)) else nat_text (nat i))"

definition hex_digit :: "nat \<Rightarrow> char" where
  "hex_digit n = (if n < 10 then char_of (48 + n) else char_of (87 + n))"

definition quote_char :: char where "quote_char = CHR 0x22"

definition backslash :: char where "backslash = CHR 0x5C"

text \<open>The characters with a two-character escape, with the second character of it.\<close>

definition short_escapes :: "(char \<times> char) list" where
  "short_escapes =
     [(CHR 0x22, CHR 0x22), (CHR 0x5C, CHR 0x5C), (CHR 0x0A, CHR ''n''), (CHR 0x0D, CHR ''r''),
      (CHR 0x09, CHR ''t''), (CHR 0x0C, CHR ''f''), (CHR 0x08, CHR ''b'')]"

definition escape :: "char \<Rightarrow> string" where
  "escape c =
     (case map_of short_escapes c of
        Some d \<Rightarrow> [backslash, d]
      | None \<Rightarrow>
          if of_char c < (32 :: nat)
          then [backslash, CHR ''u'', CHR ''0'', CHR ''0'', hex_digit (of_char c div 16), hex_digit (of_char c mod 16)]
          else [c])"

definition str_text :: "string \<Rightarrow> string" where
  "str_text s = quote_char # concat (map escape s) @ [quote_char]"

fun seq_text :: "char \<Rightarrow> string list \<Rightarrow> string" where
  "seq_text close [] = [close]"
| "seq_text close [x] = x @ [close]"
| "seq_text close (x # y # xs) = x @ CHR '','' # seq_text close (y # xs)"

fun dumps :: "json \<Rightarrow> string" where
  "dumps JNull = ''null''"
| "dumps (JBool b) = (if b then ''true'' else ''false'')"
| "dumps (JInt i) = int_text i"
| "dumps (JFloat r) = ''''"
| "dumps (JStr s) = str_text s"
| "dumps (JList xs) = CHR ''['' # seq_text (CHR '']'') (map dumps xs)"
| "dumps (JObj kvs) = CHR ''{'' # seq_text (CHR ''}'')
     (map (\<lambda>(k, t). str_text k @ CHR '':'' # t) (sort_key fst (map (\<lambda>(k, v). (k, dumps v)) kvs)))"

text \<open>\<open>canonical_json_text\<close> and \<open>canonical_json_bytes\<close>; \<open>Inl\<close> is the \<open>TypeError\<close>.\<close>

definition canonical_json_text :: "json \<Rightarrow> (string, string) result" where
  "canonical_json_text v = (if json_validate v then Inr (dumps v) else Inl ''non-canonical value'')"

text \<open>\<open>canonical_hash\<close> over any digest function \<open>sha\<close> (\<open>hashlib.sha256(...).hexdigest()\<close>).\<close>

definition canonical_hash :: "(string \<Rightarrow> string) \<Rightarrow> json \<Rightarrow> (string, string) result" where
  "canonical_hash sha v = (case canonical_json_text v of Inl e \<Rightarrow> Inl e | Inr t \<Rightarrow> Inr (sha t))"

subsection \<open>Keys in order\<close>

text \<open>The same value with the keys of every object sorted.\<close>

fun canon :: "json \<Rightarrow> json" where
  "canon (JList xs) = JList (map canon xs)"
| "canon (JObj kvs) = JObj (sort_key fst (map (\<lambda>(k, v). (k, canon v)) kvs))"
| "canon v = v"

text \<open>Printing without sorting.\<close>

fun plain :: "json \<Rightarrow> string" where
  "plain (JList xs) = CHR ''['' # seq_text (CHR '']'') (map plain xs)"
| "plain (JObj kvs) = CHR ''{'' # seq_text (CHR ''}'') (map (\<lambda>(k, v). str_text k @ CHR '':'' # plain v) kvs)"
| "plain v = dumps v"

lemma sort_key_fst_map:
  "sort_key fst (map (\<lambda>(k, v). (k, f v)) xs) = map (\<lambda>(k, v). (k, f v)) (sort_key fst xs)"
proof -
  have ins: "insort_key fst (k, f v) (map (\<lambda>(k, v). (k, f v)) ys) =
      map (\<lambda>(k, v). (k, f v)) (insort_key fst (k, v) ys)" for k :: "'a" and v ys
    by (induction ys) auto
  show ?thesis by (induction xs) (auto simp: ins)
qed

lemma dumps_canon: "dumps v = plain (canon v)"
proof (induction v)
  case (JList xs)
  then show ?case by (simp cong: map_cong)
next
  case (JObj kvs)
  then have "map (\<lambda>(k, v). (k, dumps v)) kvs = map (\<lambda>(k, v). (k, plain (canon v))) kvs"
    by (auto intro!: map_cong simp: snds.simps)
  also have "sort_key fst \<dots> = map (\<lambda>(k, v). (k, plain v)) (sort_key fst (map (\<lambda>(k, v). (k, canon v)) kvs))"
    using sort_key_fst_map [of plain "map (\<lambda>(k, v). (k, canon v)) kvs"] by (simp add: case_prod_unfold comp_def)
  finally show ?case by (simp add: case_prod_unfold comp_def)
qed simp_all

subsection \<open>The text determines the value\<close>

text \<open>Every piece of the text can be read back from its front, whatever follows it.\<close>

lemma digit_inj: "m < 10 \<Longrightarrow> n < 10 \<Longrightarrow> digit m = digit n \<Longrightarrow> m = n"
  using arg_cong [of "digit m" "digit n" "of_char :: char \<Rightarrow> nat"] by (simp add: digit_def)

lemma of_char_digit: "n < 10 \<Longrightarrow> of_char (digit n) = 48 + n"
  by (simp add: digit_def)

definition is_digit :: "char \<Rightarrow> bool" where
  "is_digit c \<longleftrightarrow> (48 :: nat) \<le> of_char c \<and> of_char c \<le> (57 :: nat)"

lemma is_digit_digit [simp]: "n < 10 \<Longrightarrow> is_digit (digit n)"
  by (simp add: is_digit_def of_char_digit)

lemma nat_text_digits: "c \<in> set (nat_text n) \<Longrightarrow> is_digit c"
  by (induction n rule: nat_text.induct) (subst (asm) (2) nat_text.simps, auto split: if_splits)

lemma nat_text_nonempty [simp]: "nat_text n \<noteq> []" "[] \<noteq> nat_text n"
  by (subst nat_text.simps, simp)+

lemma nat_text_inj: "nat_text m = nat_text n \<Longrightarrow> m = n"
proof (induction m arbitrary: n rule: nat_text.induct)
  case (1 m)
  have big: "nat_text k = nat_text (k div 10) @ [digit (k mod 10)]" if "\<not> k < 10" for k
    using that by (subst nat_text.simps) simp
  have small: "nat_text k = [digit k]" if "k < 10" for k
    using that by (subst nat_text.simps) simp
  consider "m < 10" "n < 10" | "m < 10" "\<not> n < 10" | "\<not> m < 10" "n < 10" | "\<not> m < 10" "\<not> n < 10" by blast
  then show ?case
  proof cases
    case 1
    with "1.prems" show ?thesis using digit_inj [of m n] by (simp add: small)
  next
    case 4
    with "1.prems" have "nat_text (m div 10) = nat_text (n div 10)" "digit (m mod 10) = digit (n mod 10)"
      by (simp_all add: big)
    with "1.IH" 4 digit_inj [of "m mod 10" "n mod 10"] have "m div 10 = n div 10" "m mod 10 = n mod 10" by simp_all
    then show ?thesis by (metis div_mult_mod_eq)
  qed (use "1.prems" in \<open>simp_all add: small big\<close>)
qed

text \<open>What may follow a number: nothing, or a character that is no digit.\<close>

definition ends_number :: "string \<Rightarrow> bool" where
  "ends_number xs \<longleftrightarrow> (case xs of [] \<Rightarrow> True | c # _ \<Rightarrow> \<not> is_digit c)"

lemma prefix_digits:
  assumes "\<forall>c \<in> set u. is_digit c" "\<forall>c \<in> set v. is_digit c" "ends_number xs" "ends_number ys" "u @ xs = v @ ys"
  shows "u = v \<and> xs = ys"
  using assms
proof (induction u arbitrary: v)
  case Nil
  then show ?case by (cases v) (auto simp: ends_number_def)
next
  case (Cons c u)
  then show ?case by (cases v) (auto simp: ends_number_def)
qed

lemma minus_no_digit [simp]: "\<not> is_digit (CHR ''-'')"
  by (simp add: is_digit_def)

lemma int_text_read:
  assumes "int_text i @ xs = int_text j @ ys" "ends_number xs" "ends_number ys"
  shows "i = j \<and> xs = ys"
proof -
  have hd: "hd (nat_text n) \<noteq> CHR ''-''" for n
    using nat_text_digits [of "hd (nat_text n)" n] by auto
  have rd: "m = n \<and> xs = ys" if "nat_text m @ xs = nat_text n @ ys" for m n
    using prefix_digits [of "nat_text m" "nat_text n" xs ys] that assms(2,3) nat_text_digits nat_text_inj by blast
  have mixed: "nat_text m @ us \<noteq> CHR ''-'' # vs" "CHR ''-'' # vs \<noteq> nat_text m @ us" for m us vs
    using hd [of m] nat_text_nonempty [of m] by (cases "nat_text m"; auto)+
  consider "i < 0" "j < 0" | "i < 0" "\<not> j < 0" | "\<not> i < 0" "j < 0" | "\<not> i < 0" "\<not> j < 0" by blast
  then show ?thesis
  proof cases
    case 1
    with assms(1) rd [of "nat (- i)" "nat (- j)"] show ?thesis
      by (simp add: int_text_def eq_nat_nat_iff)
  next
    case 4
    with assms(1) rd [of "nat i" "nat j"] show ?thesis
      by (simp add: int_text_def eq_nat_nat_iff)
  qed (use assms(1) mixed in \<open>simp_all add: int_text_def\<close>)
qed

lemma hex_digit_inj: "m < 16 \<Longrightarrow> n < 16 \<Longrightarrow> hex_digit m = hex_digit n \<Longrightarrow> m = n"
  using arg_cong [of "hex_digit m" "hex_digit n" "of_char :: char \<Rightarrow> nat"]
  by (simp add: hex_digit_def split: if_splits)

lemma short_escapes_inj: "map_of short_escapes c = Some d \<Longrightarrow> map_of short_escapes c' = Some d \<Longrightarrow> c = c'"
  and short_escapes_u: "map_of short_escapes c \<noteq> Some (CHR ''u'')"
  by (auto simp: short_escapes_def split: if_splits)

lemma backslash_escaped: "map_of short_escapes backslash \<noteq> None"
  and quote_escaped: "map_of short_escapes quote_char \<noteq> None"
  by (simp_all add: short_escapes_def backslash_def quote_char_def)

lemma low_char_inj:
  assumes "of_char c < (32 :: nat)" "of_char d < (32 :: nat)"
    "hex_digit (of_char c div 16) = hex_digit (of_char d div 16)"
    "hex_digit (of_char c mod 16) = hex_digit (of_char d mod 16)"
  shows "c = d"
proof -
  have "(of_char c :: nat) div 16 = of_char d div 16"
    using hex_digit_inj [OF _ _ assms(3)] assms(1,2) by linarith
  moreover have "(of_char c :: nat) mod 16 = of_char d mod 16"
    using hex_digit_inj [OF _ _ assms(4)] by simp
  ultimately have "(of_char c :: nat) = of_char d" by (metis div_mult_mod_eq)
  then show ?thesis by (metis char_of_char)
qed

lemma escape_read: "escape c @ xs = escape d @ ys \<Longrightarrow> c = d \<and> xs = ys"
  using backslash_escaped low_char_inj [of c d] short_escapes_inj [of c _ d] short_escapes_u
  by (auto simp: escape_def split: option.splits if_splits)

lemma escape_not_quote: "escape c @ xs \<noteq> quote_char # ys"
  using quote_escaped by (auto simp: escape_def backslash_def quote_char_def split: option.splits if_splits)

lemma escapes_read:
  "concat (map escape s) @ quote_char # xs = concat (map escape t) @ quote_char # ys \<Longrightarrow> s = t \<and> xs = ys"
proof (induction s arbitrary: t)
  case Nil
  then show ?case using escape_not_quote by (cases t) (auto, metis)
next
  case (Cons c s)
  show ?case
  proof (cases t)
    case Nil
    with Cons.prems show ?thesis using escape_not_quote by auto
  next
    case (Cons d u)
    with Cons.prems escape_read [of c _ d] Cons.IH [of u] show ?thesis by auto
  qed
qed

lemma str_text_read: "str_text s @ xs = str_text t @ ys \<Longrightarrow> s = t \<and> xs = ys"
  using escapes_read [of s xs t ys] by (simp add: str_text_def)

text \<open>The first character of a text tells which kind of value it is.\<close>

definition starts_int :: "char \<Rightarrow> bool" where
  "starts_int c \<longleftrightarrow> c = CHR ''-'' \<or> is_digit c"

lemma nat_text_starts: "\<exists>c cs. nat_text n = c # cs \<and> is_digit c"
proof (cases "nat_text n")
  case (Cons c cs)
  with nat_text_digits [of c n] show ?thesis by simp
qed simp

lemma int_text_starts: "\<exists>c cs. int_text i = c # cs \<and> starts_int c"
proof (cases "i < 0")
  case False
  with nat_text_starts [of "nat i"] show ?thesis by (auto simp: int_text_def starts_int_def)
qed (simp add: int_text_def starts_int_def)

lemma starts_int_simps [simp]:
  "\<not> starts_int (CHR ''n'')" "\<not> starts_int (CHR ''t'')" "\<not> starts_int (CHR ''f'')"
  "\<not> starts_int (CHR 0x22)" "\<not> starts_int (CHR ''['')" "\<not> starts_int (CHR ''{'')"
  "\<not> starts_int (CHR '']'')" "\<not> starts_int (CHR ''}'')"
  by (simp_all add: starts_int_def is_digit_def)

text \<open>The kind of the value a text starts with.\<close>

fun json_kind :: "json \<Rightarrow> nat" where
  "json_kind JNull = 0" | "json_kind (JBool b) = (if b then 1 else 2)" | "json_kind (JInt i) = 3"
| "json_kind (JFloat r) = 4" | "json_kind (JStr s) = 5" | "json_kind (JList xs) = 6" | "json_kind (JObj xs) = 7"

definition head_kind :: "char \<Rightarrow> nat" where
  "head_kind c = (if c = CHR ''n'' then 0 else if c = CHR ''t'' then 1 else if c = CHR ''f'' then 2
     else if starts_int c then 3 else if c = CHR 0x22 then 5 else if c = CHR ''['' then 6 else 7)"

lemma starts_int_head:
  assumes "starts_int c"
  shows "head_kind c = 3" "c \<noteq> CHR '']''" "c \<noteq> CHR ''}''"
proof -
  from assms have "c \<noteq> CHR ''n''" "c \<noteq> CHR ''t''" "c \<noteq> CHR ''f''" by force+
  with assms show "head_kind c = 3" by (simp add: head_kind_def)
  from assms show "c \<noteq> CHR '']''" "c \<noteq> CHR ''}''" by force+
qed

lemma plain_head:
  assumes "json_validate v"
  shows "\<exists>c cs. plain v = c # cs \<and> head_kind c = json_kind v \<and> c \<noteq> CHR '']'' \<and> c \<noteq> CHR ''}''"
proof (cases v)
  case (JInt i)
  obtain c cs where "int_text i = c # cs" "starts_int c" using int_text_starts by blast
  with JInt starts_int_head [of c] show ?thesis by simp
qed (use assms in \<open>simp_all add: head_kind_def str_text_def quote_char_def\<close>)

lemma plain_kind:
  assumes "plain v @ xs = plain w @ ys" "json_validate v" "json_validate w"
  shows "json_kind v = json_kind w"
  using plain_head [OF assms(2)] plain_head [OF assms(3)] assms(1) by auto

text \<open>Reading back a separated sequence, given that each element can be read back.\<close>

lemma seq_text_Cons: "seq_text close (x # xs) = x @ (if xs = [] then [close] else CHR '','' # seq_text close xs)"
  by (cases xs) simp_all

lemma seq_text_read:
  assumes rd: "\<And>a b xs ys. a \<in> set as \<Longrightarrow> P a \<Longrightarrow> P b \<Longrightarrow> ends_number xs \<Longrightarrow> ends_number ys \<Longrightarrow>
      f a @ xs = f b @ ys \<Longrightarrow> a = b \<and> xs = ys"
    and ne: "\<And>a us vs. P a \<Longrightarrow> f a @ us \<noteq> close # vs"
    and close: "\<not> is_digit close" "close \<noteq> CHR '',''"
    and eq: "seq_text close (map f as) @ xs = seq_text close (map f bs) @ ys"
    and P: "\<forall>a \<in> set as. P a" "\<forall>b \<in> set bs. P b"
  shows "as = bs \<and> xs = ys"
  using assms
proof (induction as arbitrary: bs)
  case Nil
  then show ?case by (cases bs) (auto simp: seq_text_Cons dest: sym)
next
  case (Cons a as)
  show ?case
  proof (cases bs)
    case Nil
    with Cons.prems show ?thesis by (auto simp: seq_text_Cons)
  next
    case bs: (Cons b bs')
    have en: "ends_number ((if cs = [] then [close] else CHR '','' # u) @ zs)" for cs :: "'a list" and u zs
      using close by (auto simp: ends_number_def is_digit_def)
    from Cons.prems(5) bs
    have "f a @ (if as = [] then [close] else CHR '','' # seq_text close (map f as)) @ xs =
        f b @ (if bs' = [] then [close] else CHR '','' # seq_text close (map f bs')) @ ys"
      by (simp add: seq_text_Cons)
    moreover have "P a" "P b" using Cons.prems(6,7) bs by simp_all
    ultimately have "a = b \<and> (if as = [] then [close] else CHR '','' # seq_text close (map f as)) @ xs =
        (if bs' = [] then [close] else CHR '','' # seq_text close (map f bs')) @ ys"
      by (intro Cons.prems(1) en) simp_all
    then have ab: "a = b" and r: "(if as = [] then [close] else CHR '','' # seq_text close (map f as)) @ xs =
        (if bs' = [] then [close] else CHR '','' # seq_text close (map f bs')) @ ys" by simp_all
    show ?thesis
    proof (cases "as = [] \<or> bs' = []")
      case True
      with r close ab bs show ?thesis by (auto split: if_splits)
    next
      case False
      with r have eq: "seq_text close (map f as) @ xs = seq_text close (map f bs') @ ys" by simp
      have "as = bs' \<and> xs = ys"
      proof (rule Cons.IH [OF _ Cons.prems(2) close eq])
        fix c d us vs
        assume "c \<in> set as" "P c" "P d" "ends_number us" "ends_number vs" "f c @ us = f d @ vs"
        then show "c = d \<and> us = vs" by (intro Cons.prems(1)) simp_all
      qed (use Cons.prems(6,7) bs in simp_all)
      with ab bs show ?thesis by simp
    qed
  qed
qed

lemma json_kindD:
  "json_kind w = json_kind JNull \<Longrightarrow> w = JNull"
  "json_kind w = json_kind (JBool b) \<Longrightarrow> w = JBool b"
  "json_kind w = json_kind (JInt i) \<Longrightarrow> \<exists>j. w = JInt j"
  "json_kind w = json_kind (JStr s) \<Longrightarrow> \<exists>t. w = JStr t"
  "json_kind w = json_kind (JList xs) \<Longrightarrow> \<exists>ys. w = JList ys"
  "json_kind w = json_kind (JObj kvs) \<Longrightarrow> \<exists>lvs. w = JObj lvs"
  by (cases w; simp split: if_splits)+

lemma plain_read:
  assumes "plain v @ xs = plain w @ ys" "json_validate v" "json_validate w" "ends_number xs" "ends_number ys"
  shows "v = w \<and> xs = ys"
  using assms
proof (induction v arbitrary: w xs ys)
  case (JInt i)
  obtain j where "w = JInt j" using json_kindD(3) [OF plain_kind [OF JInt.prems(1-3), symmetric]] by blast
  with JInt.prems int_text_read [of i xs j ys] show ?case by simp
next
  case (JStr s)
  obtain t where "w = JStr t" using json_kindD(4) [OF plain_kind [OF JStr.prems(1-3), symmetric]] by blast
  with JStr.prems(1) str_text_read [of s xs t ys] show ?case by simp
next
  case (JList as)
  obtain bs where w: "w = JList bs" using json_kindD(5) [OF plain_kind [OF JList.prems(1-3), symmetric]] by blast
  have "as = bs \<and> xs = ys"
  proof (rule seq_text_read [where P = json_validate and f = plain and close = "CHR '']''"])
    fix a b us vs
    assume "a \<in> set as" "json_validate a" "json_validate b" "ends_number us" "ends_number vs" "plain a @ us = plain b @ vs"
    then show "a = b \<and> us = vs" by (intro JList.IH)
  next
    fix a us vs assume "json_validate a"
    with plain_head [of a] show "plain a @ us \<noteq> CHR '']'' # vs" by auto
  qed (use JList.prems(1-3) w in \<open>simp_all add: is_digit_def\<close>)
  with w show ?case by simp
next
  case (JObj as)
  obtain bs where w: "w = JObj bs" using json_kindD(6) [OF plain_kind [OF JObj.prems(1-3), symmetric]] by blast
  have "as = bs \<and> xs = ys"
  proof (rule seq_text_read [where P = "\<lambda>(k, v). json_validate v" and f = "\<lambda>(k, v). str_text k @ CHR '':'' # plain v"
        and close = "CHR ''}''"])
    fix a b us vs
    assume ab: "a \<in> set as" "case a of (k, v) \<Rightarrow> json_validate v" "case b of (k, v) \<Rightarrow> json_validate v"
      "ends_number us" "ends_number vs"
      "(case a of (k, v) \<Rightarrow> str_text k @ CHR '':'' # plain v) @ us = (case b of (k, v) \<Rightarrow> str_text k @ CHR '':'' # plain v) @ vs"
    obtain k v where a: "a = (k, v)" by (cases a)
    obtain l u where b: "b = (l, u)" by (cases b)
    from ab(6) a b str_text_read [of k "CHR '':'' # plain v @ us" l "CHR '':'' # plain u @ vs"]
    have "k = l" "plain v @ us = plain u @ vs" by simp_all
    moreover have "v = u \<and> us = vs"
      by (rule JObj.IH [of a v]) (use ab a b calculation in simp_all)
    ultimately show "a = b \<and> us = vs" by (simp add: a b)
  next
    fix a :: "string \<times> json" and us vs
    show "(case a of (k, v) \<Rightarrow> str_text k @ CHR '':'' # plain v) @ us \<noteq> CHR ''}'' # vs"
      by (cases a) (simp add: str_text_def quote_char_def)
  qed (use JObj.prems(1-3) w in \<open>simp_all add: is_digit_def case_prod_unfold\<close>)
  with w show ?case by simp
next
  case (JBool b)
  have "w = JBool b" using json_kindD(2) [OF plain_kind [OF JBool.prems(1-3), symmetric]] .
  with JBool.prems(1) show ?case by simp
next
  case JNull
  have "w = JNull" using json_kindD(1) [OF plain_kind [OF JNull.prems(1-3), symmetric]] .
  with JNull.prems(1) show ?case by simp
qed simp

lemma validate_canon: "json_validate (canon v) = json_validate v"
proof (induction v)
  case (JObj kvs)
  then show ?case by (force simp: snds.simps)
qed simp_all

lemma canonical_text_inj: "json_validate v \<Longrightarrow> json_validate w \<Longrightarrow> dumps v = dumps w \<Longrightarrow> canon v = canon w"
  using plain_read [of "canon v" "[]" "canon w" "[]"]
  by (simp add: dumps_canon validate_canon ends_number_def)

text \<open>Equal objects up to key order agree entry by entry.\<close>

lemma canon_idem [simp]: "canon (canon v) = canon v"
proof (induction v)
  case (JList xs)
  then show ?case by simp
next
  case (JObj kvs)
  have "map (\<lambda>(k, v). (k, canon v)) (sort_key fst (map (\<lambda>(k, v). (k, canon v)) kvs)) =
      sort_key fst (map (\<lambda>(k, v). (k, canon v)) (map (\<lambda>(k, v). (k, canon v)) kvs))"
    by (rule sort_key_fst_map [symmetric])
  also have "map (\<lambda>(k, v). (k, canon v)) (map (\<lambda>(k, v). (k, canon v)) kvs) = map (\<lambda>(k, v). (k, canon v)) kvs"
    using JObj by (auto simp: snds.simps)
  finally show ?case by (simp add: sort_key_id_if_sorted)
qed simp_all

lemma map_of_canon:
  fixes kvs :: "(string \<times> json) list"
  assumes "distinct (map fst kvs)"
  shows "map_of (sort_key fst (map (\<lambda>(k, v). (k, canon v)) kvs)) k = map_option canon (map_of kvs k)"
proof -
  have m: "map_of (sort_key fst xs) = map_of xs" if "distinct (map fst xs)" for xs :: "(string \<times> json) list"
  proof (rule map_of_eqI)
    show "set (map fst (sort_key fst xs)) = set (map fst xs)" by simp
    have "distinct (map fst (sort_key fst xs))" using that by (simp add: distinct_map)
    then show "\<forall>k \<in> set (map fst (sort_key fst xs)). map_of (sort_key fst xs) k = map_of xs k"
      using that by (auto simp: map_of_eq_Some_iff dest!: map_of_SomeD intro!: map_of_is_SomeI)
  qed
  have f: "map fst (map (\<lambda>(k, v). (k, canon v)) xs) = map fst xs" for xs :: "(string \<times> json) list"
    by (induction xs) auto
  have c: "map_of (map (\<lambda>(k, v). (k, canon v)) xs) k = map_option canon (map_of xs k)" for xs :: "(string \<times> json) list"
    by (induction xs) auto
  have "distinct (map fst (map (\<lambda>(k, v). (k, canon v)) kvs))" using assms by (simp only: f)
  from m [OF this] show ?thesis by (simp only: c)
qed

lemma canon_JObj_entry:
  assumes "canon (JObj kvs) = canon (JObj lvs)" "distinct (map fst kvs)" "distinct (map fst lvs)"
  shows "map_option canon (map_of kvs k) = map_option canon (map_of lvs k)"
proof -
  have "map_of (sort_key fst (map (\<lambda>(k, v). (k, canon v)) kvs)) k = map_of (sort_key fst (map (\<lambda>(k, v). (k, canon v)) lvs)) k"
    using assms(1) by simp
  then show ?thesis by (simp only: map_of_canon [OF assms(2)] map_of_canon [OF assms(3)])
qed

subsection \<open>How long a text can be\<close>

fun text_bound :: "json \<Rightarrow> int" where
  "text_bound (JInt i) = 2 + \<bar>i\<bar>"
| "text_bound (JStr s) = 6 * int (length s) + 2"
| "text_bound (JList xs) = sum_list (map (\<lambda>x. text_bound x + 1) xs) + 2"
| "text_bound (JObj kvs) = sum_list (map (\<lambda>(k, v). 6 * int (length k) + text_bound v + 4) kvs) + 2"
| "text_bound _ = 5"

lemma length_nat_text: "length (nat_text n) \<le> Suc n"
proof (induction n rule: nat_text.induct)
  case (1 n)
  show ?case
  proof (cases "n < 10")
    case True
    then show ?thesis by (subst nat_text.simps) simp
  next
    case False
    with 1 have "length (nat_text (n div 10)) \<le> Suc (n div 10)" by simp
    moreover have "nat_text n = nat_text (n div 10) @ [digit (n mod 10)]" using False by (subst nat_text.simps) simp
    ultimately show ?thesis using False by simp
  qed
qed

lemma length_str_text: "length (str_text s) \<le> 6 * length s + 2"
proof -
  have "length (escape c) \<le> 6" for c by (simp add: escape_def split: option.split)
  then have "length (concat (map escape s)) \<le> 6 * length s"
    by (induction s) (simp_all add: add_le_mono)
  then show ?thesis by (simp add: str_text_def)
qed

lemma length_seq_text: "length (seq_text c xs) \<le> sum_list (map (\<lambda>x. length x + 1) xs) + 1"
  by (induction c xs rule: seq_text.induct) simp_all

lemma length_int_text: "int (length (int_text i)) \<le> 2 + \<bar>i\<bar>"
  using length_nat_text [of "nat (- i)"] length_nat_text [of "nat i"] by (auto simp: int_text_def)

lemma sum_list_le:
  fixes f g :: "'a \<Rightarrow> int"
  shows "(\<And>x. x \<in> set xs \<Longrightarrow> f x \<le> g x) \<Longrightarrow> sum_list (map f xs) \<le> sum_list (map g xs)"
  by (rule sum_list_mono)

lemma length_dumps: "int (length (dumps v)) \<le> text_bound v"
proof (induction v)
  case (JInt i)
  then show ?case using length_int_text by simp
next
  case (JStr s)
  then show ?case using length_str_text [of s] by simp
next
  case (JList xs)
  have "int (length (seq_text (CHR '']'') (map dumps xs))) \<le> int (sum_list (map (\<lambda>x. length (dumps x) + 1) xs)) + 1"
    using length_seq_text [of "CHR '']''" "map dumps xs"] by (simp add: comp_def)
  also have "int (sum_list (map (\<lambda>x. length (dumps x) + 1) xs)) = sum_list (map (\<lambda>x. int (length (dumps x)) + 1) xs)"
    by (induction xs) simp_all
  also have "\<dots> \<le> sum_list (map (\<lambda>x. text_bound x + 1) xs)"
    using JList by (intro sum_list_le) simp
  finally show ?case by simp
next
  case (JObj kvs)
  define ts where "ts = sort_key fst (map (\<lambda>(k, v). (k, dumps v)) kvs)"
  have "int (length (seq_text (CHR ''}'') (map (\<lambda>(k, t). str_text k @ CHR '':'' # t) ts))) \<le>
      int (sum_list (map (\<lambda>(k, t). length (str_text k) + length t + 2) ts)) + 1"
    using length_seq_text [of "CHR ''}''" "map (\<lambda>(k, t). str_text k @ CHR '':'' # t) ts"]
    by (simp add: comp_def case_prod_unfold add.assoc)
  also have "sum_list (map (\<lambda>(k, t). length (str_text k) + length t + 2) ts) =
      sum_list (map (\<lambda>(k, t). length (str_text k) + length t + 2) (map (\<lambda>(k, v). (k, dumps v)) kvs))"
    by (simp only: ts_def sum_mset_sum_list [symmetric] mset_map mset_sort)
  also have "int \<dots> = sum_list (map (\<lambda>(k, v). int (length (str_text k)) + int (length (dumps v)) + 2) kvs)"
    by (induction kvs) auto
  also have "\<dots> \<le> sum_list (map (\<lambda>(k, v). 6 * int (length k) + text_bound v + 4) kvs)"
  proof (rule sum_list_le)
    fix kv assume kv: "kv \<in> set kvs"
    obtain k v where p: "kv = (k, v)" by (cases kv)
    with kv JObj have "int (length (dumps v)) \<le> text_bound v" by (force simp: snds.simps)
    with p show "(case kv of (k, v) \<Rightarrow> int (length (str_text k)) + int (length (dumps v)) + 2) \<le>
        (case kv of (k, v) \<Rightarrow> 6 * int (length k) + text_bound v + 4)"
      using length_str_text [of k] by simp
  qed
  finally show ?case by (simp add: ts_def)
qed simp_all

subsection \<open>Properties\<close>

text \<open>
  C30. The canonical text is a faithful encoding: two float-free values have the same canonical
  text (hence enter every digest as the same bytes) exactly when they are equal up to the order
  of the keys of their objects, and a value with a float has none.
\<close>

theorem canonical_json_text_eq:
  "(\<exists>t. canonical_json_text v = Inr t \<and> canonical_json_text w = Inr t) \<longleftrightarrow>
   json_validate v \<and> json_validate w \<and> canon v = canon w"
proof
  assume "\<exists>t. canonical_json_text v = Inr t \<and> canonical_json_text w = Inr t"
  then have vw: "json_validate v" "json_validate w" "dumps v = dumps w"
    by (auto simp: canonical_json_text_def split: if_splits)
  then show "json_validate v \<and> json_validate w \<and> canon v = canon w"
    using canonical_text_inj by blast
qed (simp add: canonical_json_text_def dumps_canon)

end
