(* ===== verification/Dag_Contract.thy ===== *)
theory Dag_Contract
  imports Json
begin

section \<open>Plan contract (v2/dag\_contract.py)\<close>

text \<open>
  The typed plan and the checks its constructors (\<open>__post_init__\<close>) run. The \<open>isinstance\<close> checks
  of the source are the types of the model; every other check is a pair of its failing condition
  and the error it raises, in the order the source runs them, and a constructor raises the first
  that fails. \<open>unicodedata.normalize('NFC', s)\<close> is the parameter \<open>nfc\<close>.
\<close>

subsection \<open>Vocabulary\<close>

datatype plan_reason =
  PLAN_SCHEMA_INVALID | PLAN_UNKNOWN_FIELD | PLAN_DUPLICATE_NODE | PLAN_CYCLE_DETECTED
| PLAN_SELF_DEPENDENCY | PLAN_UNKNOWN_DEPENDENCY | PLAN_DUPLICATE_DEPENDENCY
| PLAN_UNREACHABLE_NODE | PLAN_DEPTH_EXCEEDED | PLAN_FANOUT_EXCEEDED | PLAN_BUDGET_EXCEEDED
| PLAN_TOOL_UNKNOWN | PLAN_TOOL_NOT_PROJECTED | PLAN_SCOPE_DENIED | PLAN_ARG_INVALID
| PLAN_IDEMPOTENCY_MISSING | PLAN_COMPENSATION_UNDECLARED | BINDING_EDGE_NOT_DECLARED
| BINDING_SOURCE_UNSHAPED | BINDING_FIELD_UNKNOWN | BINDING_TYPE_MISMATCH
| BINDING_TARGET_TYPE_MISMATCH | BINDING_SIZE_EXCEEDED | BINDING_CONTROL_FIELD_FORBIDDEN
| BINDING_RUNTIME_REJECT | TRANSFORM_OP_UNKNOWN | TRANSFORM_TYPE_MISMATCH
| TRANSFORM_OUTPUT_TOO_LARGE | POLICY_MISSING | POLICY_DENIED | APPROVAL_MISSING
| APPROVAL_DIGEST_MISMATCH | APPROVAL_EXPIRED | APPROVAL_SCOPE_INSUFFICIENT
| APPROVAL_ALREADY_CONSUMED | APPROVAL_OPERATION_DIGEST_UNCOVERED | UPSTREAM_ABORT
| UPSTREAM_FAILED | UPSTREAM_INDETERMINATE | PROVIDER_UNAVAILABLE | DEADLINE_EXCEEDED
| BUDGET_EXHAUSTED | CHECKPOINT_TAMPERED | CHECKPOINT_SCHEMA_UNSUPPORTED
| PLAN_DIGEST_MISMATCH | LEASE_FENCE_STALE | COMPENSATION_UNSAFE_REASON | DAG_DISABLED

text \<open>
  \<open>PlanValidationError\<close> and its subclass \<open>StoreError\<close>, \<open>DagDisabledError\<close>, the \<open>TypeError\<close> of the
  canonical serializer, which no handler of the engine catches, whatever Python raises on a
  stored body that has not the shape \<open>Checkpoint.body\<close> gives it, and any other exception of an
  injected executor.
\<close>

datatype plan_error =
  PlanValidationError plan_reason string
| DagDisabledError
| Canonical_TypeError
| Malformed_body
| Foreign_exception

datatype node_kind = TOOL | TRANSFORM

datatype failure_policy = FAIL_FAST | CONTINUE_INDEPENDENT

datatype rollback_policy = ROLLBACK_NONE | COMPENSATE_ON_FAILURE | COMPENSATE_ON_ABORT

datatype on_failure = ABORT_PLAN | ISOLATE_BRANCH | ON_FAILURE_DEAD_LETTER

datatype node_status =
  PENDING | READY | DISPATCHED | SUCCESS | FAILED | DENIED | SKIPPED | INDETERMINATE
| COMPENSATION_PENDING | COMPENSATED | COMPENSATION_SKIPPED | COMPENSATION_UNSAFE
| COMPENSATION_FAILED | COMPENSATION_INDETERMINATE | DEAD_LETTER

datatype plan_status =
  PLAN_COMPLETED | PLAN_PARTIAL | PLAN_FAILED | PLAN_ABORTED | PLAN_INDETERMINATE | PLAN_DEAD_LETTER

definition DAG_MAX_NODES :: int where "DAG_MAX_NODES = 64"
definition DAG_MAX_PARALLELISM :: int where "DAG_MAX_PARALLELISM = 4"
definition DAG_MAX_PARALLELISM_MUTATION :: int where "DAG_MAX_PARALLELISM_MUTATION = 1"
definition DAG_MAX_NODE_TIMEOUT_MS :: int where "DAG_MAX_NODE_TIMEOUT_MS = 120000"
definition DAG_MAX_DEPTH :: int where "DAG_MAX_DEPTH = 16"
definition DAG_MAX_FANOUT :: int where "DAG_MAX_FANOUT = 16"
definition DAG_MAX_EXTERNAL_CALLS :: int where "DAG_MAX_EXTERNAL_CALLS = 64"
definition DAG_MAX_TOTAL_WALL_MS :: int where "DAG_MAX_TOTAL_WALL_MS = 900000"
definition DAG_MAX_RESULT_BYTES :: int where "DAG_MAX_RESULT_BYTES = 1048576"
definition DAG_MAX_CHECKPOINT_BYTES :: int where "DAG_MAX_CHECKPOINT_BYTES = 1048576"
definition DAG_MAX_BINDING_BYTES :: int where "DAG_MAX_BINDING_BYTES = 262144"
definition DAG_MAX_STRING_BYTES :: int where "DAG_MAX_STRING_BYTES = 4096"
definition DAG_MAX_CANONICAL_BYTES :: int where "DAG_MAX_CANONICAL_BYTES = 262144"
definition DAG_MAX_NESTING_DEPTH :: nat where "DAG_MAX_NESTING_DEPTH = 8"

lemmas dag_limits = DAG_MAX_NODES_def DAG_MAX_PARALLELISM_def DAG_MAX_PARALLELISM_MUTATION_def
  DAG_MAX_NODE_TIMEOUT_MS_def DAG_MAX_DEPTH_def DAG_MAX_FANOUT_def DAG_MAX_EXTERNAL_CALLS_def
  DAG_MAX_TOTAL_WALL_MS_def DAG_MAX_RESULT_BYTES_def DAG_MAX_CHECKPOINT_BYTES_def
  DAG_MAX_BINDING_BYTES_def DAG_MAX_STRING_BYTES_def DAG_MAX_CANONICAL_BYTES_def
  DAG_MAX_NESTING_DEPTH_def

subsection \<open>Checks in order\<close>

type_synonym checks = "(bool \<times> plan_error) list"

definition run_checks :: "checks \<Rightarrow> (plan_error, unit) result" where
  "run_checks cs = (case find fst cs of None \<Rightarrow> Inr () | Some (b, e) \<Rightarrow> Inl e)"

lemma run_checks_Nil [simp]: "run_checks [] = Inr ()"
  and run_checks_Cons [simp]: "run_checks ((b, e) # cs) = (if b then Inl e else run_checks cs)"
  by (simp_all add: run_checks_def)

lemma run_checks_append:
  "run_checks (cs @ ds) = (case run_checks cs of Inl e \<Rightarrow> Inl e | Inr _ \<Rightarrow> run_checks ds)"
  by (induction cs) auto

definition passes :: "checks \<Rightarrow> bool" where
  "passes cs \<longleftrightarrow> run_checks cs = Inr ()"

lemma passes_Nil [simp]: "passes []"
  and passes_Cons [simp]: "passes ((b, e) # cs) \<longleftrightarrow> \<not> b \<and> passes cs"
  by (simp_all add: passes_def)

lemma passes_append [simp]: "passes (cs @ ds) \<longleftrightarrow> passes cs \<and> passes ds"
  by (induction cs) auto

lemma passes_concat [simp]: "passes (concat css) \<longleftrightarrow> (\<forall>cs \<in> set css. passes cs)"
  by (induction css) auto

lemma passes_map: "passes (map (\<lambda>x. (f x, g x)) xs) \<longleftrightarrow> (\<forall>x \<in> set xs. \<not> f x)"
  by (induction xs) auto

definition plan_fail :: "plan_reason \<Rightarrow> string \<Rightarrow> plan_error" where
  "plan_fail r d = PlanValidationError r d"

text \<open>A control character (category \<open>Cc\<close>) in UTF-8: below 0x20, 0x7F, or U+0080 to U+009F.\<close>

fun has_control :: "string \<Rightarrow> bool" where
  "has_control [] \<longleftrightarrow> False"
| "has_control (c # cs) \<longleftrightarrow>
     of_char c < (32 :: nat) \<or> c = CHR 0x7F \<or>
     (c = CHR 0xC2 \<and> (case cs of [] \<Rightarrow> False | d # _ \<Rightarrow> (128 :: nat) \<le> of_char d \<and> of_char d < (160 :: nat))) \<or>
     has_control cs"

definition check_text :: "(string \<Rightarrow> string) \<Rightarrow> string \<Rightarrow> string \<Rightarrow> checks" where
  "check_text nfc field s =
     [(int (length s) > DAG_MAX_STRING_BYTES, plan_fail PLAN_SCHEMA_INVALID (field @ '': too long'')),
      (has_control s, plan_fail PLAN_SCHEMA_INVALID (field @ '': control characters'')),
      (nfc s \<noteq> s, plan_fail PLAN_SCHEMA_INVALID (field @ '': must be NFC-normalized''))]"

definition check_int :: "string \<Rightarrow> int \<Rightarrow> int \<Rightarrow> int \<Rightarrow> checks" where
  "check_int field lo hi i = [(i < lo \<or> i > hi, plan_fail PLAN_SCHEMA_INVALID (field @ '': out of range''))]"

fun check_plain :: "(string \<Rightarrow> string) \<Rightarrow> string \<Rightarrow> nat \<Rightarrow> json \<Rightarrow> checks" where
  "check_plain nfc field depth v =
     (depth > DAG_MAX_NESTING_DEPTH, plan_fail PLAN_SCHEMA_INVALID (field @ '': nesting too deep'')) #
     (case v of
        JStr s \<Rightarrow> check_text nfc field s
      | JFloat r \<Rightarrow> [(True, plan_fail PLAN_SCHEMA_INVALID (field @ '': floats are forbidden''))]
      | JObj kvs \<Rightarrow> concat (map (\<lambda>(k, x). check_plain nfc (field @ ''.'' @ k) (Suc depth) x) kvs)
      | JList xs \<Rightarrow> concat (map (check_plain nfc (field @ ''[]'') (Suc depth)) xs)
      | _ \<Rightarrow> [])"

declare check_plain.simps [simp del]

subsection \<open>Identifiers\<close>

definition re_class :: "(char \<Rightarrow> bool) \<Rightarrow> nat \<Rightarrow> string \<Rightarrow> bool" where
  "re_class p n s \<longleftrightarrow> s \<noteq> [] \<and> length s \<le> n \<and> list_all p s"

text \<open>\<open>re.match\<close> with \<^verbatim>\<open>$\<close>, which also matches before a final newline.\<close>

definition re_match_class :: "(char \<Rightarrow> bool) \<Rightarrow> nat \<Rightarrow> string \<Rightarrow> bool" where
  "re_match_class p n s \<longleftrightarrow> re_class p n s \<or> (s \<noteq> [] \<and> last s = CHR 0x0A \<and> re_class p n (butlast s))"

definition node_id_char :: "char \<Rightarrow> bool" where
  "node_id_char c \<longleftrightarrow> ascii_lower c \<or> (CHR ''0'' \<le> c \<and> c \<le> CHR ''9'') \<or> c = CHR ''_'' \<or> c = CHR ''-''"

definition plan_id_char :: "char \<Rightarrow> bool" where
  "plan_id_char c \<longleftrightarrow> ascii_alnum c \<or> c \<in> set ''._:-''"

definition word_char :: "char \<Rightarrow> bool" where
  "word_char c \<longleftrightarrow> ascii_alnum c \<or> c = CHR ''_''"

definition node_id_ok :: "string \<Rightarrow> bool" where
  "node_id_ok s \<longleftrightarrow> re_match_class node_id_char 64 s"

text \<open>\<open>s.split(''.'')\<close>\<close>

fun split_dot :: "string \<Rightarrow> string list" where
  "split_dot [] = [[]]"
| "split_dot (c # cs) =
     (if c = CHR ''.'' then [] # split_dot cs
      else (case split_dot cs of [] \<Rightarrow> [[c]] | x # xs \<Rightarrow> (c # x) # xs))"

definition word_seg :: "string \<Rightarrow> bool" where
  "word_seg s \<longleftrightarrow> s \<noteq> [] \<and> list_all word_char s"

text \<open>The two binding patterns; a trailing newline is excluded before by the text check.\<close>

definition binding_target_ok :: "string \<Rightarrow> bool" where
  "binding_target_ok s =
     (case split_dot s of p # ps \<Rightarrow> p = ''args'' \<and> ps \<noteq> [] \<and> list_all word_seg ps | [] \<Rightarrow> False)"

definition binding_source_ok :: "string \<Rightarrow> bool" where
  "binding_source_ok s =
     (case split_dot s of p # q # ps \<Rightarrow> re_class node_id_char 64 p \<and> q = ''result'' \<and> list_all word_seg ps
      | _ \<Rightarrow> False)"

subsection \<open>Plan elements\<close>

record binding =
  b_source :: string
  b_type :: string
  b_required :: bool
  b_max_bytes :: int

record idempotency =
  i_enabled :: bool
  i_attempt_epoch :: int

record budget =
  max_nodes :: int
  max_parallelism :: int
  max_external_calls :: int
  max_total_wall_ms :: int
  max_result_bytes :: int
  max_checkpoint_bytes :: int
  per_provider_limits :: "(string \<times> int) list"
  per_credential_limits :: "(string \<times> int) list"

record plan_approval =
  a_approval_id :: string
  a_digest :: string
  a_nonce :: string
  a_expires_at_ms :: int
  a_scope :: "string list"
  a_required_for :: "string list"
  a_runtime_bound :: bool
  a_operation_digests :: "string list"

record node =
  n_id :: string
  n_kind :: node_kind
  n_tool :: "string option"
  n_op :: "string option"
  n_args :: "(string \<times> json) list"
  n_bindings :: "(string \<times> binding) list"
  n_depends_on :: "string list"
  n_policy_ref :: "string option"
  n_idempotency :: "idempotency option"
  n_on_failure :: on_failure
  n_timeout_ms :: int
  n_retry_ref :: "string option"
  n_compensation :: "string option"
  n_description :: string

record plan_definition =
  p_plan_id :: string
  p_nodes :: "node list"
  p_budget :: budget
  p_failure_policy :: failure_policy
  p_deadline_ms :: int
  p_rollback_policy :: rollback_policy
  p_approval :: "plan_approval option"
  p_dry_run :: bool
  p_schema_version :: string
  p_mode :: string
  p_description :: string

definition source_node :: "binding \<Rightarrow> string" where
  "source_node b = takeWhile (\<lambda>c. c \<noteq> CHR ''.'') (b_source b)"

definition source_path :: "binding \<Rightarrow> string list" where
  "source_path b = drop 2 (split_dot (b_source b))"

definition node_ids :: "plan_definition \<Rightarrow> string list" where
  "node_ids p = map n_id (p_nodes p)"

text \<open>\<open>PlanDefinition.node\<close>; \<open>None\<close> is its \<open>PLAN_UNKNOWN_DEPENDENCY\<close> error.\<close>

definition plan_node :: "plan_definition \<Rightarrow> string \<Rightarrow> node option" where
  "plan_node p i = find (\<lambda>n. n_id n = i) (p_nodes p)"

subsection \<open>Constructor checks\<close>

definition binding_checks :: "(string \<Rightarrow> string) \<Rightarrow> binding \<Rightarrow> checks" where
  "binding_checks nfc b =
     check_text nfc ''binding.from'' (b_source b) @
     [(\<not> binding_source_ok (b_source b), plan_fail PLAN_SCHEMA_INVALID ''binding.from: malformed path'')] @
     check_text nfc ''binding.type'' (b_type b) @
     check_int ''binding.max_bytes'' 1 DAG_MAX_BINDING_BYTES (b_max_bytes b)"

definition idempotency_checks :: "idempotency \<Rightarrow> checks" where
  "idempotency_checks i = check_int ''idempotency.attempt_epoch'' 0 1000000 (i_attempt_epoch i)"

definition compensation_checks :: "(string \<Rightarrow> string) \<Rightarrow> string \<Rightarrow> checks" where
  "compensation_checks nfc c = check_text nfc ''compensation.operation'' c"

definition limit_checks :: "(string \<Rightarrow> string) \<Rightarrow> string \<Rightarrow> (string \<times> int) list \<Rightarrow> checks" where
  "limit_checks nfc name m = concat (map (\<lambda>(k, v).
     check_text nfc (name @ '' key'') k @ check_int (name @ ''['' @ k @ '']'') 1 DAG_MAX_PARALLELISM v) m)"

definition budget_checks :: "(string \<Rightarrow> string) \<Rightarrow> budget \<Rightarrow> checks" where
  "budget_checks nfc b =
     check_int ''budget.max_nodes'' 1 DAG_MAX_NODES (max_nodes b) @
     check_int ''budget.max_parallelism'' 1 DAG_MAX_PARALLELISM (max_parallelism b) @
     check_int ''budget.max_external_calls'' 0 DAG_MAX_EXTERNAL_CALLS (max_external_calls b) @
     check_int ''budget.max_total_wall_ms'' 1 DAG_MAX_TOTAL_WALL_MS (max_total_wall_ms b) @
     check_int ''budget.max_result_bytes'' 1 DAG_MAX_RESULT_BYTES (max_result_bytes b) @
     check_int ''budget.max_checkpoint_bytes'' 1 DAG_MAX_CHECKPOINT_BYTES (max_checkpoint_bytes b) @
     limit_checks nfc ''budget.per_provider_limits'' (per_provider_limits b) @
     limit_checks nfc ''budget.per_credential_limits'' (per_credential_limits b)"

definition approval_checks :: "(string \<Rightarrow> string) \<Rightarrow> plan_approval \<Rightarrow> checks" where
  "approval_checks nfc a =
     check_text nfc ''approval.approval_id'' (a_approval_id a) @
     check_text nfc ''approval.digest'' (a_digest a) @
     check_text nfc ''approval.nonce'' (a_nonce a) @
     check_int ''approval.expires_at_ms'' 0 (2 ^ 63 - 1) (a_expires_at_ms a) @
     concat (map (check_text nfc ''approval.scope entry'') (a_scope a)) @
     concat (map (check_text nfc ''approval.required_for entry'') (a_required_for a))"

fun dep_checks :: "string \<Rightarrow> string list \<Rightarrow> string list \<Rightarrow> checks" where
  "dep_checks i seen [] = []"
| "dep_checks i seen (d # ds) =
     [(\<not> node_id_ok d, plan_fail PLAN_SCHEMA_INVALID ''node.depends_on: bad node id''),
      (d \<in> set seen, plan_fail PLAN_DUPLICATE_DEPENDENCY (i @ ''->'' @ d)),
      (d = i, plan_fail PLAN_SELF_DEPENDENCY i)] @ dep_checks i (d # seen) ds"

definition opt_text :: "(string \<Rightarrow> string) \<Rightarrow> string \<Rightarrow> string option \<Rightarrow> checks" where
  "opt_text nfc field s = (case s of None \<Rightarrow> [] | Some t \<Rightarrow> check_text nfc field t)"

text \<open>\<open>not self.tool\<close>: absent or empty.\<close>

definition opt_empty :: "string option \<Rightarrow> bool" where
  "opt_empty s = (case s of None \<Rightarrow> True | Some t \<Rightarrow> t = [])"

definition node_checks :: "(string \<Rightarrow> string) \<Rightarrow> node \<Rightarrow> checks" where
  "node_checks nfc n =
     [(\<not> node_id_ok (n_id n), plan_fail PLAN_SCHEMA_INVALID ''node.id: charset/length'')] @
     (case n_kind n of
        TOOL \<Rightarrow> (opt_empty (n_tool n) \<or> n_op n \<noteq> None, plan_fail PLAN_SCHEMA_INVALID ''node: TOOL requires tool and no op'')
          # opt_text nfc ''node.tool'' (n_tool n)
      | TRANSFORM \<Rightarrow> (opt_empty (n_op n) \<or> n_tool n \<noteq> None, plan_fail PLAN_SCHEMA_INVALID ''node: TRANSFORM requires op and no tool'')
          # opt_text nfc ''node.op'' (n_op n)) @
     check_plain nfc ''node.args'' 0 (JObj (n_args n)) @
     concat (map (\<lambda>(t, b). check_text nfc ''node.bindings key'' t @
       [(\<not> binding_target_ok t, plan_fail BINDING_CONTROL_FIELD_FORBIDDEN ''node.bindings: target'')]) (n_bindings n)) @
     dep_checks (n_id n) [] (n_depends_on n) @
     opt_text nfc ''node.policy_ref'' (n_policy_ref n) @
     opt_text nfc ''node.retry_ref'' (n_retry_ref n) @
     check_int ''node.timeout_ms'' 1 DAG_MAX_TOTAL_WALL_MS (n_timeout_ms n) @
     check_text nfc ''node.description'' (n_description n)"

fun dup_node_checks :: "string list \<Rightarrow> string list \<Rightarrow> checks" where
  "dup_node_checks seen [] = []"
| "dup_node_checks seen (i # is) = (i \<in> set seen, plan_fail PLAN_DUPLICATE_NODE i) # dup_node_checks (i # seen) is"

definition plan_checks :: "(string \<Rightarrow> string) \<Rightarrow> plan_definition \<Rightarrow> checks" where
  "plan_checks nfc p =
     [(p_schema_version p \<noteq> ''dag/1'', plan_fail PLAN_SCHEMA_INVALID ''schema_version: unsupported''),
      (p_mode p \<noteq> ''DAG'', plan_fail PLAN_SCHEMA_INVALID ''mode: must be DAG''),
      (\<not> re_match_class plan_id_char 128 (p_plan_id p), plan_fail PLAN_SCHEMA_INVALID ''plan_id: charset/length''),
      (p_nodes p = [], plan_fail PLAN_SCHEMA_INVALID ''nodes: at least one node is required''),
      (int (length (p_nodes p)) > DAG_MAX_NODES, plan_fail PLAN_BUDGET_EXCEEDED ''nodes: exceeds DAG_MAX_NODES'')] @
     dup_node_checks [] (node_ids p) @
     check_int ''deadline_ms'' 1 DAG_MAX_TOTAL_WALL_MS (p_deadline_ms p) @
     [(int (length (p_nodes p)) > max_nodes (p_budget p), plan_fail PLAN_BUDGET_EXCEEDED ''nodes: exceeds budget.max_nodes'')] @
     map (\<lambda>n. (n_timeout_ms n > p_deadline_ms p, plan_fail PLAN_BUDGET_EXCEEDED (''node '' @ n_id n @ '': timeout > deadline''))) (p_nodes p) @
     check_text nfc ''description'' (p_description p)"

text \<open>
  A plan exists only when the constructors of its bindings, idempotency and compensation records,
  nodes, budget and approval accepted their fields and its own check passed.
\<close>

definition plan_parts_checks :: "(string \<Rightarrow> string) \<Rightarrow> plan_definition \<Rightarrow> checks" where
  "plan_parts_checks nfc p =
     concat (map (\<lambda>n.
       concat (map (\<lambda>(t, b). binding_checks nfc b) (n_bindings n)) @
       (case n_idempotency n of None \<Rightarrow> [] | Some i \<Rightarrow> idempotency_checks i) @
       (case n_compensation n of None \<Rightarrow> [] | Some c \<Rightarrow> compensation_checks nfc c) @
       node_checks nfc n) (p_nodes p)) @
     budget_checks nfc (p_budget p) @
     (case p_approval p of None \<Rightarrow> [] | Some a \<Rightarrow> approval_checks nfc a)"

definition plan_new :: "(string \<Rightarrow> string) \<Rightarrow> plan_definition \<Rightarrow> (plan_error, plan_definition) result" where
  "plan_new nfc p =
     (case run_checks (plan_parts_checks nfc p @ plan_checks nfc p) of Inl e \<Rightarrow> Inl e | Inr _ \<Rightarrow> Inr p)"

subsection \<open>What an accepted plan looks like\<close>

lemma check_int_passes [simp]: "passes (check_int f lo hi i) \<longleftrightarrow> lo \<le> i \<and> i \<le> hi"
  by (auto simp: check_int_def)

lemma check_plain_validate: "passes (check_plain nfc f d v) \<Longrightarrow> json_validate v"
proof (induction v arbitrary: f d)
  case (JFloat r)
  then show ?case by (simp add: check_plain.simps)
next
  case (JList xs)
  then show ?case by (auto simp: check_plain.simps [of _ _ _ "JList _"])
next
  case (JObj kvs)
  then have "json_validate v" if "(k, v) \<in> set kvs" for k v
    using that by (force simp: check_plain.simps [of _ _ _ "JObj _"] snds.simps)
  then show ?case by auto
qed simp_all

fun json_depth :: "json \<Rightarrow> nat" where
  "json_depth (JList xs) = Max (insert 0 (set (map (\<lambda>x. Suc (json_depth x)) xs)))"
| "json_depth (JObj kvs) = Max (insert 0 (set (map (\<lambda>(k, v). Suc (json_depth v)) kvs)))"
| "json_depth _ = 0"

lemma check_plain_depth: "passes (check_plain nfc f d v) \<Longrightarrow> d + json_depth v \<le> DAG_MAX_NESTING_DEPTH"
proof (induction v arbitrary: f d)
  case (JList xs)
  have "d + Suc (json_depth x) \<le> DAG_MAX_NESTING_DEPTH" if "x \<in> set xs" for x
    using JList.IH [OF that, of "f @ ''[]''" "Suc d"] JList.prems that
    by (auto simp: check_plain.simps [of _ _ _ "JList _"])
  moreover have "d \<le> DAG_MAX_NESTING_DEPTH" using JList.prems by (simp add: check_plain.simps [of _ _ _ "JList _"])
  moreover have "json_depth (JList xs) \<in> insert 0 (set (map (\<lambda>x. Suc (json_depth x)) xs))"
    by (simp only: json_depth.simps) (rule Max_in, simp_all)
  ultimately show ?case by (auto simp del: json_depth.simps)
next
  case (JObj kvs)
  have "d + Suc (json_depth v) \<le> DAG_MAX_NESTING_DEPTH" if "(k, v) \<in> set kvs" for k v
  proof -
    have "passes (check_plain nfc (f @ ''.'' @ k) (Suc d) v)"
      using JObj.prems that by (auto simp: check_plain.simps [of _ _ _ "JObj _"])
    from JObj.IH [OF that _ this] show ?thesis by (simp add: snds.simps)
  qed
  moreover have "d \<le> DAG_MAX_NESTING_DEPTH" using JObj.prems by (simp add: check_plain.simps [of _ _ _ "JObj _"])
  moreover have "json_depth (JObj kvs) \<in> insert 0 (set (map (\<lambda>(k, v). Suc (json_depth v)) kvs))"
    by (simp only: json_depth.simps) (rule Max_in, simp_all)
  ultimately show ?case by (auto simp del: json_depth.simps)
qed (simp_all add: check_plain.simps)

lemma dep_checks_passes:
  "passes (dep_checks i seen ds) \<longleftrightarrow>
   (\<forall>d \<in> set ds. node_id_ok d) \<and> distinct ds \<and> set ds \<inter> set seen = {} \<and> i \<notin> set ds"
  by (induction ds arbitrary: seen) auto

lemma dup_node_checks_passes: "passes (dup_node_checks seen is) \<longleftrightarrow> distinct is \<and> set is \<inter> set seen = {}"
  by (induction "is" arbitrary: seen) auto

definition node_shape :: "plan_definition \<Rightarrow> node \<Rightarrow> bool" where
  "node_shape p n \<longleftrightarrow> node_id_ok (n_id n) \<and> distinct (n_depends_on n) \<and> n_id n \<notin> set (n_depends_on n) \<and>
     json_validate (JObj (n_args n)) \<and> json_depth (JObj (n_args n)) \<le> DAG_MAX_NESTING_DEPTH \<and>
     (\<forall>(t, b) \<in> set (n_bindings n). binding_target_ok t \<and> binding_source_ok (b_source b)) \<and>
     1 \<le> n_timeout_ms n \<and> n_timeout_ms n \<le> p_deadline_ms p \<and>
     (n_kind n = TOOL \<longleftrightarrow> n_tool n \<noteq> None) \<and> (n_kind n = TRANSFORM \<longleftrightarrow> n_op n \<noteq> None)"

definition plan_shape :: "plan_definition \<Rightarrow> bool" where
  "plan_shape p \<longleftrightarrow> p_nodes p \<noteq> [] \<and> distinct (node_ids p) \<and>
     int (length (p_nodes p)) \<le> max_nodes (p_budget p) \<and> max_nodes (p_budget p) \<le> DAG_MAX_NODES \<and>
     (\<forall>n \<in> set (p_nodes p). node_shape p n) \<and>
     1 \<le> p_deadline_ms p \<and> p_deadline_ms p \<le> DAG_MAX_TOTAL_WALL_MS \<and>
     1 \<le> max_parallelism (p_budget p) \<and> max_parallelism (p_budget p) \<le> DAG_MAX_PARALLELISM \<and>
     0 \<le> max_external_calls (p_budget p) \<and> max_external_calls (p_budget p) \<le> DAG_MAX_EXTERNAL_CALLS \<and>
     (\<forall>(k, v) \<in> set (per_provider_limits (p_budget p) @ per_credential_limits (p_budget p)).
        1 \<le> v \<and> v \<le> DAG_MAX_PARALLELISM)"

lemma node_checks_shape:
  assumes "passes (node_checks nfc n)" "\<forall>(t, b) \<in> set (n_bindings n). passes (binding_checks nfc b)"
    "n_timeout_ms n \<le> p_deadline_ms p"
  shows "node_shape p n"
proof -
  have kind: "(n_kind n = TOOL \<longleftrightarrow> n_tool n \<noteq> None) \<and> (n_kind n = TRANSFORM \<longleftrightarrow> n_op n \<noteq> None)"
    using assms(1) by (cases "n_kind n") (auto simp: node_checks_def opt_empty_def split: option.splits)
  have "passes (check_plain nfc ''node.args'' 0 (JObj (n_args n)))" using assms(1) by (simp add: node_checks_def)
  from check_plain_validate [OF this] check_plain_depth [OF this]
  have args: "json_validate (JObj (n_args n))" "json_depth (JObj (n_args n)) \<le> DAG_MAX_NESTING_DEPTH"
    by (simp_all del: json_validate.simps json_depth.simps)
  have bind: "\<forall>(t, b) \<in> set (n_bindings n). binding_target_ok t \<and> binding_source_ok (b_source b)"
    using assms(1,2) by (fastforce simp: node_checks_def binding_checks_def)
  have "node_id_ok (n_id n)" "distinct (n_depends_on n)" "n_id n \<notin> set (n_depends_on n)" "1 \<le> n_timeout_ms n"
    using assms(1) by (simp_all add: node_checks_def dep_checks_passes)
  with kind args bind assms(3) show ?thesis
    by (simp add: node_shape_def del: json_validate.simps json_depth.simps)
qed

lemma limit_checks_passes:
  "passes (limit_checks nfc f m) \<Longrightarrow> (k, v) \<in> set m \<Longrightarrow> 1 \<le> v \<and> v \<le> DAG_MAX_PARALLELISM"
  by (fastforce simp: limit_checks_def)


subsection \<open>A sample plan\<close>

definition sample_budget :: budget where
  "sample_budget = \<lparr>max_nodes = 8, max_parallelism = 1, max_external_calls = 4, max_total_wall_ms = 60000,
     max_result_bytes = 4096, max_checkpoint_bytes = 4096, per_provider_limits = [], per_credential_limits = []\<rparr>"

definition tool_node :: "string \<Rightarrow> string \<Rightarrow> (string \<times> json) list \<Rightarrow> (string \<times> binding) list \<Rightarrow> string list \<Rightarrow> node" where
  "tool_node i t args bs deps = \<lparr>n_id = i, n_kind = TOOL, n_tool = Some t, n_op = None, n_args = args,
     n_bindings = bs, n_depends_on = deps, n_policy_ref = None,
     n_idempotency = Some \<lparr>i_enabled = True, i_attempt_epoch = 0\<rparr>, n_on_failure = ABORT_PLAN,
     n_timeout_ms = 30000, n_retry_ref = None, n_compensation = Some ''undo'', n_description = ''''\<rparr>"

definition transform_node :: "string \<Rightarrow> string \<Rightarrow> (string \<times> json) list \<Rightarrow> (string \<times> binding) list \<Rightarrow> string list \<Rightarrow> node" where
  "transform_node i t args bs deps = \<lparr>n_id = i, n_kind = TRANSFORM, n_tool = None, n_op = Some t, n_args = args,
     n_bindings = bs, n_depends_on = deps, n_policy_ref = None, n_idempotency = None,
     n_on_failure = ABORT_PLAN, n_timeout_ms = 30000, n_retry_ref = None, n_compensation = None,
     n_description = ''''\<rparr>"

definition sample_binding :: binding where
  "sample_binding = \<lparr>b_source = ''a.result.items'', b_type = ''list'', b_required = True, b_max_bytes = 100\<rparr>"

definition sample_plan :: plan_definition where
  "sample_plan = \<lparr>p_plan_id = ''plan-1'',
     p_nodes = [tool_node ''a'' ''gh.merge'' [(''repository'', JStr ''o/r'')] [] [],
                transform_node ''b'' ''count'' [] [(''args.value'', sample_binding)] [''a'']],
     p_budget = sample_budget, p_failure_policy = FAIL_FAST, p_deadline_ms = 60000,
     p_rollback_policy = ROLLBACK_NONE, p_approval = None, p_dry_run = False,
     p_schema_version = ''dag/1'', p_mode = ''DAG'', p_description = ''''\<rparr>"

lemma sample_plan_new: "plan_new (\<lambda>s. s) sample_plan = Inr sample_plan"
  by code_simp


end
