(* ===== verification/Dag_Transform.thy ===== *)
theory Dag_Transform
  imports Dag_Contract "HOL-Library.AList"
begin

section \<open>Transform operations (v2/dag\_transform.py)\<close>

text \<open>
  The closed table of pure operations a \<open>TRANSFORM\<close> node may apply: one definition per handler,
  the table, the static shape check and \<open>apply_transform\<close>. Arguments are the association list of
  resolved arguments; a missing one reads as \<open>None\<close> (\<open>dict.get\<close>).
\<close>

definition TYPE_OBJECT :: string where "TYPE_OBJECT = ''object''"
definition TYPE_LIST :: string where "TYPE_LIST = ''list''"
definition TYPE_STRING :: string where "TYPE_STRING = ''string''"
definition TYPE_INT :: string where "TYPE_INT = ''int''"
definition TYPE_BOOL :: string where "TYPE_BOOL = ''bool''"
definition TYPE_ANY :: string where "TYPE_ANY = ''any''"

definition TYPE_NAMES :: "string list" where
  "TYPE_NAMES = [TYPE_OBJECT, TYPE_LIST, TYPE_STRING, TYPE_INT, TYPE_BOOL, TYPE_ANY]"

definition mismatch :: "string \<Rightarrow> plan_error" where
  "mismatch d = PlanValidationError TRANSFORM_TYPE_MISMATCH d"

fun type_of :: "json \<Rightarrow> (plan_error, string) result" where
  "type_of (JBool b) = Inr TYPE_BOOL"
| "type_of (JInt i) = Inr TYPE_INT"
| "type_of (JStr s) = Inr TYPE_STRING"
| "type_of (JObj kvs) = Inr TYPE_OBJECT"
| "type_of (JList xs) = Inr TYPE_LIST"
| "type_of _ = Inl (mismatch ''unsupported value type'')"

definition types_compatible :: "string \<Rightarrow> string \<Rightarrow> bool" where
  "types_compatible declared actual \<longleftrightarrow>
     (if declared \<notin> set TYPE_NAMES \<or> actual \<notin> set TYPE_NAMES then False
      else if declared = TYPE_ANY \<or> actual = TYPE_ANY then declared = actual
      else declared = actual)"

text \<open>
  Python's \<open>==\<close>: numbers compare by value across \<open>bool\<close>, \<open>int\<close> and \<open>float\<close>, dictionaries
  without regard to order. Two values are equal when these normal forms are.
\<close>

fun py_norm :: "json \<Rightarrow> json" where
  "py_norm (JBool b) = JFloat (if b then 1 else 0)"
| "py_norm (JInt i) = JFloat (rat_of_int i)"
| "py_norm (JList xs) = JList (map py_norm xs)"
| "py_norm (JObj kvs) = JObj (sort_key fst (map (\<lambda>(k, v). (k, py_norm v)) kvs))"
| "py_norm v = v"

definition py_eq :: "json \<Rightarrow> json \<Rightarrow> bool" where
  "py_eq v w \<longleftrightarrow> py_norm v = py_norm w"

type_synonym args = "(string \<times> json) list"

definition arg_get :: "args \<Rightarrow> string \<Rightarrow> json" where
  "arg_get a k = (case map_of a k of None \<Rightarrow> JNull | Some v \<Rightarrow> v)"

fun as_object :: "json \<Rightarrow> string \<Rightarrow> (plan_error, (string \<times> json) list) result" where
  "as_object (JObj kvs) name = Inr kvs"
| "as_object _ name = Inl (mismatch (name @ '': object''))"

fun as_list :: "json \<Rightarrow> string \<Rightarrow> (plan_error, json list) result" where
  "as_list (JList xs) name = Inr xs"
| "as_list _ name = Inl (mismatch (name @ '': list''))"

fun as_str :: "json \<Rightarrow> string \<Rightarrow> (plan_error, string) result" where
  "as_str (JStr s) name = Inr s"
| "as_str _ name = Inl (mismatch (name @ '': string''))"

definition item_field :: "json \<Rightarrow> string \<Rightarrow> (plan_error, json) result" where
  "item_field item key = bind_r (as_object item ''item'')
     (\<lambda>m. case map_of m key of None \<Rightarrow> Inl (mismatch ''field: unknown'') | Some v \<Rightarrow> Inr v)"

definition canonical_bytes :: "json \<Rightarrow> (plan_error, string) result" where
  "canonical_bytes v = (case canonical_json_text v of Inl _ \<Rightarrow> Inl Canonical_TypeError | Inr t \<Rightarrow> Inr t)"

subsection \<open>Handlers\<close>

definition op_select :: "args \<Rightarrow> (plan_error, json) result" where
  "op_select a = bind_r (as_object (arg_get a ''value'') ''value'') (\<lambda>src.
     bind_r (as_str (arg_get a ''field'') ''field'') (\<lambda>key.
     case map_of src key of None \<Rightarrow> Inl (mismatch ''select: unknown field'') | Some v \<Rightarrow> Inr v))"

fun project_loop :: "(string \<times> json) list \<Rightarrow> json list \<Rightarrow> (string \<times> json) list \<Rightarrow> (plan_error, (string \<times> json) list) result" where
  "project_loop src [] out = Inr out"
| "project_loop src (f # fs) out = bind_r (as_str f ''fields[]'') (\<lambda>key.
     case map_of src key of None \<Rightarrow> Inl (mismatch ''project: unknown field'')
     | Some v \<Rightarrow> project_loop src fs (AList.update key v out))"

definition op_project :: "args \<Rightarrow> (plan_error, json) result" where
  "op_project a = bind_r (as_object (arg_get a ''value'') ''value'') (\<lambda>src.
     bind_r (as_list (arg_get a ''fields'') ''fields'') (\<lambda>fs.
     bind_r (project_loop src fs []) (\<lambda>out. Inr (JObj out))))"

text \<open>The comprehension \<open>[item for item in items if p (_field (item, key))]\<close>.\<close>

fun filter_field :: "string \<Rightarrow> (json \<Rightarrow> bool) \<Rightarrow> json list \<Rightarrow> (plan_error, json list) result" where
  "filter_field key p [] = Inr []"
| "filter_field key p (x # xs) = bind_r (item_field x key) (\<lambda>v.
     bind_r (filter_field key p xs) (\<lambda>ys. Inr (if p v then x # ys else ys)))"

definition op_filter_eq :: "args \<Rightarrow> (plan_error, json) result" where
  "op_filter_eq a = bind_r (as_list (arg_get a ''value'') ''value'') (\<lambda>items.
     bind_r (as_str (arg_get a ''field'') ''field'') (\<lambda>key.
     bind_r (filter_field key (\<lambda>v. py_eq v (arg_get a ''equals'')) items) (\<lambda>ys. Inr (JList ys))))"

definition op_filter_in :: "args \<Rightarrow> (plan_error, json) result" where
  "op_filter_in a = bind_r (as_list (arg_get a ''value'') ''value'') (\<lambda>items.
     bind_r (as_str (arg_get a ''field'') ''field'') (\<lambda>key.
     bind_r (as_list (arg_get a ''values'') ''values'') (\<lambda>allowed.
     bind_r (filter_field key (\<lambda>v. list_ex (py_eq v) allowed) items) (\<lambda>ys. Inr (JList ys)))))"

definition op_map_field :: "args \<Rightarrow> (plan_error, json) result" where
  "op_map_field a = bind_r (as_list (arg_get a ''value'') ''value'') (\<lambda>items.
     bind_r (as_str (arg_get a ''field'') ''field'') (\<lambda>key.
     bind_r (traverse (\<lambda>x. item_field x key) items) (\<lambda>ys. Inr (JList ys))))"

definition op_count :: "args \<Rightarrow> (plan_error, json) result" where
  "op_count a = bind_r (as_list (arg_get a ''value'') ''value'') (\<lambda>items. Inr (JInt (int (length items))))"

definition op_first :: "args \<Rightarrow> (plan_error, json) result" where
  "op_first a = bind_r (as_list (arg_get a ''value'') ''value'') (\<lambda>items.
     case items of [] \<Rightarrow> Inl (mismatch ''first: empty list'') | x # _ \<Rightarrow> Inr x)"

definition op_sort_by :: "args \<Rightarrow> (plan_error, json) result" where
  "op_sort_by a = bind_r (as_list (arg_get a ''value'') ''value'') (\<lambda>items.
     bind_r (as_str (arg_get a ''field'') ''field'') (\<lambda>key.
     bind_r (traverse (\<lambda>x. bind_r (item_field x key) (\<lambda>v. Inr (v, x))) items) (\<lambda>keyed.
     bind_r (traverse (\<lambda>(v, x). type_of v) keyed) (\<lambda>kinds.
     if length (remdups kinds) > 1 then Inl (mismatch ''sort_by: mixed key types'')
     else bind_r (traverse (\<lambda>(v, x). bind_r (canonical_bytes v) (\<lambda>b. Inr (b, x))) keyed) (\<lambda>dec.
     Inr (JList (map snd (sort_key fst dec))))))))"

fun unique_loop :: "json list \<Rightarrow> string list \<Rightarrow> (plan_error, json list) result" where
  "unique_loop [] seen = Inr []"
| "unique_loop (x # xs) seen = bind_r (canonical_bytes x) (\<lambda>e.
     if e \<in> set seen then unique_loop xs seen
     else bind_r (unique_loop xs (seen @ [e])) (\<lambda>ys. Inr (x # ys)))"

definition op_unique :: "args \<Rightarrow> (plan_error, json) result" where
  "op_unique a = bind_r (as_list (arg_get a ''value'') ''value'') (\<lambda>items.
     bind_r (unique_loop items []) (\<lambda>ys. Inr (JList ys)))"

definition op_merge_objects :: "args \<Rightarrow> (plan_error, json) result" where
  "op_merge_objects a = bind_r (as_object (arg_get a ''left'') ''left'') (\<lambda>l.
     bind_r (as_object (arg_get a ''right'') ''right'') (\<lambda>r.
     if list_ex (\<lambda>k. k \<in> set (map fst r)) (map fst l) then Inl (mismatch ''merge_objects: key collision'')
     else Inr (JObj (l @ r))))"

fun op_to_list :: "args \<Rightarrow> (plan_error, json) result" where
  "op_to_list a = (case arg_get a ''value'' of JList xs \<Rightarrow> Inr (JList xs) | v \<Rightarrow> Inr (JList [v]))"

definition op_require_non_empty :: "args \<Rightarrow> (plan_error, json) result" where
  "op_require_non_empty a = bind_r (as_list (arg_get a ''value'') ''value'') (\<lambda>items.
     if items = [] then Inl (mismatch ''require_non_empty: empty'') else Inr (JList items))"

subsection \<open>The table\<close>

record transform_spec =
  required_args :: "string list"
  arg_types :: "(string \<times> string) list"
  output_type :: string
  handler :: "args \<Rightarrow> (plan_error, json) result"

definition TRANSFORM_OPS :: "(string \<times> transform_spec) list" where
  "TRANSFORM_OPS =
     [(''select'', \<lparr>required_args = [''value'', ''field''],
        arg_types = [(''value'', TYPE_OBJECT), (''field'', TYPE_STRING)], output_type = TYPE_ANY, handler = op_select\<rparr>),
      (''project'', \<lparr>required_args = [''value'', ''fields''],
        arg_types = [(''value'', TYPE_OBJECT), (''fields'', TYPE_LIST)], output_type = TYPE_OBJECT, handler = op_project\<rparr>),
      (''filter_eq'', \<lparr>required_args = [''value'', ''field'', ''equals''],
        arg_types = [(''value'', TYPE_LIST), (''field'', TYPE_STRING)], output_type = TYPE_LIST, handler = op_filter_eq\<rparr>),
      (''filter_in'', \<lparr>required_args = [''value'', ''field'', ''values''],
        arg_types = [(''value'', TYPE_LIST), (''field'', TYPE_STRING), (''values'', TYPE_LIST)], output_type = TYPE_LIST,
        handler = op_filter_in\<rparr>),
      (''map_field'', \<lparr>required_args = [''value'', ''field''],
        arg_types = [(''value'', TYPE_LIST), (''field'', TYPE_STRING)], output_type = TYPE_LIST, handler = op_map_field\<rparr>),
      (''count'', \<lparr>required_args = [''value''], arg_types = [(''value'', TYPE_LIST)], output_type = TYPE_INT,
        handler = op_count\<rparr>),
      (''first'', \<lparr>required_args = [''value''], arg_types = [(''value'', TYPE_LIST)], output_type = TYPE_ANY,
        handler = op_first\<rparr>),
      (''sort_by'', \<lparr>required_args = [''value'', ''field''],
        arg_types = [(''value'', TYPE_LIST), (''field'', TYPE_STRING)], output_type = TYPE_LIST, handler = op_sort_by\<rparr>),
      (''unique'', \<lparr>required_args = [''value''], arg_types = [(''value'', TYPE_LIST)], output_type = TYPE_LIST,
        handler = op_unique\<rparr>),
      (''merge_objects'', \<lparr>required_args = [''left'', ''right''],
        arg_types = [(''left'', TYPE_OBJECT), (''right'', TYPE_OBJECT)], output_type = TYPE_OBJECT,
        handler = op_merge_objects\<rparr>),
      (''to_list'', \<lparr>required_args = [''value''], arg_types = [], output_type = TYPE_LIST, handler = op_to_list\<rparr>),
      (''require_non_empty'', \<lparr>required_args = [''value''], arg_types = [(''value'', TYPE_LIST)], output_type = TYPE_LIST,
        handler = op_require_non_empty\<rparr>)]"

definition transform_output_type :: "string \<Rightarrow> (plan_error, string) result" where
  "transform_output_type op =
     (case map_of TRANSFORM_OPS op of
        None \<Rightarrow> Inl (PlanValidationError TRANSFORM_OP_UNKNOWN op)
      | Some spec \<Rightarrow> Inr (output_type spec))"

fun join_comma :: "string list \<Rightarrow> string" where
  "join_comma [] = []"
| "join_comma [x] = x"
| "join_comma (x # y # xs) = x @ CHR '','' # join_comma (y # xs)"

text \<open>\<open>sorted(set(xs) - set(ys))\<close>\<close>

definition sorted_diff :: "string list \<Rightarrow> string list \<Rightarrow> string list" where
  "sorted_diff xs ys = sort (remdups (filter (\<lambda>x. x \<notin> set ys) xs))"

definition validate_transform_shape :: "string \<Rightarrow> string list \<Rightarrow> (plan_error, unit) result" where
  "validate_transform_shape op names =
     (case map_of TRANSFORM_OPS op of
        None \<Rightarrow> Inl (PlanValidationError TRANSFORM_OP_UNKNOWN op)
      | Some spec \<Rightarrow>
          let missing = sorted_diff (required_args spec) names; extra = sorted_diff names (required_args spec)
          in if missing \<noteq> [] then Inl (mismatch (op @ '': missing '' @ join_comma missing))
             else if extra \<noteq> [] then Inl (mismatch (op @ '': unexpected '' @ join_comma extra))
             else Inr ())"

fun check_arg_types :: "string \<Rightarrow> args \<Rightarrow> (string \<times> string) list \<Rightarrow> (plan_error, unit) result" where
  "check_arg_types op a [] = Inr ()"
| "check_arg_types op a ((name, declared) # ts) =
     (if declared = TYPE_ANY then check_arg_types op a ts
      else bind_r (type_of (arg_get a name)) (\<lambda>actual.
        if actual \<noteq> declared then Inl (mismatch (op @ ''.'' @ name @ '': '' @ actual @ '' != '' @ declared))
        else check_arg_types op a ts))"

definition apply_transform :: "string \<Rightarrow> args \<Rightarrow> int \<Rightarrow> (plan_error, json) result" where
  "apply_transform op a max_bytes =
     (case map_of TRANSFORM_OPS op of
        None \<Rightarrow> Inl (PlanValidationError TRANSFORM_OP_UNKNOWN op)
      | Some spec \<Rightarrow>
          bind_r (validate_transform_shape op (map fst a)) (\<lambda>_.
          bind_r (check_arg_types op a (arg_types spec)) (\<lambda>_.
          bind_r (handler spec a) (\<lambda>r.
          bind_r (canonical_bytes r) (\<lambda>b.
          if int (length b) > max_bytes then Inl (PlanValidationError TRANSFORM_OUTPUT_TOO_LARGE op) else Inr r)))))"

subsection \<open>Typing\<close>

lemmas handler_defs = op_select_def op_project_def op_filter_eq_def op_filter_in_def op_map_field_def
  op_count_def op_first_def op_sort_by_def op_unique_def op_merge_objects_def op_require_non_empty_def

lemma handler_typed:
  assumes "map_of TRANSFORM_OPS op = Some spec" "handler spec a = Inr v" "output_type spec \<noteq> TYPE_ANY"
  shows "type_of v = Inr (output_type spec)"
proof -
  have to_list: "op_to_list a = Inr v \<Longrightarrow> type_of v = Inr TYPE_LIST"
    by (cases "arg_get a ''value''") auto
  have "map_of TRANSFORM_OPS op = Some spec \<Longrightarrow> handler spec a = Inr v \<Longrightarrow> output_type spec \<noteq> TYPE_ANY \<Longrightarrow>
      type_of v = Inr (output_type spec)"
    unfolding TRANSFORM_OPS_def
    by (simp split: if_splits)
      (auto simp: handler_defs bind_r_Inr_iff to_list simp del: op_to_list.simps split: if_splits)
  with assms show ?thesis by blast
qed

text \<open>
  C33. A transform that returns has the output type its table entry declares (unless that is
  \<open>any\<close>), and a canonical text that fits the byte budget.
\<close>

theorem transform_typed_and_bounded:
  assumes "apply_transform op a n = Inr v"
  shows "\<exists>spec t. map_of TRANSFORM_OPS op = Some spec \<and>
    (output_type spec \<noteq> TYPE_ANY \<longrightarrow> type_of v = Inr (output_type spec)) \<and>
    canonical_json_text v = Inr t \<and> int (length t) \<le> n"
proof -
  from assms obtain spec where s: "map_of TRANSFORM_OPS op = Some spec"
    by (cases "map_of TRANSFORM_OPS op") (simp_all add: apply_transform_def)
  with assms obtain r b where "handler spec a = Inr r" "canonical_bytes r = Inr b" "int (length b) \<le> n" "v = r"
    by (auto simp: apply_transform_def bind_r_Inr_iff split: if_splits)
  with s handler_typed [OF s] show ?thesis
    by (auto simp: canonical_bytes_def split: sum.splits)
qed

theorem transform_typed_and_bounded_witness:
  "type_of (JInt 2) = Inr TYPE_INT \<and> apply_transform ''count'' [(''value'', JList [JNull, JBool True])] 10 = Inr (JInt 2)"
proof -
  have a: "apply_transform ''count'' [(''value'', JList [JNull, JBool True])] 10 = Inr (JInt 2)"
    by code_simp
  obtain spec where "map_of TRANSFORM_OPS ''count'' = Some spec"
    "output_type spec \<noteq> TYPE_ANY \<longrightarrow> type_of (JInt 2) = Inr (output_type spec)"
    using transform_typed_and_bounded [OF a] by blast
  then show ?thesis using a by (auto simp: TRANSFORM_OPS_def TYPE_INT_def TYPE_ANY_def)
qed

subsection \<open>Sorting and deduplication\<close>

definition field_bytes :: "string \<Rightarrow> json \<Rightarrow> string" where
  "field_bytes key x = (case item_field x key of Inl _ \<Rightarrow> [] | Inr v \<Rightarrow> dumps v)"

text \<open>Items that can be sorted by a field: each has it, with a serializable value of one common type.\<close>

definition sortable :: "string \<Rightarrow> string \<Rightarrow> json list \<Rightarrow> bool" where
  "sortable key ty xs \<longleftrightarrow>
     (\<forall>x \<in> set xs. case item_field x key of Inl _ \<Rightarrow> False | Inr v \<Rightarrow> type_of v = Inr ty \<and> json_validate v)"

lemma traverse_map: "(\<And>x. x \<in> set xs \<Longrightarrow> f x = Inr (g x)) \<Longrightarrow> traverse f xs = Inr (map g xs)"
  by (induction xs) simp_all

lemma sort_key_map_snd: "map snd (sort_key fst (map (\<lambda>x. (f x, x)) xs)) = sort_key f xs"
proof -
  have ins: "insort_key fst (f x, x) (map (\<lambda>x. (f x, x)) ys) = map (\<lambda>x. (f x, x)) (insort_key f x ys)" for x ys
    by (induction ys) auto
  have "sort_key fst (map (\<lambda>x. (f x, x)) xs) = map (\<lambda>x. (f x, x)) (sort_key f xs)"
    by (induction xs) (simp_all add: ins)
  then show ?thesis by (simp add: comp_def)
qed

lemma op_sort_by_eq:
  assumes "arg_get a ''value'' = JList xs" "arg_get a ''field'' = JStr key" "sortable key ty xs"
  shows "op_sort_by a = Inr (JList (sort_key (field_bytes key) xs))"
proof -
  define val where "val x = (case item_field x key of Inl _ \<Rightarrow> JNull | Inr v \<Rightarrow> v)" for x
  have val: "item_field x key = Inr (val x)" "type_of (val x) = Inr ty" "json_validate (val x)"
    "field_bytes key x = dumps (val x)" if "x \<in> set xs" for x
    using assms(3) that by (auto simp: sortable_def val_def field_bytes_def split: sum.splits)
  have t1: "traverse (\<lambda>x. bind_r (item_field x key) (\<lambda>v. Inr (v, x))) xs = Inr (map (\<lambda>x. (val x, x)) xs)"
    by (rule traverse_map) (simp add: val)
  have t2: "traverse (\<lambda>(v, x). type_of v) (map (\<lambda>x. (val x, x)) xs) = Inr (map (\<lambda>_. ty) (map (\<lambda>x. (val x, x)) xs))"
    by (rule traverse_map) (auto simp: val)
  have t3: "traverse (\<lambda>(v, x). bind_r (canonical_bytes v) (\<lambda>b. Inr (b, x))) (map (\<lambda>x. (val x, x)) xs) =
      Inr (map (\<lambda>(v, x). (dumps v, x)) (map (\<lambda>x. (val x, x)) xs))"
    by (rule traverse_map) (auto simp: val canonical_bytes_def canonical_json_text_def)
  have k: "length (remdups (map (\<lambda>_. ty) (map (\<lambda>x. (val x, x)) xs))) \<le> 1"
    by (simp add: length_remdups_card_conv image_constant_conv)
  have "map (\<lambda>(v, x). (dumps v, x)) (map (\<lambda>x. (val x, x)) xs) = map (\<lambda>x. (field_bytes key x, x)) xs"
    by (simp add: val)
  note t4 = t3 [unfolded this]
  show ?thesis using assms(1,2) t1 t2 t4 k
    by (simp add: op_sort_by_def sort_key_map_snd del: map_map)
qed

text \<open>
  \<open>sort_by\<close> returns on every sortable list, and its result is the stable sort of the items
  by the canonical bytes of the field: a permutation, ordered, with equal keys in their original order.
\<close>

theorem sort_by_stable:
  assumes "arg_get a ''value'' = JList xs" and "arg_get a ''field'' = JStr key" and "sortable key ty xs"
  shows "\<exists>ys. op_sort_by a = Inr (JList ys) \<and> set ys = set xs \<and> length ys = length xs \<and>
    sorted (map (field_bytes key) ys) \<and>
    (\<forall>b. filter (\<lambda>x. field_bytes key x = b) ys = filter (\<lambda>x. field_bytes key x = b) xs)"
  using op_sort_by_eq [OF assms] by (simp add: sort_key_stable)

theorem sort_by_stable_witness:
  "op_sort_by [(''value'', JList [JObj [(''n'', JInt 9)], JObj [(''n'', JInt 10)]]), (''field'', JStr ''n'')] =
     Inr (JList [JObj [(''n'', JInt 10)], JObj [(''n'', JInt 9)]]) \<and>
   (\<exists>ys. op_sort_by [(''value'', JList [JObj [(''n'', JInt 9)], JObj [(''n'', JInt 10)]]), (''field'', JStr ''n'')] =
     Inr (JList ys) \<and> sorted (map (field_bytes ''n'') ys))"
  (is "op_sort_by ?a = _ \<and> _")
proof -
  have "sortable ''n'' TYPE_INT [JObj [(''n'', JInt 9)], JObj [(''n'', JInt 10)]]"
    by (simp add: sortable_def item_field_def)
  moreover have "op_sort_by ?a = Inr (JList [JObj [(''n'', JInt 10)], JObj [(''n'', JInt 9)]])" by code_simp
  ultimately show ?thesis
    using sort_by_stable [of ?a "[JObj [(''n'', JInt 9)], JObj [(''n'', JInt 10)]]" "''n''" TYPE_INT]
    by (auto simp: arg_get_def)
qed

lemma unique_loop_spec:
  assumes "\<forall>x \<in> set xs. json_validate x"
  shows "\<exists>ys. unique_loop xs seen = Inr ys \<and> set ys \<subseteq> set xs \<and> distinct (map dumps ys) \<and>
    set (map dumps ys) = set (map dumps xs) - set seen"
  using assms
proof (induction xs arbitrary: seen)
  case (Cons x xs)
  have e: "canonical_bytes x = Inr (dumps x)"
    using Cons.prems by (simp add: canonical_bytes_def canonical_json_text_def)
  obtain ys where ys: "unique_loop xs (seen @ [dumps x]) = Inr ys" "set ys \<subseteq> set xs" "distinct (map dumps ys)"
      "set (map dumps ys) = set (map dumps xs) - set (seen @ [dumps x])"
    using Cons.IH Cons.prems by (meson list.set_intros(2))
  obtain zs where zs: "unique_loop xs seen = Inr zs" "set zs \<subseteq> set xs" "distinct (map dumps zs)"
      "set (map dumps zs) = set (map dumps xs) - set seen"
    using Cons.IH Cons.prems by (meson list.set_intros(2))
  show ?case
  proof (cases "dumps x \<in> set seen")
    case True
    with e zs show ?thesis by auto
  next
    case False
    with e ys show ?thesis by auto
  qed
qed simp

text \<open>
  \<open>unique\<close> returns on every list of serializable items; its result keeps only given items,
  no two of them equal as JSON values, and one for every item of the list.
\<close>

theorem unique_values:
  assumes "arg_get a ''value'' = JList xs" and "\<forall>x \<in> set xs. json_validate x"
  shows "\<exists>ys. op_unique a = Inr (JList ys) \<and> set ys \<subseteq> set xs \<and> distinct (map canon ys) \<and>
    canon ` set ys = canon ` set xs"
proof -
  obtain ys where ys: "unique_loop xs [] = Inr ys" "set ys \<subseteq> set xs" "distinct (map dumps ys)"
      "set (map dumps ys) = set (map dumps xs)"
    using unique_loop_spec [OF assms(2), of "[]"] by auto
  have same: "canon v = canon w" if "v \<in> set xs" "w \<in> set xs" "dumps v = dumps w" for v w
    using canonical_text_inj [of v w] assms(2) that by blast
  have "inj_on canon (set ys)"
  proof (rule inj_onI)
    fix v w assume "v \<in> set ys" "w \<in> set ys" "canon v = canon w"
    with ys(3) show "v = w" using inj_onD [of dumps "set ys" v w] by (simp add: dumps_canon distinct_map)
  qed
  with ys(3) have "distinct (map canon ys)" by (simp add: distinct_map)
  moreover have "canon ` set xs \<subseteq> canon ` set ys"
  proof
    fix c assume "c \<in> canon ` set xs"
    then obtain x where x: "x \<in> set xs" "c = canon x" by blast
    with ys(4) obtain y where y: "y \<in> set ys" "dumps x = dumps y" by auto
    with same [of x y] x ys(2) show "c \<in> canon ` set ys" by auto
  qed
  ultimately show ?thesis using assms(1) ys(1,2) by (auto simp: op_unique_def)
qed

definition sample_pair :: "json list" where
  "sample_pair = [JObj [(''a'', JInt 1), (''b'', JInt 2)], JObj [(''b'', JInt 2), (''a'', JInt 1)]]"

theorem unique_values_witness:
  "op_unique [(''value'', JList sample_pair)] = Inr (JList [JObj [(''a'', JInt 1), (''b'', JInt 2)]]) \<and>
   (\<exists>ys. op_unique [(''value'', JList sample_pair)] = Inr (JList ys) \<and> distinct (map canon ys))"
proof
  show "op_unique [(''value'', JList sample_pair)] = Inr (JList [JObj [(''a'', JInt 1), (''b'', JInt 2)]])"
    by code_simp
  have "arg_get [(''value'', JList sample_pair)] ''value'' = JList sample_pair" by (simp add: arg_get_def)
  moreover have "\<forall>x \<in> set sample_pair. json_validate x" by (simp add: sample_pair_def)
  ultimately show "\<exists>ys. op_unique [(''value'', JList sample_pair)] = Inr (JList ys) \<and> distinct (map canon ys)"
    using unique_values by blast
qed

text \<open>
  The transform layer documents that a violation always surfaces as \<open>PlanValidationError\<close>.
  A float in the input is the exception: \<open>select\<close> of a field holding one raises the serializer's
  \<open>TypeError\<close> instead, which the engine's handler for transforms does not catch.
\<close>

theorem transform_float_escapes:
  assumes "map_of kvs key = Some (JFloat r)"
  shows "apply_transform ''select'' [(''value'', JObj kvs), (''field'', JStr key)] n = Inl Canonical_TypeError"
proof -
  have "validate_transform_shape ''select'' [''value'', ''field''] = Inr ()" by code_simp
  with assms show ?thesis
    by (simp add: apply_transform_def TRANSFORM_OPS_def op_select_def arg_get_def canonical_bytes_def
        canonical_json_text_def TYPE_ANY_def TYPE_OBJECT_def TYPE_STRING_def)
qed

theorem transform_float_escapes_witness:
  "apply_transform ''select'' [(''value'', JObj [(''score'', JFloat (1 / 2))]), (''field'', JStr ''score'')] 100 =
   Inl Canonical_TypeError"
  by (rule transform_float_escapes [where r = "1 / 2"]) simp

end
