(* ===== verification/Dag_Digest.thy ===== *)
theory Dag_Digest
  imports Dag_Transform
begin

section \<open>Digests (v2/dag\_digest.py)\<close>

text \<open>
  The canonical projection of a plan and the digests built from it. SHA-256 is the parameter
  \<open>sha\<close>; where a result needs it, its collision freedom is the hypothesis \<open>inj sha\<close>.
\<close>

fun kind_value :: "node_kind \<Rightarrow> string" where
  "kind_value TOOL = ''TOOL''" | "kind_value TRANSFORM = ''TRANSFORM''"

fun failure_value :: "failure_policy \<Rightarrow> string" where
  "failure_value FAIL_FAST = ''fail_fast''" | "failure_value CONTINUE_INDEPENDENT = ''continue_independent''"

fun rollback_value :: "rollback_policy \<Rightarrow> string" where
  "rollback_value ROLLBACK_NONE = ''none''"
| "rollback_value COMPENSATE_ON_FAILURE = ''compensate_on_failure''"
| "rollback_value COMPENSATE_ON_ABORT = ''compensate_on_abort''"

fun on_failure_value :: "on_failure \<Rightarrow> string" where
  "on_failure_value ABORT_PLAN = ''abort_plan''"
| "on_failure_value ISOLATE_BRANCH = ''isolate_branch''"
| "on_failure_value ON_FAILURE_DEAD_LETTER = ''dead_letter''"

definition DAG_DIGEST_VERSION :: string where "DAG_DIGEST_VERSION = ''dagdigest/1''"

definition canonical_binding :: "string \<times> binding \<Rightarrow> json" where
  "canonical_binding tb = (case tb of (target, b) \<Rightarrow> JObj
     [(''target'', JStr target), (''from'', JStr (b_source b)), (''type'', JStr (b_type b)),
      (''required'', JBool (b_required b)), (''max_bytes'', JInt (b_max_bytes b))])"

definition opt_entry :: "string \<Rightarrow> string option \<Rightarrow> (string \<times> json) list" where
  "opt_entry k v = (case v of None \<Rightarrow> [] | Some s \<Rightarrow> [(k, JStr s)])"

definition str_or_none :: "string option \<Rightarrow> json" where
  "str_or_none v = (case v of None \<Rightarrow> JNull | Some s \<Rightarrow> JStr s)"

definition canonical_node :: "node \<Rightarrow> json" where
  "canonical_node n = JObj
     ([(''id'', JStr (n_id n)), (''kind'', JStr (kind_value (n_kind n))), (''args'', JObj (n_args n)),
       (''bindings'', JList (map canonical_binding (sort_key fst (n_bindings n)))),
       (''depends_on'', JList (map JStr (sort (remdups (n_depends_on n))))),
       (''on_failure'', JStr (on_failure_value (n_on_failure n))), (''timeout_ms'', JInt (n_timeout_ms n))] @
      (case n_kind n of TOOL \<Rightarrow> [(''tool'', str_or_none (n_tool n))] | TRANSFORM \<Rightarrow> [(''op'', str_or_none (n_op n))]) @
      opt_entry ''policy_ref'' (n_policy_ref n) @
      opt_entry ''retry_ref'' (n_retry_ref n) @
      (case n_idempotency n of None \<Rightarrow> []
       | Some i \<Rightarrow> [(''idempotency'', JObj [(''enabled'', JBool (i_enabled i)), (''attempt_epoch'', JInt (i_attempt_epoch i))])]) @
      (case n_compensation n of None \<Rightarrow> [] | Some c \<Rightarrow> [(''compensation'', JObj [(''operation'', JStr c)])]))"

definition canonical_limits :: "(string \<times> int) list \<Rightarrow> json" where
  "canonical_limits m = JObj (sort_key fst (map (\<lambda>(k, v). (k, JInt v)) m))"

definition canonical_plan :: "plan_definition \<Rightarrow> json" where
  "canonical_plan p = (let b = p_budget p in JObj
     [(''digest_version'', JStr DAG_DIGEST_VERSION), (''schema_version'', JStr (p_schema_version p)),
      (''mode'', JStr (p_mode p)), (''failure_policy'', JStr (failure_value (p_failure_policy p))),
      (''rollback_policy'', JStr (rollback_value (p_rollback_policy p))), (''deadline_ms'', JInt (p_deadline_ms p)),
      (''dry_run'', JBool (p_dry_run p)),
      (''budget'', JObj
        [(''max_nodes'', JInt (max_nodes b)), (''max_parallelism'', JInt (max_parallelism b)),
         (''max_external_calls'', JInt (max_external_calls b)), (''max_total_wall_ms'', JInt (max_total_wall_ms b)),
         (''max_result_bytes'', JInt (max_result_bytes b)), (''max_checkpoint_bytes'', JInt (max_checkpoint_bytes b)),
         (''per_provider_limits'', canonical_limits (per_provider_limits b)),
         (''per_credential_limits'', canonical_limits (per_credential_limits b))]),
      (''nodes'', JList (map canonical_node (sort_key n_id (p_nodes p))))])"

definition canonical_plan_bytes :: "plan_definition \<Rightarrow> (plan_error, string) result" where
  "canonical_plan_bytes p = bind_r (canonical_bytes (canonical_plan p)) (\<lambda>b.
     if int (length b) > DAG_MAX_CANONICAL_BYTES then Inl (PlanValidationError PLAN_BUDGET_EXCEEDED ''canonical plan too large'')
     else Inr b)"

definition plan_digest :: "(string \<Rightarrow> string) \<Rightarrow> plan_definition \<Rightarrow> (plan_error, string) result" where
  "plan_digest sha p = bind_r (canonical_plan_bytes p) (\<lambda>b. Inr (sha b))"

definition hash_json :: "(string \<Rightarrow> string) \<Rightarrow> json \<Rightarrow> (plan_error, string) result" where
  "hash_json sha v = bind_r (canonical_bytes v) (\<lambda>b. Inr (sha b))"

definition operation_digest :: "(string \<Rightarrow> string) \<Rightarrow> string \<Rightarrow> args \<Rightarrow> (plan_error, string) result" where
  "operation_digest sha i a = hash_json sha (JObj
     [(''digest_version'', JStr DAG_DIGEST_VERSION), (''node_id'', JStr i), (''args'', JObj a)])"

definition node_idempotency_key ::
  "(string \<Rightarrow> string) \<Rightarrow> string \<Rightarrow> string \<Rightarrow> int \<Rightarrow> args \<Rightarrow> (plan_error, string) result" where
  "node_idempotency_key sha d i e a = hash_json sha (JObj
     [(''plan_digest'', JStr d), (''node_id'', JStr i), (''attempt_epoch'', JInt e), (''args'', JObj a)])"

definition compensation_key :: "(string \<Rightarrow> string) \<Rightarrow> string \<Rightarrow> string \<Rightarrow> string \<Rightarrow> (plan_error, string) result" where
  "compensation_key sha d i r = hash_json sha (JObj
     [(''plan_digest'', JStr d), (''node_id'', JStr i), (''kind'', JStr ''compensate''), (''effect_ref'', JStr r)])"

subsection \<open>What a digest determines\<close>

lemma hash_json_ok: "json_validate v \<Longrightarrow> hash_json sha v = Inr (sha (dumps v))"
  by (simp add: hash_json_def canonical_bytes_def canonical_json_text_def)

lemma hash_json_inj:
  assumes "inj sha" "hash_json sha v = Inr h" "hash_json sha w = Inr h"
  shows "canon v = canon w"
  using assms
  by (auto simp: hash_json_def canonical_bytes_def canonical_json_text_def bind_r_Inr_iff
      intro!: canonical_text_inj dest: injD split: sum.splits if_splits)

text \<open>
  An idempotency key identifies the operation: with a collision free hash, equal keys come
  from the same plan digest, node, attempt epoch and (up to key order) resolved arguments.
\<close>

theorem idempotency_key_identifies:
  assumes "inj sha"
    and "node_idempotency_key sha d i e a = Inr h" and "node_idempotency_key sha d' i' e' a' = Inr h"
  shows "d = d' \<and> i = i' \<and> e = e' \<and> canon (JObj a) = canon (JObj a')"
proof -
  let ?v = "\<lambda>d i e a. [(''plan_digest'', JStr d), (''node_id'', JStr i), (''attempt_epoch'', JInt e), (''args'', JObj a)]"
  have c: "canon (JObj (?v d i e a)) = canon (JObj (?v d' i' e' a'))"
    using assms by (intro hash_json_inj [of sha _ h]) (simp_all only: node_idempotency_key_def)
  note entry = canon_JObj_entry [OF c]
  show ?thesis
    using entry [of "''plan_digest''"] entry [of "''node_id''"] entry [of "''attempt_epoch''"] entry [of "''args''"]
    by (simp del: canon.simps(2))
qed

theorem idempotency_key_identifies_witness:
  "\<exists>h. node_idempotency_key (\<lambda>s. s) ''d'' ''n'' 0 [(''x'', JInt 1), (''y'', JNull)] = Inr h \<and>
    node_idempotency_key (\<lambda>s. s) ''d'' ''n'' 0 [(''y'', JNull), (''x'', JInt 1)] = Inr h \<and>
    canon (JObj [(''x'', JInt 1), (''y'', JNull)]) = canon (JObj [(''y'', JNull), (''x'', JInt 1)])"
proof -
  have "node_idempotency_key (\<lambda>s. s) ''d'' ''n'' 0 [(''x'', JInt 1), (''y'', JNull)] =
      node_idempotency_key (\<lambda>s. s) ''d'' ''n'' 0 [(''y'', JNull), (''x'', JInt 1)]" by code_simp
  moreover obtain h where "node_idempotency_key (\<lambda>s. s) ''d'' ''n'' 0 [(''x'', JInt 1), (''y'', JNull)] = Inr h"
    by (simp add: node_idempotency_key_def hash_json_ok)
  moreover have "inj (\<lambda>s :: string. s)" by (simp add: inj_def)
  ultimately show ?thesis using idempotency_key_identifies by metis
qed

subsection \<open>Plans\<close>

lemma kind_value_inj: "kind_value k = kind_value l \<Longrightarrow> k = l"
  by (cases k; cases l) simp_all

lemma on_failure_value_inj: "on_failure_value k = on_failure_value l \<Longrightarrow> k = l"
  by (cases k; cases l) simp_all

lemma failure_value_inj: "failure_value k = failure_value l \<Longrightarrow> k = l"
  by (cases k; cases l) simp_all

lemma rollback_value_inj: "rollback_value k = rollback_value l \<Longrightarrow> k = l"
  by (cases k; cases l) simp_all

text \<open>The fields of a node that decide what it does.\<close>

definition same_effect :: "node \<Rightarrow> node \<Rightarrow> bool" where
  "same_effect n m \<longleftrightarrow> n_id n = n_id m \<and> n_kind n = n_kind m \<and> canon (JObj (n_args n)) = canon (JObj (n_args m)) \<and>
     (n_kind n = TOOL \<longrightarrow> n_tool n = n_tool m) \<and> (n_kind n = TRANSFORM \<longrightarrow> n_op n = n_op m) \<and>
     set (n_depends_on n) = set (n_depends_on m) \<and> n_on_failure n = n_on_failure m \<and>
     n_timeout_ms n = n_timeout_ms m \<and> n_policy_ref n = n_policy_ref m \<and> n_compensation n = n_compensation m"

definition node_entries :: "node \<Rightarrow> (string \<times> json) list" where
  "node_entries n = (case canonical_node n of JObj kvs \<Rightarrow> kvs | _ \<Rightarrow> [])"

lemma canonical_node_entries: "canonical_node n = JObj (node_entries n)"
  by (simp add: node_entries_def canonical_node_def)

lemmas node_entries_unfold = node_entries_def canonical_node_def opt_entry_def

lemma node_entries_distinct: "distinct (map fst (node_entries n))"
  by (simp add: node_entries_unfold split: node_kind.split option.split)

lemma map_of_node_entries:
  "map_of (node_entries n) ''id'' = Some (JStr (n_id n))"
  "map_of (node_entries n) ''kind'' = Some (JStr (kind_value (n_kind n)))"
  "map_of (node_entries n) ''args'' = Some (JObj (n_args n))"
  "map_of (node_entries n) ''depends_on'' = Some (JList (map JStr (sort (remdups (n_depends_on n)))))"
  "map_of (node_entries n) ''on_failure'' = Some (JStr (on_failure_value (n_on_failure n)))"
  "map_of (node_entries n) ''timeout_ms'' = Some (JInt (n_timeout_ms n))"
  "n_kind n = TOOL \<Longrightarrow> map_of (node_entries n) ''tool'' = Some (str_or_none (n_tool n))"
  "n_kind n = TRANSFORM \<Longrightarrow> map_of (node_entries n) ''op'' = Some (str_or_none (n_op n))"
  "map_of (node_entries n) ''policy_ref'' = map_option JStr (n_policy_ref n)"
  "map_of (node_entries n) ''compensation'' = map_option (\<lambda>c. JObj [(''operation'', JStr c)]) (n_compensation n)"
  by (simp_all add: node_entries_unfold map_of_append map_add_def split: node_kind.split option.split)

lemma str_or_none_inj: "canon (str_or_none a) = canon (str_or_none b) \<Longrightarrow> a = b"
  by (cases a; cases b) (simp_all add: str_or_none_def)

lemma canonical_node_same:
  assumes "canon (canonical_node n) = canon (canonical_node m)"
  shows "same_effect n m"
proof -
  note entry = canon_JObj_entry [OF assms [unfolded canonical_node_entries] node_entries_distinct node_entries_distinct]
  have kind: "n_kind n = n_kind m" using entry [of "''kind''"] kind_value_inj by (simp add: map_of_node_entries)
  have args: "canon (JObj (n_args n)) = canon (JObj (n_args m))"
    using entry [of "''args''"] by (simp only: map_of_node_entries option.map option.inject)
  have deps: "sort (remdups (n_depends_on n)) = sort (remdups (n_depends_on m))"
  proof -
    have "map canon (map JStr xs) = map JStr xs" for xs by simp
    with entry [of "''depends_on''"] have "map JStr (sort (remdups (n_depends_on n))) = map JStr (sort (remdups (n_depends_on m)))"
      by (simp only: map_of_node_entries option.map option.inject canon.simps json.inject)
    then show ?thesis by (simp add: inj_map_eq_map inj_def)
  qed
  then have "set (n_depends_on n) = set (n_depends_on m)" by (metis set_remdups set_sort)
  moreover have "n_id n = n_id m" "n_timeout_ms n = n_timeout_ms m" "n_on_failure n = n_on_failure m"
    using entry [of "''id''"] entry [of "''timeout_ms''"] entry [of "''on_failure''"] on_failure_value_inj
    by (simp_all add: map_of_node_entries)
  moreover have "n_tool n = n_tool m" if "n_kind n = TOOL"
    using entry [of "''tool''"] str_or_none_inj that kind by (simp add: map_of_node_entries)
  moreover have "n_op n = n_op m" if "n_kind n = TRANSFORM"
    using entry [of "''op''"] str_or_none_inj that kind by (simp add: map_of_node_entries)
  moreover have "n_policy_ref n = n_policy_ref m"
    using entry [of "''policy_ref''"] by (cases "n_policy_ref n"; cases "n_policy_ref m") (simp_all add: map_of_node_entries)
  moreover have "n_compensation n = n_compensation m"
    using entry [of "''compensation''"]
    by (cases "n_compensation n"; cases "n_compensation m") (simp_all add: map_of_node_entries)
  ultimately show ?thesis using kind args by (simp add: same_effect_def del: canon.simps)
qed

definition plan_entries :: "plan_definition \<Rightarrow> (string \<times> json) list" where
  "plan_entries p = (case canonical_plan p of JObj kvs \<Rightarrow> kvs | _ \<Rightarrow> [])"

lemma plan_digest_canon:
  assumes "inj sha" "plan_digest sha p = Inr h" "plan_digest sha q = Inr h"
  shows "canon (canonical_plan p) = canon (canonical_plan q)"
proof (rule hash_json_inj [OF assms(1)])
  show "hash_json sha (canonical_plan p) = Inr h" "hash_json sha (canonical_plan q) = Inr h"
    using assms(2,3) by (auto simp: plan_digest_def canonical_plan_bytes_def hash_json_def bind_r_Inr_iff split: if_splits)
qed

text \<open>
  A plan digest covers everything that is executed: with a collision free hash, two plans
  with the same digest have the same failure and rollback policy and deadline, and the same nodes
  in id order up to key order of the arguments: ids, kinds, tools, operations, arguments,
  dependencies, failure handling, timeouts, policies and compensations agree.
\<close>

theorem plan_digest_covers:
  assumes "inj sha" and "plan_digest sha p = Inr h" and "plan_digest sha q = Inr h"
  shows "p_failure_policy p = p_failure_policy q \<and> p_rollback_policy p = p_rollback_policy q \<and>
    p_deadline_ms p = p_deadline_ms q \<and>
    list_all2 same_effect (sort_key n_id (p_nodes p)) (sort_key n_id (p_nodes q))"
proof -
  have pl: "canonical_plan r = JObj (plan_entries r)" "distinct (map fst (plan_entries r))" for r
    by (simp_all add: plan_entries_def canonical_plan_def Let_def)
  note entry = canon_JObj_entry [OF plan_digest_canon [OF assms, unfolded pl(1)] pl(2) pl(2)]
  have m: "map_of (plan_entries r) ''failure_policy'' = Some (JStr (failure_value (p_failure_policy r)))"
    "map_of (plan_entries r) ''rollback_policy'' = Some (JStr (rollback_value (p_rollback_policy r)))"
    "map_of (plan_entries r) ''deadline_ms'' = Some (JInt (p_deadline_ms r))"
    "map_of (plan_entries r) ''nodes'' = Some (JList (map canonical_node (sort_key n_id (p_nodes r))))" for r
    by (simp_all add: plan_entries_def canonical_plan_def Let_def)
  have "map canon (map canonical_node (sort_key n_id (p_nodes p))) = map canon (map canonical_node (sort_key n_id (p_nodes q)))"
    using entry [of "''nodes''"] by (simp only: m option.map option.inject canon.simps json.inject)
  then have "list_all2 (\<lambda>n k. canon (canonical_node n) = canon (canonical_node k)) (sort_key n_id (p_nodes p)) (sort_key n_id (p_nodes q))"
    by (simp add: list_eq_iff_nth_eq list_all2_conv_all_nth)
  then have "list_all2 same_effect (sort_key n_id (p_nodes p)) (sort_key n_id (p_nodes q))"
    by (rule list_all2_mono) (rule canonical_node_same)
  with entry [of "''failure_policy''"] entry [of "''rollback_policy''"] entry [of "''deadline_ms''"]
    failure_value_inj rollback_value_inj
  show ?thesis by (simp add: m)
qed

lemma sample_plan_digest: "plan_digest (\<lambda>s. s) (sample_plan\<lparr>p_plan_id := i\<rparr>) = plan_digest (\<lambda>s. s) sample_plan"
  by (simp add: plan_digest_def canonical_plan_bytes_def canonical_plan_def)

lemma sample_plan_has_digest: "plan_digest (\<lambda>s. s) sample_plan = Inr (dumps (canonical_plan sample_plan))"
proof -
  have "json_validate (canonical_plan sample_plan)" by code_simp
  moreover have "text_bound (canonical_plan sample_plan) \<le> DAG_MAX_CANONICAL_BYTES" by code_simp
  then have "int (length (dumps (canonical_plan sample_plan))) \<le> DAG_MAX_CANONICAL_BYTES"
    using length_dumps [of "canonical_plan sample_plan"] by linarith
  ultimately show ?thesis
    by (simp add: plan_digest_def canonical_plan_bytes_def canonical_bytes_def canonical_json_text_def)
qed

theorem plan_digest_covers_witness:
  "list_all2 same_effect (sort_key n_id (p_nodes (sample_plan\<lparr>p_plan_id := ''other''\<rparr>))) (sort_key n_id (p_nodes sample_plan))"
proof -
  have "inj (\<lambda>s :: string. s)" by (simp add: inj_def)
  from plan_digest_covers [OF this sample_plan_digest [unfolded sample_plan_has_digest] sample_plan_has_digest]
  show ?thesis by blast
qed

end
