(* ===== verification/Dag_Validation.thy ===== *)
theory Dag_Validation
  imports Dag_Digest "HOL-Library.Product_Lexorder"
begin

section \<open>Static plan validation (v2/dag\_validation.py)\<close>

text \<open>
  \<open>validate_plan\<close> and the checks it runs before any call: the dependency graph with Kahn's
  algorithm, tools, scope, bindings and budget. Sets of edges are duplicate free lists. The
  \<open>ToolCatalog\<close> protocol is a record of its three operations and \<open>StaticToolCatalog\<close> an instance.
\<close>

record tool_contract =
  tc_arg_types :: "(string \<times> string) list"
  tc_result_types :: "(string \<times> string) list"
  tc_mutating :: bool
  tc_provider :: string
  tc_resource_arg :: "string option"
  tc_compensations :: "string list"

record tool_catalog =
  contract :: "string \<Rightarrow> tool_contract option"
  is_projected :: "string \<Rightarrow> bool"
  in_scope :: "string \<Rightarrow> bool"

definition static_catalog :: "(string \<times> tool_contract) list \<Rightarrow> string list \<Rightarrow> string list \<Rightarrow> tool_catalog" where
  "static_catalog contracts projected scope =
     \<lparr>contract = map_of contracts, is_projected = (\<lambda>t. t \<in> set projected), in_scope = (\<lambda>r. r \<in> set scope)\<rparr>"

type_synonym edge = "string \<times> string"

record validated_plan =
  v_plan :: plan_definition
  v_digest :: string
  v_order :: "string list"
  v_ranks :: "(string \<times> int) list"
  v_edges :: "edge list"
  v_resource_keys :: "(string \<times> string option) list"
  v_mutating_nodes :: "string list"
  v_result_types :: "(string \<times> (string \<times> string) list) list"

subsection \<open>Edges\<close>

text \<open>The loops over nodes and their dependencies or bindings; \<open>set.add\<close> of an edge.\<close>

fun edge_loop :: "('a \<Rightarrow> (plan_error, edge) result) \<Rightarrow> 'a list \<Rightarrow> edge list \<Rightarrow> (plan_error, edge list) result" where
  "edge_loop f [] acc = Inr acc"
| "edge_loop f (x # xs) acc = bind_r (f x) (\<lambda>e. edge_loop f xs (List.insert e acc))"

definition declared_edges :: "plan_definition \<Rightarrow> (plan_error, edge list) result" where
  "declared_edges p = edge_loop (\<lambda>(n, dep).
      if dep \<notin> set (node_ids p) then Inl (PlanValidationError PLAN_UNKNOWN_DEPENDENCY (n_id n @ ''->'' @ dep))
      else Inr (dep, n_id n))
    (concat (map (\<lambda>n. map (\<lambda>dep. (n, dep)) (n_depends_on n)) (p_nodes p))) []"

definition binding_edges :: "plan_definition \<Rightarrow> (plan_error, edge list) result" where
  "binding_edges p = edge_loop (\<lambda>(n, b).
      if source_node b \<notin> set (node_ids p) then Inl (PlanValidationError PLAN_UNKNOWN_DEPENDENCY (n_id n @ ''<-'' @ source_node b))
      else if source_node b = n_id n then Inl (PlanValidationError PLAN_SELF_DEPENDENCY (n_id n))
      else Inr (source_node b, n_id n))
    (concat (map (\<lambda>n. map (\<lambda>(t, b). (n, b)) (n_bindings n)) (p_nodes p))) []"

subsection \<open>Topological order\<close>

definition indegree :: "edge list \<Rightarrow> string \<Rightarrow> int" where
  "indegree es x = int (length (filter (\<lambda>(s, d). d = x) es))"

definition successors :: "edge list \<Rightarrow> string \<Rightarrow> string list" where
  "successors es x = map snd (filter (\<lambda>(s, d). s = x) es)"

definition parents :: "edge list \<Rightarrow> string \<Rightarrow> string list" where
  "parents es x = map fst (filter (\<lambda>(s, d). d = x) es)"

definition rank_of :: "(string \<times> int) list \<Rightarrow> string \<Rightarrow> int" where
  "rank_of ranks x = (case map_of ranks x of None \<Rightarrow> 0 | Some r \<Rightarrow> r)"

definition next_rank :: "edge list \<Rightarrow> (string \<times> int) list \<Rightarrow> string \<Rightarrow> int" where
  "next_rank es ranks x = (let ps = parents es x in
     if ps = [] then 0 else Max (set (map (rank_of ranks) ps)) + 1)"

text \<open>
  The \<open>while ready\<close> loop. The fuel bounds the number of iterations; \<open>None\<close> would mean that it
  ran out, which \<open>kahn_loop_returns\<close> excludes for the fuel that \<open>topological_order\<close> gives it.
\<close>

fun kahn_loop ::
  "nat \<Rightarrow> edge list \<Rightarrow> (string \<Rightarrow> int) \<Rightarrow> string list \<Rightarrow> (string \<times> int) list \<Rightarrow> string list
    \<Rightarrow> (string list \<times> (string \<times> int) list) option" where
  "kahn_loop fuel es deg [] ranks order = Some (order, ranks)"
| "kahn_loop 0 es deg (cur # ready) ranks order = None"
| "kahn_loop (Suc fuel) es deg (cur # ready) ranks order =
     (let succs = sort (successors es cur);
          deg' = (\<lambda>x. if x \<in> set succs then deg x - 1 else deg x)
      in kahn_loop fuel es deg' (sort (ready @ filter (\<lambda>x. deg' x = 0) succs))
           ((cur, next_rank es ranks cur) # ranks) (order @ [cur]))"

definition topological_order ::
  "string list \<Rightarrow> edge list \<Rightarrow> (plan_error, string list \<times> (string \<times> int) list) result" where
  "topological_order ids es =
     (case kahn_loop (length ids) es (indegree es) (sort (filter (\<lambda>x. indegree es x = 0) ids)) [] [] of
        None \<Rightarrow> Inl (PlanValidationError PLAN_CYCLE_DETECTED ''fuel'')
      | Some (order, ranks) \<Rightarrow>
          if length order \<noteq> length ids
          then Inl (PlanValidationError PLAN_CYCLE_DETECTED (join_comma (sorted_diff ids order)))
          else Inr (order, ranks))"

subsection \<open>Graph, node, binding and budget checks\<close>

definition check_graph_shape :: "plan_definition \<Rightarrow> edge list \<Rightarrow> (string \<times> int) list \<Rightarrow> (plan_error, unit) result" where
  "check_graph_shape p es ranks = run_checks
     ([(ranks \<noteq> [] \<and> Max (set (map snd ranks)) + 1 > DAG_MAX_DEPTH, plan_fail PLAN_DEPTH_EXCEEDED ''graph depth'')] @
      map (\<lambda>src. (int (length (successors es src)) > DAG_MAX_FANOUT, plan_fail PLAN_FANOUT_EXCEEDED src))
        (sort (remdups (map fst es))) @
      (if length (p_nodes p) > 1 \<and> es \<noteq> []
       then map (\<lambda>n. (n_id n \<notin> set (map fst es) \<and> n_id n \<notin> set (map snd es), plan_fail PLAN_UNREACHABLE_NODE (n_id n))) (p_nodes p)
       else []))"

text \<open>\<open>str(node.tool)\<close> and \<open>str(node.op)\<close>; the contract excludes \<open>None\<close> for the kind at hand.\<close>

definition opt_str :: "string option \<Rightarrow> string" where
  "opt_str s = (case s of None \<Rightarrow> ''None'' | Some t \<Rightarrow> t)"

definition tool_result_types :: "tool_catalog \<Rightarrow> node \<Rightarrow> (plan_error, (string \<times> string) list) result" where
  "tool_result_types cat n =
     (case contract cat (opt_str (n_tool n)) of
        None \<Rightarrow> Inl (PlanValidationError PLAN_TOOL_UNKNOWN (opt_str (n_tool n)))
      | Some c \<Rightarrow> Inr (tc_result_types c))"

fun join_dot :: "string list \<Rightarrow> string" where
  "join_dot [] = []"
| "join_dot [x] = x"
| "join_dot (x # y # xs) = x @ CHR ''.'' # join_dot (y # xs)"

definition resolve_source_type :: "plan_definition \<Rightarrow> tool_catalog \<Rightarrow> string \<Rightarrow> string list \<Rightarrow> (plan_error, string) result" where
  "resolve_source_type p cat src path =
     (case plan_node p src of
        None \<Rightarrow> Inl (PlanValidationError PLAN_UNKNOWN_DEPENDENCY src)
      | Some n \<Rightarrow>
          (case n_kind n of
             TRANSFORM \<Rightarrow> if path \<noteq> [] then Inl (PlanValidationError BINDING_SOURCE_UNSHAPED src)
               else transform_output_type (opt_str (n_op n))
           | TOOL \<Rightarrow> if path = [] then Inr TYPE_OBJECT
               else bind_r (tool_result_types cat n) (\<lambda>ts.
                 case map_of ts (join_dot path) of
                   None \<Rightarrow> Inl (PlanValidationError BINDING_FIELD_UNKNOWN (src @ ''.'' @ join_dot path))
                 | Some t \<Rightarrow> Inr t)))"

text \<open>\<open>target.split(''.'', 1)[1]\<close>\<close>

definition slot_of :: "string \<Rightarrow> string" where
  "slot_of t = tl (dropWhile (\<lambda>c. c \<noteq> CHR ''.'') t)"

definition check_binding :: "plan_definition \<Rightarrow> tool_catalog \<Rightarrow> node \<Rightarrow> string \<times> binding \<Rightarrow> (plan_error, unit) result" where
  "check_binding p cat n tb = (case tb of (t, b) \<Rightarrow>
     let w = n_id n @ '':'' @ t in
     if source_node b \<notin> set (n_depends_on n) then Inl (PlanValidationError BINDING_EDGE_NOT_DECLARED w)
     else bind_r (resolve_source_type p cat (source_node b) (source_path b)) (\<lambda>st.
       if st \<noteq> TYPE_ANY \<and> b_type b \<noteq> st then Inl (PlanValidationError BINDING_TYPE_MISMATCH w)
       else bind_r
         (case n_kind n of TRANSFORM \<Rightarrow> Inr ()
          | TOOL \<Rightarrow>
              (case contract cat (opt_str (n_tool n)) of
                 None \<Rightarrow> Inl (PlanValidationError PLAN_TOOL_UNKNOWN (opt_str (n_tool n)))
               | Some c \<Rightarrow>
                   (case map_of (tc_arg_types c) (slot_of t) of
                      None \<Rightarrow> Inl (PlanValidationError BINDING_FIELD_UNKNOWN w)
                    | Some ty \<Rightarrow> if ty \<noteq> TYPE_ANY \<and> ty \<noteq> b_type b
                        then Inl (PlanValidationError BINDING_TARGET_TYPE_MISMATCH w) else Inr ())))
         (\<lambda>_. if slot_of t \<in> set (map fst (n_args n))
              then Inl (PlanValidationError PLAN_ARG_INVALID (w @ '' duplicates a literal'')) else Inr ())))"

definition check_bindings :: "plan_definition \<Rightarrow> tool_catalog \<Rightarrow> (plan_error, unit) result" where
  "check_bindings p cat = bind_r
     (traverse (\<lambda>(n, tb). check_binding p cat n tb)
        (concat (map (\<lambda>n. map (\<lambda>tb. (n, tb)) (sort_key fst (n_bindings n))) (p_nodes p))))
     (\<lambda>_. Inr ())"

definition check_arg :: "tool_contract \<Rightarrow> node \<Rightarrow> string \<times> json \<Rightarrow> (plan_error, unit) result" where
  "check_arg c n kv = (case kv of (k, v) \<Rightarrow>
     case map_of (tc_arg_types c) k of
       None \<Rightarrow> Inl (PlanValidationError PLAN_ARG_INVALID (n_id n @ '':'' @ k))
     | Some ty \<Rightarrow> if ty = TYPE_ANY then Inr ()
         else bind_r (type_of v) (\<lambda>t. if t \<noteq> ty then Inl (PlanValidationError PLAN_ARG_INVALID (n_id n @ '':'' @ k)) else Inr ()))"

fun is_str :: "json \<Rightarrow> string option" where
  "is_str (JStr s) = Some s"
| "is_str _ = None"

text \<open>The literal resource of a tool node, \<open>node.args.get(contract.resource_arg)\<close> if a string.\<close>

definition literal_resource :: "tool_contract \<Rightarrow> node \<Rightarrow> string option" where
  "literal_resource c n =
     (case tc_resource_arg c of None \<Rightarrow> None
      | Some r \<Rightarrow> (case map_of (n_args n) r of None \<Rightarrow> None | Some v \<Rightarrow> is_str v))"

text \<open>One iteration of \<open>_check_nodes\<close>: the node's resource and whether it mutates.\<close>

definition check_node :: "tool_catalog \<Rightarrow> node \<Rightarrow> (plan_error, string option \<times> bool) result" where
  "check_node cat n =
     (case n_kind n of
        TRANSFORM \<Rightarrow>
          bind_r (validate_transform_shape (opt_str (n_op n))
                    (sort (remdups (map fst (n_args n) @ map (slot_of \<circ> fst) (n_bindings n))))) (\<lambda>_.
            if n_compensation n \<noteq> None then Inl (PlanValidationError PLAN_COMPENSATION_UNDECLARED (n_id n))
            else Inr (None, False))
      | TOOL \<Rightarrow>
          (case contract cat (opt_str (n_tool n)) of
             None \<Rightarrow> Inl (PlanValidationError PLAN_TOOL_UNKNOWN (opt_str (n_tool n)))
           | Some c \<Rightarrow>
               if \<not> is_projected cat (opt_str (n_tool n))
               then Inl (PlanValidationError PLAN_TOOL_NOT_PROJECTED (opt_str (n_tool n)))
               else bind_r (traverse (check_arg c n) (sort_key fst (n_args n))) (\<lambda>_.
                 let missing = sorted_diff (map fst (tc_arg_types c)) (map fst (n_args n) @ map (slot_of \<circ> fst) (n_bindings n))
                 in bind_r (run_checks
                   [(missing \<noteq> [], plan_fail PLAN_ARG_INVALID (n_id n @ '': missing '' @ join_comma missing)),
                    (case literal_resource c n of None \<Rightarrow> False | Some r \<Rightarrow> \<not> in_scope cat r, plan_fail PLAN_SCOPE_DENIED (n_id n)),
                    (tc_mutating c \<and> (case n_idempotency n of None \<Rightarrow> True | Some i \<Rightarrow> \<not> i_enabled i),
                     plan_fail PLAN_IDEMPOTENCY_MISSING (n_id n)),
                    (case n_compensation n of None \<Rightarrow> False | Some op \<Rightarrow> op \<notin> set (tc_compensations c),
                     plan_fail PLAN_COMPENSATION_UNDECLARED (n_id n))])
                   (\<lambda>_. Inr (literal_resource c n, tc_mutating c)))))"

definition check_nodes :: "plan_definition \<Rightarrow> tool_catalog \<Rightarrow> (plan_error, (string \<times> string option) list \<times> string list) result" where
  "check_nodes p cat = bind_r (traverse (\<lambda>n. bind_r (check_node cat n) (\<lambda>rm. Inr (n_id n, rm))) (p_nodes p)) (\<lambda>xs.
     Inr (map (\<lambda>(i, r, m). (i, r)) xs, map fst (filter (\<lambda>(i, r, m). m) xs)))"

definition check_budget :: "plan_definition \<Rightarrow> string list \<Rightarrow> (plan_error, unit) result" where
  "check_budget p mutating = run_checks
     ([(int (length (filter (\<lambda>n. n_kind n = TOOL) (p_nodes p))) > max_external_calls (p_budget p),
        plan_fail PLAN_BUDGET_EXCEEDED ''external calls''),
       (p_deadline_ms p > max_total_wall_ms (p_budget p), plan_fail PLAN_BUDGET_EXCEEDED ''deadline exceeds wall budget'')] @
      map (\<lambda>n. (n_timeout_ms n > DAG_MAX_NODE_TIMEOUT_MS, plan_fail PLAN_BUDGET_EXCEEDED (n_id n @ '': node timeout''))) (p_nodes p) @
      [(max_parallelism (p_budget p) > DAG_MAX_PARALLELISM, plan_fail PLAN_BUDGET_EXCEEDED ''parallelism ceiling''),
       (mutating \<noteq> [] \<and> max_parallelism (p_budget p) > DAG_MAX_PARALLELISM_MUTATION,
        plan_fail PLAN_BUDGET_EXCEEDED ''mutating plan parallelism'')])"

definition validate_plan :: "(string \<Rightarrow> string) \<Rightarrow> plan_definition \<Rightarrow> tool_catalog \<Rightarrow> (plan_error, validated_plan) result" where
  "validate_plan sha p cat =
     bind_r (declared_edges p) (\<lambda>declared.
     bind_r (binding_edges p) (\<lambda>implied.
     case sort (filter (\<lambda>e. e \<notin> set declared) implied) of
       (src, dst) # _ \<Rightarrow> Inl (PlanValidationError BINDING_EDGE_NOT_DECLARED (src @ ''->'' @ dst))
     | [] \<Rightarrow>
     bind_r (topological_order (node_ids p) declared) (\<lambda>(order, ranks).
     bind_r (check_graph_shape p declared ranks) (\<lambda>_.
     bind_r (check_nodes p cat) (\<lambda>(resources, mutating).
     bind_r (check_bindings p cat) (\<lambda>_.
     bind_r (check_budget p mutating) (\<lambda>_.
     bind_r (traverse (\<lambda>n. bind_r (tool_result_types cat n) (\<lambda>ts. Inr (n_id n, ts)))
               (filter (\<lambda>n. n_kind n = TOOL) (p_nodes p))) (\<lambda>rts.
     bind_r (plan_digest sha p) (\<lambda>dg.
     Inr \<lparr>v_plan = p, v_digest = dg, v_order = order, v_ranks = ranks, v_edges = declared,
          v_resource_keys = resources, v_mutating_nodes = mutating, v_result_types = rts\<rparr>)))))))))"

definition revalidate_bound_value :: "json \<Rightarrow> string \<Rightarrow> int \<Rightarrow> tool_catalog \<Rightarrow> bool \<Rightarrow> (plan_error, json) result" where
  "revalidate_bound_value v declared max_bytes cat is_resource =
     bind_r (type_of v) (\<lambda>t.
     if t \<noteq> declared \<and> declared \<noteq> TYPE_ANY then Inl (PlanValidationError BINDING_RUNTIME_REJECT ''type'')
     else bind_r (canonical_bytes v) (\<lambda>b.
     if int (length b) > max_bytes then Inl (PlanValidationError BINDING_RUNTIME_REJECT ''size'')
     else if is_resource \<and> (case is_str v of None \<Rightarrow> True | Some s \<Rightarrow> \<not> in_scope cat s)
     then Inl (PlanValidationError PLAN_SCOPE_DENIED ''bound resource'')
     else Inr v))"

subsection \<open>Kahn's algorithm\<close>

text \<open>The predecessors of every element come before it.\<close>

definition topo :: "edge list \<Rightarrow> string list \<Rightarrow> bool" where
  "topo es order \<longleftrightarrow> (\<forall>us d vs s. order = us @ d # vs \<longrightarrow> (s, d) \<in> set es \<longrightarrow> s \<in> set us)"

definition open_edges :: "edge list \<Rightarrow> string list \<Rightarrow> string \<Rightarrow> edge list" where
  "open_edges es order x = filter (\<lambda>(s, d). d = x \<and> s \<notin> set order) es"

definition kahn_inv :: "string list \<Rightarrow> edge list \<Rightarrow> (string \<Rightarrow> int) \<Rightarrow> string list \<Rightarrow> (string \<times> int) list \<Rightarrow> string list \<Rightarrow> bool" where
  "kahn_inv ids es deg ready ranks order \<longleftrightarrow>
     (\<forall>x. deg x = int (length (open_edges es order x))) \<and> distinct order \<and> set order \<subseteq> set ids \<and>
     distinct ready \<and> set ready = {x \<in> set ids. x \<notin> set order \<and> deg x = 0} \<and> topo es order \<and>
     fst ` set ranks = set order \<and>
     (\<forall>s d. (s, d) \<in> set es \<longrightarrow> d \<in> set order \<longrightarrow> rank_of ranks s < rank_of ranks d)"

definition graph_ok :: "string list \<Rightarrow> edge list \<Rightarrow> bool" where
  "graph_ok ids es \<longleftrightarrow> distinct ids \<and> distinct es \<and> (\<forall>(s, d) \<in> set es. s \<in> set ids \<and> d \<in> set ids)"

lemma topo_mem: "topo es order \<Longrightarrow> (s, d) \<in> set es \<Longrightarrow> d \<in> set order \<Longrightarrow> s \<in> set order"
  by (metis Un_iff in_set_conv_decomp set_append topo_def)

lemma topo_snoc:
  assumes "topo es order" "\<And>s. (s, x) \<in> set es \<Longrightarrow> s \<in> set order"
  shows "topo es (order @ [x])"
  unfolding topo_def
proof (intro allI impI)
  fix us d vs s
  assume o: "order @ [x] = us @ d # vs" and e: "(s, d) \<in> set es"
  show "s \<in> set us"
  proof (cases vs rule: rev_cases)
    case Nil
    with o assms(2) e show ?thesis by simp
  next
    case (snoc ws y)
    with o have "order = us @ d # ws" by simp
    with assms(1) e show ?thesis by (auto simp: topo_def)
  qed
qed

lemma open_edges_empty: "length (open_edges es order x) = 0 \<longleftrightarrow> (\<forall>s. (s, x) \<in> set es \<longrightarrow> s \<in> set order)"
  by (auto simp: open_edges_def filter_empty_conv)

lemma open_edges_snoc:
  assumes "distinct es" "c \<notin> set order"
  shows "int (length (open_edges es (order @ [c]) x)) =
    int (length (open_edges es order x)) - (if (c, x) \<in> set es then 1 else 0)"
  using assms(1)
proof (induction es)
  case (Cons e es)
  then show ?case using assms(2) by (cases e) (auto simp: open_edges_def)
qed (simp add: open_edges_def)

lemma set_successors [simp]: "x \<in> set (successors es c) \<longleftrightarrow> (c, x) \<in> set es"
  by (force simp: successors_def)

lemma set_parents [simp]: "s \<in> set (parents es x) \<longleftrightarrow> (s, x) \<in> set es"
  by (force simp: parents_def)

lemma distinct_successors: "distinct es \<Longrightarrow> distinct (successors es c)"
  by (auto simp: successors_def distinct_map inj_on_def)

lemma rank_of_Cons: "rank_of ((c, r) # ranks) x = (if x = c then r else rank_of ranks x)"
  by (simp add: rank_of_def)

lemma next_rank_gt: "(s, x) \<in> set es \<Longrightarrow> rank_of ranks s < next_rank es ranks x"
proof -
  assume e: "(s, x) \<in> set es"
  then have s: "s \<in> set (parents es x)" by simp
  then have "rank_of ranks s \<le> Max (set (map (rank_of ranks) (parents es x)))" by (intro Max_ge) auto
  moreover have "parents es x \<noteq> []" using s by (metis empty_iff list.set(1))
  ultimately show ?thesis by (simp add: next_rank_def Let_def)
qed

lemma kahn_inv_step:
  assumes g: "graph_ok ids es" and inv: "kahn_inv ids es deg (cur # ready) ranks order"
    and deg': "deg' = (\<lambda>x. if x \<in> set (sort (successors es cur)) then deg x - 1 else deg x)"
  shows "kahn_inv ids es deg' (sort (ready @ filter (\<lambda>x. deg' x = 0) (sort (successors es cur))))
    ((cur, next_rank es ranks cur) # ranks) (order @ [cur])"
proof -
  from inv have d: "\<And>x. deg x = int (length (open_edges es order x))" and t: "topo es order"
    and r: "set (cur # ready) = {x \<in> set ids. x \<notin> set order \<and> deg x = 0}" "distinct (cur # ready)"
    and ord: "distinct order" "set order \<subseteq> set ids"
    and rk: "fst ` set ranks = set order" "\<And>s d. (s, d) \<in> set es \<Longrightarrow> d \<in> set order \<Longrightarrow> rank_of ranks s < rank_of ranks d"
    by (auto simp: kahn_inv_def)
  have "cur \<in> set (cur # ready)" by simp
  then have cur: "cur \<in> set ids" "cur \<notin> set order" "deg cur = 0" unfolding r(1) by auto
  have pre: "s \<in> set order" if "(s, cur) \<in> set es" for s
    using cur(3) d [of cur] open_edges_empty [of es order cur] that by simp
  have d': "deg' x = int (length (open_edges es (order @ [cur]) x))" for x
    using d [of x] open_edges_snoc [of es cur order x] g cur(2) by (simp add: deg' graph_ok_def)
  have fresh: "x \<notin> set (cur # ready)" if "(cur, x) \<in> set es" for x
  proof
    assume "x \<in> set (cur # ready)"
    then have "deg x = 0" unfolding r(1) by simp
    with d [of x] open_edges_empty [of es order x] that cur(2) show False by auto
  qed
  have succ: "x \<in> set ids \<and> x \<notin> set (order @ [cur])" if "(cur, x) \<in> set es" for x
    using g that topo_mem [OF t that] cur(2) fresh [OF that] by (auto simp: graph_ok_def)
  have ready: "set (ready @ filter (\<lambda>x. deg' x = 0) (sort (successors es cur))) =
      {x \<in> set ids. x \<notin> set (order @ [cur]) \<and> deg' x = 0}" (is "?L = ?R")
  proof
    show "?L \<subseteq> ?R"
    proof
      fix x assume "x \<in> ?L"
      then consider "x \<in> set ready" | "(cur, x) \<in> set es" "deg' x = 0" by auto
      then show "x \<in> ?R"
      proof cases
        case 1
        then have x: "x \<in> set ids" "x \<notin> set order" "deg x = 0" using r(1) by auto
        moreover have "x \<noteq> cur" using 1 r(2) by auto
        moreover have "(cur, x) \<notin> set es" using fresh 1 by auto
        ultimately show ?thesis by (simp add: deg')
      next
        case 2
        with succ show ?thesis by simp
      qed
    qed
    show "?R \<subseteq> ?L"
    proof
      fix x assume x: "x \<in> ?R"
      show "x \<in> ?L"
      proof (cases "(cur, x) \<in> set es")
        case False
        with x have "deg x = 0" by (simp add: deg')
        with x have "x \<in> set (cur # ready)" unfolding r(1) by simp
        with x show ?thesis by simp
      qed (use x in simp)
    qed
  qed
  have dist: "distinct (ready @ filter (\<lambda>x. deg' x = 0) (sort (successors es cur)))"
    using r(2) fresh distinct_successors [of es cur] g by (auto simp: graph_ok_def)
  have rank: "rank_of ((cur, next_rank es ranks cur) # ranks) s < rank_of ((cur, next_rank es ranks cur) # ranks) e"
    if "(s, e) \<in> set es" "e \<in> set (order @ [cur])" for s e
  proof (cases "e = cur")
    case True
    with that pre cur(2) next_rank_gt [of s cur es ranks] show ?thesis by (auto simp: rank_of_Cons)
  next
    case False
    with that have "e \<in> set order" by simp
    moreover have "s \<noteq> cur" using topo_mem [OF t that(1)] cur(2) calculation by auto
    ultimately show ?thesis using rk(2) that(1) False by (simp add: rank_of_Cons)
  qed
  show ?thesis
    unfolding kahn_inv_def
    using d' ord cur ready dist topo_snoc [OF t pre] rk(1) rank
    by (simp del: set_append filter_sort) auto
qed

lemma kahn_loop_ok:
  assumes "graph_ok ids es" "kahn_inv ids es deg ready ranks order" "length ids \<le> fuel + length order"
  shows "\<exists>order' ranks' deg'. kahn_loop fuel es deg ready ranks order = Some (order', ranks') \<and>
    kahn_inv ids es deg' [] ranks' order'"
  using assms
proof (induction fuel es deg ready ranks order rule: kahn_loop.induct)
  case (1 fuel es deg ranks order)
  then show ?case by auto
next
  case (2 es deg cur ready ranks order)
  from "2.prems"(2) have "distinct order" "set order \<subseteq> set ids" "cur \<in> set ids" "cur \<notin> set order"
    by (auto simp: kahn_inv_def)
  then have "card (set (order @ [cur])) \<le> card (set ids)" "card (set (order @ [cur])) = length (order @ [cur])"
    by (intro card_mono, simp_all) (metis distinct_card)
  moreover have "card (set ids) = length ids" using "2.prems"(1) by (simp add: graph_ok_def distinct_card)
  ultimately show ?case using "2.prems"(3) by simp
next
  case (3 fuel es deg cur ready ranks order)
  define deg' where "deg' = (\<lambda>x. if x \<in> set (sort (successors es cur)) then deg x - 1 else deg x)"
  from "3.IH" [OF refl deg'_def "3.prems"(1) kahn_inv_step [OF "3.prems"(1,2) deg'_def]] "3.prems"(3)
  show ?case by (simp add: Let_def deg'_def)
qed

lemma kahn_inv_init:
  assumes "graph_ok ids es"
  shows "kahn_inv ids es (indegree es) (sort (filter (\<lambda>x. indegree es x = 0) ids)) [] []"
  using assms by (auto simp: kahn_inv_def graph_ok_def indegree_def open_edges_def topo_def)

lemma kahn_loop_returns:
  assumes "graph_ok ids es"
  obtains order ranks deg where
    "kahn_loop (length ids) es (indegree es) (sort (filter (\<lambda>x. indegree es x = 0) ids)) [] [] = Some (order, ranks)"
    "kahn_inv ids es deg [] ranks order"
  using kahn_loop_ok [OF assms kahn_inv_init [OF assms], of "length ids"] by auto

lemma topological_order_Inr:
  assumes "graph_ok ids es" "topological_order ids es = Inr (order, ranks)"
  shows "distinct order \<and> set order = set ids \<and> topo es order \<and>
    (\<forall>(s, d) \<in> set es. rank_of ranks s < rank_of ranks d)"
proof -
  obtain ord rks deg where k: "kahn_loop (length ids) es (indegree es) (sort (filter (\<lambda>x. indegree es x = 0) ids)) [] [] = Some (ord, rks)"
    and inv: "kahn_inv ids es deg [] rks ord" by (rule kahn_loop_returns [OF assms(1)])
  with assms(2) have e: "ord = order" "rks = ranks" "length order = length ids"
    by (auto simp: topological_order_def split: if_splits)
  from inv e have i: "distinct order" "set order \<subseteq> set ids" "topo es order"
    "\<And>s d. (s, d) \<in> set es \<Longrightarrow> d \<in> set order \<Longrightarrow> rank_of ranks s < rank_of ranks d"
    by (auto simp: kahn_inv_def)
  have "card (set order) = card (set ids)"
    using e(3) i(1) assms(1) by (simp add: graph_ok_def distinct_card)
  with i(2) have "set order = set ids" by (simp add: card_subset_eq)
  with i assms(1) show ?thesis by (fastforce simp: graph_ok_def)
qed

lemma topological_order_acyclic:
  assumes "graph_ok ids es" "acyclic (set es)"
  shows "\<exists>res. topological_order ids es = Inr res"
proof -
  obtain ord rks deg where k: "kahn_loop (length ids) es (indegree es) (sort (filter (\<lambda>x. indegree es x = 0) ids)) [] [] = Some (ord, rks)"
    and inv: "kahn_inv ids es deg [] rks ord" by (rule kahn_loop_returns [OF assms(1)])
  have deg: "\<And>x. deg x = int (length (open_edges es ord x))"
    and stuck: "{x \<in> set ids. x \<notin> set ord \<and> deg x = 0} = {}" and ord: "distinct ord" "set ord \<subseteq> set ids"
    using inv by (auto simp: kahn_inv_def)
  have "set ids - set ord = {}"
  proof (rule ccontr)
    assume ne: "set ids - set ord \<noteq> {}"
    have "wf (set es)" using assms(2) by (simp add: finite_acyclic_wf)
    with ne obtain x where x: "x \<in> set ids - set ord" "\<forall>y. (y, x) \<in> set es \<longrightarrow> y \<notin> set ids - set ord"
      by (metis (no_types, lifting) equals0I wf_eq_minimal)
    with assms(1) have "\<forall>s. (s, x) \<in> set es \<longrightarrow> s \<in> set ord" by (fastforce simp: graph_ok_def)
    with open_edges_empty [of es ord x] deg [of x] have "deg x = 0" by simp
    with x stuck show False by blast
  qed
  with ord have "set ord = set ids" by blast
  then have "length ord = length ids"
    using ord(1) assms(1) by (metis distinct_card graph_ok_def)
  with k show ?thesis by (simp add: topological_order_def)
qed


lemma sample_graph: "graph_ok [''a'', ''b''] [(''a'', ''b''), (''b'', ''a'')]"
  by (simp add: graph_ok_def)


text \<open>
  The order it returns lists every node once, each after all its predecessors, and the ranks
  strictly increase along every edge.
\<close>

theorem topological_order_sound:
  assumes "graph_ok ids es" and "topological_order ids es = Inr (order, ranks)"
  shows "distinct order \<and> set order = set ids \<and> topo es order \<and>
    (\<forall>(s, d) \<in> set es. rank_of ranks s < rank_of ranks d)"
  using assms by (rule topological_order_Inr)

theorem topological_order_sound_witness:
  "topological_order [''b'', ''c'', ''a''] [(''a'', ''b''), (''a'', ''c''), (''c'', ''b'')] =
     Inr ([''a'', ''c'', ''b''], [(''b'', 2), (''c'', 1), (''a'', 0)]) \<and>
   topo [(''a'', ''b''), (''a'', ''c''), (''c'', ''b'')] [''a'', ''c'', ''b'']"
proof -
  have t: "topological_order [''b'', ''c'', ''a''] [(''a'', ''b''), (''a'', ''c''), (''c'', ''b'')] =
     Inr ([''a'', ''c'', ''b''], [(''b'', 2), (''c'', 1), (''a'', 0)])" by code_simp
  have "graph_ok [''b'', ''c'', ''a''] [(''a'', ''b''), (''a'', ''c''), (''c'', ''b'')]" by (simp add: graph_ok_def)
  from topological_order_sound [OF this t] t show ?thesis by blast
qed

subsection \<open>Validated plans\<close>

lemma edge_loop_Inr:
  assumes "edge_loop f xs acc = Inr es" "distinct acc"
  shows "distinct es \<and> set es = set acc \<union> {e. \<exists>x \<in> set xs. f x = Inr e} \<and> (\<forall>x \<in> set xs. \<exists>e. f x = Inr e)"
  using assms
  by (induction xs arbitrary: acc) (auto simp: bind_r_Inr_iff distinct_insert)

lemma declared_edges_Inr:
  assumes "declared_edges p = Inr es"
  shows "distinct es" "set es = {(d, n_id n) | d n. n \<in> set (p_nodes p) \<and> d \<in> set (n_depends_on n)}"
    "\<And>n d. n \<in> set (p_nodes p) \<Longrightarrow> d \<in> set (n_depends_on n) \<Longrightarrow> d \<in> set (node_ids p)"
proof -
  note e = edge_loop_Inr [OF assms [unfolded declared_edges_def] distinct.simps(1) [THEN iffD2, OF TrueI]]
  show "distinct es" using e by simp
  show known: "d \<in> set (node_ids p)" if "n \<in> set (p_nodes p)" "d \<in> set (n_depends_on n)" for n d
    using e that by (fastforce split: if_splits)
  have "set es = {e. \<exists>x \<in> set (concat (map (\<lambda>n. map (\<lambda>dep. (n, dep)) (n_depends_on n)) (p_nodes p))).
      (case x of (n, dep) \<Rightarrow> if dep \<notin> set (node_ids p)
         then Inl (PlanValidationError PLAN_UNKNOWN_DEPENDENCY (n_id n @ ''->'' @ dep)) else Inr (dep, n_id n)) = Inr e}"
    using e by simp
  also have "\<dots> = {(d, n_id n) | d n. n \<in> set (p_nodes p) \<and> d \<in> set (n_depends_on n)}"
    using known by (auto split: if_splits)
  finally show "set es = {(d, n_id n) | d n. n \<in> set (p_nodes p) \<and> d \<in> set (n_depends_on n)}" .
qed

lemma declared_graph_ok:
  assumes "declared_edges p = Inr es" "distinct (node_ids p)"
  shows "graph_ok (node_ids p) es"
  using declared_edges_Inr [OF assms(1)] assms(2) by (auto simp: graph_ok_def node_ids_def)

text \<open>What static validation guarantees about a node.\<close>

definition node_valid :: "tool_catalog \<Rightarrow> node \<Rightarrow> bool" where
  "node_valid cat n =
     (case n_kind n of
        TRANSFORM \<Rightarrow> n_compensation n = None \<and> map_of TRANSFORM_OPS (opt_str (n_op n)) \<noteq> None
      | TOOL \<Rightarrow>
          (case contract cat (opt_str (n_tool n)) of
             None \<Rightarrow> False
           | Some c \<Rightarrow> is_projected cat (opt_str (n_tool n)) \<and>
               (case literal_resource c n of None \<Rightarrow> True | Some r \<Rightarrow> in_scope cat r) \<and>
               (tc_mutating c \<longrightarrow> (\<exists>i. n_idempotency n = Some i \<and> i_enabled i)) \<and>
               set (map fst (n_args n)) \<subseteq> set (map fst (tc_arg_types c)) \<and>
               set (map fst (tc_arg_types c)) \<subseteq> set (map fst (n_args n)) \<union> set (map (slot_of \<circ> fst) (n_bindings n))))"

definition node_mutates :: "tool_catalog \<Rightarrow> node \<Rightarrow> bool" where
  "node_mutates cat n \<longleftrightarrow> n_kind n = TOOL \<and> (case contract cat (opt_str (n_tool n)) of None \<Rightarrow> False | Some c \<Rightarrow> tc_mutating c)"

lemma sorted_diff_Nil: "sorted_diff xs ys = [] \<longleftrightarrow> set xs \<subseteq> set ys"
proof -
  have "set (sorted_diff xs ys) = set xs - set ys" by (auto simp: sorted_diff_def)
  then show ?thesis by (metis Diff_eq_empty_iff set_empty)
qed

lemma run_checks_Inr: "run_checks cs = Inr u \<longleftrightarrow> passes cs"
  by (simp add: passes_def)

lemma check_node_valid:
  assumes "check_node cat n = Inr (r, m)"
  shows "node_valid cat n" "m = node_mutates cat n"
proof -
  have "node_valid cat n \<and> m = node_mutates cat n"
  proof (cases "n_kind n")
    case TRANSFORM
    with assms show ?thesis
      by (auto simp: check_node_def node_valid_def node_mutates_def bind_r_Inr_iff validate_transform_shape_def
          split: if_splits option.splits)
  next
    case TOOL
    with assms obtain c where c: "contract cat (opt_str (n_tool n)) = Some c"
      by (cases "contract cat (opt_str (n_tool n))") (simp_all add: check_node_def)
    with TOOL assms obtain us where us: "is_projected cat (opt_str (n_tool n))" "m = tc_mutating c"
      "traverse (check_arg c n) (sort_key fst (n_args n)) = Inr us"
      "sorted_diff (map fst (tc_arg_types c)) (map fst (n_args n) @ map (slot_of \<circ> fst) (n_bindings n)) = []"
      "\<not> (case literal_resource c n of None \<Rightarrow> False | Some r \<Rightarrow> \<not> in_scope cat r)"
      "\<not> (tc_mutating c \<and> (case n_idempotency n of None \<Rightarrow> True | Some i \<Rightarrow> \<not> i_enabled i))"
      by (auto simp: check_node_def bind_r_Inr_iff run_checks_Inr Let_def simp del: run_checks_Cons split: if_splits)
    have "k \<in> set (map fst (tc_arg_types c))" if "k \<in> set (map fst (n_args n))" for k
    proof -
      from that obtain v where "(k, v) \<in> set (sort_key fst (n_args n))" by auto
      then obtain u where "check_arg c n (k, v) = Inr u" using traverse_mem [OF us(3)] by blast
      then show ?thesis by (cases "map_of (tc_arg_types c) k") (auto simp: check_arg_def dest: map_of_SomeD intro: rev_image_eqI)
    qed
    with TOOL c us show ?thesis
      by (auto simp: node_valid_def node_mutates_def sorted_diff_Nil split: option.splits)
  qed
  then show "node_valid cat n" "m = node_mutates cat n" by simp_all
qed

lemma check_nodes_valid:
  assumes "check_nodes p cat = Inr (resources, mutating)" "n \<in> set (p_nodes p)"
  shows "node_valid cat n" "node_mutates cat n \<Longrightarrow> n_id n \<in> set mutating"
proof -
  from assms(1) obtain xs where xs:
    "traverse (\<lambda>n. bind_r (check_node cat n) (\<lambda>rm. Inr (n_id n, rm))) (p_nodes p) = Inr xs"
    "mutating = map fst (filter (\<lambda>(i, r, m). m) xs)"
    by (auto simp: check_nodes_def bind_r_Inr_iff)
  from traverse_mem [OF xs(1) assms(2)] obtain r m where y: "(n_id n, r, m) \<in> set xs" "check_node cat n = Inr (r, m)"
    by (auto simp: bind_r_Inr_iff)
  show "node_valid cat n" using check_node_valid(1) [OF y(2)] .
  show "n_id n \<in> set mutating" if "node_mutates cat n"
    using check_node_valid(2) [OF y(2)] that y(1) xs(2) by force
qed

lemma check_nodes_mutating:
  assumes "check_nodes p cat = Inr (resources, mutating)" "i \<in> set mutating"
  shows "\<exists>n \<in> set (p_nodes p). n_id n = i \<and> node_mutates cat n"
proof -
  from assms(1) obtain xs where xs:
    "traverse (\<lambda>n. bind_r (check_node cat n) (\<lambda>rm. Inr (n_id n, rm))) (p_nodes p) = Inr xs"
    "mutating = map fst (filter (\<lambda>(i, r, m). m) xs)"
    by (auto simp: check_nodes_def bind_r_Inr_iff)
  with assms(2) obtain r m where "(i, r, m) \<in> set xs" "m" by auto
  with traverse_mem_rev [OF xs(1)] show ?thesis by (fastforce simp: bind_r_Inr_iff dest: check_node_valid(2))
qed

lemma validate_plan_parts:
  assumes "validate_plan sha p cat = Inr vp"
  obtains order ranks res where "declared_edges p = Inr (v_edges vp)"
    "topological_order (node_ids p) (v_edges vp) = Inr (v_order vp, v_ranks vp)"
    "check_nodes p cat = Inr (v_resource_keys vp, v_mutating_nodes vp)"
    "check_bindings p cat = Inr ()" "check_budget p (v_mutating_nodes vp) = Inr ()"
    "check_graph_shape p (v_edges vp) (v_ranks vp) = Inr ()"
    "plan_digest sha p = Inr (v_digest vp)" "v_plan vp = p"
proof -
  from assms obtain declared implied where d: "declared_edges p = Inr declared" "binding_edges p = Inr implied"
    by (auto simp: validate_plan_def bind_r_Inr_iff)
  with assms have u: "sort (filter (\<lambda>e. e \<notin> set declared) implied) = []"
    by (cases "sort (filter (\<lambda>e. e \<notin> set declared) implied)") (auto simp: validate_plan_def)
  from assms d u show thesis
    by (intro that) (auto simp: validate_plan_def bind_r_Inr_iff)
qed

text \<open>The order of an accepted plan: every node once, after its dependencies.\<close>

lemma validated_order:
  assumes "validate_plan sha p cat = Inr vp" and "distinct (node_ids p)"
  shows "distinct (v_order vp)" "set (v_order vp) = set (node_ids p)"
    "\<And>m us vs. m \<in> set (p_nodes p) \<Longrightarrow> v_order vp = us @ n_id m # vs \<Longrightarrow> set (n_depends_on m) \<subseteq> set us"
proof -
  from assms(1) have e: "declared_edges p = Inr (v_edges vp)"
    and t: "topological_order (node_ids p) (v_edges vp) = Inr (v_order vp, v_ranks vp)"
    by (blast elim: validate_plan_parts)+
  have order: "distinct (v_order vp)" "set (v_order vp) = set (node_ids p)" "topo (v_edges vp) (v_order vp)"
    using topological_order_Inr [OF declared_graph_ok [OF e assms(2)] t] by blast+
  then show "distinct (v_order vp)" "set (v_order vp) = set (node_ids p)" by simp_all
  show "set (n_depends_on m) \<subseteq> set us" if "m \<in> set (p_nodes p)" "v_order vp = us @ n_id m # vs" for m us vs
  proof
    fix d assume "d \<in> set (n_depends_on m)"
    with that(1) declared_edges_Inr(2) [OF e] have "(d, n_id m) \<in> set (v_edges vp)" by blast
    with order(3) that(2) show "d \<in> set us" by (auto simp: topo_def)
  qed
qed

text \<open>
  C14. Static validation is a sound gate: for a plan with unique node ids that it accepts, the
  execution order lists every node once and after its dependencies, every node uses a known,
  projected tool with all its arguments and an in-scope literal resource, mutating nodes carry an
  idempotency configuration, bindings read only declared dependencies, the tool nodes fit the call
  budget, and a plan with a mutating node never asks for parallelism.
\<close>

theorem validate_plan_sound:
  assumes "validate_plan sha p cat = Inr vp" and "distinct (node_ids p)"
  shows "distinct (v_order vp) \<and> set (v_order vp) = set (node_ids p) \<and>
    (\<forall>n \<in> set (p_nodes p). node_valid cat n \<and>
       (\<forall>us vs. v_order vp = us @ n_id n # vs \<longrightarrow> set (n_depends_on n) \<subseteq> set us) \<and>
       (\<forall>(t, b) \<in> set (n_bindings n). source_node b \<in> set (n_depends_on n))) \<and>
    int (length (filter (\<lambda>n. n_kind n = TOOL) (p_nodes p))) \<le> max_external_calls (p_budget p) \<and>
    ((\<exists>n \<in> set (p_nodes p). node_mutates cat n) \<longrightarrow> max_parallelism (p_budget p) \<le> 1)"
proof -
  from assms(1) have n: "check_nodes p cat = Inr (v_resource_keys vp, v_mutating_nodes vp)"
    and b: "check_bindings p cat = Inr ()" and g: "check_budget p (v_mutating_nodes vp) = Inr ()"
    by (blast elim: validate_plan_parts)+
  note order = validated_order [OF assms]
  have src: "source_node c \<in> set (n_depends_on m)" if "m \<in> set (p_nodes p)" "(s, c) \<in> set (n_bindings m)" for m s c
  proof -
    from b obtain us where us: "traverse (\<lambda>(n, tb). check_binding p cat n tb)
        (concat (map (\<lambda>n. map (\<lambda>tb. (n, tb)) (sort_key fst (n_bindings n))) (p_nodes p))) = Inr us"
      by (auto simp: check_bindings_def bind_r_Inr_iff)
    have "(m, s, c) \<in> set (concat (map (\<lambda>n. map (\<lambda>tb. (n, tb)) (sort_key fst (n_bindings n))) (p_nodes p)))"
      using that by auto
    from traverse_mem [OF us this] obtain u where "check_binding p cat m (s, c) = Inr u" by auto
    then show ?thesis by (simp add: check_binding_def Let_def split: if_splits)
  qed
  have budget: "int (length (filter (\<lambda>n. n_kind n = TOOL) (p_nodes p))) \<le> max_external_calls (p_budget p)"
    "v_mutating_nodes vp \<noteq> [] \<Longrightarrow> max_parallelism (p_budget p) \<le> 1"
    using g by (simp_all add: check_budget_def run_checks_Inr DAG_MAX_PARALLELISM_MUTATION_def del: run_checks_Cons)
  have "max_parallelism (p_budget p) \<le> 1" if "m \<in> set (p_nodes p)" "node_mutates cat m" for m
    using check_nodes_valid(2) [OF n that] budget(2) by (metis empty_iff list.set(1))
  with order src budget(1) check_nodes_valid(1) [OF n] show ?thesis by blast
qed

definition sample_contract :: tool_contract where
  "sample_contract = \<lparr>tc_arg_types = [(''repository'', ''string'')], tc_result_types = [(''items'', ''list'')],
     tc_mutating = True, tc_provider = ''github'', tc_resource_arg = Some ''repository'', tc_compensations = [''undo'']\<rparr>"

definition sample_catalog :: tool_catalog where
  "sample_catalog = static_catalog [(''gh.merge'', sample_contract)] [''gh.merge''] [''o/r'']"

definition sample_validated :: validated_plan where
  "sample_validated = \<lparr>v_plan = sample_plan, v_digest = dumps (canonical_plan sample_plan),
     v_order = [''a'', ''b''], v_ranks = [(''b'', 1), (''a'', 0)], v_edges = [(''a'', ''b'')],
     v_resource_keys = [(''a'', Some ''o/r''), (''b'', None)], v_mutating_nodes = [''a''],
     v_result_types = [(''a'', [(''items'', ''list'')])]\<rparr>"

lemma sample_validates_digest:
  assumes "plan_digest sha sample_plan = Inr d"
  shows "validate_plan sha sample_plan sample_catalog = Inr (sample_validated\<lparr>v_digest := d\<rparr>)"
proof -
  have "declared_edges sample_plan = Inr [(''a'', ''b'')]" by code_simp
  moreover have "binding_edges sample_plan = Inr [(''a'', ''b'')]" by code_simp
  moreover have "topological_order (node_ids sample_plan) [(''a'', ''b'')] = Inr ([''a'', ''b''], [(''b'', 1), (''a'', 0)])"
    by code_simp
  moreover have "check_graph_shape sample_plan [(''a'', ''b'')] [(''b'', 1), (''a'', 0)] = Inr ()" by code_simp
  moreover have "check_nodes sample_plan sample_catalog = Inr ([(''a'', Some ''o/r''), (''b'', None)], [''a''])" by code_simp
  moreover have "check_bindings sample_plan sample_catalog = Inr ()" by code_simp
  moreover have "check_budget sample_plan [''a''] = Inr ()" by code_simp
  moreover have "traverse (\<lambda>n. bind_r (tool_result_types sample_catalog n) (\<lambda>ts. Inr (n_id n, ts)))
      (filter (\<lambda>n. n_kind n = TOOL) (p_nodes sample_plan)) = Inr [(''a'', [(''items'', ''list'')])]" by code_simp
  ultimately show ?thesis
    by (simp add: validate_plan_def assms sample_validated_def)
qed

lemma sample_validates: "validate_plan (\<lambda>s. s) sample_plan sample_catalog = Inr sample_validated"
  using sample_validates_digest [OF sample_plan_has_digest] by (simp add: sample_validated_def)

theorem validate_plan_sound_witness:
  "max_parallelism (p_budget sample_plan) \<le> 1 \<and> set (v_order sample_validated) = set (node_ids sample_plan)"
proof -
  have "distinct (node_ids sample_plan)" by code_simp
  note v = validate_plan_sound [OF sample_validates this]
  have "\<exists>n \<in> set (p_nodes sample_plan). node_mutates sample_catalog n" by code_simp
  with v show ?thesis by blast
qed

end
