(* ===== verification/Dag_Store.thy ===== *)
theory Dag_Store
  imports Dag_Digest
begin

section \<open>Checkpoint store (v2/dag\_store.py)\<close>

text \<open>
  \<open>SqliteCheckpointStore\<close>: fenced, integrity digested checkpoints and single-use approvals. A
  row keeps the body as the value \<open>json.loads\<close> makes of the stored canonical text, which is the
  body with the keys of every object in order (\<open>canon\<close>). Reading a body back is total on what
  \<open>Checkpoint.body\<close> writes; any other shape (a tampered file) is the one error \<open>Malformed_body\<close>.
  SHA-256 is the parameter \<open>sha\<close>. Keys are lowered as ASCII text.
\<close>

subsection \<open>Secret-like fields\<close>

definition SECRET_HINTS :: "string list" where
  "SECRET_HINTS = [''access_token'', ''refresh_token'', ''api_token'', ''auth_token'', ''id_token'', ''secret'',
     ''password'', ''authorization'', ''cookie'', ''private_key'', ''client_secret'', ''bearer'']"

definition lower_char :: "char \<Rightarrow> char" where
  "lower_char c = (if CHR ''A'' \<le> c \<and> c \<le> CHR ''Z'' then char_of (of_char c + (32 :: nat)) else c)"

text \<open>\<open>hint in text\<close>\<close>

fun contains :: "string \<Rightarrow> string \<Rightarrow> bool" where
  "contains h [] \<longleftrightarrow> h = []"
| "contains h (c # cs) \<longleftrightarrow> take (length h) (c # cs) = h \<or> contains h cs"

definition secret_like :: "string \<Rightarrow> bool" where
  "secret_like k \<longleftrightarrow> list_ex (\<lambda>h. contains h (map lower_char k)) SECRET_HINTS"

fun has_secret :: "json \<Rightarrow> bool" where
  "has_secret (JObj kvs) \<longleftrightarrow> (\<exists>(k, v) \<in> set kvs. secret_like k \<or> has_secret v)"
| "has_secret (JList xs) \<longleftrightarrow> (\<exists>x \<in> set xs. has_secret x)"
| "has_secret _ \<longleftrightarrow> False"

definition assert_no_secret_material :: "json \<Rightarrow> string \<Rightarrow> (plan_error, unit) result" where
  "assert_no_secret_material v wher =
     (if has_secret v then Inl (PlanValidationError CHECKPOINT_TAMPERED (wher @ '': secret-like field'')) else Inr ())"

subsection \<open>Checkpoints\<close>

record lease =
  owner_id :: string
  fence_token :: int
  expires_at_ms :: int
  heartbeat_at_ms :: int

record node_state =
  ns_node_id :: string
  ns_status :: node_status
  ns_attempt :: int
  ns_idempotency_key :: "string option"
  ns_effect_ref :: "string option"
  ns_result :: json
  ns_reason_code :: "string option"
  ns_operation_digest :: "string option"

definition node_state_new :: "string \<Rightarrow> node_state" where
  "node_state_new i = \<lparr>ns_node_id = i, ns_status = PENDING, ns_attempt = 0, ns_idempotency_key = None,
     ns_effect_ref = None, ns_result = JNull, ns_reason_code = None, ns_operation_digest = None\<rparr>"

record checkpoint =
  execution_id :: string
  ck_plan_digest :: string
  principal_ref :: string
  projection_digest :: string
  policy_digest :: string
  ck_lease :: lease
  schema_version :: string
  approval_ref :: "string option"
  ck_status :: "plan_status option"
  node_states :: "(string \<times> node_state) list"
  budget_consumed :: "(string \<times> int) list"
  replay :: bool

definition CHECKPOINT_SCHEMA_VERSION :: string where "CHECKPOINT_SCHEMA_VERSION = ''dagstate/1''"

definition status_table :: "(node_status \<times> string) list" where
  "status_table =
     [(PENDING, ''PENDING''), (READY, ''READY''), (DISPATCHED, ''DISPATCHED''), (SUCCESS, ''SUCCESS''), (FAILED, ''FAILED''),
      (DENIED, ''DENIED''), (SKIPPED, ''SKIPPED''), (INDETERMINATE, ''INDETERMINATE''),
      (COMPENSATION_PENDING, ''COMPENSATION_PENDING''), (COMPENSATED, ''COMPENSATED''),
      (COMPENSATION_SKIPPED, ''COMPENSATION_SKIPPED''), (COMPENSATION_UNSAFE, ''COMPENSATION_UNSAFE''),
      (COMPENSATION_FAILED, ''COMPENSATION_FAILED''), (COMPENSATION_INDETERMINATE, ''COMPENSATION_INDETERMINATE''),
      (DEAD_LETTER, ''DEAD_LETTER'')]"

definition plan_status_table :: "(plan_status \<times> string) list" where
  "plan_status_table =
     [(PLAN_COMPLETED, ''COMPLETED''), (PLAN_PARTIAL, ''PARTIAL''), (PLAN_FAILED, ''FAILED''), (PLAN_ABORTED, ''ABORTED''),
      (PLAN_INDETERMINATE, ''INDETERMINATE''), (PLAN_DEAD_LETTER, ''DEAD_LETTER'')]"

text \<open>\<open>status.value\<close> and the enum constructor \<open>NodeStatus(text)\<close>.\<close>

definition enum_value :: "('a \<times> string) list \<Rightarrow> 'a \<Rightarrow> string" where
  "enum_value tab x = (case map_of tab x of None \<Rightarrow> [] | Some s \<Rightarrow> s)"

definition enum_of :: "('a \<times> string) list \<Rightarrow> string \<Rightarrow> (plan_error, 'a) result" where
  "enum_of tab s = (case find (\<lambda>(x, t). t = s) tab of None \<Rightarrow> Inl Malformed_body | Some (x, t) \<Rightarrow> Inr x)"

definition node_state_dict :: "node_state \<Rightarrow> json" where
  "node_state_dict n = JObj
     [(''node_id'', JStr (ns_node_id n)), (''status'', JStr (enum_value status_table (ns_status n))),
      (''attempt'', JInt (ns_attempt n)), (''idempotency_key'', str_or_none (ns_idempotency_key n)),
      (''effect_ref'', str_or_none (ns_effect_ref n)), (''result'', ns_result n),
      (''reason_code'', str_or_none (ns_reason_code n)), (''operation_digest'', str_or_none (ns_operation_digest n))]"

definition lease_dict :: "lease \<Rightarrow> json" where
  "lease_dict l = JObj
     [(''owner_id'', JStr (owner_id l)), (''fence_token'', JInt (fence_token l)),
      (''expires_at_ms'', JInt (expires_at_ms l)), (''heartbeat_at_ms'', JInt (heartbeat_at_ms l))]"

definition checkpoint_body :: "checkpoint \<Rightarrow> json" where
  "checkpoint_body c = JObj
     [(''execution_id'', JStr (execution_id c)), (''plan_digest'', JStr (ck_plan_digest c)),
      (''principal_ref'', JStr (principal_ref c)), (''projection_digest'', JStr (projection_digest c)),
      (''policy_digest'', JStr (policy_digest c)), (''schema_version'', JStr (schema_version c)),
      (''approval_ref'', str_or_none (approval_ref c)),
      (''status'', case ck_status c of None \<Rightarrow> JNull | Some s \<Rightarrow> JStr (enum_value plan_status_table s)),
      (''replay'', JBool (replay c)),
      (''budget_consumed'', JObj (sort_key fst (map (\<lambda>(k, v). (k, JInt v)) (budget_consumed c)))),
      (''lease'', lease_dict (ck_lease c)),
      (''node_states'', JList (map (node_state_dict \<circ> snd) (sort_key fst (node_states c))))]"

definition with_node :: "node_state \<Rightarrow> checkpoint \<Rightarrow> checkpoint" where
  "with_node n c = c\<lparr>node_states := AList.update (ns_node_id n) n (node_states c)\<rparr>"

subsection \<open>Reading a body\<close>

definition jget :: "json \<Rightarrow> string \<Rightarrow> (plan_error, json) result" where
  "jget v k = (case v of JObj kvs \<Rightarrow> (case map_of kvs k of None \<Rightarrow> Inl Malformed_body | Some x \<Rightarrow> Inr x) | _ \<Rightarrow> Inl Malformed_body)"

fun as_text :: "json \<Rightarrow> (plan_error, string) result" where
  "as_text (JStr s) = Inr s" | "as_text _ = Inl Malformed_body"

fun as_int :: "json \<Rightarrow> (plan_error, int) result" where
  "as_int (JInt i) = Inr i" | "as_int _ = Inl Malformed_body"

fun as_bool :: "json \<Rightarrow> (plan_error, bool) result" where
  "as_bool (JBool b) = Inr b" | "as_bool _ = Inl Malformed_body"

fun as_opt :: "json \<Rightarrow> (plan_error, string option) result" where
  "as_opt JNull = Inr None" | "as_opt (JStr s) = Inr (Some s)" | "as_opt _ = Inl Malformed_body"

fun as_entries :: "json \<Rightarrow> (plan_error, (string \<times> json) list) result" where
  "as_entries (JObj kvs) = Inr kvs" | "as_entries _ = Inl Malformed_body"

fun as_items :: "json \<Rightarrow> (plan_error, json list) result" where
  "as_items (JList xs) = Inr xs" | "as_items _ = Inl Malformed_body"

definition get_text :: "json \<Rightarrow> string \<Rightarrow> (plan_error, string) result" where
  "get_text v k = bind_r (jget v k) as_text"

definition get_int :: "json \<Rightarrow> string \<Rightarrow> (plan_error, int) result" where
  "get_int v k = bind_r (jget v k) as_int"

definition get_opt :: "json \<Rightarrow> string \<Rightarrow> (plan_error, string option) result" where
  "get_opt v k = bind_r (jget v k) as_opt"

definition node_state_from_dict :: "json \<Rightarrow> (plan_error, node_state) result" where
  "node_state_from_dict v =
     bind_r (get_text v ''node_id'') (\<lambda>i.
     bind_r (get_text v ''status'') (\<lambda>s.
     bind_r (enum_of status_table s) (\<lambda>st.
     bind_r (get_int v ''attempt'') (\<lambda>att.
     bind_r (get_opt v ''idempotency_key'') (\<lambda>k.
     bind_r (get_opt v ''effect_ref'') (\<lambda>e.
     bind_r (jget v ''result'') (\<lambda>r.
     bind_r (get_opt v ''reason_code'') (\<lambda>rc.
     bind_r (get_opt v ''operation_digest'') (\<lambda>od.
     Inr \<lparr>ns_node_id = i, ns_status = st, ns_attempt = att, ns_idempotency_key = k, ns_effect_ref = e, ns_result = r,
          ns_reason_code = rc, ns_operation_digest = od\<rparr>)))))))))"

definition lease_from_dict :: "json \<Rightarrow> (plan_error, lease) result" where
  "lease_from_dict v =
     bind_r (get_text v ''owner_id'') (\<lambda>ow.
     bind_r (get_int v ''fence_token'') (\<lambda>f.
     bind_r (get_int v ''expires_at_ms'') (\<lambda>e.
     bind_r (get_int v ''heartbeat_at_ms'') (\<lambda>h.
     Inr \<lparr>owner_id = ow, fence_token = f, expires_at_ms = e, heartbeat_at_ms = h\<rparr>))))"

definition plan_status_from_text :: "string option \<Rightarrow> (plan_error, plan_status option) result" where
  "plan_status_from_text t =
     (case t of None \<Rightarrow> Inr None
      | Some s \<Rightarrow> if s = [] then Inr None else bind_r (enum_of plan_status_table s) (\<lambda>x. Inr (Some x)))"

definition checkpoint_from_body :: "json \<Rightarrow> (plan_error, checkpoint) result" where
  "checkpoint_from_body v =
     bind_r (jget v ''lease'') (\<lambda>lv.
     bind_r (get_text v ''execution_id'') (\<lambda>ex.
     bind_r (get_text v ''plan_digest'') (\<lambda>pd.
     bind_r (get_text v ''principal_ref'') (\<lambda>pr.
     bind_r (get_text v ''projection_digest'') (\<lambda>pj.
     bind_r (get_text v ''policy_digest'') (\<lambda>po.
     bind_r (get_text v ''schema_version'') (\<lambda>sv.
     bind_r (get_opt v ''approval_ref'') (\<lambda>ar.
     bind_r (bind_r (get_opt v ''status'') plan_status_from_text) (\<lambda>st.
     bind_r (bind_r (jget v ''replay'') as_bool) (\<lambda>rp.
     bind_r (bind_r (bind_r (jget v ''budget_consumed'') as_entries)
              (traverse (\<lambda>(k, x). bind_r (as_int x) (\<lambda>i. Inr (k, i))))) (\<lambda>bc.
     bind_r (lease_from_dict lv) (\<lambda>l.
     bind_r (bind_r (bind_r (jget v ''node_states'') as_items) (traverse node_state_from_dict)) (\<lambda>ns.
     Inr \<lparr>execution_id = ex, ck_plan_digest = pd, principal_ref = pr, projection_digest = pj, policy_digest = po,
          ck_lease = l, schema_version = sv, approval_ref = ar, ck_status = st,
          node_states = foldl (\<lambda>m n. AList.update (ns_node_id n) n m) [] ns,
          budget_consumed = bc, replay = rp\<rparr>)))))))))))))"

subsection \<open>The store\<close>

record ck_row =
  r_execution_id :: string
  r_plan_digest :: string
  r_fence_token :: int
  r_record_digest :: string
  r_body :: json

record ap_row =
  ap_key :: "string \<times> string"
  ap_execution_id :: string

record dag_db =
  dag_checkpoint :: "ck_row table"
  dag_approval :: "ap_row table"

definition record_digest :: "(string \<Rightarrow> string) \<Rightarrow> checkpoint \<Rightarrow> (plan_error, string) result" where
  "record_digest sha c = hash_json sha (checkpoint_body c)"

definition store_create :: "(string \<Rightarrow> string) \<Rightarrow> checkpoint \<Rightarrow> dag_db \<Rightarrow> dag_db \<times> (plan_error, unit) result" where
  "store_create sha c db =
     (case bind_r (assert_no_secret_material (checkpoint_body c) ''checkpoint'') (\<lambda>_. record_digest sha c) of
        Inl e \<Rightarrow> (db, Inl e)
      | Inr dg \<Rightarrow>
          (case tbl_insert r_execution_id
             \<lparr>r_execution_id = execution_id c, r_plan_digest = ck_plan_digest c, r_fence_token = fence_token (ck_lease c),
              r_record_digest = dg, r_body = canon (checkpoint_body c)\<rparr> (dag_checkpoint db) of
             None \<Rightarrow> (db, Inl (PlanValidationError PLAN_SCHEMA_INVALID ''duplicate execution''))
           | Some t \<Rightarrow> (db\<lparr>dag_checkpoint := t\<rparr>, Inr ())))"

definition store_load :: "(string \<Rightarrow> string) \<Rightarrow> string \<Rightarrow> dag_db \<Rightarrow> (plan_error, checkpoint) result" where
  "store_load sha ex db =
     (case tbl_get r_execution_id ex (dag_checkpoint db) of
        None \<Rightarrow> Inl (PlanValidationError CHECKPOINT_TAMPERED ''unknown execution'')
      | Some row \<Rightarrow>
          if jget (r_body row) ''schema_version'' \<noteq> Inr (JStr CHECKPOINT_SCHEMA_VERSION)
          then Inl (PlanValidationError CHECKPOINT_SCHEMA_UNSUPPORTED ''state schema'')
          else bind_r (checkpoint_from_body (r_body row)) (\<lambda>c.
            bind_r (record_digest sha c) (\<lambda>dg.
            if dg \<noteq> r_record_digest row then Inl (PlanValidationError CHECKPOINT_TAMPERED ''record digest'')
            else Inr c)))"

definition store_save :: "(string \<Rightarrow> string) \<Rightarrow> checkpoint \<Rightarrow> int \<Rightarrow> dag_db \<Rightarrow> dag_db \<times> (plan_error, unit) result" where
  "store_save sha c fence db =
     (case bind_r (assert_no_secret_material (checkpoint_body c) ''checkpoint'') (\<lambda>_. record_digest sha c) of
        Inl e \<Rightarrow> (db, Inl e)
      | Inr dg \<Rightarrow>
          (case tbl_get r_execution_id (execution_id c) (dag_checkpoint db) of
             None \<Rightarrow> (db, Inl (PlanValidationError CHECKPOINT_TAMPERED ''unknown execution''))
           | Some row \<Rightarrow>
               if fence < r_fence_token row then (db, Inl (PlanValidationError LEASE_FENCE_STALE ''stale fence token''))
               else (db\<lparr>dag_checkpoint := tbl_update (\<lambda>r. r_execution_id r = execution_id c \<and> r_fence_token r \<le> fence)
                       (\<lambda>r. r\<lparr>r_fence_token := fence, r_record_digest := dg, r_body := canon (checkpoint_body c)\<rparr>)
                       (dag_checkpoint db)\<rparr>, Inr ())))"

text \<open>\<open>payload["lease"] = {...}\<close> on the loaded body: the heartbeat is kept from the old lease.\<close>

definition put_lease :: "json \<Rightarrow> string \<Rightarrow> int \<Rightarrow> int \<Rightarrow> (plan_error, json) result" where
  "put_lease body owner token expires =
     bind_r (as_entries body) (\<lambda>kvs.
     bind_r (jget body ''lease'') (\<lambda>l.
     bind_r (get_int l ''heartbeat_at_ms'') (\<lambda>h.
     Inr (JObj (AList.update ''lease'' (lease_dict \<lparr>owner_id = owner, fence_token = token, expires_at_ms = expires, heartbeat_at_ms = h\<rparr>) kvs)))))"

definition store_acquire_lease ::
  "(string \<Rightarrow> string) \<Rightarrow> string \<Rightarrow> string \<Rightarrow> int \<Rightarrow> dag_db \<Rightarrow> dag_db \<times> (plan_error, lease) result" where
  "store_acquire_lease sha ex owner expires db =
     (case tbl_get r_execution_id ex (dag_checkpoint db) of
        None \<Rightarrow> (db, Inl (PlanValidationError CHECKPOINT_TAMPERED ''unknown execution''))
      | Some row \<Rightarrow>
          let token = r_fence_token row + 1 in
          (case bind_r (put_lease (r_body row) owner token expires) (\<lambda>b.
                bind_r (checkpoint_from_body b) (\<lambda>c.
                bind_r (record_digest sha c) (\<lambda>dg. Inr (c, dg)))) of
             Inl e \<Rightarrow> (db, Inl e)
           | Inr (c, dg) \<Rightarrow>
               (db\<lparr>dag_checkpoint := tbl_update (\<lambda>r. r_execution_id r = ex)
                  (\<lambda>r. r\<lparr>r_fence_token := token, r_record_digest := dg, r_body := canon (checkpoint_body c)\<rparr>)
                  (dag_checkpoint db)\<rparr>, Inr (ck_lease c))))"

definition store_consume_approval :: "string \<Rightarrow> string \<Rightarrow> string \<Rightarrow> dag_db \<Rightarrow> dag_db \<times> bool" where
  "store_consume_approval a nonce ex db =
     (case tbl_insert ap_key \<lparr>ap_key = (a, nonce), ap_execution_id = ex\<rparr> (dag_approval db) of
        None \<Rightarrow> (db, False)
      | Some t \<Rightarrow> (db\<lparr>dag_approval := t\<rparr>, True))"

definition approval_holder :: "string \<Rightarrow> string \<Rightarrow> dag_db \<Rightarrow> string option" where
  "approval_holder a nonce db = map_option ap_execution_id (tbl_get ap_key (a, nonce) (dag_approval db))"

subsection \<open>Bodies round trip\<close>

lemma jget_canon:
  "distinct (map fst kvs) \<Longrightarrow>
   jget (canon (JObj kvs)) k = (case map_of kvs k of None \<Rightarrow> Inl Malformed_body | Some v \<Rightarrow> Inr (canon v))"
  by (simp add: jget_def map_of_canon split: option.split)

lemma canon_str_or_none [simp]: "canon (str_or_none s) = str_or_none s"
  by (cases s) (simp_all add: str_or_none_def)

lemma as_opt_str_or_none [simp]: "as_opt (str_or_none s) = Inr s"
  by (cases s) (simp_all add: str_or_none_def)

lemma enum_of_status [simp]: "enum_of status_table (enum_value status_table s) = Inr s"
  by (cases s) (simp_all add: enum_of_def enum_value_def status_table_def)

lemma enum_of_plan_status [simp]: "enum_of plan_status_table (enum_value plan_status_table s) = Inr s"
  and plan_status_text [simp]: "enum_value plan_status_table s \<noteq> []"
  by (cases s; simp add: enum_of_def enum_value_def plan_status_table_def)+

definition norm_state :: "node_state \<Rightarrow> node_state" where
  "norm_state n = n\<lparr>ns_result := canon (ns_result n)\<rparr>"

lemma ns_node_id_norm [simp]: "ns_node_id (norm_state n) = ns_node_id n"
  by (simp add: norm_state_def)

lemma node_state_roundtrip: "node_state_from_dict (canon (node_state_dict n)) = Inr (norm_state n)"
  unfolding node_state_dict_def node_state_from_dict_def get_text_def get_int_def get_opt_def
  by (subst jget_canon, simp)+ (simp add: norm_state_def)

lemma lease_roundtrip: "lease_from_dict (canon (lease_dict l)) = Inr l"
  unfolding lease_dict_def lease_from_dict_def get_text_def get_int_def
  by (subst jget_canon, simp)+ simp

text \<open>A checkpoint as the engine keeps it: node states filed under their own ids, no key twice.\<close>

definition ck_wf :: "checkpoint \<Rightarrow> bool" where
  "ck_wf c \<longleftrightarrow> distinct (map fst (node_states c)) \<and> (\<forall>(k, n) \<in> set (node_states c). ns_node_id n = k) \<and>
     distinct (map fst (budget_consumed c))"

definition norm_checkpoint :: "checkpoint \<Rightarrow> checkpoint" where
  "norm_checkpoint c = c\<lparr>node_states := map (\<lambda>(k, n). (k, norm_state n)) (sort_key fst (node_states c)),
     budget_consumed := sort_key fst (budget_consumed c)\<rparr>"

lemma foldl_update_fresh:
  assumes "distinct (map fst acc @ map ns_node_id ns)"
  shows "foldl (\<lambda>m n. AList.update (ns_node_id n) n m) acc ns = acc @ map (\<lambda>n. (ns_node_id n, n)) ns"
  using assms
proof (induction ns arbitrary: acc)
  case (Cons n ns)
  then have "AList.update (ns_node_id n) n acc = acc @ [(ns_node_id n, n)]"
    by (induction acc) auto
  with Cons show ?case by simp
qed simp

lemma states_roundtrip:
  assumes "distinct (map fst xs)" "\<forall>(k, n) \<in> set xs. ns_node_id n = k"
  shows "foldl (\<lambda>m n. AList.update (ns_node_id n) n m) [] (map (norm_state \<circ> snd) xs) = map (\<lambda>(k, n). (k, norm_state n)) xs"
proof -
  have i: "map ns_node_id (map (norm_state \<circ> snd) xs) = map fst xs"
    using assms(2) by (auto intro!: map_cong)
  have "distinct (map fst [] @ map ns_node_id (map (norm_state \<circ> snd) xs))" using assms(1) by (simp only: i) simp
  from foldl_update_fresh [OF this] have "foldl (\<lambda>m n. AList.update (ns_node_id n) n m) [] (map (norm_state \<circ> snd) xs) =
      map (\<lambda>n. (ns_node_id n, n)) (map (norm_state \<circ> snd) xs)" by simp
  also have "\<dots> = map (\<lambda>(k, n). (k, norm_state n)) xs" using assms(2) by auto
  finally show ?thesis .
qed

lemma traverse_states:
  "traverse node_state_from_dict (map canon (map (node_state_dict \<circ> snd) xs)) = Inr (map (norm_state \<circ> snd) xs)"
  by (induction xs) (simp_all add: node_state_roundtrip)

lemma traverse_ints:
  "traverse (\<lambda>(k, x). bind_r (as_int x) (\<lambda>i. Inr (k, i))) (map (\<lambda>(k, v). (k, JInt v)) xs) = Inr xs"
  by (induction xs) auto

lemma canon_ints: "canon (JObj (sort_key fst (map (\<lambda>(k, v). (k, JInt v)) m))) = JObj (map (\<lambda>(k, v). (k, JInt v)) (sort_key fst m))"
proof -
  have "sort_key fst (map (\<lambda>(k, v). (k, JInt v)) m) = map (\<lambda>(k, v). (k, JInt v)) (sort_key fst m)"
    by (rule sort_key_fst_map)
  moreover have "map (\<lambda>(k, v). (k, canon v)) (map (\<lambda>(k, v). (k, JInt v)) (sort_key fst m)) = map (\<lambda>(k, v). (k, JInt v)) (sort_key fst m)"
    by auto
  moreover have "sort_key fst (map (\<lambda>(k, v). (k, JInt v)) (sort_key fst m)) = map (\<lambda>(k, v). (k, JInt v)) (sort_key fst m)"
    by (simp add: sort_key_fst_map sort_key_id_if_sorted)
  ultimately show ?thesis by (simp only: canon.simps)
qed

definition body_entries :: "checkpoint \<Rightarrow> (string \<times> json) list" where
  "body_entries c = (case checkpoint_body c of JObj kvs \<Rightarrow> kvs | _ \<Rightarrow> [])"

lemma body_entries: "checkpoint_body c = JObj (body_entries c)" "distinct (map fst (body_entries c))"
  by (simp_all add: body_entries_def checkpoint_body_def)

lemma map_of_body:
  "map_of (body_entries c) ''execution_id'' = Some (JStr (execution_id c))"
  "map_of (body_entries c) ''plan_digest'' = Some (JStr (ck_plan_digest c))"
  "map_of (body_entries c) ''principal_ref'' = Some (JStr (principal_ref c))"
  "map_of (body_entries c) ''projection_digest'' = Some (JStr (projection_digest c))"
  "map_of (body_entries c) ''policy_digest'' = Some (JStr (policy_digest c))"
  "map_of (body_entries c) ''schema_version'' = Some (JStr (schema_version c))"
  "map_of (body_entries c) ''approval_ref'' = Some (str_or_none (approval_ref c))"
  "map_of (body_entries c) ''status'' = Some (str_or_none (map_option (enum_value plan_status_table) (ck_status c)))"
  "map_of (body_entries c) ''replay'' = Some (JBool (replay c))"
  "map_of (body_entries c) ''budget_consumed'' = Some (JObj (sort_key fst (map (\<lambda>(k, v). (k, JInt v)) (budget_consumed c))))"
  "map_of (body_entries c) ''lease'' = Some (lease_dict (ck_lease c))"
  "map_of (body_entries c) ''node_states'' = Some (JList (map (node_state_dict \<circ> snd) (sort_key fst (node_states c))))"
  by (simp_all add: body_entries_def checkpoint_body_def str_or_none_def split: option.split)

lemmas jget_body = jget_canon [OF body_entries(2), folded body_entries(1)]

lemma plan_status_roundtrip: "plan_status_from_text (map_option (enum_value plan_status_table) s) = Inr s"
  by (cases s) (simp_all add: plan_status_from_text_def)

text \<open>Reading a body depends on the lookups only, so it may be stated for any body that agrees on them.\<close>

lemma body_read:
  assumes "ck_wf c" and same: "\<And>k. k \<noteq> ''lease'' \<Longrightarrow> jget b k = jget (canon (checkpoint_body c)) k"
    and l: "jget b ''lease'' = Inr lv" "lease_from_dict lv = Inr l"
  shows "checkpoint_from_body b = Inr (norm_checkpoint (c\<lparr>ck_lease := l\<rparr>))"
proof -
  have ints: "bind_r (bind_r (jget (canon (checkpoint_body c)) ''budget_consumed'') as_entries)
      (traverse (\<lambda>(k, x). bind_r (as_int x) (\<lambda>i. Inr (k, i)))) = Inr (sort_key fst (budget_consumed c))"
    by (simp only: jget_body map_of_body option.case canon_ints bind_r_simps as_entries.simps traverse_ints)
  have states: "bind_r (bind_r (jget (canon (checkpoint_body c)) ''node_states'') as_items) (traverse node_state_from_dict) =
      Inr (map (norm_state \<circ> snd) (sort_key fst (node_states c)))"
    by (simp only: jget_body map_of_body option.case canon.simps bind_r_simps as_items.simps traverse_states)
  have fold: "foldl (\<lambda>m n. AList.update (ns_node_id n) n m) [] (map (norm_state \<circ> snd) (sort_key fst (node_states c))) =
      map (\<lambda>(k, n). (k, norm_state n)) (sort_key fst (node_states c))"
    using assms(1) by (intro states_roundtrip) (auto simp: ck_wf_def distinct_map)
  have s: "jget b k = jget (canon (checkpoint_body c)) k" if "k \<in> {''execution_id'', ''plan_digest'', ''principal_ref'',
      ''projection_digest'', ''policy_digest'', ''schema_version'', ''approval_ref'', ''status'', ''replay'',
      ''budget_consumed'', ''node_states''}" for k
    using that by (intro same) auto
  have s': "jget b ''execution_id'' = jget (canon (checkpoint_body c)) ''execution_id''"
    "jget b ''plan_digest'' = jget (canon (checkpoint_body c)) ''plan_digest''"
    "jget b ''principal_ref'' = jget (canon (checkpoint_body c)) ''principal_ref''"
    "jget b ''projection_digest'' = jget (canon (checkpoint_body c)) ''projection_digest''"
    "jget b ''policy_digest'' = jget (canon (checkpoint_body c)) ''policy_digest''"
    "jget b ''schema_version'' = jget (canon (checkpoint_body c)) ''schema_version''"
    "jget b ''approval_ref'' = jget (canon (checkpoint_body c)) ''approval_ref''"
    "jget b ''status'' = jget (canon (checkpoint_body c)) ''status''"
    "jget b ''replay'' = jget (canon (checkpoint_body c)) ''replay''"
    "jget b ''budget_consumed'' = jget (canon (checkpoint_body c)) ''budget_consumed''"
    "jget b ''node_states'' = jget (canon (checkpoint_body c)) ''node_states''"
    by (rule s, simp)+
  show ?thesis
    unfolding checkpoint_from_body_def get_text_def get_opt_def s' ints states
    by (simp add: jget_body map_of_body l plan_status_roundtrip fold norm_checkpoint_def)
qed

lemma body_roundtrip:
  assumes "ck_wf c"
  shows "checkpoint_from_body (canon (checkpoint_body c)) = Inr (norm_checkpoint c)"
  using body_read [OF assms refl _ lease_roundtrip, of "ck_lease c"] by (simp add: jget_body map_of_body)

lemma canon_norm_dict: "canon (node_state_dict (norm_state n)) = canon (node_state_dict n)"
  by (simp add: node_state_dict_def norm_state_def)

lemma canon_body_norm: "canon (checkpoint_body (norm_checkpoint c)) = canon (checkpoint_body c)"
proof -
  have "sort_key fst (map (\<lambda>(k, n). (k, norm_state n)) (sort_key fst (node_states c))) =
      map (\<lambda>(k, n). (k, norm_state n)) (sort_key fst (node_states c))"
    by (simp add: sort_key_fst_map sort_key_id_if_sorted)
  then have s: "map canon (map (node_state_dict \<circ> snd) (sort_key fst (node_states (norm_checkpoint c)))) =
      map canon (map (node_state_dict \<circ> snd) (sort_key fst (node_states c)))"
    by (auto simp: norm_checkpoint_def canon_norm_dict)
  have b: "sort_key fst (map (\<lambda>(k, v). (k, JInt v)) (budget_consumed (norm_checkpoint c))) =
      sort_key fst (map (\<lambda>(k, v). (k, JInt v)) (budget_consumed c))"
    by (simp add: norm_checkpoint_def sort_key_fst_map sort_key_id_if_sorted)
  have f: "execution_id (norm_checkpoint c) = execution_id c" "ck_plan_digest (norm_checkpoint c) = ck_plan_digest c"
    "principal_ref (norm_checkpoint c) = principal_ref c" "projection_digest (norm_checkpoint c) = projection_digest c"
    "policy_digest (norm_checkpoint c) = policy_digest c" "schema_version (norm_checkpoint c) = schema_version c"
    "approval_ref (norm_checkpoint c) = approval_ref c" "ck_status (norm_checkpoint c) = ck_status c"
    "replay (norm_checkpoint c) = replay c" "ck_lease (norm_checkpoint c) = ck_lease c"
    by (simp_all add: norm_checkpoint_def)
  show ?thesis unfolding checkpoint_body_def f b by (simp only: canon.simps list.map prod.case s)
qed

lemma record_digest_norm: "record_digest sha (norm_checkpoint c) = record_digest sha c"
proof -
  have "json_validate (checkpoint_body (norm_checkpoint c)) = json_validate (checkpoint_body c)"
    by (metis canon_body_norm validate_canon)
  moreover have "dumps (checkpoint_body (norm_checkpoint c)) = dumps (checkpoint_body c)"
    by (simp add: dumps_canon canon_body_norm)
  ultimately show ?thesis
    by (simp add: record_digest_def hash_json_def canonical_bytes_def canonical_json_text_def)
qed

lemma ck_wf_norm: "ck_wf c \<Longrightarrow> ck_wf (norm_checkpoint c)"
  by (auto simp: ck_wf_def norm_checkpoint_def distinct_map inj_on_def case_prod_unfold comp_def)

subsection \<open>Rows\<close>

definition row_ok :: "(string \<Rightarrow> string) \<Rightarrow> ck_row \<Rightarrow> bool" where
  "row_ok sha row \<longleftrightarrow> (\<exists>c. ck_wf c \<and> execution_id c = r_execution_id row \<and>
     r_body row = canon (checkpoint_body c) \<and> record_digest sha c = Inr (r_record_digest row))"

definition db_ok :: "(string \<Rightarrow> string) \<Rightarrow> dag_db \<Rightarrow> bool" where
  "db_ok sha db \<longleftrightarrow> tbl_ok r_execution_id (dag_checkpoint db) \<and> (\<forall>row \<in> set (dag_checkpoint db). row_ok sha row)"

lemma load_row:
  assumes "tbl_get r_execution_id ex (dag_checkpoint db) = Some row" "ck_wf c"
    "r_body row = canon (checkpoint_body c)" "record_digest sha c = Inr (r_record_digest row)"
    "schema_version c = CHECKPOINT_SCHEMA_VERSION"
  shows "store_load sha ex db = Inr (norm_checkpoint c)"
  using assms by (simp add: store_load_def body_roundtrip record_digest_norm jget_body map_of_body)

lemma put_lease_body:
  "put_lease (canon (checkpoint_body c)) owner token expires =
   Inr (JObj (AList.update ''lease'' (lease_dict ((ck_lease c)\<lparr>owner_id := owner, fence_token := token, expires_at_ms := expires\<rparr>))
     (sort_key fst (map (\<lambda>(k, v). (k, canon v)) (body_entries c)))))"
proof -
  have h: "get_int (canon (lease_dict l)) ''heartbeat_at_ms'' = Inr (heartbeat_at_ms l)" for l
    unfolding get_int_def lease_dict_def by (subst jget_canon) simp_all
  have "as_entries (canon (checkpoint_body c)) = Inr (sort_key fst (map (\<lambda>(k, v). (k, canon v)) (body_entries c)))"
    by (simp add: body_entries(1))
  then show ?thesis
    unfolding put_lease_def by (cases "ck_lease c") (simp add: jget_body map_of_body h)
qed

lemma put_lease_read:
  assumes "ck_wf c"
  shows "\<exists>b. put_lease (canon (checkpoint_body c)) owner token expires = Inr b \<and>
    checkpoint_from_body b = Inr (norm_checkpoint (c\<lparr>ck_lease := (ck_lease c)\<lparr>owner_id := owner, fence_token := token, expires_at_ms := expires\<rparr>\<rparr>))"
proof -
  let ?l = "(ck_lease c)\<lparr>owner_id := owner, fence_token := token, expires_at_ms := expires\<rparr>"
  let ?b = "JObj (AList.update ''lease'' (lease_dict ?l) (sort_key fst (map (\<lambda>(k, v). (k, canon v)) (body_entries c))))"
  have "jget ?b k = jget (canon (checkpoint_body c)) k" if "k \<noteq> ''lease''" for k
    using that by (simp add: jget_def body_entries(1) update_conv')
  moreover have "jget ?b ''lease'' = Inr (lease_dict ?l)" by (simp add: jget_def update_conv')
  moreover have "lease_from_dict (lease_dict l) = Inr l" for l
    by (simp add: lease_from_dict_def lease_dict_def get_text_def get_int_def jget_def)
  ultimately have "checkpoint_from_body ?b = Inr (norm_checkpoint (c\<lparr>ck_lease := ?l\<rparr>))" by (rule body_read [OF assms])
  with put_lease_body [of c owner token expires] show ?thesis by blast
qed

subsection \<open>Operations in sequence\<close>

datatype dag_op =
  Ck_create checkpoint
| Ck_save checkpoint int
| Ck_lease string string int
| Ck_consume string string string

fun dag_step :: "(string \<Rightarrow> string) \<Rightarrow> dag_db \<Rightarrow> dag_op \<Rightarrow> dag_db" where
  "dag_step sha db (Ck_create c) = fst (store_create sha c db)"
| "dag_step sha db (Ck_save c f) = fst (store_save sha c f db)"
| "dag_step sha db (Ck_lease ex ow e) = fst (store_acquire_lease sha ex ow e db)"
| "dag_step sha db (Ck_consume a n ex) = fst (store_consume_approval a n ex db)"

definition dag_empty :: dag_db where
  "dag_empty = \<lparr>dag_checkpoint = [], dag_approval = []\<rparr>"

text \<open>What one operation does to the fence token of an execution.\<close>

definition fence_of :: "string \<Rightarrow> dag_db \<Rightarrow> int option" where
  "fence_of ex db = map_option r_fence_token (tbl_get r_execution_id ex (dag_checkpoint db))"

text \<open>
  A store with fence tokens: no operation removes or lowers the token of an execution. Whoever
  saw a token is therefore fenced off by any higher one for ever after.
\<close>

locale fenced = op_machine step inv
  for step :: "'s \<Rightarrow> 'o \<Rightarrow> 's" and inv :: "'s \<Rightarrow> bool" +
  fixes fence :: "'k \<Rightarrow> 's \<Rightarrow> int option"
  assumes fence_grows: "inv s \<Longrightarrow> fence k s = Some f \<Longrightarrow> \<exists>f'. fence k (step s x) = Some f' \<and> f \<le> f'"
begin

lemma fence_run: "inv s \<Longrightarrow> fence k s = Some f \<Longrightarrow> \<exists>f'. fence k (run_ops step s xs) = Some f' \<and> f \<le> f'"
proof (induction xs arbitrary: s f)
  case (Cons x xs)
  then obtain f1 where "fence k (step s x) = Some f1" "f \<le> f1" using fence_grows by blast
  with Cons.IH [of "step s x" f1] Cons.prems(1) step_inv show ?case by fastforce
qed simp

end

definition db_keys :: "dag_db \<Rightarrow> bool" where
  "db_keys db \<longleftrightarrow> tbl_ok r_execution_id (dag_checkpoint db) \<and> tbl_ok ap_key (dag_approval db)"

lemma dag_approval_create [simp]: "dag_approval (fst (store_create sha c db)) = dag_approval db"
  by (simp add: store_create_def split: sum.split option.split)

lemma dag_approval_save [simp]: "dag_approval (fst (store_save sha c f db)) = dag_approval db"
  by (simp add: store_save_def split: sum.split option.split)

lemma dag_approval_lease [simp]: "dag_approval (fst (store_acquire_lease sha ex ow e db)) = dag_approval db"
  by (simp add: store_acquire_lease_def Let_def split: sum.split option.split)

lemma dag_checkpoint_consume [simp]: "dag_checkpoint (fst (store_consume_approval a n ex db)) = dag_checkpoint db"
  by (simp add: store_consume_approval_def split: option.split)

lemma dag_step_keys: "db_keys db \<Longrightarrow> db_keys (dag_step sha db x)"
proof (cases x)
  case (Ck_create c)
  then show "db_keys db \<Longrightarrow> ?thesis"
    by (auto simp: db_keys_def store_create_def intro: tbl_ok_insert split: sum.split option.split)
next
  case (Ck_save c f)
  then show "db_keys db \<Longrightarrow> ?thesis"
    by (auto simp: db_keys_def store_save_def intro!: tbl_ok_update split: sum.split option.split)
next
  case (Ck_lease ex ow e)
  then show "db_keys db \<Longrightarrow> ?thesis"
    by (auto simp: db_keys_def store_acquire_lease_def Let_def intro!: tbl_ok_update split: sum.split option.split)
next
  case (Ck_consume a n ex)
  then show "db_keys db \<Longrightarrow> ?thesis"
    by (auto simp: db_keys_def store_consume_approval_def intro: tbl_ok_insert split: option.split)
qed

lemma fence_step:
  assumes "fence_of k db = Some f"
  shows "\<exists>f'. fence_of k (dag_step sha db x) = Some f' \<and> f \<le> f'"
proof -
  from assms obtain row where row: "tbl_get r_execution_id k (dag_checkpoint db) = Some row" "r_fence_token row = f"
    by (auto simp: fence_of_def)
  show ?thesis
  proof (cases x)
    case (Ck_create c)
    with row show ?thesis
      by (auto simp: fence_of_def store_create_def tbl_get_insert split: sum.split option.split dest!: tbl_insert_SomeD)
  next
    case (Ck_save c g)
    with row show ?thesis
      by (auto simp: fence_of_def store_save_def tbl_get_update split: sum.split option.split)
  next
    case (Ck_lease ex ow e)
    have id: "r_execution_id row = k" using tbl_get_SomeD [OF row(1)] by simp
    show ?thesis
    proof (cases "ex = k")
      case True
      with row id Ck_lease show ?thesis
        by (simp add: fence_of_def store_acquire_lease_def Let_def tbl_get_update split: sum.split)
    next
      case False
      with row id Ck_lease show ?thesis
        by (simp add: fence_of_def store_acquire_lease_def Let_def tbl_get_update split: sum.split option.split)
    qed
  next
    case (Ck_consume a n ex)
    with row show ?thesis by (simp add: fence_of_def)
  qed
qed

interpretation dgf: fenced "dag_step sha" db_keys fence_of for sha
  by unfold_locales (auto intro: dag_step_keys fence_step)

fun consumes_token :: "string \<Rightarrow> string \<Rightarrow> dag_db \<Rightarrow> dag_op \<Rightarrow> bool" where
  "consumes_token a n db (Ck_consume a' n' ex) \<longleftrightarrow> a' = a \<and> n' = n \<and> snd (store_consume_approval a' n' ex db)"
| "consumes_token a n db _ \<longleftrightarrow> False"

definition token_spent :: "string \<Rightarrow> string \<Rightarrow> dag_db \<Rightarrow> bool" where
  "token_spent a n db \<longleftrightarrow> approval_holder a n db \<noteq> None"

lemma token_spent_iff: "token_spent a n db \<longleftrightarrow> tbl_get ap_key (a, n) (dag_approval db) \<noteq> None"
  by (simp add: token_spent_def approval_holder_def)

interpretation dgu: single_use "dag_step sha" db_keys "consumes_token a n" "token_spent a n" "\<lambda>_. False" for sha a n
proof
  fix db x
  assume "consumes_token a n db x"
  then obtain ex where x: "x = Ck_consume a n ex" and c: "snd (store_consume_approval a n ex db)" by (cases x) auto
  from c show "\<not> token_spent a n db"
    by (auto simp: token_spent_iff store_consume_approval_def dest: tbl_insert_SomeD split: option.splits)
  from c show "token_spent a n (dag_step sha db x)"
    by (auto simp: x token_spent_iff store_consume_approval_def tbl_get_insert split: option.splits)
next
  fix db x
  assume "token_spent a n db"
  then show "token_spent a n (dag_step sha db x)"
    by (cases x) (auto simp: token_spent_iff store_consume_approval_def tbl_get_insert split: option.split)
qed

subsection \<open>Leases\<close>

lemma lease_of_put:
  assumes "put_lease b ow token e = Inr b'" "checkpoint_from_body b' = Inr c"
  shows "fence_token (ck_lease c) = token \<and> owner_id (ck_lease c) = ow \<and> expires_at_ms (ck_lease c) = e"
proof -
  from assms(1) obtain kvs h where b': "b' = JObj (AList.update ''lease''
      (lease_dict \<lparr>owner_id = ow, fence_token = token, expires_at_ms = e, heartbeat_at_ms = h\<rparr>) kvs)"
    by (auto simp: put_lease_def bind_r_Inr_iff)
  then have "jget b' ''lease'' = Inr (lease_dict \<lparr>owner_id = ow, fence_token = token, expires_at_ms = e, heartbeat_at_ms = h\<rparr>)"
    by (simp add: jget_def update_conv')
  moreover have "lease_from_dict (lease_dict l) = Inr l" for l
    by (simp add: lease_from_dict_def lease_dict_def get_text_def get_int_def jget_def)
  ultimately show ?thesis using assms(2) by (auto simp: checkpoint_from_body_def bind_r_Inr_iff)
qed

lemma acquire_lease_fence:
  assumes "store_acquire_lease sha ex ow e db = (db', Inr l)"
  shows "fence_of ex db' = Some (fence_token l)" "owner_id l = ow" "fence_of ex db = Some (fence_token l - 1)"
proof -
  obtain row where row: "tbl_get r_execution_id ex (dag_checkpoint db) = Some row"
    using assms by (cases "tbl_get r_execution_id ex (dag_checkpoint db)") (simp_all add: store_acquire_lease_def)
  have id: "r_execution_id row = ex" using tbl_get_SomeD [OF row] by simp
  from assms row obtain c dg b where b: "put_lease (r_body row) ow (r_fence_token row + 1) e = Inr b"
      "checkpoint_from_body b = Inr c" "l = ck_lease c"
      "db' = db\<lparr>dag_checkpoint := tbl_update (\<lambda>r. r_execution_id r = ex)
         (\<lambda>r. r\<lparr>r_fence_token := r_fence_token row + 1, r_record_digest := dg, r_body := canon (checkpoint_body c)\<rparr>)
         (dag_checkpoint db)\<rparr>"
    by (auto simp: store_acquire_lease_def Let_def bind_r_Inr_iff split: sum.splits)
  from lease_of_put [OF b(1,2)] b row id
  show "fence_of ex db' = Some (fence_token l)" "owner_id l = ow" "fence_of ex db = Some (fence_token l - 1)"
    by (simp_all add: fence_of_def tbl_get_update)
qed

lemma db_keys_run: "db_keys (run_ops (dag_step sha) dag_empty xs)"
  by (rule dgf.run_inv) (simp add: db_keys_def dag_empty_def)

text \<open>A save under an old token is refused and leaves the store as it was.\<close>

lemma save_stale:
  assumes "fence_of (execution_id c) db = Some g" "f < g"
  shows "\<exists>err. store_save sha c f db = (db, Inl err) \<and>
    (\<not> has_secret (checkpoint_body c) \<and> json_validate (checkpoint_body c) \<longrightarrow>
       err = PlanValidationError LEASE_FENCE_STALE ''stale fence token'')"
proof -
  from assms obtain row where row: "tbl_get r_execution_id (execution_id c) (dag_checkpoint db) = Some row" "f < r_fence_token row"
    by (auto simp: fence_of_def)
  show ?thesis
  proof (cases "bind_r (assert_no_secret_material (checkpoint_body c) ''checkpoint'') (\<lambda>_. record_digest sha c)")
    case (Inl err)
    moreover from Inl have "\<not> (\<not> has_secret (checkpoint_body c) \<and> json_validate (checkpoint_body c))"
      by (auto simp: assert_no_secret_material_def record_digest_def hash_json_ok)
    ultimately show ?thesis by (auto simp: store_save_def)
  next
    case (Inr dg)
    with row show ?thesis by (simp add: store_save_def)
  qed
qed

text \<open>
  C13. Fencing: once an engine has acquired a lease, a save under any older token (a zombie
  engine's) is refused for ever after, whatever other operations happen in between, and changes
  nothing; for a serializable checkpoint the refusal is \<open>LEASE_FENCE_STALE\<close>.
\<close>

theorem dag_stale_writer_fenced:
  assumes "store_acquire_lease sha (execution_id c) ow e (run_ops (dag_step sha) dag_empty ys) = (db, Inr l)"
    and "f < fence_token l" and "db' = run_ops (dag_step sha) db xs"
  shows "\<exists>err. store_save sha c f db' = (db', Inl err) \<and>
    (\<not> has_secret (checkpoint_body c) \<and> json_validate (checkpoint_body c) \<longrightarrow>
       err = PlanValidationError LEASE_FENCE_STALE ''stale fence token'')"
proof -
  have "db = dag_step sha (run_ops (dag_step sha) dag_empty ys) (Ck_lease (execution_id c) ow e)" using assms(1) by simp
  then have "db_keys db" by (simp only: dag_step_keys [OF db_keys_run])
  from dgf.fence_run [OF this acquire_lease_fence(1) [OF assms(1)]] assms(3)
  obtain g where "fence_of (execution_id c) db' = Some g" "fence_token l \<le> g" by blast
  with assms(2) show ?thesis by (intro save_stale [where g = g]) simp_all
qed

definition sample_lease0 :: lease where
  "sample_lease0 = \<lparr>owner_id = ''engine-0'', fence_token = 1, expires_at_ms = 1000, heartbeat_at_ms = 0\<rparr>"

definition sample_checkpoint :: checkpoint where
  "sample_checkpoint = \<lparr>execution_id = ''e1'', ck_plan_digest = ''d'', principal_ref = ''p'', projection_digest = ''j'',
     policy_digest = ''o'', ck_lease = sample_lease0, schema_version = CHECKPOINT_SCHEMA_VERSION, approval_ref = None,
     ck_status = None, node_states = [(''b'', node_state_new ''b''), (''a'', node_state_new ''a'')], budget_consumed = [], replay = False\<rparr>"

lemma sample_clean: "\<not> has_secret (checkpoint_body sample_checkpoint)" "json_validate (checkpoint_body sample_checkpoint)"
  by code_simp+

lemma sample_wf: "ck_wf sample_checkpoint" "schema_version sample_checkpoint = CHECKPOINT_SCHEMA_VERSION"
  by (simp_all add: ck_wf_def sample_checkpoint_def node_state_new_def)

lemma sample_record_digest: "record_digest (\<lambda>s. s) sample_checkpoint = Inr (dumps (checkpoint_body sample_checkpoint))"
  by (simp add: record_digest_def hash_json_ok sample_clean)

definition sample_row :: ck_row where
  "sample_row = \<lparr>r_execution_id = ''e1'', r_plan_digest = ''d'', r_fence_token = 1,
     r_record_digest = dumps (checkpoint_body sample_checkpoint), r_body = canon (checkpoint_body sample_checkpoint)\<rparr>"

lemma sample_created: "store_create (\<lambda>s. s) sample_checkpoint dag_empty = (\<lparr>dag_checkpoint = [sample_row], dag_approval = []\<rparr>, Inr ())"
  unfolding store_create_def
  by (simp add: sample_record_digest assert_no_secret_material_def sample_clean tbl_insert_def dag_empty_def sample_row_def)
    (simp add: sample_checkpoint_def sample_lease0_def)

lemma sample_leased:
  "\<exists>db l. store_acquire_lease (\<lambda>s. s) ''e1'' ''engine-1'' 5000 \<lparr>dag_checkpoint = [sample_row], dag_approval = []\<rparr> = (db, Inr l) \<and> fence_token l = 2"
proof -
  obtain b where b: "put_lease (r_body sample_row) ''engine-1'' 2 5000 = Inr b" and
    cb: "checkpoint_from_body b = Inr (norm_checkpoint (sample_checkpoint\<lparr>ck_lease :=
      (ck_lease sample_checkpoint)\<lparr>owner_id := ''engine-1'', fence_token := 2, expires_at_ms := 5000\<rparr>\<rparr>))" (is "_ = Inr ?c")
    using put_lease_read [OF sample_wf(1), of "''engine-1''" 2 5000] by (auto simp: sample_row_def)
  have "json_validate (checkpoint_body ?c)" by code_simp
  then have "record_digest (\<lambda>s. s) ?c = Inr (dumps (checkpoint_body ?c))" by (simp add: record_digest_def hash_json_ok)
  moreover have "fence_token (ck_lease ?c) = 2" by (simp add: norm_checkpoint_def)
  ultimately show ?thesis using b cb by (simp add: store_acquire_lease_def Let_def) (simp add: sample_row_def)
qed

theorem dag_stale_writer_fenced_witness:
  "\<exists>db l. store_acquire_lease (\<lambda>s. s) ''e1'' ''engine-1'' 5000 (run_ops (dag_step (\<lambda>s. s)) dag_empty [Ck_create sample_checkpoint]) = (db, Inr l) \<and>
    store_save (\<lambda>s. s) sample_checkpoint 1 db = (db, Inl (PlanValidationError LEASE_FENCE_STALE ''stale fence token''))"
proof -
  have r: "run_ops (dag_step (\<lambda>s. s)) dag_empty [Ck_create sample_checkpoint] = \<lparr>dag_checkpoint = [sample_row], dag_approval = []\<rparr>"
    by (simp add: sample_created)
  have ex: "execution_id sample_checkpoint = ''e1''" by (simp add: sample_checkpoint_def)
  obtain db l where l: "store_acquire_lease (\<lambda>s. s) ''e1'' ''engine-1'' 5000 \<lparr>dag_checkpoint = [sample_row], dag_approval = []\<rparr> = (db, Inr l)"
    "fence_token l = 2" using sample_leased by blast
  have "\<exists>err. store_save (\<lambda>s. s) sample_checkpoint 1 db = (db, Inl err) \<and>
      (\<not> has_secret (checkpoint_body sample_checkpoint) \<and> json_validate (checkpoint_body sample_checkpoint) \<longrightarrow>
       err = PlanValidationError LEASE_FENCE_STALE ''stale fence token'')"
    by (rule dag_stale_writer_fenced [of _ _ "''engine-1''" 5000 "[Ck_create sample_checkpoint]" db l _ _ "[]"])
      (use l r ex in simp_all)
  with sample_clean l r show ?thesis by auto
qed

text \<open>
  A plan approval is consumed at most once: over any sequence of store operations after any
  history, at most one \<open>consume_approval\<close> of an approval id and nonce returns true.
\<close>

theorem dag_approval_single_use:
  "spend_count (dag_step sha) (consumes_token a n) (run_ops (dag_step sha) dag_empty ys) xs \<le> 1"
  by (rule dgu.spend_at_most_once) (simp_all add: db_keys_run)

lemma save_load:
  assumes "ck_wf c" and "schema_version c = CHECKPOINT_SCHEMA_VERSION" and "store_save sha c f db = (db', Inr ())"
  shows "store_load sha (execution_id c) db' = Inr (norm_checkpoint c) \<and>
    map_of (node_states (norm_checkpoint c)) k = map_option norm_state (map_of (node_states c) k)"
proof -
  from assms(3) obtain dg row where r: "record_digest sha c = Inr dg"
      "tbl_get r_execution_id (execution_id c) (dag_checkpoint db) = Some row" "r_fence_token row \<le> f"
      "db' = db\<lparr>dag_checkpoint := tbl_update (\<lambda>r. r_execution_id r = execution_id c \<and> r_fence_token r \<le> f)
         (\<lambda>r. r\<lparr>r_fence_token := f, r_record_digest := dg, r_body := canon (checkpoint_body c)\<rparr>) (dag_checkpoint db)\<rparr>"
    by (auto simp: store_save_def bind_r_Inr_iff split: sum.splits option.splits if_splits)
  have "r_execution_id row = execution_id c" using tbl_get_SomeD [OF r(2)] by simp
  with r have "tbl_get r_execution_id (execution_id c) (dag_checkpoint db') =
      Some (row\<lparr>r_fence_token := f, r_record_digest := dg, r_body := canon (checkpoint_body c)\<rparr>)"
    by (simp add: tbl_get_update)
  from load_row [OF this assms(1) _ _ assms(2), of sha] r(1)
  have "store_load sha (execution_id c) db' = Inr (norm_checkpoint c)" by simp
  moreover have "map_of (map (\<lambda>(k, n). (k, norm_state n)) (sort_key fst xs)) k = map_option norm_state (map_of xs k)"
    if "distinct (map fst xs)" for xs
  proof -
    have "map_of (map (\<lambda>(k, n). (k, norm_state n)) ys) k = map_option norm_state (map_of ys k)" for ys by (induction ys) auto
    moreover have "map_of (sort_key fst xs) k = map_of xs k"
      using that by (intro map_of_eqI [THEN fun_cong]) (auto simp: distinct_map dest!: map_of_SomeD intro!: map_of_is_SomeI)
    ultimately show ?thesis by simp
  qed
  ultimately show ?thesis using assms(1) by (simp add: norm_checkpoint_def ck_wf_def)
qed

text \<open>
  C31. What was saved is what is loaded: after a successful save of a well-formed checkpoint,
  \<open>load\<close> accepts the row and returns that checkpoint, with node states and counters in key order.
\<close>

theorem dag_save_load:
  assumes "ck_wf c" and "schema_version c = CHECKPOINT_SCHEMA_VERSION" and "store_save sha c f db = (db', Inr ())"
  shows "store_load sha (execution_id c) db' = Inr (norm_checkpoint c) \<and>
    map_of (node_states (norm_checkpoint c)) k = map_option norm_state (map_of (node_states c) k)"
  using assms by (rule save_load)

lemma sample_saved:
  "\<exists>db'. store_save (\<lambda>s. s) sample_checkpoint 1 \<lparr>dag_checkpoint = [sample_row], dag_approval = []\<rparr> = (db', Inr ())"
  unfolding store_save_def
  by (simp add: sample_record_digest assert_no_secret_material_def sample_clean)
    (simp add: sample_checkpoint_def sample_row_def)

theorem dag_save_load_witness:
  "\<exists>db'. store_save (\<lambda>s. s) sample_checkpoint 1 \<lparr>dag_checkpoint = [sample_row], dag_approval = []\<rparr> = (db', Inr ()) \<and>
    store_load (\<lambda>s. s) (execution_id sample_checkpoint) db' = Inr (norm_checkpoint sample_checkpoint)"
  using sample_saved dag_save_load [OF sample_wf] by blast

text \<open>
  Tampering is evident: with a collision free hash, whatever the file holds, \<open>load\<close> returns
  only a checkpoint with the body whose digest is stored beside it: if the stored digest is that
  of \<open>c0\<close>, the loaded checkpoint has the body of \<open>c0\<close> up to key order.
\<close>

theorem dag_load_tamper_evident:
  assumes "inj sha" and "tbl_get r_execution_id ex (dag_checkpoint db) = Some row"
    and "record_digest sha c0 = Inr (r_record_digest row)" and "store_load sha ex db = Inr c"
  shows "canon (checkpoint_body c) = canon (checkpoint_body c0)"
proof -
  from assms(2,4) have "record_digest sha c = Inr (r_record_digest row)"
    by (auto simp: store_load_def bind_r_Inr_iff split: if_splits)
  with assms(1,3) show ?thesis unfolding record_digest_def by (blast intro: hash_json_inj)
qed

theorem dag_load_tamper_evident_witness:
  "\<exists>c. store_load (\<lambda>s. s) ''e1'' \<lparr>dag_checkpoint = [sample_row], dag_approval = []\<rparr> = Inr c \<and>
    canon (checkpoint_body c) = canon (checkpoint_body sample_checkpoint)"
proof -
  have g: "tbl_get r_execution_id ''e1'' (dag_checkpoint \<lparr>dag_checkpoint = [sample_row], dag_approval = []\<rparr>) = Some sample_row"
    by (simp add: sample_row_def)
  have d: "record_digest (\<lambda>s. s) sample_checkpoint = Inr (r_record_digest sample_row)"
    by (simp add: sample_record_digest) (simp add: sample_row_def)
  have "store_load (\<lambda>s. s) ''e1'' \<lparr>dag_checkpoint = [sample_row], dag_approval = []\<rparr> = Inr (norm_checkpoint sample_checkpoint)"
    by (rule load_row [OF g sample_wf(1) _ d sample_wf(2)]) (simp add: sample_row_def)
  moreover have "inj (\<lambda>s :: string. s)" by (simp add: inj_def)
  ultimately show ?thesis using dag_load_tamper_evident [OF _ g d] by blast
qed

end
