(* ===== verification/Dag_Engine.thy ===== *)
theory Dag_Engine
  imports Dag_Validation Dag_Store
begin

section \<open>DAG engine (v2/dag\_engine.py)\<close>

text \<open>
  \<open>DagEngine\<close>: admission, the run loop, compensation, dry run and resume. The injected executor,
  reconciler, compensator and governance are parameters of the engine record; the first three act
  on a world of their own type \<open>'w\<close>. The nodes of a batch run one after the other in batch order,
  which is what \<open>asyncio.gather\<close> gives under a parallelism of one (every plan with a mutating
  node, by validation) or with an executor that does not suspend; the theory \<open>Dag_Interleave\<close> has
  the concurrent batch. \<open>execute\<close> is split at its \<open>await\<close>: what happens before the call
  (\<open>execute_pre\<close>) and after it (\<open>execute_post\<close>). The report leaves out \<open>max_observed_inflight\<close>
  (a measurement) and \<open>llm_tokens\<close> (always 0).
\<close>

subsection \<open>Data\<close>

record node_decision =
  allowed :: bool
  d_reason :: "plan_reason option"
  approval_required :: bool
  d_policy_digest :: string

datatype exec_outcome =
  Exec_ok "(string \<times> json) list"
| Exec_indeterminate string
| Exec_failed string
| Exec_raises

datatype recon_outcome = Recon_unknown | Recon_absent | Recon_effect string

datatype comp_outcome = Comp_verified | Comp_unverified | Comp_indeterminate | Comp_raises

record 'w engine =
  executor :: "node \<Rightarrow> args \<Rightarrow> 'w \<Rightarrow> exec_outcome \<times> 'w"
  catalog :: tool_catalog
  decide :: "validated_plan \<Rightarrow> node \<Rightarrow> args \<Rightarrow> node_decision"
  reconciler :: "(node \<Rightarrow> string \<Rightarrow> 'w \<Rightarrow> recon_outcome \<times> 'w) option"
  compensator :: "(node \<Rightarrow> string \<Rightarrow> 'w \<Rightarrow> comp_outcome \<times> 'w) option"
  enabled :: bool
  engine_ceiling :: int
  engine_owner :: string
  sha256 :: "string \<Rightarrow> string"

definition deny_all :: "validated_plan \<Rightarrow> node \<Rightarrow> args \<Rightarrow> node_decision" where
  "deny_all vp n a = \<lparr>allowed = False, d_reason = Some POLICY_MISSING, approval_required = False, d_policy_digest = []\<rparr>"

type_synonym states = "(string \<times> node_state) list"

record execution_report =
  rep_status :: plan_status
  rep_plan_digest :: string
  rep_execution_id :: string
  rep_node_statuses :: "(string \<times> node_status) list"
  rep_node_reasons :: "(string \<times> string option) list"
  committed_effects :: "(string \<times> string) list"
  compensated_effects :: "(string \<times> string \<times> string) list"
  unknown_effects :: "(string \<times> string \<times> string) list"
  rep_external_calls :: int
  rep_replay :: bool
  rep_dispatch_order :: "string list"

text \<open>\<open>ExecutionReport.__post_init__\<close>\<close>

definition report_new :: "execution_report \<Rightarrow> (plan_error, execution_report) result" where
  "report_new r =
     (if unknown_effects r \<noteq> [] \<and> rep_status r \<notin> {PLAN_INDETERMINATE, PLAN_DEAD_LETTER}
      then Inl (PlanValidationError PLAN_SCHEMA_INVALID ''unknown_effects requires INDETERMINATE'') else Inr r)"

text \<open>The local variables of \<open>run\<close> together with the store, the world and the governance log.\<close>

record 'w run_state =
  rs_states :: states
  rs_checkpoint :: checkpoint
  rs_db :: dag_db
  rs_world :: 'w
  aborted :: bool
  external_calls :: int
  dispatch_order :: "string list"
  governed :: "(string \<times> node_state) list"

subsection \<open>Helpers\<close>

text \<open>\<open>reason.value\<close>: the reason codes are their own names.\<close>

definition reason_table :: "(plan_reason \<times> string) list" where
  "reason_table =
     [(BINDING_RUNTIME_REJECT, ''BINDING_RUNTIME_REJECT''), (PLAN_SCOPE_DENIED, ''PLAN_SCOPE_DENIED''),
      (TRANSFORM_TYPE_MISMATCH, ''TRANSFORM_TYPE_MISMATCH''), (TRANSFORM_OP_UNKNOWN, ''TRANSFORM_OP_UNKNOWN''),
      (TRANSFORM_OUTPUT_TOO_LARGE, ''TRANSFORM_OUTPUT_TOO_LARGE''), (POLICY_DENIED, ''POLICY_DENIED''),
      (POLICY_MISSING, ''POLICY_MISSING''), (APPROVAL_MISSING, ''APPROVAL_MISSING''),
      (APPROVAL_OPERATION_DIGEST_UNCOVERED, ''APPROVAL_OPERATION_DIGEST_UNCOVERED''),
      (UPSTREAM_ABORT, ''UPSTREAM_ABORT''), (UPSTREAM_FAILED, ''UPSTREAM_FAILED''),
      (UPSTREAM_INDETERMINATE, ''UPSTREAM_INDETERMINATE''), (BUDGET_EXHAUSTED, ''BUDGET_EXHAUSTED''),
      (PROVIDER_UNAVAILABLE, ''PROVIDER_UNAVAILABLE''), (DEADLINE_EXCEEDED, ''DEADLINE_EXCEEDED''),
      (COMPENSATION_UNSAFE_REASON, ''COMPENSATION_UNSAFE''), (PLAN_SCHEMA_INVALID, ''PLAN_SCHEMA_INVALID''),
      (PLAN_UNKNOWN_FIELD, ''PLAN_UNKNOWN_FIELD''), (PLAN_DUPLICATE_NODE, ''PLAN_DUPLICATE_NODE''),
      (PLAN_CYCLE_DETECTED, ''PLAN_CYCLE_DETECTED''), (PLAN_SELF_DEPENDENCY, ''PLAN_SELF_DEPENDENCY''),
      (PLAN_UNKNOWN_DEPENDENCY, ''PLAN_UNKNOWN_DEPENDENCY''), (PLAN_DUPLICATE_DEPENDENCY, ''PLAN_DUPLICATE_DEPENDENCY''),
      (PLAN_UNREACHABLE_NODE, ''PLAN_UNREACHABLE_NODE''), (PLAN_DEPTH_EXCEEDED, ''PLAN_DEPTH_EXCEEDED''),
      (PLAN_FANOUT_EXCEEDED, ''PLAN_FANOUT_EXCEEDED''), (PLAN_BUDGET_EXCEEDED, ''PLAN_BUDGET_EXCEEDED''),
      (PLAN_TOOL_UNKNOWN, ''PLAN_TOOL_UNKNOWN''), (PLAN_TOOL_NOT_PROJECTED, ''PLAN_TOOL_NOT_PROJECTED''),
      (PLAN_ARG_INVALID, ''PLAN_ARG_INVALID''), (PLAN_IDEMPOTENCY_MISSING, ''PLAN_IDEMPOTENCY_MISSING''),
      (PLAN_COMPENSATION_UNDECLARED, ''PLAN_COMPENSATION_UNDECLARED''), (BINDING_EDGE_NOT_DECLARED, ''BINDING_EDGE_NOT_DECLARED''),
      (BINDING_SOURCE_UNSHAPED, ''BINDING_SOURCE_UNSHAPED''), (BINDING_FIELD_UNKNOWN, ''BINDING_FIELD_UNKNOWN''),
      (BINDING_TYPE_MISMATCH, ''BINDING_TYPE_MISMATCH''), (BINDING_TARGET_TYPE_MISMATCH, ''BINDING_TARGET_TYPE_MISMATCH''),
      (BINDING_SIZE_EXCEEDED, ''BINDING_SIZE_EXCEEDED''), (BINDING_CONTROL_FIELD_FORBIDDEN, ''BINDING_CONTROL_FIELD_FORBIDDEN''),
      (APPROVAL_DIGEST_MISMATCH, ''APPROVAL_DIGEST_MISMATCH''), (APPROVAL_EXPIRED, ''APPROVAL_EXPIRED''),
      (APPROVAL_SCOPE_INSUFFICIENT, ''APPROVAL_SCOPE_INSUFFICIENT''), (APPROVAL_ALREADY_CONSUMED, ''APPROVAL_ALREADY_CONSUMED''),
      (CHECKPOINT_TAMPERED, ''CHECKPOINT_TAMPERED''), (CHECKPOINT_SCHEMA_UNSUPPORTED, ''CHECKPOINT_SCHEMA_UNSUPPORTED''),
      (PLAN_DIGEST_MISMATCH, ''PLAN_DIGEST_MISMATCH''), (LEASE_FENCE_STALE, ''LEASE_FENCE_STALE''), (DAG_DISABLED, ''DAG_DISABLED'')]"

definition reason_value :: "plan_reason \<Rightarrow> string" where
  "reason_value r = enum_value reason_table r"

definition status_of :: "states \<Rightarrow> string \<Rightarrow> node_status" where
  "status_of st i = (case map_of st i of None \<Rightarrow> PENDING | Some n \<Rightarrow> ns_status n)"

text \<open>\<open>states[i] = replace(states[i], ...)\<close>; \<open>run\<close> first files a state for every node of the plan.\<close>

definition put_state :: "string \<Rightarrow> (node_state \<Rightarrow> node_state) \<Rightarrow> states \<Rightarrow> states" where
  "put_state i f st = AList.update i (f (case map_of st i of None \<Rightarrow> node_state_new i | Some n \<Rightarrow> n)) st"

definition upd :: "string \<Rightarrow> (node_state \<Rightarrow> node_state) \<Rightarrow> 'w run_state \<Rightarrow> 'w run_state" where
  "upd i f s = s\<lparr>rs_states := put_state i f (rs_states s)\<rparr>"

definition plan_status_from :: "states \<Rightarrow> bool \<Rightarrow> plan_status" where
  "plan_status_from st abort =
     (let ss = map (ns_status \<circ> snd) st; successes = length (filter (\<lambda>x. x = SUCCESS) ss) in
      if DEAD_LETTER \<in> set ss then PLAN_DEAD_LETTER
      else if INDETERMINATE \<in> set ss then PLAN_INDETERMINATE
      else if abort then PLAN_ABORTED
      else if ss \<noteq> [] \<and> successes = length ss then PLAN_COMPLETED
      else if successes \<noteq> 0 then PLAN_PARTIAL
      else PLAN_FAILED)"

definition effective_parallelism :: "'w engine \<Rightarrow> validated_plan \<Rightarrow> int" where
  "effective_parallelism e vp = (let b = p_budget (v_plan vp) in
     max 1 (Min (set ([max_parallelism b, max 1 (engine_ceiling e)] @ map snd (per_provider_limits b) @ map snd (per_credential_limits b)))))"

fun follow :: "json \<Rightarrow> string list \<Rightarrow> (plan_error, json) result" where
  "follow v [] = Inr v"
| "follow v (p # ps) =
     (case v of JObj kvs \<Rightarrow>
        (case map_of kvs p of None \<Rightarrow> Inl (PlanValidationError BINDING_RUNTIME_REJECT ''path'') | Some x \<Rightarrow> follow x ps)
      | _ \<Rightarrow> Inl (PlanValidationError BINDING_RUNTIME_REJECT ''path''))"

definition node_contract :: "tool_catalog \<Rightarrow> node \<Rightarrow> tool_contract option" where
  "node_contract cat n = (if n_kind n = TOOL then contract cat (opt_str (n_tool n)) else None)"

fun bind_loop :: "tool_catalog \<Rightarrow> tool_contract option \<Rightarrow> states \<Rightarrow> (string \<times> binding) list \<Rightarrow> args \<Rightarrow> (plan_error, args) result" where
  "bind_loop cat ct st [] resolved = Inr resolved"
| "bind_loop cat ct st ((target, b) # bs) resolved =
     (case map_of st (source_node b) of
        None \<Rightarrow> Inl (PlanValidationError BINDING_RUNTIME_REJECT ''source not ready'')
      | Some src \<Rightarrow>
          if ns_status src \<noteq> SUCCESS then Inl (PlanValidationError BINDING_RUNTIME_REJECT ''source not ready'')
          else bind_r (follow (ns_result src) (source_path b)) (\<lambda>v.
            bind_r (revalidate_bound_value v (b_type b) (b_max_bytes b) cat
              (case ct of None \<Rightarrow> False | Some c \<Rightarrow> tc_resource_arg c = Some (slot_of target))) (\<lambda>v'.
            bind_loop cat ct st bs (AList.update (slot_of target) v' resolved))))"

definition resolve_args :: "tool_catalog \<Rightarrow> node \<Rightarrow> states \<Rightarrow> (plan_error, args) result" where
  "resolve_args cat n st = bind_loop cat (node_contract cat n) st (sort_key fst (n_bindings n)) (n_args n)"

definition resource_key :: "tool_catalog \<Rightarrow> node \<Rightarrow> args \<Rightarrow> string option" where
  "resource_key cat n resolved =
     (case node_contract cat n of None \<Rightarrow> None
      | Some c \<Rightarrow>
          (case tc_resource_arg c of None \<Rightarrow> None
           | Some r \<Rightarrow>
               (case map_of resolved r of Some (JStr s) \<Rightarrow> Some (tc_provider c @ '':'' @ s) | _ \<Rightarrow> None)))"

text \<open>\<open>key.split(":", 1)[1]\<close>\<close>

definition after_colon :: "string \<Rightarrow> string" where
  "after_colon k = tl (dropWhile (\<lambda>c. c \<noteq> CHR '':'') k)"

definition needs_approval :: "'w engine \<Rightarrow> validated_plan \<Rightarrow> bool" where
  "needs_approval e vp \<longleftrightarrow> list_ex (\<lambda>n. approval_required (decide e vp n (n_args n))) (p_nodes (v_plan vp))"

definition check_approval :: "'w engine \<Rightarrow> validated_plan \<Rightarrow> int \<Rightarrow> string \<Rightarrow> dag_db \<Rightarrow> dag_db \<times> (plan_error, string option) result" where
  "check_approval e vp now ex db =
     (if \<not> needs_approval e vp then (db, Inr None)
      else (case p_approval (v_plan vp) of
        None \<Rightarrow> (db, Inl (PlanValidationError APPROVAL_MISSING ''approval required''))
      | Some a \<Rightarrow>
          if a_digest a \<noteq> v_digest vp then (db, Inl (PlanValidationError APPROVAL_DIGEST_MISMATCH ''digest''))
          else if a_expires_at_ms a \<le> now then (db, Inl (PlanValidationError APPROVAL_EXPIRED ''expired''))
          else if \<not> list_all (\<lambda>(i, r). case r of None \<Rightarrow> True | Some k \<Rightarrow> k \<in> set (a_scope a)) (v_resource_keys vp)
          then (db, Inl (PlanValidationError APPROVAL_SCOPE_INSUFFICIENT ''scope''))
          else (case store_consume_approval (a_approval_id a) (a_nonce a) ex db of
                  (db', False) \<Rightarrow> (db', Inl (PlanValidationError APPROVAL_ALREADY_CONSUMED ''nonce''))
                | (db', True) \<Rightarrow> (db', Inr (Some (a_approval_id a))))))"

definition assert_operation_covered :: "'w engine \<Rightarrow> validated_plan \<Rightarrow> node \<Rightarrow> args \<Rightarrow> (plan_error, unit) result" where
  "assert_operation_covered e vp n resolved =
     (case p_approval (v_plan vp) of
        None \<Rightarrow> Inl (PlanValidationError APPROVAL_MISSING (n_id n))
      | Some a \<Rightarrow>
          bind_r (operation_digest (sha256 e) (n_id n) resolved) (\<lambda>dg.
          if dg \<in> set (a_operation_digests a) then Inr ()
          else if a_runtime_bound a \<and>
            (case resource_key (catalog e) n resolved of None \<Rightarrow> False | Some k \<Rightarrow> after_colon k \<in> set (a_scope a))
          then Inr ()
          else Inl (PlanValidationError APPROVAL_OPERATION_DIGEST_UNCOVERED (n_id n))))"

subsection \<open>Admission\<close>

definition admit ::
  "'w engine \<Rightarrow> validated_plan \<Rightarrow> string \<Rightarrow> string \<Rightarrow> string \<Rightarrow> string \<Rightarrow> int \<Rightarrow> int \<Rightarrow> bool \<Rightarrow> dag_db
    \<Rightarrow> dag_db \<times> (plan_error, checkpoint) result" where
  "admit e vp ex princ projection policy now expires repl db =
     (if \<not> enabled e then (db, Inl DagDisabledError)
      else bind_s (if repl then (db, Inr None) else check_approval e vp now ex db) (\<lambda>db aref.
        let c = \<lparr>execution_id = ex, ck_plan_digest = v_digest vp, principal_ref = princ, projection_digest = projection,
                 policy_digest = policy,
                 ck_lease = \<lparr>owner_id = engine_owner e, fence_token = 1, expires_at_ms = expires, heartbeat_at_ms = 0\<rparr>,
                 schema_version = CHECKPOINT_SCHEMA_VERSION, approval_ref = aref, ck_status = None,
                 node_states = map (\<lambda>n. (n_id n, node_state_new (n_id n))) (p_nodes (v_plan vp)),
                 budget_consumed = [], replay = repl\<rparr>
        in bind_s (store_create (sha256 e) c db) (\<lambda>db _. (db, Inr c))))"

subsection \<open>One node\<close>

definition persist :: "'w engine \<Rightarrow> 'w run_state \<Rightarrow> 'w run_state \<times> (plan_error, unit) result" where
  "persist e s =
     (let c = (rs_checkpoint s)\<lparr>node_states := rs_states s\<rparr>
      in case store_save (sha256 e) c (fence_token (ck_lease c)) (rs_db s) of
           (db, r) \<Rightarrow> (s\<lparr>rs_checkpoint := c, rs_db := db\<rparr>, r))"

text \<open>\<open>self._governance.record(plan, node, states[node.id])\<close>\<close>

definition record_node :: "string \<Rightarrow> 'w run_state \<Rightarrow> 'w run_state" where
  "record_node i s = s\<lparr>governed := governed s @ (case map_of (rs_states s) i of None \<Rightarrow> [] | Some n \<Rightarrow> [(i, n)])\<rparr>"

definition set_status :: "node_status \<Rightarrow> string option \<Rightarrow> node_state \<Rightarrow> node_state" where
  "set_status st rc n = n\<lparr>ns_status := st, ns_reason_code := rc\<rparr>"

definition denial :: "node_decision \<Rightarrow> string" where
  "denial d = reason_value (case d_reason d of None \<Rightarrow> POLICY_DENIED | Some r \<Rightarrow> r)"

text \<open>
  Before the call: either the node is settled, or the executor is to be called with the resolved
  arguments (and the idempotency key of a mutating node, already durable).
\<close>

datatype prep = Settled | Call args "string option"

text \<open>The handler \<open>except PlanValidationError\<close>; every other exception passes through.\<close>

definition catch_plan_error ::
  "plan_error \<Rightarrow> (string \<Rightarrow> 'w run_state) \<Rightarrow> 'w run_state \<Rightarrow> 'w run_state \<times> (plan_error, prep) result" where
  "catch_plan_error err h s =
     (case err of PlanValidationError r d \<Rightarrow> (h (reason_value r), Inr Settled) | _ \<Rightarrow> (s, Inl err))"

definition write_ahead :: "'w engine \<Rightarrow> validated_plan \<Rightarrow> node \<Rightarrow> args \<Rightarrow> 'w run_state \<Rightarrow> 'w run_state \<times> (plan_error, prep) result" where
  "write_ahead e vp n resolved s =
     (let epoch = (case n_idempotency n of None \<Rightarrow> 0 | Some i \<Rightarrow> i_attempt_epoch i) in
      case bind_r (node_idempotency_key (sha256 e) (v_digest vp) (n_id n) epoch resolved) (\<lambda>k.
           bind_r (operation_digest (sha256 e) (n_id n) resolved) (\<lambda>dg. Inr (k, dg))) of
        Inl err \<Rightarrow> (s, Inl err)
      | Inr (k, dg) \<Rightarrow>
          bind_s (persist e (upd (n_id n) (\<lambda>x. x\<lparr>ns_status := DISPATCHED, ns_idempotency_key := Some k,
                    ns_operation_digest := Some dg\<rparr>) s))
            (\<lambda>s _. (s, Inr (Call resolved (Some k)))))"

definition execute_tool ::
  "'w engine \<Rightarrow> validated_plan \<Rightarrow> bool \<Rightarrow> (string \<times> json) list option \<Rightarrow> node \<Rightarrow> args \<Rightarrow> 'w run_state
    \<Rightarrow> 'w run_state \<times> (plan_error, prep) result" where
  "execute_tool e vp replaying rr n resolved s =
     (if replaying
      then (case (case rr of None \<Rightarrow> None | Some m \<Rightarrow> map_of m (n_id n)) of
              None \<Rightarrow> (upd (n_id n) (set_status FAILED (Some (reason_value BINDING_RUNTIME_REJECT))) s, Inr Settled)
            | Some JNull \<Rightarrow> (upd (n_id n) (set_status FAILED (Some (reason_value BINDING_RUNTIME_REJECT))) s, Inr Settled)
            | Some v \<Rightarrow> (record_node (n_id n) (upd (n_id n) (\<lambda>x. x\<lparr>ns_status := SUCCESS, ns_result := v\<rparr>) s), Inr Settled))
      else if external_calls s \<ge> max_external_calls (p_budget (v_plan vp))
      then (upd (n_id n) (set_status SKIPPED (Some (reason_value BUDGET_EXHAUSTED))) s, Inr Settled)
      else if n_id n \<in> set (v_mutating_nodes vp) then write_ahead e vp n resolved s
      else (s, Inr (Call resolved None)))"

definition execute_pre ::
  "'w engine \<Rightarrow> validated_plan \<Rightarrow> bool \<Rightarrow> (string \<times> json) list option \<Rightarrow> node \<Rightarrow> 'w run_state
    \<Rightarrow> 'w run_state \<times> (plan_error, prep) result" where
  "execute_pre e vp replaying rr n s =
     (case resolve_args (catalog e) n (rs_states s) of
        Inl err \<Rightarrow> catch_plan_error err (\<lambda>r. upd (n_id n) (set_status FAILED (Some r)) s) s
      | Inr resolved \<Rightarrow>
          let d = decide e vp n resolved in
          if \<not> allowed d
          then (record_node (n_id n) (upd (n_id n) (set_status DENIED (Some (denial d))) s), Inr Settled)
          else (case (if n_id n \<in> set (v_mutating_nodes vp) \<and> approval_required d
                      then assert_operation_covered e vp n resolved else Inr ()) of
             Inl err \<Rightarrow> catch_plan_error err (\<lambda>r. upd (n_id n) (set_status DENIED (Some r)) s) s
           | Inr _ \<Rightarrow>
               (case n_kind n of
                  TRANSFORM \<Rightarrow>
                    (case apply_transform (opt_str (n_op n)) resolved (max_result_bytes (p_budget (v_plan vp))) of
                       Inl err \<Rightarrow> catch_plan_error err (\<lambda>r. upd (n_id n) (set_status FAILED (Some r)) s) s
                     | Inr v \<Rightarrow> (record_node (n_id n) (upd (n_id n) (\<lambda>x. x\<lparr>ns_status := SUCCESS, ns_result := v\<rparr>) s), Inr Settled))
                | TOOL \<Rightarrow> execute_tool e vp replaying rr n resolved s)))"

text \<open>The call itself: the dispatch is noted, the counter incremented, the executor run.\<close>

definition dispatch :: "'w engine \<Rightarrow> node \<Rightarrow> args \<Rightarrow> 'w run_state \<Rightarrow> 'w run_state \<times> exec_outcome" where
  "dispatch e n resolved s =
     (case executor e n resolved (rs_world s) of
        (out, w) \<Rightarrow> (s\<lparr>dispatch_order := dispatch_order s @ [n_id n], external_calls := external_calls s + 1, rs_world := w\<rparr>, out))"

definition non_empty :: "string \<Rightarrow> string \<Rightarrow> string" where
  "non_empty d dflt = (if d = [] then dflt else d)"

text \<open>\<open>str(result["effect_ref"])\<close>; the text of a container stands for its \<open>repr\<close>.\<close>

fun py_str :: "json \<Rightarrow> string" where
  "py_str (JStr s) = s"
| "py_str (JBool b) = (if b then ''True'' else ''False'')"
| "py_str JNull = ''None''"
| "py_str v = dumps v"

definition effect_of :: "(string \<times> json) list \<Rightarrow> string option" where
  "effect_of res = map_option py_str (map_of res ''effect_ref'')"

definition stops_plan :: "validated_plan \<Rightarrow> node \<Rightarrow> bool" where
  "stops_plan vp n \<longleftrightarrow> (p_failure_policy (v_plan vp) = FAIL_FAST \<and> n_on_failure n \<noteq> ISOLATE_BRANCH) \<or> n_on_failure n = ABORT_PLAN"

definition execute_post ::
  "'w engine \<Rightarrow> validated_plan \<Rightarrow> node \<Rightarrow> string option \<Rightarrow> exec_outcome \<Rightarrow> 'w run_state \<Rightarrow> 'w run_state \<times> (plan_error, unit) result" where
  "execute_post e vp n key out s =
     (case out of
        Exec_raises \<Rightarrow> (s, Inl Foreign_exception)
      | Exec_indeterminate d \<Rightarrow>
          bind_s (persist e (upd (n_id n) (\<lambda>x. x\<lparr>ns_status := INDETERMINATE, ns_idempotency_key := key,
                    ns_reason_code := Some (non_empty d ''INDETERMINATE'')\<rparr>) s))
            (\<lambda>s _. if n_on_failure n = ON_FAILURE_DEAD_LETTER
                   then persist e (upd (n_id n) (\<lambda>x. x\<lparr>ns_status := DEAD_LETTER\<rparr>) s) else (s, Inr ()))
      | Exec_failed d \<Rightarrow>
          (let s' = upd (n_id n) (set_status FAILED (Some (non_empty d ''FAILED''))) s
           in (if stops_plan vp n then s'\<lparr>aborted := True\<rparr> else s', Inr ()))
      | Exec_ok res \<Rightarrow>
          (record_node (n_id n) (upd (n_id n) (\<lambda>x. x\<lparr>ns_status := SUCCESS, ns_result := JObj res,
             ns_effect_ref := (if n_id n \<in> set (v_mutating_nodes vp) then effect_of res else None)\<rparr>) s), Inr ()))"

definition execute ::
  "'w engine \<Rightarrow> validated_plan \<Rightarrow> bool \<Rightarrow> (string \<times> json) list option \<Rightarrow> node \<Rightarrow> 'w run_state
    \<Rightarrow> 'w run_state \<times> (plan_error, unit) result" where
  "execute e vp replaying rr n s = bind_s (execute_pre e vp replaying rr n s) (\<lambda>s p.
     case p of Settled \<Rightarrow> (s, Inr ())
     | Call resolved key \<Rightarrow> (case dispatch e n resolved s of (s', out) \<Rightarrow> execute_post e vp n key out s'))"

subsection \<open>Scheduling\<close>

text \<open>The nodes of the plan in \<open>plan.order\<close>.\<close>

definition ordered_nodes :: "validated_plan \<Rightarrow> node list" where
  "ordered_nodes vp = List.map_filter (plan_node (v_plan vp)) (v_order vp)"

definition blocks :: "node_status \<Rightarrow> plan_reason option" where
  "blocks s = (if s = INDETERMINATE then Some UPSTREAM_INDETERMINATE
     else if s \<in> {FAILED, DENIED, SKIPPED, DEAD_LETTER} then Some UPSTREAM_FAILED else None)"

fun blocked_reason :: "states \<Rightarrow> string list \<Rightarrow> plan_reason option" where
  "blocked_reason st [] = None"
| "blocked_reason st (d # ds) = (case blocks (status_of st d) of None \<Rightarrow> blocked_reason st ds | Some r \<Rightarrow> Some r)"

text \<open>One pass of the \<open>for\<close> loop of \<open>propagate\<close>; the flag is \<open>changed\<close>.\<close>

fun propagate_pass :: "node list \<Rightarrow> states \<Rightarrow> states \<times> bool" where
  "propagate_pass [] st = (st, False)"
| "propagate_pass (n # ns) st =
     (if status_of st (n_id n) \<noteq> PENDING then propagate_pass ns st
      else (case blocked_reason st (n_depends_on n) of
              None \<Rightarrow> propagate_pass ns st
            | Some r \<Rightarrow> (fst (propagate_pass ns (put_state (n_id n) (set_status SKIPPED (Some (reason_value r))) st)), True)))"

definition pending :: "node list \<Rightarrow> states \<Rightarrow> nat" where
  "pending ns st = length (filter (\<lambda>n. status_of st (n_id n) = PENDING) ns)"

lemma status_of_put:
  "status_of (put_state i f st) j =
   (if j = i then ns_status (f (case map_of st i of None \<Rightarrow> node_state_new i | Some n \<Rightarrow> n)) else status_of st j)"
  by (simp add: status_of_def put_state_def update_conv')

lemma ns_status_set_status [simp]: "ns_status (set_status x rc n) = x"
  by (simp add: set_status_def)

lemma status_put_status [simp]: "status_of (put_state i (set_status x rc) st) j = (if j = i then x else status_of st j)"
  by (simp add: status_of_put set_status_def)

lemma pending_mono:
  "(\<And>n. n \<in> set ns \<Longrightarrow> status_of st' (n_id n) = PENDING \<Longrightarrow> status_of st (n_id n) = PENDING) \<Longrightarrow>
   pending ns st' \<le> pending ns st"
proof (induction ns)
  case (Cons m ns)
  then have "pending ns st' \<le> pending ns st" by simp
  with Cons.prems [of m] show ?case by (auto simp: pending_def)
qed (simp add: pending_def)

lemma pending_less:
  assumes "\<And>n. n \<in> set ns \<Longrightarrow> status_of st' (n_id n) = PENDING \<Longrightarrow> status_of st (n_id n) = PENDING"
    and "m \<in> set ns" "status_of st (n_id m) = PENDING" "status_of st' (n_id m) \<noteq> PENDING"
  shows "pending ns st' < pending ns st"
  using assms
proof (induction ns)
  case (Cons k ns)
  have le: "pending ns st' \<le> pending ns st" using Cons.prems(1) by (intro pending_mono) simp
  show ?case
  proof (cases "m = k")
    case True
    with Cons.prems le show ?thesis by (simp add: pending_def)
  next
    case False
    with Cons have "pending ns st' < pending ns st" by simp
    with Cons.prems(1) [of k] show ?thesis by (auto simp: pending_def)
  qed
qed simp

lemma propagate_pass_status:
  "status_of (fst (propagate_pass ns st)) i = PENDING \<Longrightarrow> status_of st i = PENDING"
  by (induction ns st rule: propagate_pass.induct) (auto split: option.splits if_splits)

lemma propagate_pass_less:
  "set ns \<subseteq> set ms \<Longrightarrow> snd (propagate_pass ns st) \<Longrightarrow> pending ms (fst (propagate_pass ns st)) < pending ms st"
proof (induction ns st rule: propagate_pass.induct)
  case (2 n ns st)
  show ?case
  proof (cases "status_of st (n_id n) = PENDING")
    case True
    show ?thesis
    proof (cases "blocked_reason st (n_depends_on n)")
      case (Some r)
      let ?st = "put_state (n_id n) (set_status SKIPPED (Some (reason_value r))) st"
      have "pending ms (fst (propagate_pass ns ?st)) \<le> pending ms ?st"
        by (intro pending_mono) (rule propagate_pass_status)
      also have "pending ms ?st < pending ms st"
        using "2.prems"(1) True by (intro pending_less [of _ _ _ n]) (auto split: if_splits)
      finally show ?thesis using True Some by simp
    qed (use 2 True in simp)
  qed (use 2 in simp)
qed simp

text \<open>\<open>propagate\<close>: passes until one changes nothing.\<close>

function propagate :: "node list \<Rightarrow> states \<Rightarrow> states" where
  "propagate ns st = (let (st', changed) = propagate_pass ns st in if changed then propagate ns st' else st')"
  by pat_completeness auto
termination
proof (relation "measure (\<lambda>(ns, st). pending ns st)")
  fix ns st x st' changed
  assume "x = propagate_pass ns st" "(st', changed) = x" "changed"
  then show "((ns, st'), ns, st) \<in> measure (\<lambda>(ns, st). pending ns st)"
    using propagate_pass_less [of ns ns st] by (metis case_prod_conv fst_conv in_measure order_refl snd_conv)
qed simp

declare propagate.simps [simp del]

definition ready_nodes :: "validated_plan \<Rightarrow> states \<Rightarrow> node list" where
  "ready_nodes vp st = sort_key (\<lambda>n. (rank_of (v_ranks vp) (n_id n), n_id n))
     (filter (\<lambda>n. status_of st (n_id n) = PENDING \<and> list_all (\<lambda>d. status_of st d = SUCCESS) (n_depends_on n)) (ordered_nodes vp))"

fun skip_pending :: "node list \<Rightarrow> states \<Rightarrow> states" where
  "skip_pending [] st = st"
| "skip_pending (n # ns) st = skip_pending ns (if status_of st (n_id n) = PENDING
     then put_state (n_id n) (set_status SKIPPED (Some (reason_value UPSTREAM_ABORT))) st else st)"

subsection \<open>The loop\<close>

text \<open>What running a node does to the statuses: its own leaves \<open>PENDING\<close>, no other changes.\<close>

lemma rs_states_upd [simp]: "rs_states (upd i f s) = put_state i f (rs_states s)"
  by (simp add: upd_def)

lemma rs_states_record [simp]: "rs_states (record_node i s) = rs_states s"
  by (simp add: record_node_def)

lemma rs_states_persist [simp]: "rs_states (fst (persist e s)) = rs_states s"
  by (simp add: persist_def Let_def split: prod.split)

lemma rs_states_dispatch [simp]: "rs_states (fst (dispatch e n a s)) = rs_states s"
  by (simp add: dispatch_def split: prod.split)

text \<open>A step that writes only the state of one node, with one of the given statuses.\<close>

definition touches_only :: "string \<Rightarrow> states \<Rightarrow> states \<Rightarrow> bool" where
  "touches_only i st st' \<longleftrightarrow> (\<forall>j. j \<noteq> i \<longrightarrow> map_of st' j = map_of st j)"

lemma touches_only_refl [simp]: "touches_only i st st"
  by (simp add: touches_only_def)

lemma touches_only_put [simp]: "touches_only i st (put_state i f st') \<longleftrightarrow> touches_only i st st'"
  by (auto simp: touches_only_def put_state_def update_conv')

lemma touches_only_status: "touches_only i st st' \<Longrightarrow> j \<noteq> i \<Longrightarrow> status_of st' j = status_of st j"
  by (simp add: touches_only_def status_of_def)

text \<open>What no part of \<open>execute\<close> but the call itself changes.\<close>

definition frame :: "'w run_state \<Rightarrow> 'w run_state \<Rightarrow> bool" where
  "frame s s' \<longleftrightarrow> rs_world s' = rs_world s \<and> aborted s' = aborted s \<and> external_calls s' = external_calls s \<and>
     dispatch_order s' = dispatch_order s \<and> dag_approval (rs_db s') = dag_approval (rs_db s) \<and>
     (rs_checkpoint s')\<lparr>node_states := []\<rparr> = (rs_checkpoint s)\<lparr>node_states := []\<rparr>"

lemma frame_refl [simp]: "frame s s"
  by (simp add: frame_def)

lemma frame_trans: "frame s t \<Longrightarrow> frame t u \<Longrightarrow> frame s u"
  by (simp add: frame_def)

lemma frame_upd [simp]: "frame s (upd i f t) \<longleftrightarrow> frame s t" "frame (upd i f s) t \<longleftrightarrow> frame s t"
  by (simp_all add: frame_def upd_def)

lemma frame_record [simp]: "frame s (record_node i t) \<longleftrightarrow> frame s t"
  by (simp add: frame_def record_node_def)

lemma frame_aborted: "frame s s' \<Longrightarrow> frame (s\<lparr>aborted := aborted s'\<rparr>) s' \<and> aborted s' = aborted s"
  by (simp add: frame_def)

lemma persistD:
  assumes "persist e s = (s', r)"
  shows "rs_states s' = rs_states s" "frame s s'"
proof -
  obtain db x where sv: "store_save (sha256 e) ((rs_checkpoint s)\<lparr>node_states := rs_states s\<rparr>)
      (fence_token (ck_lease ((rs_checkpoint s)\<lparr>node_states := rs_states s\<rparr>))) (rs_db s) = (db, x)"
    by (rule prod.exhaust)
  have "dag_approval db = dag_approval (rs_db s)"
    using arg_cong [OF sv, of "\<lambda>p. dag_approval (fst p)"] by simp
  with assms sv show "rs_states s' = rs_states s" "frame s s'"
    by (auto simp: persist_def Let_def frame_def)
qed

definition settled_status :: "node_status \<Rightarrow> bool" where
  "settled_status x \<longleftrightarrow> x \<in> {SUCCESS, FAILED, DENIED, SKIPPED, INDETERMINATE, DEAD_LETTER}"

lemma settled_simps [simp]:
  "settled_status SUCCESS" "settled_status FAILED" "settled_status DENIED" "settled_status SKIPPED"
  "settled_status INDETERMINATE" "settled_status DEAD_LETTER" "\<not> settled_status PENDING" "\<not> settled_status DISPATCHED"
  by (simp_all add: settled_status_def)

lemma catch_plan_errorD:
  "catch_plan_error err h s = (s', Inr p) \<Longrightarrow> p = Settled \<and> (\<exists>r. s' = h r)"
  by (auto simp: catch_plan_error_def split: plan_error.splits)

lemma write_aheadD:
  assumes "write_ahead e vp n a s = (s', Inr p)"
  obtains k dg where "p = Call a (Some k)"
    "node_idempotency_key (sha256 e) (v_digest vp) (n_id n)
       (case n_idempotency n of None \<Rightarrow> 0 | Some i \<Rightarrow> i_attempt_epoch i) a = Inr k"
    "operation_digest (sha256 e) (n_id n) a = Inr dg"
    "persist e (upd (n_id n) (\<lambda>x. x\<lparr>ns_status := DISPATCHED, ns_idempotency_key := Some k, ns_operation_digest := Some dg\<rparr>) s) = (s', Inr ())"
  using assms by (auto simp: write_ahead_def Let_def bind_s_Inr_iff bind_r_Inr_iff split: sum.splits)

lemma execute_tool_Settled:
  assumes "execute_tool e vp rp rr n a s = (s', Inr Settled)"
  shows "touches_only (n_id n) (rs_states s) (rs_states s') \<and> frame s s' \<and> settled_status (status_of (rs_states s') (n_id n))"
  using assms
  by (auto simp: execute_tool_def status_of_put elim: write_aheadD split: if_splits option.splits json.splits)

lemma execute_tool_Call:
  assumes "execute_tool e vp rp rr n a s = (s', Inr (Call b k))"
  shows "b = a \<and> \<not> rp \<and> external_calls s < max_external_calls (p_budget (v_plan vp)) \<and>
    (if n_id n \<in> set (v_mutating_nodes vp) then write_ahead e vp n a s = (s', Inr (Call b k)) else s' = s \<and> k = None)"
  using assms
  by (auto simp: execute_tool_def elim: write_aheadD split: if_splits option.splits json.splits)

text \<open>A node is settled before any call, or the call is authorised in every respect.\<close>

definition authorised :: "'w engine \<Rightarrow> validated_plan \<Rightarrow> bool \<Rightarrow> node \<Rightarrow> args \<Rightarrow> 'w run_state \<Rightarrow> bool" where
  "authorised e vp rp n a s \<longleftrightarrow> resolve_args (catalog e) n (rs_states s) = Inr a \<and> allowed (decide e vp n a) \<and> n_kind n = TOOL \<and> \<not> rp \<and>
     external_calls s < max_external_calls (p_budget (v_plan vp)) \<and>
     (n_id n \<in> set (v_mutating_nodes vp) \<and> approval_required (decide e vp n a) \<longrightarrow> assert_operation_covered e vp n a = Inr ())"

lemma execute_pre_Settled:
  assumes "execute_pre e vp rp rr n s = (s', Inr Settled)"
  shows "touches_only (n_id n) (rs_states s) (rs_states s') \<and> frame s s' \<and> settled_status (status_of (rs_states s') (n_id n))"
proof (cases "resolve_args (catalog e) n (rs_states s)")
  case (Inl err)
  with assms show ?thesis by (auto simp: execute_pre_def dest!: catch_plan_errorD)
next
  case (Inr a)
  let ?cover = "if n_id n \<in> set (v_mutating_nodes vp) \<and> approval_required (decide e vp n a) then assert_operation_covered e vp n a else Inr ()"
  show ?thesis
  proof (cases "allowed (decide e vp n a)")
    case False
    with assms Inr show ?thesis by (auto simp: execute_pre_def Let_def)
  next
    case ok: True
    show ?thesis
    proof (cases ?cover)
      case (Inl err)
      with assms Inr ok show ?thesis by (auto simp: execute_pre_def Let_def dest!: catch_plan_errorD)
    next
      case cover: (Inr u)
      show ?thesis
      proof (cases "n_kind n")
        case TOOL
        with assms Inr ok cover execute_tool_Settled show ?thesis by (fastforce simp: execute_pre_def Let_def)
      next
        case TRANSFORM
        with assms Inr ok cover show ?thesis
          by (auto simp: execute_pre_def Let_def status_of_put split: sum.splits dest!: catch_plan_errorD)
      qed
    qed
  qed
qed

lemma execute_tool_not_indeterminate:
  assumes "execute_tool e vp rp rr n a s = (s', Inr Settled)"
  shows "status_of (rs_states s') (n_id n) \<noteq> INDETERMINATE"
  using assms
  by (auto simp: execute_tool_def status_of_put elim: write_aheadD split: if_splits option.splits json.splits)

lemma execute_pre_not_indeterminate:
  assumes "execute_pre e vp rp rr n s = (s', Inr Settled)"
  shows "status_of (rs_states s') (n_id n) \<noteq> INDETERMINATE"
  using assms execute_tool_not_indeterminate
  by (fastforce simp: execute_pre_def Let_def status_of_put split: sum.splits if_splits node_kind.splits dest!: catch_plan_errorD)

lemma execute_pre_Call:
  assumes "execute_pre e vp rp rr n s = (s', Inr (Call a k))"
  shows "authorised e vp rp n a s \<and>
    (if n_id n \<in> set (v_mutating_nodes vp) then write_ahead e vp n a s = (s', Inr (Call a k)) else s' = s \<and> k = None)"
proof -
  from assms obtain b where b: "resolve_args (catalog e) n (rs_states s) = Inr b"
    by (cases "resolve_args (catalog e) n (rs_states s)") (auto simp: execute_pre_def dest!: catch_plan_errorD)
  with assms have ok: "allowed (decide e vp n b)"
    by (cases "allowed (decide e vp n b)") (auto simp: execute_pre_def Let_def)
  let ?cover = "if n_id n \<in> set (v_mutating_nodes vp) \<and> approval_required (decide e vp n b) then assert_operation_covered e vp n b else Inr ()"
  from assms b ok have cover: "?cover = Inr ()"
    by (cases ?cover) (auto simp: execute_pre_def Let_def dest!: catch_plan_errorD)
  from assms b ok cover have tool: "n_kind n = TOOL"
    by (cases "n_kind n") (auto simp: execute_pre_def Let_def split: sum.splits dest!: catch_plan_errorD)
  with assms b ok cover have "execute_tool e vp rp rr n b s = (s', Inr (Call a k))"
    by (simp add: execute_pre_def Let_def)
  from execute_tool_Call [OF this] b ok tool cover show ?thesis
    by (auto simp: authorised_def split: if_splits)
qed

lemma execute_postD:
  assumes "execute_post e vp n key out s = (s', Inr ())"
  shows "touches_only (n_id n) (rs_states s) (rs_states s') \<and> settled_status (status_of (rs_states s') (n_id n)) \<and>
    frame (s\<lparr>aborted := aborted s'\<rparr>) s' \<and> (aborted s' \<longrightarrow> aborted s \<or> stops_plan vp n)"
proof (cases out)
  case (Exec_indeterminate d)
  let ?u = "upd (n_id n) (\<lambda>x. x\<lparr>ns_status := INDETERMINATE, ns_idempotency_key := key,
      ns_reason_code := Some (non_empty d ''INDETERMINATE'')\<rparr>) s"
  from assms Exec_indeterminate obtain t where t: "persist e ?u = (t, Inr ())"
    and r: "(if n_on_failure n = ON_FAILURE_DEAD_LETTER then persist e (upd (n_id n) (\<lambda>x. x\<lparr>ns_status := DEAD_LETTER\<rparr>) t)
      else (t, Inr ())) = (s', Inr ())"
    by (auto simp: execute_post_def bind_s_Inr_iff)
  note p = persistD [OF t]
  show ?thesis
  proof (cases "n_on_failure n = ON_FAILURE_DEAD_LETTER")
    case True
    with r have "persist e (upd (n_id n) (\<lambda>x. x\<lparr>ns_status := DEAD_LETTER\<rparr>) t) = (s', Inr ())" by simp
    note q = persistD [OF this]
    have "frame s s'" using p(2) q(2) frame_trans by simp blast
    with p(1) q(1) show ?thesis by (simp add: status_of_put frame_aborted)
  next
    case False
    with r p show ?thesis by (simp add: status_of_put frame_aborted)
  qed
qed (use assms in \<open>auto simp: execute_post_def Let_def frame_def upd_def record_node_def status_of_put\<close>)

lemma execute_ok:
  assumes "execute e vp rp rr n s = (s', Inr ())"
  shows "touches_only (n_id n) (rs_states s) (rs_states s') \<and> settled_status (status_of (rs_states s') (n_id n)) \<and>
    ((frame s s' \<and> status_of (rs_states s') (n_id n) \<notin> {INDETERMINATE}) \<or>
     (\<exists>a. authorised e vp rp n a s \<and> external_calls s' = external_calls s + 1 \<and>
        dispatch_order s' = dispatch_order s @ [n_id n] \<and> dag_approval (rs_db s') = dag_approval (rs_db s) \<and>
        (rs_checkpoint s')\<lparr>node_states := []\<rparr> = (rs_checkpoint s)\<lparr>node_states := []\<rparr> \<and>
        (aborted s' \<longrightarrow> aborted s \<or> stops_plan vp n)))"
proof -
  from assms obtain t p where t: "execute_pre e vp rp rr n s = (t, Inr p)"
    and p: "(case p of Settled \<Rightarrow> (t, Inr ())
       | Call a k \<Rightarrow> (case dispatch e n a t of (u, out) \<Rightarrow> execute_post e vp n k out u)) = (s', Inr ())"
    by (auto simp: execute_def bind_s_Inr_iff)
  show ?thesis
  proof (cases p)
    case Settled
    from execute_pre_Settled [OF t [unfolded Settled]] execute_pre_not_indeterminate [OF t [unfolded Settled]] p Settled
    show ?thesis by auto
  next
    case (Call a k)
    note pre = execute_pre_Call [OF t [unfolded Call]]
    obtain u out where u: "dispatch e n a t = (u, out)" by (rule prod.exhaust)
    with p Call have post: "execute_post e vp n k out u = (s', Inr ())" by simp
    have ft: "frame s t \<and> touches_only (n_id n) (rs_states s) (rs_states t)"
    proof (cases "n_id n \<in> set (v_mutating_nodes vp)")
      case True
      with pre have "write_ahead e vp n a s = (t, Inr (Call a k))" by simp
      then show ?thesis
      proof (rule write_aheadD)
        fix k' dg
        assume "persist e (upd (n_id n) (\<lambda>x. x\<lparr>ns_status := DISPATCHED, ns_idempotency_key := Some k',
          ns_operation_digest := Some dg\<rparr>) s) = (t, Inr ())"
        from persistD [OF this] show ?thesis by simp
      qed
    next
      case False
      with pre show ?thesis by simp
    qed
    have du: "rs_states u = rs_states t" "external_calls u = external_calls t + 1" "dispatch_order u = dispatch_order t @ [n_id n]"
      "rs_db u = rs_db t" "rs_checkpoint u = rs_checkpoint t" "aborted u = aborted t"
      using u by (auto simp: dispatch_def split: prod.splits)
    from execute_postD [OF post] ft du pre show ?thesis
      by (auto simp: frame_def touches_only_def)
  qed
qed

lemma for_each_execute:
  assumes "for_each (execute e vp rp rr) ns s = (s', Inr ())"
  shows "(\<forall>n \<in> set ns. settled_status (status_of (rs_states s') (n_id n))) \<and>
    (\<forall>i. i \<notin> n_id ` set ns \<longrightarrow> map_of (rs_states s') i = map_of (rs_states s) i)"
  using assms
proof (induction ns arbitrary: s)
  case (Cons n ns)
  then obtain t where t: "execute e vp rp rr n s = (t, Inr ())" "for_each (execute e vp rp rr) ns t = (s', Inr ())"
    by (auto simp: bind_s_Inr_iff)
  note h = execute_ok [OF t(1)] and ih = Cons.IH [OF t(2)]
  have "settled_status (status_of (rs_states s') (n_id n))"
  proof (cases "n_id n \<in> n_id ` set ns")
    case True
    with ih show ?thesis by auto
  next
    case False
    with ih h show ?thesis by (simp add: status_of_def)
  qed
  with h ih show ?case by (auto simp: touches_only_def)
qed simp

lemma propagate_status: "status_of (propagate ns st) i = PENDING \<Longrightarrow> status_of st i = PENDING"
proof (induction ns st rule: propagate.induct)
  case (1 ns st)
  then show ?case
    using propagate_pass_status [of ns st i]
    by (subst (asm) (2) propagate.simps) (auto simp: Let_def split: prod.splits if_splits)
qed

lemma ready_nodesD:
  "n \<in> set (ready_nodes vp st) \<Longrightarrow>
   n \<in> set (ordered_nodes vp) \<and> status_of st (n_id n) = PENDING \<and> (\<forall>d \<in> set (n_depends_on n). status_of st d = SUCCESS)"
  by (simp add: ready_nodes_def list_all_iff)

definition fail_fast :: "validated_plan \<Rightarrow> bool" where
  "fail_fast vp \<longleftrightarrow> p_failure_policy (v_plan vp) = FAIL_FAST"

definition next_batch :: "validated_plan \<Rightarrow> 'w run_state \<Rightarrow> node list" where
  "next_batch vp s = (if aborted s \<and> fail_fast vp then [] else ready_nodes vp (rs_states s))"

definition propagated :: "validated_plan \<Rightarrow> 'w run_state \<Rightarrow> 'w run_state" where
  "propagated vp s = s\<lparr>rs_states := propagate (ordered_nodes vp) (rs_states s)\<rparr>"

lemma propagated_simps [simp]:
  "rs_states (propagated vp s) = propagate (ordered_nodes vp) (rs_states s)" "aborted (propagated vp s) = aborted s"
  "external_calls (propagated vp s) = external_calls s" "dispatch_order (propagated vp s) = dispatch_order s"
  "rs_db (propagated vp s) = rs_db s" "rs_world (propagated vp s) = rs_world s" "rs_checkpoint (propagated vp s) = rs_checkpoint s"
  by (simp_all add: propagated_def)

lemma batch_decreases:
  assumes "for_each (execute e vp rp rr) (next_batch vp (propagated vp s)) (propagated vp s) = (t, Inr ())"
    "next_batch vp (propagated vp s) \<noteq> []" "persist e t = (u, Inr ())"
  shows "pending (ordered_nodes vp) (rs_states u) < pending (ordered_nodes vp) (rs_states s)"
proof -
  obtain m where m: "m \<in> set (next_batch vp (propagated vp s))" using assms(2) by (meson list.set_sel(1))
  note b = for_each_execute [OF assms(1)] and p = persistD(1) [OF assms(3)]
  have r: "m \<in> set (ordered_nodes vp)" "status_of (rs_states (propagated vp s)) (n_id m) = PENDING"
    using m ready_nodesD by (auto simp: next_batch_def split: if_splits)
  show ?thesis
  proof (rule pending_less [of _ _ _ m])
    fix n assume "status_of (rs_states u) (n_id n) = PENDING"
    with b p have "status_of (rs_states (propagated vp s)) (n_id n) = PENDING"
      by (metis imageE settled_simps(7) status_of_def)
    then show "status_of (rs_states s) (n_id n) = PENDING" using propagate_status by simp
  next
    show "m \<in> set (ordered_nodes vp)" by (rule r)
    show "status_of (rs_states s) (n_id m) = PENDING" using r(2) propagate_status by simp
    show "status_of (rs_states u) (n_id m) \<noteq> PENDING" using b p m by (metis settled_simps(7))
  qed
qed

function run_loop ::
  "'w engine \<Rightarrow> validated_plan \<Rightarrow> bool \<Rightarrow> (string \<times> json) list option \<Rightarrow> 'w run_state \<Rightarrow> 'w run_state \<times> (plan_error, unit) result" where
  "run_loop e vp rp rr s =
     (let s1 = propagated vp s; batch = next_batch vp s1 in
      if batch = [] then (s1, Inr ())
      else bind_s (for_each (execute e vp rp rr) batch s1) (\<lambda>s2 _.
           bind_s (persist e s2) (\<lambda>s3 _.
           if aborted s3 \<and> fail_fast vp
           then persist e (s3\<lparr>rs_states := skip_pending (ordered_nodes vp) (rs_states s3)\<rparr>)
           else run_loop e vp rp rr s3)))"
  by pat_completeness auto
termination
proof (relation "measure (\<lambda>(e, vp, rp, rr, s). pending (ordered_nodes vp) (rs_states s))")
  fix e :: "'w engine" and vp rp rr and s s1 t u :: "'w run_state" and batch a b
  assume "s1 = propagated vp s" "batch = next_batch vp s1" "batch \<noteq> []"
    "for_each (execute e vp rp rr) batch s1 = (t, Inr a)" "persist e t = (u, Inr b)" "\<not> (aborted u \<and> fail_fast vp)"
  then show "((e, vp, rp, rr, u), e, vp, rp, rr, s) \<in> measure (\<lambda>(e, vp, rp, rr, s). pending (ordered_nodes vp) (rs_states s))"
    using batch_decreases [of e vp rp rr s t u] by simp
qed simp

declare run_loop.simps [simp del]

subsection \<open>Compensation and the report\<close>

definition comp_candidates :: "validated_plan \<Rightarrow> states \<Rightarrow> node list" where
  "comp_candidates vp st = filter (\<lambda>n. status_of st (n_id n) = SUCCESS \<and>
      (case map_of st (n_id n) of None \<Rightarrow> False | Some x \<Rightarrow> \<not> opt_empty (ns_effect_ref x)) \<and> n_compensation n \<noteq> None)
    (rev (ordered_nodes vp))"

type_synonym comp_log = "(string \<times> string \<times> string) list"

definition comp_finish ::
  "'w engine \<Rightarrow> string \<Rightarrow> string \<Rightarrow> (node_state \<Rightarrow> node_state) \<Rightarrow> string \<Rightarrow> 'w run_state \<times> comp_log
    \<Rightarrow> ('w run_state \<times> comp_log) \<times> (plan_error, unit) result" where
  "comp_finish e i ref f outcome sl =
     (case persist e (upd i f (fst sl)) of (s', r) \<Rightarrow> ((s', snd sl @ [(i, ref, outcome)]), r))"

definition compensate_node ::
  "'w engine \<Rightarrow> validated_plan \<Rightarrow> node \<Rightarrow> 'w run_state \<times> comp_log \<Rightarrow> ('w run_state \<times> comp_log) \<times> (plan_error, unit) result" where
  "compensate_node e vp n sl =
     (let s = fst sl; i = n_id n;
          ref = (case map_of (rs_states s) i of None \<Rightarrow> [] | Some x \<Rightarrow> opt_str (ns_effect_ref x)) in
      case compensation_key (sha256 e) (v_digest vp) i ref of
        Inl err \<Rightarrow> (sl, Inl err)
      | Inr key \<Rightarrow>
          (case persist e (upd i (\<lambda>x. x\<lparr>ns_status := COMPENSATION_PENDING, ns_idempotency_key := Some key\<rparr>) s) of
             (s1, Inl err) \<Rightarrow> ((s1, snd sl), Inl err)
           | (s1, Inr _) \<Rightarrow>
               (case compensator e of
                  None \<Rightarrow> comp_finish e i ref (set_status COMPENSATION_UNSAFE (Some (reason_value COMPENSATION_UNSAFE_REASON))) ''UNSAFE'' (s1, snd sl)
                | Some cmp \<Rightarrow>
                    if \<not> allowed (decide e vp n (n_args n))
                    then comp_finish e i ref (set_status COMPENSATION_UNSAFE (Some (reason_value POLICY_DENIED))) ''DENIED'' (s1, snd sl)
                    else (case cmp n ref (rs_world s1) of (out, w) \<Rightarrow>
                      let s2 = s1\<lparr>rs_world := w\<rparr> in
                      (case out of
                         Comp_indeterminate \<Rightarrow> comp_finish e i ref (\<lambda>x. x\<lparr>ns_status := COMPENSATION_INDETERMINATE\<rparr>) ''INDETERMINATE'' (s2, snd sl)
                       | Comp_raises \<Rightarrow> comp_finish e i ref (\<lambda>x. x\<lparr>ns_status := COMPENSATION_FAILED\<rparr>) ''FAILED'' (s2, snd sl)
                       | Comp_verified \<Rightarrow> comp_finish e i ref (\<lambda>x. x\<lparr>ns_status := COMPENSATED\<rparr>) ''COMPENSATED'' (s2, snd sl)
                       | Comp_unverified \<Rightarrow> comp_finish e i ref
                           (set_status COMPENSATION_UNSAFE (Some (reason_value COMPENSATION_UNSAFE_REASON))) ''UNSAFE'' (s2, snd sl))))))"

definition compensate ::
  "'w engine \<Rightarrow> validated_plan \<Rightarrow> 'w run_state \<Rightarrow> ('w run_state \<times> comp_log) \<times> (plan_error, unit) result" where
  "compensate e vp s =
     (let cs = comp_candidates vp (rs_states s) in
      if cs = [] \<or> plan_status_from (rs_states s) False = PLAN_COMPLETED then ((s, []), Inr ())
      else for_each (compensate_node e vp) cs (s, []))"

definition make_report :: "validated_plan \<Rightarrow> bool \<Rightarrow> comp_log \<Rightarrow> plan_status \<Rightarrow> 'w run_state \<Rightarrow> execution_report" where
  "make_report vp replaying cmp st s =
     (let sorted = sort_key fst (rs_states s) in
      \<lparr>rep_status = st, rep_plan_digest = v_digest vp, rep_execution_id = execution_id (rs_checkpoint s),
       rep_node_statuses = map (\<lambda>(i, n). (i, ns_status n)) sorted,
       rep_node_reasons = map (\<lambda>(i, n). (i, ns_reason_code n)) sorted,
       committed_effects = map (\<lambda>(i, n). (i, opt_str (ns_effect_ref n)))
         (filter (\<lambda>(i, n). ns_status n = SUCCESS \<and> \<not> opt_empty (ns_effect_ref n)) sorted),
       compensated_effects = cmp,
       unknown_effects = map (\<lambda>(i, n). (i, case ns_idempotency_key n of None \<Rightarrow> [] | Some k \<Rightarrow> k,
           case plan_node (v_plan vp) i of None \<Rightarrow> [] | Some m \<Rightarrow> (case n_tool m of None \<Rightarrow> [] | Some t \<Rightarrow> t)))
         (filter (\<lambda>(i, n). ns_status n \<in> {INDETERMINATE, DEAD_LETTER}) sorted),
       rep_external_calls = external_calls s, rep_replay = replaying, rep_dispatch_order = dispatch_order s\<rparr>)"

definition initial_states :: "validated_plan \<Rightarrow> checkpoint \<Rightarrow> states" where
  "initial_states vp c = foldl (\<lambda>st n. if map_of st (n_id n) = None then st @ [(n_id n, node_state_new (n_id n))] else st)
     (node_states c) (p_nodes (v_plan vp))"

definition final_status :: "'w run_state \<Rightarrow> plan_status" where
  "final_status s = plan_status_from (rs_states s) (aborted s \<and> \<not> list_ex (\<lambda>(i, n). ns_status n = SUCCESS) (rs_states s))"

text \<open>The end of \<open>run\<close>: the status is filed with the last save and the report is built.\<close>

definition finish_run ::
  "'w engine \<Rightarrow> validated_plan \<Rightarrow> bool \<Rightarrow> comp_log \<Rightarrow> 'w run_state \<Rightarrow> 'w run_state \<times> (plan_error, execution_report) result" where
  "finish_run e vp replaying cmp s =
     (let c = (rs_checkpoint s)\<lparr>node_states := rs_states s, ck_status := Some (final_status s)\<rparr> in
      case store_save (sha256 e) c (fence_token (ck_lease c)) (rs_db s) of
        (db, Inl err) \<Rightarrow> (s\<lparr>rs_checkpoint := c, rs_db := db\<rparr>, Inl err)
      | (db, Inr _) \<Rightarrow>
          (s\<lparr>rs_checkpoint := c, rs_db := db\<rparr>,
           report_new (make_report vp replaying cmp (final_status s) (s\<lparr>rs_checkpoint := c, rs_db := db\<rparr>))))"

definition run_start :: "validated_plan \<Rightarrow> checkpoint \<Rightarrow> dag_db \<Rightarrow> 'w \<Rightarrow> 'w run_state" where
  "run_start vp c db w = \<lparr>rs_states = initial_states vp c, rs_checkpoint = c, rs_db = db, rs_world = w, aborted = False,
     external_calls = 0, dispatch_order = [], governed = []\<rparr>"

definition run ::
  "'w engine \<Rightarrow> validated_plan \<Rightarrow> checkpoint \<Rightarrow> (string \<times> json) list option \<Rightarrow> dag_db \<Rightarrow> 'w
    \<Rightarrow> 'w run_state \<times> (plan_error, execution_report) result" where
  "run e vp c rr db w =
     (let s = run_start vp c db w; replaying = (rr \<noteq> None \<or> replay c) in
      if \<not> enabled e then (s, Inl DagDisabledError)
      else if ck_plan_digest c \<noteq> v_digest vp then (s, Inl (PlanValidationError PLAN_DIGEST_MISMATCH ''checkpoint''))
      else bind_s (persist e s) (\<lambda>s _.
           bind_s (run_loop e vp replaying rr s) (\<lambda>s _.
           bind_s (persist e (propagated vp s)) (\<lambda>s _.
           if replaying \<or> p_rollback_policy (v_plan vp) = ROLLBACK_NONE then finish_run e vp replaying [] s
           else (case compensate e vp s of
                   ((s, cmp), Inl err) \<Rightarrow> (s, Inl err)
                 | ((s, cmp), Inr _) \<Rightarrow> finish_run e vp replaying cmp s)))))"

subsection \<open>Dry run and resume\<close>

record dry_run_node =
  dry_node_id :: string
  dry_kind :: node_kind
  dry_target :: string
  dry_wave :: int
  dry_allow :: bool
  dry_reason :: "string option"
  dry_approval_required :: bool
  dry_mutating :: bool
  dry_resource_key :: "string option"

definition dry_run :: "'w engine \<Rightarrow> validated_plan \<Rightarrow> (plan_error, dry_run_node list) result" where
  "dry_run e vp =
     (if \<not> enabled e then Inl DagDisabledError
      else Inr (map (\<lambda>n. let d = decide e vp n (n_args n) in
        \<lparr>dry_node_id = n_id n, dry_kind = n_kind n,
         dry_target = (case n_tool n of Some t \<Rightarrow> t | None \<Rightarrow> (case n_op n of Some op \<Rightarrow> op | None \<Rightarrow> [])),
         dry_wave = rank_of (v_ranks vp) (n_id n), dry_allow = allowed d,
         dry_reason = (if allowed d then None else Some (denial d)), dry_approval_required = approval_required d,
         dry_mutating = (n_id n \<in> set (v_mutating_nodes vp)),
         dry_resource_key = (case map_of (v_resource_keys vp) (n_id n) of None \<Rightarrow> None | Some r \<Rightarrow> r)\<rparr>) (ordered_nodes vp)))"

definition recon_put :: "recon_outcome \<Rightarrow> node_state \<Rightarrow> node_state" where
  "recon_put out n =
     (case out of Recon_unknown \<Rightarrow> n\<lparr>ns_status := INDETERMINATE\<rparr>
      | Recon_absent \<Rightarrow> n\<lparr>ns_status := PENDING\<rparr>
      | Recon_effect r \<Rightarrow> n\<lparr>ns_status := SUCCESS, ns_effect_ref := Some r\<rparr>)"

definition reconcile_one ::
  "'w engine \<Rightarrow> validated_plan \<Rightarrow> string \<times> node_state \<Rightarrow> states \<times> 'w \<Rightarrow> (states \<times> 'w) \<times> (plan_error, unit) result" where
  "reconcile_one e vp entry sw = (case entry of (i, n) \<Rightarrow>
     if ns_status n \<notin> {DISPATCHED, INDETERMINATE} then (sw, Inr ())
     else (case plan_node (v_plan vp) i of
             None \<Rightarrow> (sw, Inl (PlanValidationError PLAN_UNKNOWN_DEPENDENCY i))
           | Some nd \<Rightarrow>
               (case reconciler e of
                  None \<Rightarrow> ((put_state i (recon_put Recon_unknown) (fst sw), snd sw), Inr ())
                | Some rc \<Rightarrow>
                    (case rc nd (case ns_idempotency_key n of None \<Rightarrow> [] | Some k \<Rightarrow> k) (snd sw) of
                       (out, w) \<Rightarrow> ((put_state i (recon_put out) (fst sw), w), Inr ())))))"

definition retryable_skips :: "string list" where
  "retryable_skips = map reason_value [UPSTREAM_INDETERMINATE, UPSTREAM_FAILED, UPSTREAM_ABORT, BUDGET_EXHAUSTED]"

definition reopen_skipped :: "states \<Rightarrow> states" where
  "reopen_skipped st = map (\<lambda>(i, n).
     (i, if ns_status n = SKIPPED \<and> (case ns_reason_code n of None \<Rightarrow> False | Some r \<Rightarrow> r \<in> set retryable_skips)
         then set_status PENDING None n else n)) st"

definition drift_one :: "'w engine \<Rightarrow> validated_plan \<Rightarrow> string \<times> node_state \<Rightarrow> states \<Rightarrow> states \<times> (plan_error, unit) result" where
  "drift_one e vp entry st = (case entry of (i, n) \<Rightarrow>
     if ns_status n \<noteq> PENDING then (st, Inr ())
     else (case plan_node (v_plan vp) i of
             None \<Rightarrow> (st, Inl (PlanValidationError PLAN_UNKNOWN_DEPENDENCY i))
           | Some nd \<Rightarrow>
               let d = decide e vp nd (n_args nd) in
               if allowed d then (st, Inr ()) else (put_state i (set_status DENIED (Some (denial d))) st, Inr ())))"

definition resume ::
  "'w engine \<Rightarrow> validated_plan \<Rightarrow> string \<Rightarrow> string \<Rightarrow> string \<Rightarrow> int \<Rightarrow> dag_db \<Rightarrow> 'w
    \<Rightarrow> (dag_db \<times> 'w) \<times> (plan_error, execution_report) result" where
  "resume e vp ex projection policy expires db w =
     (case store_load (sha256 e) ex db of
        Inl err \<Rightarrow> ((db, w), Inl err)
      | Inr c0 \<Rightarrow>
          if ck_plan_digest c0 \<noteq> v_digest vp then ((db, w), Inl (PlanValidationError PLAN_DIGEST_MISMATCH ''resume''))
          else (case store_acquire_lease (sha256 e) ex (engine_owner e) expires db of
             (db1, Inl err) \<Rightarrow> ((db1, w), Inl err)
           | (db1, Inr l) \<Rightarrow>
               (case store_load (sha256 e) ex db1 of
                  Inl err \<Rightarrow> ((db1, w), Inl err)
                | Inr c1 \<Rightarrow>
                    let c = c1\<lparr>ck_lease := l\<rparr> in
                    (case for_each (reconcile_one e vp) (sort_key fst (node_states c)) (node_states c, w) of
                       ((st1, w1), Inl err) \<Rightarrow> ((db1, w1), Inl err)
                     | ((st1, w1), Inr _) \<Rightarrow>
                         let st2 = reopen_skipped st1 in
                         (case for_each (drift_one e vp) (sort_key fst st2) st2 of
                            (st3, Inl err) \<Rightarrow> ((db1, w1), Inl err)
                          | (st3, Inr _) \<Rightarrow>
                              let c' = c\<lparr>node_states := st3, projection_digest := projection, policy_digest := policy\<rparr> in
                              (case store_save (sha256 e) c' (fence_token l) db1 of
                                 (db2, Inl err) \<Rightarrow> ((db2, w1), Inl err)
                               | (db2, Inr _) \<Rightarrow>
                                   (case run e vp c' None db2 w1 of (s, r) \<Rightarrow> ((rs_db s, rs_world s), r))))))))"

end
