(* ===== verification/Dag_Run.thy ===== *)
theory Dag_Run
  imports Dag_Engine
begin

section \<open>What a run guarantees\<close>

text \<open>
  Properties of the engine's run loop: bounded and unique dispatch, write-ahead durability,
  replay without effects, complete settlement of the plan and honest reports.
\<close>

subsection \<open>Steps, with or without an exception\<close>

text \<open>Calls made and world reached; what only \<open>dispatch\<close> changes.\<close>

definition quiet :: "'w run_state \<Rightarrow> 'w run_state \<Rightarrow> bool" where
  "quiet s s' \<longleftrightarrow> rs_world s' = rs_world s \<and> external_calls s' = external_calls s \<and> dispatch_order s' = dispatch_order s \<and>
     dag_approval (rs_db s') = dag_approval (rs_db s)"

lemma quiet_refl [simp]: "quiet s s"
  by (simp add: quiet_def)

lemma quiet_trans: "quiet s t \<Longrightarrow> quiet t u \<Longrightarrow> quiet s u"
  by (simp add: quiet_def)

lemma quiet_frame: "frame s t \<Longrightarrow> quiet s t"
  by (simp add: frame_def quiet_def)

lemma quiet_upd [simp]: "quiet s (upd i f t) \<longleftrightarrow> quiet s t" "quiet (upd i f s) t \<longleftrightarrow> quiet s t"
  by (simp_all add: quiet_def upd_def)

lemma quiet_record [simp]: "quiet s (record_node i t) \<longleftrightarrow> quiet s t"
  by (simp add: quiet_def record_node_def)

lemma quiet_aborted [simp]: "quiet s (t\<lparr>aborted := b\<rparr>) \<longleftrightarrow> quiet s t" "quiet s (t\<lparr>rs_states := st\<rparr>) \<longleftrightarrow> quiet s t"
  by (simp_all add: quiet_def)

lemma quiet_propagated [simp]: "quiet s (propagated vp t) \<longleftrightarrow> quiet s t"
  by (simp add: quiet_def)

lemma quiet_persist: "quiet s (fst (persist e s))"
  using persistD(2) [of e s "fst (persist e s)" "snd (persist e s)"] by (simp add: quiet_frame)

lemma quiet_bind_s:
  assumes "quiet s (fst x)" "\<And>t a. x = (t, Inr a) \<Longrightarrow> quiet t (fst (f t a))"
  shows "quiet s (fst (bind_s x f))"
proof (cases x)
  case (Pair t r)
  with assms show ?thesis by (cases r) (auto intro: quiet_trans)
qed

lemma quiet_write_ahead: "quiet s (fst (write_ahead e vp n a s))"
proof -
  have q: "quiet s (fst (bind_s (persist e (upd (n_id n) f s)) (\<lambda>s _. (s, Inr p))))" for f and p :: prep
    using quiet_persist [of "upd (n_id n) f s" e] by (intro quiet_bind_s) simp_all
  show ?thesis by (auto simp: write_ahead_def Let_def intro!: q split: sum.split prod.split)
qed

lemma quiet_execute_pre: "quiet s (fst (execute_pre e vp rp rr n s))"
proof -
  have t: "quiet s (fst (execute_tool e vp rp rr n a s))" for a
    by (simp add: execute_tool_def quiet_write_ahead split: option.split json.split)
  show ?thesis
    by (simp add: execute_pre_def Let_def catch_plan_error_def t split: sum.split plan_error.split node_kind.split)
qed

lemma quiet_execute_post: "quiet s (fst (execute_post e vp n k out s))"
proof (cases out)
  case (Exec_indeterminate d)
  let ?f = "\<lambda>x. x\<lparr>ns_status := INDETERMINATE, ns_idempotency_key := k, ns_reason_code := Some (non_empty d ''INDETERMINATE'')\<rparr>"
  have "quiet s (fst (bind_s (persist e (upd (n_id n) ?f s)) (\<lambda>s _. if n_on_failure n = ON_FAILURE_DEAD_LETTER
      then persist e (upd (n_id n) (\<lambda>x. x\<lparr>ns_status := DEAD_LETTER\<rparr>) s) else (s, Inr ()))))"
  proof (rule quiet_bind_s)
    show "quiet s (fst (persist e (upd (n_id n) ?f s)))" using quiet_persist [of "upd (n_id n) ?f s" e] by simp
    fix t a
    show "quiet t (fst (if n_on_failure n = ON_FAILURE_DEAD_LETTER
      then persist e (upd (n_id n) (\<lambda>x. x\<lparr>ns_status := DEAD_LETTER\<rparr>) t) else (t, Inr ())))"
      using quiet_persist [of "upd (n_id n) (\<lambda>x. x\<lparr>ns_status := DEAD_LETTER\<rparr>) t" e] by simp
  qed
  with Exec_indeterminate show ?thesis by (simp add: execute_post_def)
qed (simp_all add: execute_post_def Let_def)

text \<open>One node: nothing is called, or exactly one authorised call is made.\<close>

lemma execute_any:
  "quiet s (fst (execute e vp rp rr n s)) \<or>
   (\<exists>a. authorised e vp rp n a s \<and> external_calls (fst (execute e vp rp rr n s)) = external_calls s + 1 \<and>
      dispatch_order (fst (execute e vp rp rr n s)) = dispatch_order s @ [n_id n] \<and>
      dag_approval (rs_db (fst (execute e vp rp rr n s))) = dag_approval (rs_db s))"
proof -
  obtain t r where t: "execute_pre e vp rp rr n s = (t, r)" by (rule prod.exhaust)
  have q: "quiet s t" using quiet_execute_pre [of s e vp rp rr n] t by simp
  show ?thesis
  proof (cases r)
    case (Inl err)
    with t q show ?thesis by (simp add: execute_def)
  next
    case (Inr p)
    show ?thesis
    proof (cases p)
      case Settled
      with t q Inr show ?thesis by (simp add: execute_def)
    next
      case (Call a k)
      obtain u out where u: "dispatch e n a t = (u, out)" by (rule prod.exhaust)
      have "external_calls u = external_calls t + 1" "dispatch_order u = dispatch_order t @ [n_id n]" "rs_db u = rs_db t"
        using u by (auto simp: dispatch_def split: prod.splits)
      moreover have "quiet u (fst (execute e vp rp rr n s))"
        using t Inr Call u by (simp add: execute_def quiet_execute_post)
      moreover have "authorised e vp rp n a s" using execute_pre_Call t Inr Call by blast
      ultimately show ?thesis using q by (auto simp: quiet_def)
    qed
  qed
qed

text \<open>
  A stretch of a run that calls the nodes \<open>ks\<close>: each was pending, none is called twice, and the
  call budget is kept. A replay calls nothing.
\<close>

definition calls :: "validated_plan \<Rightarrow> bool \<Rightarrow> string list \<Rightarrow> 'w run_state \<Rightarrow> 'w run_state \<Rightarrow> bool" where
  "calls vp rp ks s s' \<longleftrightarrow> dispatch_order s' = dispatch_order s @ ks \<and> external_calls s' = external_calls s + int (length ks) \<and>
     external_calls s' \<le> max_external_calls (p_budget (v_plan vp)) \<and> distinct ks \<and>
     (\<forall>i \<in> set ks. status_of (rs_states s) i = PENDING) \<and> dag_approval (rs_db s') = dag_approval (rs_db s) \<and> (rp \<longrightarrow> quiet s s')"

lemma calls_quiet:
  "quiet s s' \<Longrightarrow> external_calls s \<le> max_external_calls (p_budget (v_plan vp)) \<Longrightarrow> calls vp rp [] s s'"
  by (simp add: calls_def quiet_def)

lemma calls_trans:
  assumes "calls vp rp ks s t" "calls vp rp js t u"
    and "\<And>i. status_of (rs_states t) i = PENDING \<Longrightarrow> status_of (rs_states s) i = PENDING \<and> i \<notin> set ks"
  shows "calls vp rp (ks @ js) s u"
  using assms by (auto simp: calls_def intro: quiet_trans)

lemma calls_quiet_left: "quiet s t \<Longrightarrow> rs_states t = rs_states s \<Longrightarrow> calls vp rp ks t u \<Longrightarrow> calls vp rp ks s u"
  by (auto simp: calls_def quiet_def)

lemma calls_quiet_right: "calls vp rp ks s t \<Longrightarrow> quiet t u \<Longrightarrow> calls vp rp ks s u"
  by (auto simp: calls_def quiet_def)

lemma execute_calls:
  assumes "external_calls s \<le> max_external_calls (p_budget (v_plan vp))" "status_of (rs_states s) (n_id n) = PENDING"
  shows "\<exists>ks. set ks \<subseteq> {n_id n} \<and> calls vp rp ks s (fst (execute e vp rp rr n s))"
proof (cases "quiet s (fst (execute e vp rp rr n s))")
  case True
  then show ?thesis using calls_quiet [OF _ assms(1)] by (intro exI [of _ "[]"]) simp
next
  case False
  with execute_any [of s e vp rp rr n] assms show ?thesis
    by (intro exI [of _ "[n_id n]"]) (auto simp: calls_def authorised_def)
qed

text \<open>A batch: the dispatched nodes are among it, and the call budget is kept.\<close>

lemma batch_calls:
  assumes "external_calls s \<le> max_external_calls (p_budget (v_plan vp))" "distinct (map n_id ns)"
    and "\<forall>n \<in> set ns. status_of (rs_states s) (n_id n) = PENDING"
  shows "\<exists>ks. set ks \<subseteq> n_id ` set ns \<and> calls vp rp ks s (fst (for_each (execute e vp rp rr) ns s))"
  using assms
proof (induction ns arbitrary: s)
  case Nil
  then show ?case using calls_quiet [of s s] by (intro exI [of _ "[]"]) simp
next
  case (Cons n ns)
  obtain t r where t: "execute e vp rp rr n s = (t, r)" by (rule prod.exhaust)
  obtain ks where i: "set ks \<subseteq> {n_id n}" "calls vp rp ks s t"
    using execute_calls [OF Cons.prems(1), of n rp e rr] Cons.prems(3) t by auto
  show ?case
  proof (cases r)
    case (Inl err)
    with t i show ?thesis by (intro exI [of _ ks]) auto
  next
    case (Inr x)
    then have "execute e vp rp rr n s = (t, Inr ())" using t by simp
    note ok = execute_ok [OF this]
    have st: "status_of (rs_states t) j = status_of (rs_states s) j" if "j \<noteq> n_id n" for j
      using ok that by (blast intro: touches_only_status)
    have "external_calls t \<le> max_external_calls (p_budget (v_plan vp))" using i(2) by (simp add: calls_def)
    moreover have "distinct (map n_id ns)" using Cons.prems(2) by simp
    moreover have "\<forall>m \<in> set ns. status_of (rs_states t) (n_id m) = PENDING"
    proof
      fix m assume "m \<in> set ns"
      with Cons.prems(2,3) st [of "n_id m"] show "status_of (rs_states t) (n_id m) = PENDING" by (metis distinct.simps(2) image_eqI list.set_intros(2) list.set_map list.simps(9))
    qed
    ultimately obtain js where js: "set js \<subseteq> n_id ` set ns" "calls vp rp js t (fst (for_each (execute e vp rp rr) ns t))"
      using Cons.IH [of t] by blast
    have "dispatch_order (fst (for_each (execute e vp rp rr) ns t)) = dispatch_order s @ ks @ js"
      "distinct (ks @ js)" "\<forall>j \<in> set (ks @ js). status_of (rs_states s) j = PENDING"
      using i js Cons.prems(2,3) by (auto simp: calls_def)
    then have "calls vp rp (ks @ js) s (fst (for_each (execute e vp rp rr) ns t))"
      using i(2) js(2) by (auto simp: calls_def intro: quiet_trans)
    with t Inr i(1) js(1) show ?thesis by (intro exI [of _ "ks @ js"]) auto
  qed
qed

subsection \<open>The loop\<close>

lemma n_id_ordered: "map n_id (ordered_nodes vp) = filter (\<lambda>i. plan_node (v_plan vp) i \<noteq> None) (v_order vp)"
proof -
  have id: "plan_node p i = Some n \<Longrightarrow> n_id n = i" for p i n
    by (auto simp: plan_node_def find_Some_iff)
  have "map n_id (List.map_filter (plan_node p) xs) = filter (\<lambda>i. plan_node p i \<noteq> None) xs" for p xs
    by (induction xs) (auto simp: List.map_filter_def dest: id)
  then show ?thesis by (simp add: ordered_nodes_def)
qed

lemma distinct_ordered: "distinct (v_order vp) \<Longrightarrow> distinct (map n_id (ordered_nodes vp))"
  by (simp add: n_id_ordered)

lemma distinct_batch:
  assumes "distinct (map n_id (ordered_nodes vp))"
  shows "distinct (map n_id (next_batch vp s))"
proof -
  let ?P = "\<lambda>n. status_of (rs_states s) (n_id n) = PENDING \<and> list_all (\<lambda>d. status_of (rs_states s) d = SUCCESS) (n_depends_on n)"
  have "distinct (filter ?P (ordered_nodes vp)) \<and> inj_on n_id (set (filter ?P (ordered_nodes vp)))"
    using assms by (auto simp: distinct_map inj_on_def)
  then show ?thesis by (simp add: next_batch_def ready_nodes_def distinct_map)
qed

lemma batch_pending: "n \<in> set (next_batch vp s) \<Longrightarrow> status_of (rs_states s) (n_id n) = PENDING"
  using ready_nodesD by (auto simp: next_batch_def split: if_splits)

lemma batch_unpend:
  assumes "for_each (execute e vp rp rr) ns s = (t, Inr ())" "status_of (rs_states t) j = PENDING"
  shows "status_of (rs_states s) j = PENDING \<and> j \<notin> n_id ` set ns"
proof -
  note f = for_each_execute [OF assms(1)]
  have "j \<notin> n_id ` set ns" using f assms(2) by force
  with f assms(2) show ?thesis by (simp add: status_of_def)
qed

lemma run_loop_calls:
  assumes "external_calls s \<le> max_external_calls (p_budget (v_plan vp))" "distinct (map n_id (ordered_nodes vp))"
  shows "\<exists>ks. calls vp rp ks s (fst (run_loop e vp rp rr s))"
  using assms
proof (induction e vp rp rr s rule: run_loop.induct)
  case (1 e vp rp rr s)
  let ?s = "propagated vp s" and ?b = "next_batch vp (propagated vp s)"
  have first: "calls vp rp ks s u" if "calls vp rp ks ?s u" for ks u
  proof -
    have "quiet s ?s" by simp
    moreover have "\<forall>i. status_of (rs_states ?s) i = PENDING \<longrightarrow> status_of (rs_states s) i = PENDING"
      using propagate_status by simp
    ultimately show ?thesis using that by (auto simp: calls_def quiet_def)
  qed
  show ?case
  proof (cases "?b = []")
    case True
    then show ?thesis using calls_quiet [of s ?s] 1(2) by (subst run_loop.simps) (auto simp: Let_def)
  next
    case False
    obtain t r where t: "for_each (execute e vp rp rr) ?b ?s = (t, r)" by (rule prod.exhaust)
    obtain ks where i: "set ks \<subseteq> n_id ` set ?b" "calls vp rp ks ?s t"
      using batch_calls [of ?s vp ?b rp e rr] 1(2,3) distinct_batch batch_pending t by force
    show ?thesis
    proof (cases r)
      case (Inl err)
      with False t i(2) first show ?thesis by (subst run_loop.simps) (auto simp: Let_def)
    next
      case (Inr x)
      obtain u q where u: "persist e t = (u, q)" by (rule prod.exhaust)
      note p = persistD [OF u]
      have iu: "calls vp rp ks ?s u" using calls_quiet_right [OF i(2) quiet_frame [OF p(2)]] .
      show ?thesis
      proof (cases q)
        case (Inl err)
        with False t u Inr iu first show ?thesis by (subst run_loop.simps) (auto simp: Let_def)
      next
        case ok: (Inr y)
        show ?thesis
        proof (cases "aborted u \<and> fail_fast vp")
          case True
          have "quiet u (fst (persist e (u\<lparr>rs_states := skip_pending (ordered_nodes vp) (rs_states u)\<rparr>)))"
            using quiet_persist [of "u\<lparr>rs_states := skip_pending (ordered_nodes vp) (rs_states u)\<rparr>" e] by (simp add: quiet_def)
          with True False t u Inr ok iu first show ?thesis
            by (subst run_loop.simps) (auto simp: Let_def dest: calls_quiet_right)
        next
          case go: False
          have b: "for_each (execute e vp rp rr) ?b ?s = (t, Inr ())" using t Inr by simp
          have "external_calls u \<le> max_external_calls (p_budget (v_plan vp))" using iu by (simp add: calls_def)
          then obtain js where js: "calls vp rp js u (fst (run_loop e vp rp rr u))"
            using 1(1) [OF refl refl False b u [unfolded ok] go] 1(3) by blast
          have "status_of (rs_states ?s) j = PENDING \<and> j \<notin> set ks" if "status_of (rs_states u) j = PENDING" for j
            using batch_unpend [OF b, of j] that p(1) i(1) by auto
          note all = first [OF calls_trans [OF iu js this]]
          have "run_loop e vp rp rr s = run_loop e vp rp rr u"
            using False b u ok go by (subst run_loop.simps) (auto simp: Let_def)
          with all show ?thesis by metis
        qed
      qed
    qed
  qed
qed

subsection \<open>Compensation\<close>

lemma for_each_inv:
  assumes "\<And>x s. x \<in> set xs \<Longrightarrow> P s \<Longrightarrow> P (fst (f x s))" "P s"
  shows "P (fst (for_each f xs s))"
  using assms
proof (induction xs arbitrary: s)
  case (Cons x xs)
  obtain t r where t: "f x s = (t, r)" by (rule prod.exhaust)
  then have "P t" using Cons.prems(1) [of x s] Cons.prems(2) by simp
  moreover have "P (fst (for_each f xs t))" if "P t" using Cons.IH [of t] Cons.prems(1) that by simp
  ultimately show ?case using t by (cases r) simp_all
qed simp

text \<open>Compensation acts on the world through the compensator alone: no dispatch is counted.\<close>

definition same_calls :: "'w run_state \<Rightarrow> 'w run_state \<Rightarrow> bool" where
  "same_calls s s' \<longleftrightarrow> external_calls s' = external_calls s \<and> dispatch_order s' = dispatch_order s \<and>
     dag_approval (rs_db s') = dag_approval (rs_db s) \<and> aborted s' = aborted s"

lemma same_calls_frame: "frame s t \<Longrightarrow> same_calls s t"
  by (simp add: frame_def same_calls_def)

lemma same_calls_trans: "same_calls s t \<Longrightarrow> same_calls t u \<Longrightarrow> same_calls s u"
  by (simp add: same_calls_def)

lemma same_calls_upd [simp]: "same_calls (upd i f s) t \<longleftrightarrow> same_calls s t" "same_calls (s\<lparr>rs_world := w\<rparr>) t \<longleftrightarrow> same_calls s t"
  by (simp_all add: same_calls_def upd_def)

lemma same_calls_persist: "same_calls s (fst (persist e s))"
  using persistD(2) [of e s "fst (persist e s)" "snd (persist e s)"] by (simp add: same_calls_frame)

lemma same_calls_comp_finish: "same_calls (fst sl) (fst (fst (comp_finish e i ref f out sl)))"
  using same_calls_persist [of "upd i f (fst sl)" e]
  by (cases "persist e (upd i f (fst sl))") (simp add: comp_finish_def)

lemma same_calls_compensate_node: "same_calls (fst sl) (fst (fst (compensate_node e vp n sl)))"
proof -
  let ?i = "n_id n"
  let ?ref = "case map_of (rs_states (fst sl)) ?i of None \<Rightarrow> [] | Some x \<Rightarrow> opt_str (ns_effect_ref x)"
  show ?thesis
  proof (cases "compensation_key (sha256 e) (v_digest vp) ?i ?ref")
    case (Inl err)
    then show ?thesis by (simp add: compensate_node_def Let_def same_calls_def)
  next
    case (Inr key)
    let ?u = "upd ?i (\<lambda>x. x\<lparr>ns_status := COMPENSATION_PENDING, ns_idempotency_key := Some key\<rparr>) (fst sl)"
    obtain t r where t: "persist e ?u = (t, r)" by (rule prod.exhaust)
    have st: "same_calls (fst sl) t" using same_calls_persist [of ?u e] t by simp
    have f: "same_calls (fst sl) (fst (fst (comp_finish e ?i ref f out (t\<lparr>rs_world := w\<rparr>, l))))" for ref f out w l
      using same_calls_trans [OF st] same_calls_comp_finish [of "(t\<lparr>rs_world := w\<rparr>, l)" e ?i ref f out] by simp
    from f [where w = "rs_world t"] have g: "same_calls (fst sl) (fst (fst (comp_finish e ?i ref f out (t, l))))" for ref f out l
      by simp
    show ?thesis
      using Inr t st f g
      by (simp add: compensate_node_def Let_def split: sum.split option.split prod.split comp_outcome.split)
  qed
qed

lemma same_calls_compensate: "same_calls s (fst (fst (compensate e vp s)))"
proof -
  let ?cs = "comp_candidates vp (rs_states s)"
  have "same_calls s (fst (fst (for_each (compensate_node e vp) ?cs (s, []))))"
  proof (rule for_each_inv [where P = "\<lambda>sl. same_calls s (fst sl)"])
    show "same_calls s (fst (fst (compensate_node e vp n sl)))" if "same_calls s (fst sl)" for n sl
      using same_calls_trans [OF that same_calls_compensate_node] .
  qed (simp add: same_calls_def)
  then show ?thesis by (simp add: compensate_def Let_def same_calls_def)
qed

lemma finish_run_frame:
  "rs_world (fst (finish_run e vp rp l s)) = rs_world s \<and> same_calls s (fst (finish_run e vp rp l s)) \<and>
   rs_states (fst (finish_run e vp rp l s)) = rs_states s"
proof -
  let ?c = "(rs_checkpoint s)\<lparr>node_states := rs_states s, ck_status := Some (final_status s)\<rparr>"
  obtain db r where sv: "store_save (sha256 e) ?c (fence_token (ck_lease ?c)) (rs_db s) = (db, r)" by (rule prod.exhaust)
  have "dag_approval db = dag_approval (rs_db s)"
    using arg_cong [OF sv, of "\<lambda>p. dag_approval (fst p)"] by simp
  with sv show ?thesis by (cases r) (simp_all add: finish_run_def Let_def same_calls_def)
qed

subsection \<open>Calls of a whole run\<close>

text \<open>A run is a stretch of calls followed by steps that call no node.\<close>

lemma run_stretch:
  assumes "0 \<le> max_external_calls (p_budget (v_plan vp))" "distinct (map n_id (ordered_nodes vp))"
  shows "\<exists>t ks. calls vp (rr \<noteq> None \<or> replay c) ks (run_start vp c db w) t \<and> same_calls t (fst (run e vp c rr db w)) \<and>
    (rr \<noteq> None \<or> replay c \<longrightarrow> rs_world (fst (run e vp c rr db w)) = rs_world t)"
proof -
  let ?s = "run_start vp c db w" and ?rp = "rr \<noteq> None \<or> replay c" and ?r = "run e vp c rr db w"
  let ?goal = "\<exists>t ks. calls vp ?rp ks ?s t \<and> same_calls t (fst ?r) \<and> (?rp \<longrightarrow> rs_world (fst ?r) = rs_world t)"
  have stop: ?goal if "calls vp ?rp ks ?s (fst ?r)" for ks
    using that by (intro exI [of _ "fst ?r"] exI [of _ ks]) (simp add: same_calls_def)
  have s0: "calls vp ?rp [] ?s ?s" using assms(1) by (intro calls_quiet) (simp_all add: run_start_def)
  show ?thesis
  proof (cases "enabled e \<and> ck_plan_digest c = v_digest vp")
    case False
    then have "fst ?r = ?s" by (auto simp: run_def Let_def)
    with s0 show ?thesis by (intro stop) simp
  next
    case go: True
    obtain s1 r1 where s1: "persist e ?s = (s1, r1)" by (rule prod.exhaust)
    have c1: "calls vp ?rp [] ?s s1" using calls_quiet_right [OF s0 quiet_frame [OF persistD(2) [OF s1]]] .
    show ?thesis
    proof (cases r1)
      case (Inl err)
      with go s1 c1 show ?thesis by (intro stop) (simp add: run_def Let_def)
    next
      case r1: (Inr x1)
      obtain s2 r2 where s2: "run_loop e vp ?rp rr s1 = (s2, r2)" by (rule prod.exhaust)
      have "external_calls s1 \<le> max_external_calls (p_budget (v_plan vp))" using c1 by (simp add: calls_def)
      from run_loop_calls [OF this assms(2), of ?rp e rr] s2 obtain ks where "calls vp ?rp ks s1 s2" by auto
      then have c2: "calls vp ?rp ks ?s s2"
        using calls_trans [OF c1, of ks s2] persistD(1) [OF s1] by simp
      show ?thesis
      proof (cases r2)
        case (Inl err)
        with go s1 r1 s2 c2 show ?thesis by (intro stop) (simp add: run_def Let_def)
      next
        case r2: (Inr x2)
        obtain s3 r3 where s3: "persist e (propagated vp s2) = (s3, r3)" by (rule prod.exhaust)
        have "quiet s2 s3" using quiet_frame [OF persistD(2) [OF s3]] by (simp add: quiet_def)
        note c3 = calls_quiet_right [OF c2 this]
        show ?thesis
        proof (cases r3)
          case (Inl err)
          with go s1 r1 s2 r2 s3 c3 show ?thesis by (intro stop) (simp add: run_def Let_def)
        next
          case r3: (Inr x3)
          show ?thesis
          proof (cases "?rp \<or> p_rollback_policy (v_plan vp) = ROLLBACK_NONE")
            case True
            then have "?r = finish_run e vp ?rp [] s3" using go s1 r1 s2 r2 s3 r3 by (simp add: run_def Let_def)
            with c3 show ?thesis by (intro exI [of _ s3] exI [of _ ks]) (simp add: finish_run_frame)
          next
            case False
            obtain s4 l r4 where s4: "compensate e vp s3 = ((s4, l), r4)" by (metis prod.exhaust)
            have "same_calls s3 s4" using same_calls_compensate [of s3 e vp] s4 by simp
            moreover have "?r = (case r4 of Inl err \<Rightarrow> (s4, Inl err) | Inr _ \<Rightarrow> finish_run e vp ?rp l s4)"
              using False go s1 r1 s2 r2 s3 r3 s4 by (cases r4) (simp_all add: run_def Let_def)
            then have "same_calls s4 (fst ?r)"
              using finish_run_frame [of e vp ?rp l s4] by (cases r4) (simp_all add: same_calls_def)
            ultimately show ?thesis using False c3 same_calls_trans by blast
          qed
        qed
      qed
    qed
  qed
qed

lemma validated_bounds:
  assumes "validate_plan sha p cat = Inr vp" "distinct (node_ids p)"
  shows "0 \<le> max_external_calls (p_budget (v_plan vp))" "distinct (map n_id (ordered_nodes vp))" "v_plan vp = p"
proof -
  from assms(1) have g: "check_budget p (v_mutating_nodes vp) = Inr ()" and p: "v_plan vp = p"
    by (blast elim: validate_plan_parts)+
  have "int (length (filter (\<lambda>n. n_kind n = TOOL) (p_nodes p))) \<le> max_external_calls (p_budget p)"
    using g by (simp add: check_budget_def run_checks_Inr del: run_checks_Cons)
  then show "0 \<le> max_external_calls (p_budget (v_plan vp))" using p by simp
  show "distinct (map n_id (ordered_nodes vp))" using distinct_ordered [OF validated_order(1) [OF assms]] .
  show "v_plan vp = p" by (rule p)
qed


definition idle_engine :: "nat engine" where
  "idle_engine = \<lparr>executor = (\<lambda>n a w. (Exec_ok [], Suc w)), catalog = sample_catalog,
     decide = (\<lambda>vp n a. \<lparr>allowed = True, d_reason = None, approval_required = False, d_policy_digest = []\<rparr>),
     reconciler = None, compensator = None, enabled = True, engine_ceiling = 4, engine_owner = ''engine-0'', sha256 = (\<lambda>s. s)\<rparr>"


text \<open>
  C10. A replay has no effect: when recorded results are given or the checkpoint is marked as a replay,
  no executor and no compensator is called, so the outside world is untouched, the dispatch order
  is empty and the call count zero. And no run, replayed or not, touches the approval table.
\<close>

theorem replay_has_no_effect:
  assumes "validate_plan sha p cat = Inr vp" and "distinct (node_ids p)" and "run e vp c rr db w = (s', res)"
  shows "dag_approval (rs_db s') = dag_approval db \<and>
    (rr \<noteq> None \<or> replay c \<longrightarrow> rs_world s' = w \<and> dispatch_order s' = [] \<and> external_calls s' = 0)"
proof -
  note v = validated_bounds [OF assms(1,2)]
  from run_stretch [OF v(1,2), of rr c db w e] assms(3) obtain t ks where
    t: "calls vp (rr \<noteq> None \<or> replay c) ks (run_start vp c db w) t" "same_calls t s'"
    "rr \<noteq> None \<or> replay c \<longrightarrow> rs_world s' = rs_world t" by auto
  then show ?thesis by (auto simp: calls_def same_calls_def run_start_def quiet_def)
qed

theorem replay_has_no_effect_witness:
  "rs_world (fst (run idle_engine sample_validated sample_checkpoint (Some [(''a'', JInt 1)]) dag_empty 7)) = 7"
proof -
  have d: "distinct (node_ids sample_plan)" by code_simp
  obtain s' res where r: "run idle_engine sample_validated sample_checkpoint (Some [(''a'', JInt 1)]) dag_empty 7 = (s', res)"
    by (rule prod.exhaust)
  with replay_has_no_effect [OF sample_validates d r] show ?thesis by simp
qed

subsection \<open>Every node is settled\<close>

lemma propagate_pass_rests:
  "status_of (fst (propagate_pass ns st)) i = status_of st i \<or>
   (status_of st i = PENDING \<and> status_of (fst (propagate_pass ns st)) i = SKIPPED)"
  by (induction ns st rule: propagate_pass.induct) (auto split: option.splits if_splits)

lemma propagate_rests:
  "status_of (propagate ns st) i = status_of st i \<or> (status_of st i = PENDING \<and> status_of (propagate ns st) i = SKIPPED)"
proof (induction ns st rule: propagate.induct)
  case (1 ns st)
  obtain st' ch where p: "propagate_pass ns st = (st', ch)" by (rule prod.exhaust)
  have "status_of st' i = status_of st i \<or> (status_of st i = PENDING \<and> status_of st' i = SKIPPED)"
    using propagate_pass_rests [of ns st i] p by simp
  moreover have "propagate ns st = (if ch then propagate ns st' else st')" using p by (subst propagate.simps) simp
  moreover have "status_of (propagate ns st') i = status_of st' i \<or> (status_of st' i = PENDING \<and> status_of (propagate ns st') i = SKIPPED)" if ch
    using 1 [OF refl p [symmetric] that] .
  ultimately show ?case by (cases ch) auto
qed

lemma propagate_pass_unchanged:
  "\<not> snd (propagate_pass ns st) \<Longrightarrow> fst (propagate_pass ns st) = st \<and>
   (\<forall>n \<in> set ns. status_of st (n_id n) = PENDING \<longrightarrow> blocked_reason st (n_depends_on n) = None)"
proof (induction ns st rule: propagate_pass.induct)
  case (2 n ns st)
  then show ?case
    by (cases "status_of st (n_id n) = PENDING"; cases "blocked_reason st (n_depends_on n)") simp_all
qed simp

lemma propagate_unblocked:
  "n \<in> set ns \<Longrightarrow> status_of (propagate ns st) (n_id n) = PENDING \<Longrightarrow> blocked_reason (propagate ns st) (n_depends_on n) = None"
proof (induction ns st rule: propagate.induct)
  case (1 ns st)
  obtain st' ch where p: "propagate_pass ns st = (st', ch)" by (rule prod.exhaust)
  have eq: "propagate ns st = (if ch then propagate ns st' else st')" using p by (subst propagate.simps) simp
  show ?case
  proof (cases ch)
    case True
    with 1(1) [OF refl p [symmetric] True] 1(2,3) eq show ?thesis by simp
  next
    case False
    with propagate_pass_unchanged [of ns st] p eq 1(2,3) show ?thesis by simp
  qed
qed

lemma blocked_None:
  "blocked_reason st ds = None \<Longrightarrow> \<forall>d \<in> set ds. settled_status (status_of st d) \<Longrightarrow> \<forall>d \<in> set ds. status_of st d = SUCCESS"
  by (induction ds) (auto simp: blocks_def settled_status_def split: option.splits if_splits)

lemma skip_pending_status:
  "status_of (skip_pending ns st) i = (if i \<in> n_id ` set ns \<and> status_of st i = PENDING then SKIPPED else status_of st i)"
  by (induction ns st rule: skip_pending.induct) (auto split: if_splits)

text \<open>Dependencies come first in the order.\<close>

definition deps_first :: "node list \<Rightarrow> bool" where
  "deps_first ns \<longleftrightarrow> (\<forall>us n vs. ns = us @ n # vs \<longrightarrow> set (n_depends_on n) \<subseteq> n_id ` set us)"

lemma no_batch_settled:
  assumes "deps_first (ordered_nodes vp)" "ready_nodes vp (propagate (ordered_nodes vp) st) = []"
    and "\<forall>n \<in> set (ordered_nodes vp). status_of st (n_id n) = PENDING \<or> settled_status (status_of st (n_id n))"
    and "ordered_nodes vp = us @ vs"
  shows "\<forall>n \<in> set us. settled_status (status_of (propagate (ordered_nodes vp) st) (n_id n))"
  using assms(4)
proof (induction us arbitrary: vs rule: rev_induct)
  case (snoc n us)
  let ?st = "propagate (ordered_nodes vp) st"
  have n: "n \<in> set (ordered_nodes vp)" using snoc.prems by simp
  have us: "\<forall>m \<in> set us. settled_status (status_of ?st (n_id m))" using snoc.IH [of "n # vs"] snoc.prems by simp
  have deps: "\<forall>d \<in> set (n_depends_on n). settled_status (status_of ?st d)"
    using assms(1) snoc.prems us by (fastforce simp: deps_first_def)
  have "status_of ?st (n_id n) \<noteq> PENDING"
  proof
    assume pend: "status_of ?st (n_id n) = PENDING"
    from blocked_None [OF propagate_unblocked [OF n pend] deps]
    have "n \<in> set (ready_nodes vp ?st)" using n pend by (simp add: ready_nodes_def list_all_iff)
    with assms(2) show False by simp
  qed
  then have "settled_status (status_of ?st (n_id n))"
    using propagate_rests [of "ordered_nodes vp" st "n_id n"] assms(3) n by (auto simp: settled_status_def)
  with us show ?case by simp
qed simp

lemma run_loop_settles:
  assumes "run_loop e vp rp rr s = (s', Inr ())" "deps_first (ordered_nodes vp)" "\<not> (aborted s \<and> fail_fast vp)"
    and "\<forall>n \<in> set (ordered_nodes vp). status_of (rs_states s) (n_id n) = PENDING \<or> settled_status (status_of (rs_states s) (n_id n))"
  shows "\<forall>n \<in> set (ordered_nodes vp). settled_status (status_of (rs_states s') (n_id n))"
  using assms
proof (induction e vp rp rr s rule: run_loop.induct)
  case (1 e vp rp rr s)
  let ?s = "propagated vp s" and ?b = "next_batch vp (propagated vp s)"
  have ps: "status_of (rs_states ?s) i = PENDING \<or> settled_status (status_of (rs_states ?s) i)"
    if "i \<in> n_id ` set (ordered_nodes vp)" for i
    using that propagate_rests [of "ordered_nodes vp" "rs_states s" i] 1(5) by auto
  show ?case
  proof (cases "?b = []")
    case True
    with 1(2) have "s' = ?s" by (subst (asm) run_loop.simps) (simp add: Let_def)
    moreover have "ready_nodes vp (propagate (ordered_nodes vp) (rs_states s)) = []"
      using True 1(4) by (auto simp: next_batch_def split: if_splits)
    ultimately show ?thesis using no_batch_settled [OF 1(3) _ 1(5), of "ordered_nodes vp" "[]"] by simp
  next
    case False
    from 1(2) False obtain t u where t: "for_each (execute e vp rp rr) ?b ?s = (t, Inr ())" and u: "persist e t = (u, Inr ())"
      and r: "(if aborted u \<and> fail_fast vp then persist e (u\<lparr>rs_states := skip_pending (ordered_nodes vp) (rs_states u)\<rparr>)
         else run_loop e vp rp rr u) = (s', Inr ())"
      by (subst (asm) run_loop.simps) (auto simp: Let_def bind_s_Inr_iff)
    have us: "status_of (rs_states u) (n_id n) = PENDING \<or> settled_status (status_of (rs_states u) (n_id n))"
      if "n \<in> set (ordered_nodes vp)" for n
    proof (cases "n_id n \<in> n_id ` set ?b")
      case True
      with for_each_execute [OF t] persistD(1) [OF u] show ?thesis by auto
    next
      case False
      then have "status_of (rs_states u) (n_id n) = status_of (rs_states ?s) (n_id n)"
        using for_each_execute [OF t] persistD(1) [OF u] by (simp add: status_of_def)
      with ps [of "n_id n"] that show ?thesis by simp
    qed
    show ?thesis
    proof (cases "aborted u \<and> fail_fast vp")
      case True
      with r have "persist e (u\<lparr>rs_states := skip_pending (ordered_nodes vp) (rs_states u)\<rparr>) = (s', Inr ())" by simp
      from persistD(1) [OF this] us show ?thesis by (auto simp: skip_pending_status)
    next
      case go: False
      with r 1(1) [OF refl refl False t u go] 1(3) us show ?thesis by auto
    qed
  qed
qed

text \<open>The statuses a compensated node may end in.\<close>

definition comp_status :: "node_status \<Rightarrow> bool" where
  "comp_status x \<longleftrightarrow> x \<in> {COMPENSATED, COMPENSATION_UNSAFE, COMPENSATION_FAILED, COMPENSATION_INDETERMINATE}"

lemma comp_finishD:
  assumes "comp_finish e i ref f out sl = (sl', Inr ())" "comp_status (ns_status (f (case map_of (rs_states (fst sl)) i of None \<Rightarrow> node_state_new i | Some n \<Rightarrow> n)))"
  shows "touches_only i (rs_states (fst sl)) (rs_states (fst sl')) \<and> comp_status (status_of (rs_states (fst sl')) i)"
proof -
  obtain t r where t: "persist e (upd i f (fst sl)) = (t, r)" by (rule prod.exhaust)
  with assms persistD(1) [OF t] show ?thesis by (auto simp: comp_finish_def status_of_put)
qed

lemma compensate_nodeD:
  assumes "compensate_node e vp n sl = (sl', Inr ())"
  shows "touches_only (n_id n) (rs_states (fst sl)) (rs_states (fst sl')) \<and> comp_status (status_of (rs_states (fst sl')) (n_id n))"
proof -
  let ?i = "n_id n"
  let ?ref = "case map_of (rs_states (fst sl)) ?i of None \<Rightarrow> [] | Some x \<Rightarrow> opt_str (ns_effect_ref x)"
  from assms obtain key where key: "compensation_key (sha256 e) (v_digest vp) ?i ?ref = Inr key"
    by (cases "compensation_key (sha256 e) (v_digest vp) ?i ?ref") (simp_all add: compensate_node_def Let_def)
  let ?u = "upd ?i (\<lambda>x. x\<lparr>ns_status := COMPENSATION_PENDING, ns_idempotency_key := Some key\<rparr>) (fst sl)"
  from assms key obtain t where t: "persist e ?u = (t, Inr ())"
    by (cases "persist e ?u"; cases "snd (persist e ?u)") (simp_all add: compensate_node_def Let_def)
  have tt: "touches_only ?i (rs_states (fst sl)) (rs_states t)" using persistD(1) [OF t] by simp
  have "\<exists>f out w. comp_finish e ?i ?ref f out (t\<lparr>rs_world := w\<rparr>, snd sl) = (sl', Inr ()) \<and> (\<forall>x. comp_status (ns_status (f x)))"
  proof (cases "compensator e")
    case None
    with assms key t show ?thesis
      by (intro exI [of _ "set_status COMPENSATION_UNSAFE (Some (reason_value COMPENSATION_UNSAFE_REASON))"] exI [of _ "''UNSAFE''"]
          exI [of _ "rs_world t"]) (simp add: compensate_node_def Let_def comp_status_def)
  next
    case (Some cmp)
    obtain out w where o: "cmp n ?ref (rs_world t) = (out, w)" by (rule prod.exhaust)
    show ?thesis
    proof (cases "allowed (decide e vp n (n_args n))")
      case False
      with assms key t Some show ?thesis
        by (intro exI [of _ "set_status COMPENSATION_UNSAFE (Some (reason_value POLICY_DENIED))"] exI [of _ "''DENIED''"]
            exI [of _ "rs_world t"]) (simp add: compensate_node_def Let_def comp_status_def)
    next
      case True
      note s = assms [unfolded compensate_node_def Let_def]
      show ?thesis
      proof (cases out)
        case Comp_verified
        with s True key t Some o show ?thesis
          by (intro exI [of _ "\<lambda>x. x\<lparr>ns_status := COMPENSATED\<rparr>"] exI [of _ "''COMPENSATED''"] exI [of _ w])
            (simp add: comp_status_def)
      next
        case Comp_unverified
        with s True key t Some o show ?thesis
          by (intro exI [of _ "set_status COMPENSATION_UNSAFE (Some (reason_value COMPENSATION_UNSAFE_REASON))"]
              exI [of _ "''UNSAFE''"] exI [of _ w]) (simp add: comp_status_def)
      next
        case Comp_indeterminate
        with s True key t Some o show ?thesis
          by (intro exI [of _ "\<lambda>x. x\<lparr>ns_status := COMPENSATION_INDETERMINATE\<rparr>"] exI [of _ "''INDETERMINATE''"] exI [of _ w])
            (simp add: comp_status_def)
      next
        case Comp_raises
        with s True key t Some o show ?thesis
          by (intro exI [of _ "\<lambda>x. x\<lparr>ns_status := COMPENSATION_FAILED\<rparr>"] exI [of _ "''FAILED''"] exI [of _ w])
            (simp add: comp_status_def)
      qed
    qed
  qed
  then obtain f out w where "comp_finish e ?i ?ref f out (t\<lparr>rs_world := w\<rparr>, snd sl) = (sl', Inr ())" "\<And>x. comp_status (ns_status (f x))"
    by blast
  from comp_finishD [OF this] tt show ?thesis by (auto simp: touches_only_def)
qed

definition resting :: "node_status \<Rightarrow> bool" where
  "resting x \<longleftrightarrow> settled_status x \<or> comp_status x"

lemma compensate_rests:
  assumes "compensate e vp s = ((s', l), Inr ())" "resting (status_of (rs_states s) i)"
  shows "resting (status_of (rs_states s') i)"
proof -
  have "resting (status_of (rs_states (fst sl')) i)"
    if "for_each (compensate_node e vp) ns sl = (sl', Inr ())" "resting (status_of (rs_states (fst sl)) i)" for ns sl sl'
    using that
  proof (induction ns arbitrary: sl)
    case (Cons n ns)
    then obtain sl1 where n: "compensate_node e vp n sl = (sl1, Inr ())" "for_each (compensate_node e vp) ns sl1 = (sl', Inr ())"
      by (auto simp: bind_s_Inr_iff)
    from compensate_nodeD [OF n(1)] Cons.prems(2) have "resting (status_of (rs_states (fst sl1)) i)"
      by (cases "i = n_id n") (auto simp: resting_def dest: touches_only_status)
    with Cons.IH n(2) show ?case by simp
  qed simp
  then show ?thesis using assms by (fastforce simp: compensate_def Let_def split: if_splits)
qed

lemma run_InrE:
  assumes "run e vp c rr db w = (s', Inr rep)"
  obtains s1 s2 s3 l s4 where "enabled e" "ck_plan_digest c = v_digest vp" "persist e (run_start vp c db w) = (s1, Inr ())"
    "run_loop e vp (rr \<noteq> None \<or> replay c) rr s1 = (s2, Inr ())" "persist e (propagated vp s2) = (s3, Inr ())"
    "(s4, l) = (s3, []) \<or> compensate e vp s3 = ((s4, l), Inr ())"
    "finish_run e vp (rr \<noteq> None \<or> replay c) l s4 = (s', Inr rep)"
proof -
  define rp where "rp \<longleftrightarrow> rr \<noteq> None \<or> replay c"
  note r = assms [unfolded run_def Let_def, folded rp_def]
  from r have go: "enabled e" "ck_plan_digest c = v_digest vp" by (auto split: if_splits)
  with r obtain s1 s2 s3 where p: "persist e (run_start vp c db w) = (s1, Inr ())" "run_loop e vp rp rr s1 = (s2, Inr ())"
    "persist e (propagated vp s2) = (s3, Inr ())"
    and f: "(if rp \<or> p_rollback_policy (v_plan vp) = ROLLBACK_NONE then finish_run e vp rp [] s3
       else (case compensate e vp s3 of ((s, l), Inl err) \<Rightarrow> (s, Inl err) | ((s, l), Inr _) \<Rightarrow> finish_run e vp rp l s)) = (s', Inr rep)"
    by (auto simp: bind_s_Inr_iff simp del: if_split)
  show thesis
  proof (cases "rp \<or> p_rollback_policy (v_plan vp) = ROLLBACK_NONE")
    case True
    with f have "finish_run e vp rp [] s3 = (s', Inr rep)" by simp
    with go p show thesis unfolding rp_def by (intro that [of s1 s2 s3 s3 "[]"]) simp_all
  next
    case False
    obtain s4 l r4 where c: "compensate e vp s3 = ((s4, l), r4)" by (metis prod.exhaust)
    with f False have "r4 = Inr ()" "finish_run e vp rp l s4 = (s', Inr rep)" by (cases r4; simp)+
    with go p c show thesis unfolding rp_def by (intro that [of s1 s2 s3 s4 l]) simp_all
  qed
qed

lemma status_initial: "status_of (initial_states vp c) i = status_of (node_states c) i"
proof -
  have "status_of (foldl (\<lambda>st n. if map_of st (n_id n) = None then st @ [(n_id n, node_state_new (n_id n))] else st) st ns) i = status_of st i"
    for st ns
  proof (induction ns arbitrary: st)
    case (Cons n ns)
    have "status_of (st @ [(n_id n, node_state_new (n_id n))]) i = status_of st i" if "map_of st (n_id n) = None"
      using that by (auto simp: status_of_def node_state_new_def map_add_def split: option.splits)
    with Cons.IH show ?case by simp
  qed simp
  then show ?thesis by (simp add: initial_states_def)
qed

lemma plan_node_mem: "plan_node p i = Some n \<Longrightarrow> n \<in> set (p_nodes p) \<and> n_id n = i"
  by (auto simp: plan_node_def find_Some_iff)

lemma validated_nodes:
  assumes "validate_plan sha p cat = Inr vp" "distinct (node_ids p)"
  shows "map n_id (ordered_nodes vp) = v_order vp" "set (ordered_nodes vp) = set (p_nodes p)" "deps_first (ordered_nodes vp)"
proof -
  note o = validated_order [OF assms] and v = validated_bounds [OF assms]
  have known: "plan_node p i \<noteq> None" if "i \<in> set (node_ids p)" for i
    using that by (auto simp: plan_node_def node_ids_def find_None_iff)
  then have "\<forall>i \<in> set (v_order vp). plan_node (v_plan vp) i \<noteq> None" using o(2) v(3) by simp
  then show ids: "map n_id (ordered_nodes vp) = v_order vp" unfolding n_id_ordered by (rule filter_True)
  have uniq: "plan_node p (n_id n) = Some n" if "n \<in> set (p_nodes p)" for n
  proof -
    have "n_id n \<in> set (node_ids p)" using that by (simp add: node_ids_def)
    then obtain m where m: "plan_node p (n_id n) = Some m" using known by blast
    then have "m \<in> set (p_nodes p)" "n_id m = n_id n" using plan_node_mem by auto
    then have "m = n" using that assms(2) by (auto simp: node_ids_def distinct_map dest: inj_onD)
    with m show ?thesis by simp
  qed
  show nodes: "set (ordered_nodes vp) = set (p_nodes p)"
  proof
    show "set (ordered_nodes vp) \<subseteq> set (p_nodes p)"
      using v(3) plan_node_mem by (auto simp: ordered_nodes_def List.map_filter_def)
    show "set (p_nodes p) \<subseteq> set (ordered_nodes vp)"
    proof
      fix n assume n: "n \<in> set (p_nodes p)"
      then have "n_id n \<in> set (v_order vp)" using o(2) by (simp add: node_ids_def)
      with uniq [OF n] v(3) show "n \<in> set (ordered_nodes vp)"
        by (force simp: ordered_nodes_def List.map_filter_def)
    qed
  qed
  show "deps_first (ordered_nodes vp)"
    unfolding deps_first_def
  proof (intro allI impI)
    fix us n vs assume d: "ordered_nodes vp = us @ n # vs"
    then have "v_order vp = map n_id us @ n_id n # map n_id vs" using ids by (metis list.simps(9) map_append)
    moreover have "n \<in> set (p_nodes p)" using d nodes by auto
    ultimately show "set (n_depends_on n) \<subseteq> n_id ` set us" using o(3) by fastforce
  qed
qed

subsection \<open>The report\<close>

lemma plan_status_unknown:
  "plan_status_from st ab \<in> {PLAN_INDETERMINATE, PLAN_DEAD_LETTER} \<longleftrightarrow> (\<exists>(i, n) \<in> set st. ns_status n \<in> {INDETERMINATE, DEAD_LETTER})"
proof -
  have "x \<in> set (map (ns_status \<circ> snd) st) \<longleftrightarrow> (\<exists>(i, n) \<in> set st. ns_status n = x)" for x by force
  then show ?thesis by (auto simp: plan_status_from_def Let_def)
qed

lemma plan_status_completed:
  "plan_status_from st (ab \<and> \<not> list_ex (\<lambda>(i, n). ns_status n = SUCCESS) st) = PLAN_COMPLETED \<longleftrightarrow>
   st \<noteq> [] \<and> (\<forall>(i, n) \<in> set st. ns_status n = SUCCESS)"
proof -
  let ?ss = "map (ns_status \<circ> snd) st"
  have len: "length (filter (\<lambda>x. x = SUCCESS) ?ss) = length ?ss \<longleftrightarrow> (\<forall>(i, n) \<in> set st. ns_status n = SUCCESS)"
  proof -
    have "(length (filter P xs) = length xs) = (\<forall>x \<in> set xs. P x)" for P and xs :: "node_status list"
      using length_filter_less [of _ xs P] filter_True [of xs P] by fastforce
    from this [of "\<lambda>x. x = SUCCESS" ?ss] show ?thesis by (auto simp del: filter_map length_filter_map)
  qed
  show ?thesis
  proof
    assume "plan_status_from st (ab \<and> \<not> list_ex (\<lambda>(i, n). ns_status n = SUCCESS) st) = PLAN_COMPLETED"
    then show "st \<noteq> [] \<and> (\<forall>(i, n) \<in> set st. ns_status n = SUCCESS)"
      using len by (auto simp: plan_status_from_def Let_def split: if_splits)
  next
    assume all: "st \<noteq> [] \<and> (\<forall>(i, n) \<in> set st. ns_status n = SUCCESS)"
    then have "set ?ss = {SUCCESS}" "list_ex (\<lambda>(i, n). ns_status n = SUCCESS) st"
      by (cases st; force simp: list_ex_iff)+
    with all len show "plan_status_from st (ab \<and> \<not> list_ex (\<lambda>(i, n). ns_status n = SUCCESS) st) = PLAN_COMPLETED"
      by (simp add: plan_status_from_def Let_def)
  qed
qed

lemma unknown_effects_Nil: "unknown_effects (make_report vp rp l x s) = [] \<longleftrightarrow> (\<forall>(i, n) \<in> set (rs_states s). ns_status n \<notin> {INDETERMINATE, DEAD_LETTER})"
  by (auto simp: make_report_def Let_def filter_empty_conv)

lemma report_never_raises:
  assumes "rs_states s' = rs_states s"
  shows "report_new (make_report vp rp l (final_status s) s') = Inr (make_report vp rp l (final_status s) s')"
proof (cases "unknown_effects (make_report vp rp l (final_status s) s') = []")
  case True
  then show ?thesis by (simp add: report_new_def)
next
  case False
  then have "final_status s \<in> {PLAN_INDETERMINATE, PLAN_DEAD_LETTER}"
    unfolding final_status_def plan_status_unknown using assms by (auto simp: unknown_effects_Nil)
  then show ?thesis by (auto simp: report_new_def make_report_def Let_def)
qed

subsection \<open>A sample run\<close>

text \<open>A save succeeds under a current fence with a clean body.\<close>

definition clean :: "checkpoint \<Rightarrow> bool" where
  "clean c \<longleftrightarrow> \<not> has_secret (checkpoint_body c) \<and> json_validate (checkpoint_body c)"

definition open_store :: "checkpoint \<Rightarrow> dag_db \<Rightarrow> bool" where
  "open_store c db \<longleftrightarrow> (\<exists>row. tbl_get r_execution_id (execution_id c) (dag_checkpoint db) = Some row \<and>
     r_fence_token row \<le> fence_token (ck_lease c))"

lemma save_succeeds:
  assumes "clean c" "open_store c db"
  shows "\<exists>db'. store_save sha c (fence_token (ck_lease c)) db = (db', Inr ()) \<and> open_store c db'"
proof -
  from assms(2) obtain row where row: "tbl_get r_execution_id (execution_id c) (dag_checkpoint db) = Some row"
    "r_fence_token row \<le> fence_token (ck_lease c)" by (auto simp: open_store_def)
  have "r_execution_id row = execution_id c" using tbl_get_SomeD [OF row(1)] by simp
  with row assms(1) show ?thesis
    by (simp add: store_save_def clean_def assert_no_secret_material_def record_digest_def hash_json_ok open_store_def tbl_get_update)
qed

lemma persist_succeeds:
  assumes "clean ((rs_checkpoint s)\<lparr>node_states := rs_states s\<rparr>)" "open_store (rs_checkpoint s) (rs_db s)"
  shows "\<exists>s'. persist e s = (s', Inr ()) \<and> frame s s' \<and> rs_states s' = rs_states s \<and> open_store (rs_checkpoint s') (rs_db s')"
proof -
  let ?c = "(rs_checkpoint s)\<lparr>node_states := rs_states s\<rparr>"
  have "open_store ?c (rs_db s)" using assms(2) by (simp add: open_store_def)
  from save_succeeds [OF assms(1) this, of "sha256 e"] obtain db' where
    db: "store_save (sha256 e) ?c (fence_token (ck_lease ?c)) (rs_db s) = (db', Inr ())" "open_store ?c db'" by blast
  then have p: "persist e s = (s\<lparr>rs_checkpoint := ?c, rs_db := db'\<rparr>, Inr ())" by (simp add: persist_def Let_def)
  with db(2) persistD [OF p] show ?thesis by simp
qed

text \<open>The sample plan under a permissive governance and an executor that answers at once.\<close>

definition demo_engine :: "nat engine" where
  "demo_engine = idle_engine\<lparr>executor := (\<lambda>n a w. (Exec_ok [(''items'', JList []), (''effect_ref'', JStr ''pr-1'')], Suc w)), sha256 := (\<lambda>s. ''d'')\<rparr>"

definition demo_validated :: validated_plan where
  "demo_validated = \<lparr>v_plan = sample_plan, v_digest = ''d'', v_order = [''a'', ''b''], v_ranks = [(''b'', 1), (''a'', 0)],
     v_edges = [(''a'', ''b'')], v_resource_keys = [(''a'', Some ''o/r''), (''b'', None)], v_mutating_nodes = [''a''],
     v_result_types = [(''a'', [(''items'', ''list'')])]\<rparr>"

lemma demo_validates: "validate_plan (\<lambda>s. ''d'') sample_plan sample_catalog = Inr demo_validated"
proof -
  have "plan_digest (\<lambda>s. ''d'') sample_plan = Inr ''d''"
    using sample_plan_has_digest by (auto simp: plan_digest_def bind_r_Inr_iff)
  from sample_validates_digest [OF this] show ?thesis by (simp add: demo_validated_def sample_validated_def)
qed

definition demo_states :: "node_status \<Rightarrow> states" where
  "demo_states x = (let a = node_state_new ''a''; b = node_state_new ''b'';
     sent = a\<lparr>ns_status := DISPATCHED, ns_idempotency_key := Some ''d'', ns_operation_digest := Some ''d''\<rparr>;
     ok = sent\<lparr>ns_status := SUCCESS, ns_result := JObj [(''items'', JList []), (''effect_ref'', JStr ''pr-1'')], ns_effect_ref := Some ''pr-1''\<rparr>
     in case x of PENDING \<Rightarrow> [(''b'', b), (''a'', a)] | DISPATCHED \<Rightarrow> [(''b'', b), (''a'', sent)] | READY \<Rightarrow> [(''b'', b), (''a'', ok)]
        | _ \<Rightarrow> [(''b'', b\<lparr>ns_status := SUCCESS, ns_result := JInt 0\<rparr>), (''a'', ok)])"

definition demo_at :: "states \<Rightarrow> nat \<Rightarrow> nat run_state \<Rightarrow> bool" where
  "demo_at st k s \<longleftrightarrow> rs_states s = st \<and> (rs_checkpoint s)\<lparr>node_states := []\<rparr> = sample_checkpoint\<lparr>node_states := []\<rparr> \<and>
     open_store (rs_checkpoint s) (rs_db s) \<and> \<not> aborted s \<and> external_calls s = int k \<and> rs_world s = k"

lemma demo_clean: "clean (sample_checkpoint\<lparr>node_states := demo_states PENDING\<rparr>)"
  "clean (sample_checkpoint\<lparr>node_states := demo_states DISPATCHED\<rparr>)" "clean (sample_checkpoint\<lparr>node_states := demo_states READY\<rparr>)"
  "clean (sample_checkpoint\<lparr>node_states := demo_states SUCCESS\<rparr>)"
  "clean (sample_checkpoint\<lparr>node_states := demo_states SUCCESS, ck_status := Some PLAN_COMPLETED\<rparr>)"
  by code_simp+

lemma demo_persist:
  assumes "demo_at st k s" "clean (sample_checkpoint\<lparr>node_states := st\<rparr>)"
  shows "\<exists>s'. persist e s = (s', Inr ()) \<and> demo_at st k s'"
proof -
  have "(rs_checkpoint s)\<lparr>node_states := st\<rparr> = ((rs_checkpoint s)\<lparr>node_states := []\<rparr>)\<lparr>node_states := st\<rparr>" by simp
  also have "\<dots> = sample_checkpoint\<lparr>node_states := st\<rparr>" using assms(1) by (simp add: demo_at_def)
  finally have "clean ((rs_checkpoint s)\<lparr>node_states := rs_states s\<rparr>)" using assms by (simp add: demo_at_def)
  moreover have "open_store (rs_checkpoint s) (rs_db s)" using assms(1) by (simp add: demo_at_def)
  ultimately obtain s' where "persist e s = (s', Inr ())" "frame s s'" "rs_states s' = rs_states s" "open_store (rs_checkpoint s') (rs_db s')"
    using persist_succeeds by blast
  with assms(1) show ?thesis by (auto simp: demo_at_def frame_def)
qed

lemma demo_at_put: "demo_at st k s \<Longrightarrow> demo_at (put_state i f st) k (upd i f s)"
  by (simp add: demo_at_def upd_def)

definition demo_a :: node where
  "demo_a = tool_node ''a'' ''gh.merge'' [(''repository'', JStr ''o/r'')] [] []"

definition demo_b :: node where
  "demo_b = transform_node ''b'' ''count'' [] [(''args.value'', sample_binding)] [''a'']"

lemma demo_nodes [simp]:
  "n_id demo_a = ''a''" "n_kind demo_a = TOOL" "n_idempotency demo_a = Some \<lparr>i_enabled = True, i_attempt_epoch = 0\<rparr>"
  "n_id demo_b = ''b''" "n_kind demo_b = TRANSFORM" "n_op demo_b = Some ''count''" "n_depends_on demo_b = [''a'']" "n_depends_on demo_a = []"
  by (simp_all add: demo_a_def demo_b_def tool_node_def transform_node_def)

lemma demo_fields [simp]:
  "allowed (decide demo_engine vp n a)" "\<not> approval_required (decide demo_engine vp n a)"
  "catalog demo_engine = sample_catalog" "sha256 demo_engine = (\<lambda>s. ''d'')" "enabled demo_engine"
  "executor demo_engine n a w = (Exec_ok [(''items'', JList []), (''effect_ref'', JStr ''pr-1'')], Suc w)"
  "v_digest demo_validated = ''d''" "v_mutating_nodes demo_validated = [''a'']" "v_plan demo_validated = sample_plan"
  "max_external_calls (p_budget sample_plan) = 4" "max_result_bytes (p_budget sample_plan) = 4096" "p_rollback_policy sample_plan = ROLLBACK_NONE"
  by (simp_all add: demo_engine_def idle_engine_def demo_validated_def sample_validated_def sample_plan_def sample_budget_def)

lemma demo_write_ahead:
  assumes "demo_at (demo_states PENDING) 0 s"
  shows "\<exists>s'. execute_pre demo_engine demo_validated False None demo_a s = (s', Inr (Call [(''repository'', JStr ''o/r'')] (Some ''d''))) \<and>
    demo_at (demo_states DISPATCHED) 0 s'"
proof -
  let ?a = "[(''repository'', JStr ''o/r'')]"
  let ?f = "\<lambda>x. x\<lparr>ns_status := DISPATCHED, ns_idempotency_key := Some ''d'', ns_operation_digest := Some ''d''\<rparr>"
  have r: "resolve_args (catalog demo_engine) demo_a (demo_states PENDING) = Inr ?a" by code_simp
  have k: "node_idempotency_key (sha256 demo_engine) (v_digest demo_validated) ''a'' 0 ?a = Inr ''d''"
    "operation_digest (sha256 demo_engine) ''a'' ?a = Inr ''d''"
    by (simp_all add: node_idempotency_key_def operation_digest_def hash_json_ok demo_engine_def demo_validated_def)
  have "put_state ''a'' ?f (demo_states PENDING) = demo_states DISPATCHED" by code_simp
  with demo_at_put [OF assms, of "''a''" ?f] have "demo_at (demo_states DISPATCHED) 0 (upd ''a'' ?f s)" by simp
  from demo_persist [OF this demo_clean(2), of demo_engine] obtain s' where s': "persist demo_engine (upd ''a'' ?f s) = (s', Inr ())"
    "demo_at (demo_states DISPATCHED) 0 s'" by blast
  have st: "rs_states s = demo_states PENDING" "external_calls s = 0" using assms by (simp_all add: demo_at_def)
  from s' r st k show ?thesis
    by (simp add: execute_pre_def Let_def execute_tool_def write_ahead_def)
qed

text \<open>Both nodes.\<close>

lemma demo_execute_a:
  assumes "demo_at (demo_states PENDING) 0 s"
  shows "\<exists>s'. execute demo_engine demo_validated False None demo_a s = (s', Inr ()) \<and> demo_at (demo_states READY) 1 s'"
proof -
  let ?res = "[(''items'', JList []), (''effect_ref'', JStr ''pr-1'')]"
  let ?f = "\<lambda>x. x\<lparr>ns_status := SUCCESS, ns_result := JObj ?res, ns_effect_ref := Some ''pr-1''\<rparr>"
  obtain t where t: "execute_pre demo_engine demo_validated False None demo_a s = (t, Inr (Call [(''repository'', JStr ''o/r'')] (Some ''d'')))"
    "demo_at (demo_states DISPATCHED) 0 t" using demo_write_ahead [OF assms] by blast
  have e: "effect_of ?res = Some ''pr-1''" by code_simp
  have p: "put_state ''a'' ?f (demo_states DISPATCHED) = demo_states READY" by code_simp
  from t e p show ?thesis
    by (simp add: execute_def dispatch_def execute_post_def demo_at_def record_node_def upd_def)
qed

lemma demo_execute_b:
  assumes "demo_at (demo_states READY) 1 s"
  shows "\<exists>s'. execute demo_engine demo_validated False None demo_b s = (s', Inr ()) \<and> demo_at (demo_states SUCCESS) 1 s'"
proof -
  have r: "resolve_args sample_catalog demo_b (demo_states READY) = Inr [(''value'', JList [])]" by code_simp
  have v: "apply_transform (opt_str (Some ''count'')) [(''value'', JList [])] 4096 = Inr (JInt 0)" by code_simp
  have p: "put_state ''b'' (\<lambda>x. x\<lparr>ns_status := SUCCESS, ns_result := JInt 0\<rparr>) (demo_states READY) = demo_states SUCCESS" by code_simp
  have "rs_states s = demo_states READY" using assms by (simp add: demo_at_def)
  with assms r v p show ?thesis
    by (simp add: execute_def execute_pre_def Let_def demo_at_def record_node_def upd_def)
qed

lemma demo_schedule:
  "propagate (ordered_nodes demo_validated) (demo_states PENDING) = demo_states PENDING"
  "ready_nodes demo_validated (demo_states PENDING) = [demo_a]"
  "propagate (ordered_nodes demo_validated) (demo_states READY) = demo_states READY"
  "ready_nodes demo_validated (demo_states READY) = [demo_b]"
  "propagate (ordered_nodes demo_validated) (demo_states SUCCESS) = demo_states SUCCESS"
  "ready_nodes demo_validated (demo_states SUCCESS) = []"
  by code_simp+

lemma demo_propagated:
  "demo_at (demo_states x) k s \<Longrightarrow> x \<in> {PENDING, READY, SUCCESS} \<Longrightarrow> demo_at (demo_states x) k (propagated demo_validated s)"
  using demo_schedule by (auto simp: demo_at_def)

lemma demo_batch:
  "demo_at (demo_states x) k s \<Longrightarrow> next_batch demo_validated s = ready_nodes demo_validated (demo_states x)"
  by (simp add: demo_at_def next_batch_def)

lemma demo_loop_step:
  assumes "demo_at (demo_states x) k s" "x \<in> {PENDING, READY, SUCCESS}" "ready_nodes demo_validated (demo_states x) = [n]"
    and "\<And>s. demo_at (demo_states x) k s \<Longrightarrow>
      \<exists>s'. execute demo_engine demo_validated False None n s = (s', Inr ()) \<and> demo_at (demo_states y) j s'"
    and "clean (sample_checkpoint\<lparr>node_states := demo_states y\<rparr>)"
  shows "\<exists>s'. run_loop demo_engine demo_validated False None s = run_loop demo_engine demo_validated False None s' \<and>
    demo_at (demo_states y) j s'"
proof -
  note p = demo_propagated [OF assms(1,2)]
  obtain t where t: "execute demo_engine demo_validated False None n (propagated demo_validated s) = (t, Inr ())" "demo_at (demo_states y) j t"
    using assms(4) [OF p] by blast
  obtain u where u: "persist demo_engine t = (u, Inr ())" "demo_at (demo_states y) j u"
    using demo_persist [OF t(2) assms(5)] by blast
  have "run_loop demo_engine demo_validated False None s = run_loop demo_engine demo_validated False None u"
    using t u demo_batch [OF p] assms(3) by (subst run_loop.simps) (simp add: Let_def demo_at_def)
  with u(2) show ?thesis by blast
qed

lemma demo_run:
  assumes "open_store sample_checkpoint db"
  shows "\<exists>s' rep. run demo_engine demo_validated sample_checkpoint None db 0 = (s', Inr rep) \<and> rs_states s' = demo_states SUCCESS \<and> rs_world s' = 1"
proof -
  let ?run = "run_loop demo_engine demo_validated False None"
  have "initial_states demo_validated sample_checkpoint = demo_states PENDING" by code_simp
  then have "demo_at (demo_states PENDING) 0 (run_start demo_validated sample_checkpoint db 0)"
    using assms by (simp add: demo_at_def run_start_def)
  from demo_persist [OF this demo_clean(1), of demo_engine] obtain s1 where
    s1: "persist demo_engine (run_start demo_validated sample_checkpoint db 0) = (s1, Inr ())" "demo_at (demo_states PENDING) 0 s1" by blast
  obtain s2 where s2: "?run s1 = ?run s2" "demo_at (demo_states READY) 1 s2"
    using demo_loop_step [OF s1(2) _ demo_schedule(2) demo_execute_a demo_clean(3)] by auto
  obtain s3 where s3: "?run s2 = ?run s3" "demo_at (demo_states SUCCESS) 1 s3"
    using demo_loop_step [OF s2(2) _ demo_schedule(4) demo_execute_b demo_clean(4)] by auto
  note p3 = demo_propagated [OF s3(2)]
  have "?run s3 = (propagated demo_validated s3, Inr ())"
    using demo_batch [OF p3] demo_schedule(6) by (subst run_loop.simps) (simp add: Let_def)
  with s2(1) s3(1) have l: "?run s1 = (propagated demo_validated s3, Inr ())" by simp
  from demo_persist [OF demo_propagated [OF p3] demo_clean(4), of demo_engine] obtain s4 where
    s4: "persist demo_engine (propagated demo_validated (propagated demo_validated s3)) = (s4, Inr ())" "demo_at (demo_states SUCCESS) 1 s4"
    by auto
  let ?c = "(rs_checkpoint s4)\<lparr>node_states := rs_states s4, ck_status := Some (final_status s4)\<rparr>"
  have st: "rs_states s4 = demo_states SUCCESS" "\<not> aborted s4" using s4(2) by (simp_all add: demo_at_def)
  have "plan_status_from (demo_states SUCCESS) False = PLAN_COMPLETED" by code_simp
  with st have f: "final_status s4 = PLAN_COMPLETED" by (simp add: final_status_def)
  have "?c = ((rs_checkpoint s4)\<lparr>node_states := []\<rparr>)\<lparr>node_states := rs_states s4, ck_status := Some (final_status s4)\<rparr>" by simp
  also have "\<dots> = sample_checkpoint\<lparr>node_states := demo_states SUCCESS, ck_status := Some PLAN_COMPLETED\<rparr>"
    using s4(2) f by (simp add: demo_at_def)
  finally have c: "?c = sample_checkpoint\<lparr>node_states := demo_states SUCCESS, ck_status := Some PLAN_COMPLETED\<rparr>" .
  have "open_store ?c (rs_db s4)" using s4(2) by (simp add: demo_at_def open_store_def)
  then obtain db' where db': "store_save (\<lambda>s. ''d'') ?c (fence_token (ck_lease ?c)) (rs_db s4) = (db', Inr ())" "open_store ?c db'"
    using save_succeeds [of ?c "rs_db s4" "\<lambda>s. ''d''"] demo_clean(5) c by auto
  have dg: "ck_plan_digest sample_checkpoint = ''d''" "\<not> replay sample_checkpoint" by (simp_all add: sample_checkpoint_def)
  let ?s' = "s4\<lparr>rs_checkpoint := ?c, rs_db := db'\<rparr>"
  have fr: "finish_run demo_engine demo_validated False [] s4 = (?s', Inr (make_report demo_validated False [] (final_status s4) ?s'))"
    using db' by (simp add: finish_run_def Let_def report_never_raises)
  have "run demo_engine demo_validated sample_checkpoint None db 0 = finish_run demo_engine demo_validated False [] s4"
    using s1(1) l s4(1) dg by (simp add: run_def Let_def)
  moreover have "rs_states ?s' = demo_states SUCCESS" "rs_world ?s' = 1" using s4(2) by (simp_all add: demo_at_def)
  ultimately show ?thesis using fr by simp
qed

subsection \<open>Properties\<close>


definition demo_db :: dag_db where
  "demo_db = \<lparr>dag_checkpoint = [sample_row], dag_approval = []\<rparr>"

lemma demo_open: "open_store sample_checkpoint demo_db"
  by (simp add: open_store_def demo_db_def sample_row_def sample_checkpoint_def sample_lease0_def)


lemma put_state_wf:
  assumes "ck_wf (c\<lparr>node_states := st\<rparr>)" "\<And>x. ns_node_id (f x) = ns_node_id x"
  shows "ck_wf (c\<lparr>node_states := put_state i f st\<rparr>)"
proof -
  have "ns_node_id n = k" if "(k, n) \<in> set (put_state i f st)" for k n
  proof (cases "k = i")
    case True
    have "distinct (map fst (put_state i f st))" using assms(1) by (simp add: put_state_def distinct_update ck_wf_def)
    then have "map_of (put_state i f st) k = Some n" using that by simp
    with True have "n = f (case map_of st i of None \<Rightarrow> node_state_new i | Some n \<Rightarrow> n)" by (simp add: put_state_def update_conv')
    with True assms show ?thesis by (auto simp: ck_wf_def node_state_new_def split: option.splits dest!: map_of_SomeD)
  next
    case False
    have "distinct (map fst (put_state i f st))" using assms(1) by (simp add: put_state_def distinct_update ck_wf_def)
    then have "map_of (put_state i f st) k = Some n" using that by simp
    with False have "map_of st k = Some n" by (simp add: put_state_def update_conv')
    with assms(1) show ?thesis by (auto simp: ck_wf_def dest!: map_of_SomeD)
  qed
  with assms(1) show ?thesis by (auto simp: ck_wf_def put_state_def distinct_update)
qed



text \<open>
  C4. Write-ahead durability: whenever the executor is about to be called for a mutating node, the
  store already returns, to any later \<open>load\<close>, a checkpoint in which that node is dispatched under
  the idempotency key of exactly these arguments; the outside world has not been touched yet.
\<close>

theorem write_ahead_durable:
  assumes "execute_pre e vp rp rr n s = (s', Inr (Call a k))" and "n_id n \<in> set (v_mutating_nodes vp)"
    and "ck_wf ((rs_checkpoint s)\<lparr>node_states := rs_states s\<rparr>)" and "schema_version (rs_checkpoint s) = CHECKPOINT_SCHEMA_VERSION"
  shows "\<exists>key c x. k = Some key \<and>
    node_idempotency_key (sha256 e) (v_digest vp) (n_id n) (case n_idempotency n of None \<Rightarrow> 0 | Some i \<Rightarrow> i_attempt_epoch i) a = Inr key \<and>
    store_load (sha256 e) (execution_id (rs_checkpoint s)) (rs_db s') = Inr c \<and> map_of (node_states c) (n_id n) = Some x \<and>
    ns_status x = DISPATCHED \<and> ns_idempotency_key x = Some key \<and> rs_world s' = rs_world s"
proof -
  from execute_pre_Call [OF assms(1)] assms(2) have w: "write_ahead e vp n a s = (s', Inr (Call a k))" by simp
  then show ?thesis
  proof (rule write_aheadD)
    fix key dg
    let ?f = "\<lambda>x. x\<lparr>ns_status := DISPATCHED, ns_idempotency_key := Some key, ns_operation_digest := Some dg\<rparr>"
    let ?c = "(rs_checkpoint s)\<lparr>node_states := put_state (n_id n) ?f (rs_states s)\<rparr>"
    assume k: "Call a k = Call a (Some key)"
      "node_idempotency_key (sha256 e) (v_digest vp) (n_id n) (case n_idempotency n of None \<Rightarrow> 0 | Some i \<Rightarrow> i_attempt_epoch i) a = Inr key"
      "persist e (upd (n_id n) ?f s) = (s', Inr ())"
    obtain db' r where sv: "store_save (sha256 e) ?c (fence_token (ck_lease ?c)) (rs_db s) = (db', r)" by (rule prod.exhaust)
    with k(3) have s': "r = Inr ()" "rs_db s' = db'" by (auto simp: persist_def Let_def upd_def)
    have wf: "ck_wf ?c" using assms(3) put_state_wf [of "rs_states s" "rs_checkpoint s" ?f "n_id n"] by simp
    from save_load [OF wf _ sv [unfolded s'(1)], of "n_id n"] assms(4)
    have l: "store_load (sha256 e) (execution_id (rs_checkpoint s)) (rs_db s') = Inr (norm_checkpoint ?c)"
      "map_of (node_states (norm_checkpoint ?c)) (n_id n) = map_option norm_state (map_of (put_state (n_id n) ?f (rs_states s)) (n_id n))"
      using s'(2) by simp_all
    have "rs_world s' = rs_world s" using persistD(2) [OF k(3)] by (simp add: frame_def upd_def)
    with k l show ?thesis by (simp add: put_state_def update_conv' norm_state_def)
  qed
qed

theorem write_ahead_durable_witness:
  "\<exists>s' c x. execute_pre demo_engine demo_validated False None demo_a (run_start demo_validated sample_checkpoint demo_db 0) =
      (s', Inr (Call [(''repository'', JStr ''o/r'')] (Some ''d''))) \<and>
    store_load (\<lambda>s. ''d'') ''e1'' (rs_db s') = Inr c \<and> map_of (node_states c) ''a'' = Some x \<and> ns_status x = DISPATCHED"
proof -
  let ?s = "run_start demo_validated sample_checkpoint demo_db (0 :: nat)"
  have st: "initial_states demo_validated sample_checkpoint = demo_states PENDING" by code_simp
  have "demo_at (demo_states PENDING) 0 ?s" using demo_open st by (simp add: demo_at_def run_start_def)
  from demo_write_ahead [OF this] obtain s' where
    s': "execute_pre demo_engine demo_validated False None demo_a ?s = (s', Inr (Call [(''repository'', JStr ''o/r'')] (Some ''d'')))" by blast
  have c: "rs_checkpoint ?s = sample_checkpoint" "rs_states ?s = demo_states PENDING" "execution_id sample_checkpoint = ''e1''"
    using st by (simp_all add: run_start_def sample_checkpoint_def)
  have "ck_wf (sample_checkpoint\<lparr>node_states := demo_states PENDING\<rparr>)" by code_simp
  with write_ahead_durable [OF s'] c sample_wf(2) s' show ?thesis by auto
qed


text \<open>
  C12. Admission spends the approval: when governance requires an approval, a fresh admission succeeds
  only with an approval bound to the digest of this very plan, not expired, whose scope contains
  every literal resource, and whose nonce nobody spent before; after it the nonce is spent and the
  checkpoint, recorded durably for the first time, names the approval.
\<close>

theorem admit_spends_approval:
  assumes "admit e vp ex princ projection policy now expires False db = (db', Inr c)" and "needs_approval e vp"
  shows "\<exists>a. p_approval (v_plan vp) = Some a \<and> a_digest a = v_digest vp \<and> now < a_expires_at_ms a \<and>
    (\<forall>(i, r) \<in> set (v_resource_keys vp). \<forall>k. r = Some k \<longrightarrow> k \<in> set (a_scope a)) \<and>
    \<not> token_spent (a_approval_id a) (a_nonce a) db \<and> token_spent (a_approval_id a) (a_nonce a) db' \<and>
    approval_ref c = Some (a_approval_id a) \<and> execution_id c = ex \<and>
    tbl_get r_execution_id ex (dag_checkpoint db) = None \<and> tbl_get r_execution_id ex (dag_checkpoint db') \<noteq> None"
proof -
  from assms(1) obtain db1 aref where ca: "check_approval e vp now ex db = (db1, Inr aref)"
    and cr: "store_create (sha256 e) c db1 = (db', Inr ())" and c: "approval_ref c = aref" "execution_id c = ex"
    by (auto simp: admit_def Let_def bind_s_Inr_iff split: if_splits)
  obtain a where a: "p_approval (v_plan vp) = Some a" "a_digest a = v_digest vp" "now < a_expires_at_ms a"
    "list_all (\<lambda>(i, r). case r of None \<Rightarrow> True | Some k \<Rightarrow> k \<in> set (a_scope a)) (v_resource_keys vp)"
    "store_consume_approval (a_approval_id a) (a_nonce a) ex db = (db1, True)" "aref = Some (a_approval_id a)"
    using ca assms(2) by (auto simp: check_approval_def split: option.splits if_splits prod.splits bool.splits)
  have spent: "\<not> token_spent (a_approval_id a) (a_nonce a) db" "token_spent (a_approval_id a) (a_nonce a) db1"
    "dag_checkpoint db1 = dag_checkpoint db"
    using a(5) by (auto simp: token_spent_iff store_consume_approval_def tbl_insert_def tbl_get_None_iff split: option.splits if_splits)
  have "dag_approval db' = dag_approval db1" using dag_approval_create [of "sha256 e" c db1] cr by simp
  then have sp: "token_spent (a_approval_id a) (a_nonce a) db'" using spent(2) by (simp add: token_spent_iff)
  have "tbl_get r_execution_id ex (dag_checkpoint db1) = None" "tbl_get r_execution_id ex (dag_checkpoint db') \<noteq> None"
    using cr c(2) by (auto simp: store_create_def tbl_insert_def tbl_get_None_iff split: sum.splits option.splits if_splits)
  with a c spent sp show ?thesis by (auto simp: list_all_iff)
qed

definition strict_engine :: "nat engine" where
  "strict_engine = demo_engine\<lparr>decide := (\<lambda>vp n a. \<lparr>allowed = True, d_reason = None, approval_required = True, d_policy_digest = []\<rparr>)\<rparr>"

definition demo_approval :: plan_approval where
  "demo_approval = \<lparr>a_approval_id = ''ap-1'', a_digest = ''d'', a_nonce = ''n1'', a_expires_at_ms = 50, a_scope = [''o/r''],
     a_required_for = [], a_runtime_bound = True, a_operation_digests = []\<rparr>"

definition approved_plan :: validated_plan where
  "approved_plan = demo_validated\<lparr>v_plan := sample_plan\<lparr>p_approval := Some demo_approval\<rparr>\<rparr>"

theorem admit_spends_approval_witness:
  "\<exists>db' c. admit strict_engine approved_plan ''e1'' ''p'' ''j'' ''o'' 10 1000 False dag_empty = (db', Inr c) \<and>
    token_spent ''ap-1'' ''n1'' db' \<and> approval_ref c = Some ''ap-1''"
proof -
  have n: "needs_approval strict_engine approved_plan" by code_simp
  define c where "c = sample_checkpoint\<lparr>approval_ref := Some ''ap-1'', node_states := [(''a'', node_state_new ''a''), (''b'', node_state_new ''b'')]\<rparr>"
  have cl: "clean c" unfolding c_def by code_simp
  have k: "check_approval strict_engine approved_plan 10 ''e1'' dag_empty =
      (\<lparr>dag_checkpoint = [], dag_approval = [\<lparr>ap_key = (''ap-1'', ''n1''), ap_execution_id = ''e1''\<rparr>]\<rparr>, Inr (Some ''ap-1''))"
    by code_simp
  have c: "\<lparr>execution_id = ''e1'', ck_plan_digest = v_digest approved_plan, principal_ref = ''p'', projection_digest = ''j'',
      policy_digest = ''o'',
      ck_lease = \<lparr>owner_id = engine_owner strict_engine, fence_token = 1, expires_at_ms = 1000, heartbeat_at_ms = 0\<rparr>,
      schema_version = CHECKPOINT_SCHEMA_VERSION, approval_ref = Some ''ap-1'', ck_status = None,
      node_states = map (\<lambda>n. (n_id n, node_state_new (n_id n))) (p_nodes (v_plan approved_plan)),
      budget_consumed = [], replay = False\<rparr> = c"
    by (simp add: c_def sample_checkpoint_def sample_lease0_def approved_plan_def demo_validated_def strict_engine_def demo_engine_def
        idle_engine_def sample_plan_def tool_node_def transform_node_def)
  have "enabled strict_engine" by (simp add: strict_engine_def)
  with k c cl obtain db' where a: "admit strict_engine approved_plan ''e1'' ''p'' ''j'' ''o'' 10 1000 False dag_empty = (db', Inr c)"
    by (simp add: admit_def Let_def store_create_def clean_def assert_no_secret_material_def record_digest_def hash_json_ok tbl_insert_def)
  have "p_approval (v_plan approved_plan) = Some demo_approval" by (simp add: approved_plan_def)
  with admit_spends_approval [OF a n] a show ?thesis by (auto simp: demo_approval_def)
qed


subsection \<open>Behaviours that differ from the documented failure semantics\<close>

text \<open>
  Under \<open>continue_independent\<close> the abort flag, which a failing \<open>abort_plan\<close> node sets, does not
  change what is dispatched next.
\<close>

lemma continue_ignores_abort:
  "p_failure_policy (v_plan vp) \<noteq> FAIL_FAST \<Longrightarrow> next_batch vp (s\<lparr>aborted := True\<rparr>) = next_batch vp (s\<lparr>aborted := False\<rparr>)"
  by (simp add: next_batch_def fail_fast_def)

text \<open>A node reconciled to a success on resume keeps the result it had, so a node that was only dispatched has none.\<close>

lemma reconciled_without_result:
  "ns_status (recon_put (Recon_effect r) n) = SUCCESS \<and> ns_result (recon_put (Recon_effect r) n) = ns_result n"
  by (simp add: recon_put_def)

end
