(* ===== verification/Dag_Interleave.thy ===== *)
theory Dag_Interleave
  imports Dag_Run
begin

section \<open>Concurrent batches (v2/dag\_engine.py)\<close>

text \<open>
  \<open>run\<close> starts the nodes of a batch as tasks of \<open>asyncio.gather\<close>. Each task (\<open>guarded\<close>) takes a
  permit of the semaphore, then the lock of its resource if it mutates one, and then runs
  \<open>execute\<close>, whose only suspension point is the call of the executor. Here a batch is a transition
  system over the shared run state and the tasks: permits are granted in task order, locks and
  returning calls in any order, and a task that raises leaves the others running, as \<open>gather\<close>
  does. The sequential batch of the engine theory is related to it at the end.
\<close>

subsection \<open>Tasks\<close>

datatype task =
  Waiting
| Queued "string option"
| Running args "string option" "string option"
| Finished
| Raised plan_error

record 'w gather =
  g_run :: "'w run_state"
  g_tasks :: "(node \<times> task) list"

text \<open>A task holds a permit from the semaphore until it finishes or raises.\<close>

definition holds_permit :: "task \<Rightarrow> bool" where
  "holds_permit t = (case t of Queued l \<Rightarrow> True | Running a k l \<Rightarrow> True | _ \<Rightarrow> False)"

definition holds_lock :: "string \<Rightarrow> task \<Rightarrow> bool" where
  "holds_lock r t = (case t of Running a k (Some l) \<Rightarrow> l = r | _ \<Rightarrow> False)"

definition permits :: "(node \<times> task) list \<Rightarrow> nat" where
  "permits ts = length (filter (holds_permit \<circ> snd) ts)"

definition lock_free :: "string option \<Rightarrow> (node \<times> task) list \<Rightarrow> bool" where
  "lock_free l ts = (case l of None \<Rightarrow> True | Some r \<Rightarrow> \<not> list_ex (holds_lock r \<circ> snd) ts)"

text \<open>The resource lock \<open>guarded\<close> picks; a binding that does not resolve picks none.\<close>

definition lock_of :: "'w engine \<Rightarrow> validated_plan \<Rightarrow> node \<Rightarrow> states \<Rightarrow> string option" where
  "lock_of e vp n st =
     (if n_id n \<in> set (v_mutating_nodes vp)
      then (case resolve_args (catalog e) n st of Inl err \<Rightarrow> None | Inr a \<Rightarrow> resource_key (catalog e) n a)
      else None)"

text \<open>The two atomic segments of \<open>execute\<close>, up to the call and after it.\<close>

definition noted :: "node \<Rightarrow> 'w run_state \<Rightarrow> 'w run_state" where
  "noted n s = s\<lparr>dispatch_order := dispatch_order s @ [n_id n], external_calls := external_calls s + 1\<rparr>"

definition enter_task ::
  "'w engine \<Rightarrow> validated_plan \<Rightarrow> bool \<Rightarrow> (string \<times> json) list option \<Rightarrow> node \<Rightarrow> string option \<Rightarrow> 'w run_state \<Rightarrow> 'w run_state \<times> task" where
  "enter_task e vp rp rr n l s =
     (case execute_pre e vp rp rr n s of
        (s', Inl err) \<Rightarrow> (s', Raised err)
      | (s', Inr Settled) \<Rightarrow> (s', Finished)
      | (s', Inr (Call a k)) \<Rightarrow> (noted n s', Running a k l))"

definition return_task ::
  "'w engine \<Rightarrow> validated_plan \<Rightarrow> node \<Rightarrow> args \<Rightarrow> string option \<Rightarrow> 'w run_state \<Rightarrow> 'w run_state \<times> task" where
  "return_task e vp n a k s =
     (case executor e n a (rs_world s) of (out, w) \<Rightarrow>
      (case execute_post e vp n k out (s\<lparr>rs_world := w\<rparr>) of
         (s', Inl err) \<Rightarrow> (s', Raised err)
       | (s', Inr _) \<Rightarrow> (s', Finished)))"

inductive gather_step :: "'w engine \<Rightarrow> validated_plan \<Rightarrow> bool \<Rightarrow> (string \<times> json) list option \<Rightarrow> 'w gather \<Rightarrow> 'w gather \<Rightarrow> bool"
  for e vp rp rr where
  permit: "i < length ts \<Longrightarrow> ts ! i = (n, Waiting) \<Longrightarrow> \<forall>j < i. snd (ts ! j) \<noteq> Waiting \<Longrightarrow>
     int (permits ts) < effective_parallelism e vp \<Longrightarrow>
     gather_step e vp rp rr \<lparr>g_run = s, g_tasks = ts\<rparr> \<lparr>g_run = s, g_tasks = ts[i := (n, Queued (lock_of e vp n (rs_states s)))]\<rparr>"
| enter: "i < length ts \<Longrightarrow> ts ! i = (n, Queued l) \<Longrightarrow> lock_free l ts \<Longrightarrow> enter_task e vp rp rr n l s = (s', t) \<Longrightarrow>
     gather_step e vp rp rr \<lparr>g_run = s, g_tasks = ts\<rparr> \<lparr>g_run = s', g_tasks = ts[i := (n, t)]\<rparr>"
| return: "i < length ts \<Longrightarrow> ts ! i = (n, Running a k l) \<Longrightarrow> return_task e vp n a k s = (s', t) \<Longrightarrow>
     gather_step e vp rp rr \<lparr>g_run = s, g_tasks = ts\<rparr> \<lparr>g_run = s', g_tasks = ts[i := (n, t)]\<rparr>"

definition gather_start :: "node list \<Rightarrow> 'w run_state \<Rightarrow> 'w gather" where
  "gather_start ns s = \<lparr>g_run = s, g_tasks = map (\<lambda>n. (n, Waiting)) ns\<rparr>"

definition gather_runs :: "'w engine \<Rightarrow> validated_plan \<Rightarrow> bool \<Rightarrow> (string \<times> json) list option \<Rightarrow> 'w gather \<Rightarrow> 'w gather \<Rightarrow> bool" where
  "gather_runs e vp rp rr = (gather_step e vp rp rr)\<^sup>*\<^sup>*"

subsection \<open>Bounds under every interleaving\<close>

lemma permits_update:
  assumes "i < length ts" "ts ! i = (n, t)"
  shows "permits (ts[i := (n, t')]) + (if holds_permit t then 1 else 0) = permits ts + (if holds_permit t' then 1 else 0)"
proof -
  have d: "ts = take i ts @ (n, t) # drop (Suc i) ts" using assms by (metis id_take_nth_drop)
  have "ts[i := (n, t')] = take i ts @ (n, t') # drop (Suc i) ts" using assms(1) by (rule upd_conv_take_nth_drop)
  moreover have "permits ts = permits (take i ts @ (n, t) # drop (Suc i) ts)" using d by simp
  ultimately show ?thesis by (simp add: permits_def)
qed

lemma permit_counts: "i < length ts \<Longrightarrow> holds_permit (snd (ts ! i)) \<Longrightarrow> 0 < permits ts"
  by (auto simp: permits_def length_greater_0_conv filter_empty_conv)

lemma enter_taskD:
  assumes "enter_task e vp rp rr n l s = (s', t)"
  shows "t = Finished \<or> (\<exists>err. t = Raised err) \<or> (\<exists>a k. t = Running a k l)"
    "dag_approval (rs_db s') = dag_approval (rs_db s)" "rs_world s' = rs_world s"
    "(\<exists>a k. t = Running a k l \<and> authorised e vp rp n a s) \<and> dispatch_order s' = dispatch_order s @ [n_id n] \<and> external_calls s' = external_calls s + 1 \<or>
     dispatch_order s' = dispatch_order s \<and> external_calls s' = external_calls s"
proof -
  obtain u r where u: "execute_pre e vp rp rr n s = (u, r)" by (rule prod.exhaust)
  have q: "quiet s u" using quiet_execute_pre [of s e vp rp rr n] u by simp
  have "(t = Finished \<or> (\<exists>err. t = Raised err) \<or> (\<exists>a k. t = Running a k l)) \<and>
    dag_approval (rs_db s') = dag_approval (rs_db s) \<and> rs_world s' = rs_world s \<and>
    ((\<exists>a k. t = Running a k l \<and> authorised e vp rp n a s) \<and> dispatch_order s' = dispatch_order s @ [n_id n] \<and> external_calls s' = external_calls s + 1 \<or>
     dispatch_order s' = dispatch_order s \<and> external_calls s' = external_calls s)"
  proof (cases r)
    case (Inl err)
    with assms u q show ?thesis by (auto simp: enter_task_def quiet_def)
  next
    case (Inr p)
    show ?thesis
    proof (cases p)
      case Settled
      with assms u q Inr show ?thesis by (auto simp: enter_task_def quiet_def)
    next
      case (Call a k)
      with u Inr execute_pre_Call have "authorised e vp rp n a s" by blast
      with assms u q Inr Call show ?thesis by (auto simp: enter_task_def quiet_def noted_def)
    qed
  qed
  then show "t = Finished \<or> (\<exists>err. t = Raised err) \<or> (\<exists>a k. t = Running a k l)"
    "dag_approval (rs_db s') = dag_approval (rs_db s)" "rs_world s' = rs_world s"
    "(\<exists>a k. t = Running a k l \<and> authorised e vp rp n a s) \<and> dispatch_order s' = dispatch_order s @ [n_id n] \<and> external_calls s' = external_calls s + 1 \<or>
     dispatch_order s' = dispatch_order s \<and> external_calls s' = external_calls s" by blast+
qed

lemma return_taskD:
  assumes "return_task e vp n a k s = (s', t)"
  shows "t = Finished \<or> (\<exists>err. t = Raised err)" "dag_approval (rs_db s') = dag_approval (rs_db s)"
    "dispatch_order s' = dispatch_order s" "external_calls s' = external_calls s"
proof -
  obtain out w where o: "executor e n a (rs_world s) = (out, w)" by (rule prod.exhaust)
  obtain u r where u: "execute_post e vp n k out (s\<lparr>rs_world := w\<rparr>) = (u, r)" by (rule prod.exhaust)
  have "quiet (s\<lparr>rs_world := w\<rparr>) u" using quiet_execute_post [of "s\<lparr>rs_world := w\<rparr>" e vp n k out] u by simp
  with assms o u show "t = Finished \<or> (\<exists>err. t = Raised err)" "dag_approval (rs_db s') = dag_approval (rs_db s)"
    "dispatch_order s' = dispatch_order s" "external_calls s' = external_calls s"
    by (cases r; auto simp: return_task_def quiet_def)+
qed

definition started :: "task \<Rightarrow> bool" where
  "started t = (case t of Waiting \<Rightarrow> False | Queued l \<Rightarrow> False | _ \<Rightarrow> True)"

definition exclusive :: "(node \<times> task) list \<Rightarrow> bool" where
  "exclusive ts \<longleftrightarrow> (\<forall>r i j. i < length ts \<longrightarrow> j < length ts \<longrightarrow> holds_lock r (snd (ts ! i)) \<longrightarrow> holds_lock r (snd (ts ! j)) \<longrightarrow> i = j)"

definition gather_inv :: "'w engine \<Rightarrow> validated_plan \<Rightarrow> node list \<Rightarrow> 'w run_state \<Rightarrow> 'w gather \<Rightarrow> bool" where
  "gather_inv e vp ns s0 g \<longleftrightarrow> map fst (g_tasks g) = ns \<and> int (permits (g_tasks g)) \<le> effective_parallelism e vp \<and> exclusive (g_tasks g) \<and>
     dag_approval (rs_db (g_run g)) = dag_approval (rs_db s0) \<and>
     (\<exists>ks. dispatch_order (g_run g) = dispatch_order s0 @ ks \<and> distinct ks \<and>
        (\<forall>k \<in> set ks. \<exists>j < length ns. k = n_id (ns ! j) \<and> started (snd (g_tasks g ! j))) \<and>
        external_calls (g_run g) = external_calls s0 + int (length ks)) \<and>
     external_calls (g_run g) \<le> max_external_calls (p_budget (v_plan vp))"

lemma exclusive_update:
  assumes "exclusive ts" "i < length ts"
    and "\<And>r. holds_lock r t \<Longrightarrow> \<forall>j < length ts. j \<noteq> i \<longrightarrow> \<not> holds_lock r (snd (ts ! j))"
  shows "exclusive (ts[i := (n, t)])"
  unfolding exclusive_def
proof (intro allI impI)
  fix r j k
  assume jk: "j < length (ts[i := (n, t)])" "k < length (ts[i := (n, t)])"
    and hj: "holds_lock r (snd (ts[i := (n, t)] ! j))" and hk: "holds_lock r (snd (ts[i := (n, t)] ! k))"
  show "j = k"
  proof (cases "j = i \<or> k = i")
    case True
    with jk hj hk assms(2,3) show ?thesis by (auto simp: nth_list_update split: if_splits)
  next
    case False
    with jk hj hk assms(1) show ?thesis by (simp add: exclusive_def)
  qed
qed

lemma lock_free_running:
  "lock_free l ts \<Longrightarrow> holds_lock r (Running a k l) \<Longrightarrow> \<forall>j < length ts. \<not> holds_lock r (snd (ts ! j))"
proof -
  assume l: "lock_free l ts" and h: "holds_lock r (Running a k l)"
  then have "l = Some r" by (auto simp: holds_lock_def split: option.splits)
  with l show ?thesis by (simp add: lock_free_def list_ex_iff)
qed

lemma task_simps [simp]:
  "\<not> holds_lock r Finished" "\<not> holds_lock r (Raised err)" "\<not> holds_lock r (Queued l)" "\<not> holds_lock r Waiting"
  "\<not> holds_permit Finished" "\<not> holds_permit (Raised err)" "\<not> holds_permit Waiting" "holds_permit (Queued l)" "holds_permit (Running a k l)"
  "started Finished" "started (Raised err)" "started (Running a k l)" "\<not> started (Queued l)" "\<not> started Waiting"
  by (simp_all add: holds_lock_def holds_permit_def started_def)

lemma map_fst_update: "i < length ts \<Longrightarrow> ts ! i = (n, t) \<Longrightarrow> map fst (ts[i := (n, t')]) = map fst ts"
  by (simp add: map_update list_update_same_conv)

lemma gather_inv_permit:
  assumes inv: "gather_inv e vp ns s0 \<lparr>g_run = s, g_tasks = ts\<rparr>"
    and permit: "i < length ts" "ts ! i = (n, Waiting)" "\<forall>j < i. snd (ts ! j) \<noteq> Waiting" "int (permits ts) < effective_parallelism e vp"
    and dist: "distinct (map n_id ns)"
  shows "gather_inv e vp ns s0 \<lparr>g_run = s, g_tasks = ts[i := (n, Queued (lock_of e vp n (rs_states s)))]\<rparr>"
proof -
  note u = permits_update [OF permit(1,2), of "Queued (lock_of e vp n (rs_states s))"]
  have "exclusive (ts[i := (n, Queued (lock_of e vp n (rs_states s)))])"
    using inv permit by (intro exclusive_update) (simp_all add: gather_inv_def)
  moreover have "map fst (ts[i := (n, Queued (lock_of e vp n (rs_states s)))]) = ns"
    using inv permit by (simp add: gather_inv_def map_fst_update)
  moreover have "length ts = length ns" using inv permit by (auto simp: gather_inv_def)
  then have "started (snd (ts[i := (n, Queued (lock_of e vp n (rs_states s)))] ! j))" if "j < length ns" "started (snd (ts ! j))" for j
    using that permit by (auto simp: nth_list_update)
  moreover have "int (permits (ts[i := (n, Queued (lock_of e vp n (rs_states s)))])) \<le> effective_parallelism e vp"
    using u permit(4) by simp
  ultimately show ?thesis using inv permit by (simp add: gather_inv_def) blast
qed

lemma gather_inv_enter:
  assumes inv: "gather_inv e vp ns s0 \<lparr>g_run = s, g_tasks = ts\<rparr>"
    and enter: "i < length ts" "ts ! i = (n, Queued l)" "lock_free l ts" "enter_task e vp rp rr n l s = (s', t)"
    and dist: "distinct (map n_id ns)"
  shows "gather_inv e vp ns s0 \<lparr>g_run = s', g_tasks = ts[i := (n, t)]\<rparr>"
proof -
  note d = enter_taskD [OF enter(4)]
  have len: "length ts = length ns" and fst: "map fst ts = ns" using inv enter by (auto simp: gather_inv_def)
  have ni: "ns ! i = n" using enter fst by (metis fst_conv nth_map)
  have "exclusive (ts[i := (n, t)])"
    using inv enter d(1) lock_free_running [OF enter(3)] by (intro exclusive_update) (auto simp: gather_inv_def)
  moreover have "map fst (ts[i := (n, t)]) = ns" using enter fst by (simp add: map_fst_update)
  moreover have "int (permits (ts[i := (n, t)])) \<le> effective_parallelism e vp"
    using permits_update [OF enter(1,2), of t] inv enter by (auto simp: gather_inv_def split: if_splits)
  moreover have "dag_approval (rs_db s') = dag_approval (rs_db s0)" using inv enter d(2) by (simp add: gather_inv_def)
  moreover
  obtain ks where ks: "dispatch_order s = dispatch_order s0 @ ks" "distinct ks"
    "\<forall>k \<in> set ks. \<exists>j < length ns. k = n_id (ns ! j) \<and> started (snd (ts ! j))" "external_calls s = external_calls s0 + int (length ks)"
    "external_calls s \<le> max_external_calls (p_budget (v_plan vp))"
    using inv enter by (auto simp: gather_inv_def)
  have tn: "started t" using d(1) by auto
  have st: "started (snd (ts[i := (n, t)] ! j))" if "j < length ns" "started (snd (ts ! j))" for j
    using that enter tn len by (simp add: nth_list_update)
  have new: "n_id n \<notin> set ks"
  proof
    assume "n_id n \<in> set ks"
    with ks(3) obtain j where j: "j < length ns" "n_id n = n_id (ns ! j)" "started (snd (ts ! j))" by blast
    then have "j = i" using dist ni enter(1) len by (metis length_map nth_eq_iff_index_eq nth_map)
    with j enter show False by simp
  qed
  have "(\<exists>ks. dispatch_order s' = dispatch_order s0 @ ks \<and> distinct ks \<and>
      (\<forall>k \<in> set ks. \<exists>j < length ns. k = n_id (ns ! j) \<and> started (snd (ts[i := (n, t)] ! j))) \<and>
      external_calls s' = external_calls s0 + int (length ks)) \<and> external_calls s' \<le> max_external_calls (p_budget (v_plan vp))"
    using d(4)
  proof (elim disjE conjE exE)
    fix a k assume r: "t = Running a k l" "authorised e vp rp n a s" "dispatch_order s' = dispatch_order s @ [n_id n]"
      "external_calls s' = external_calls s + 1"
    have "\<exists>j < length ns. n_id n = n_id (ns ! j) \<and> started (snd (ts[i := (n, t)] ! j))"
      using ni enter(1) len tn by (intro exI [of _ i]) simp
    moreover have "\<forall>k \<in> set ks. \<exists>j < length ns. k = n_id (ns ! j) \<and> started (snd (ts[i := (n, t)] ! j))" using ks(3) st by blast
    moreover have "external_calls s' \<le> max_external_calls (p_budget (v_plan vp))" using r by (simp add: authorised_def)
    ultimately show ?thesis using ks new r by (intro conjI exI [of _ "ks @ [n_id n]"]) auto
  next
    assume "dispatch_order s' = dispatch_order s" "external_calls s' = external_calls s"
    with ks st show ?thesis by (intro conjI exI [of _ ks]) auto
  qed
  ultimately show ?thesis using enter by (auto simp: gather_inv_def)
qed

lemma gather_inv_return:
  assumes inv: "gather_inv e vp ns s0 \<lparr>g_run = s, g_tasks = ts\<rparr>"
    and return: "i < length ts" "ts ! i = (n, Running a k l)" "return_task e vp n a k s = (s', t)"
    and dist: "distinct (map n_id ns)"
  shows "gather_inv e vp ns s0 \<lparr>g_run = s', g_tasks = ts[i := (n, t)]\<rparr>"
proof -
  note d = return_taskD [OF return(3)]
  have len: "length ts = length ns" and fst: "map fst ts = ns" using inv return by (auto simp: gather_inv_def)
  have "exclusive (ts[i := (n, t)])" using inv return d(1) by (intro exclusive_update) (auto simp: gather_inv_def)
  moreover have "map fst (ts[i := (n, t)]) = ns" using return fst by (simp add: map_fst_update)
  moreover have "int (permits (ts[i := (n, t)])) \<le> effective_parallelism e vp"
    using permits_update [OF return(1,2), of t] inv return d(1) by (auto simp: gather_inv_def split: if_splits)
  moreover have "started (snd (ts[i := (n, t)] ! j))" if "j < length ns" "started (snd (ts ! j))" for j
    using that return d(1) len by (auto simp: nth_list_update)
  ultimately show ?thesis using inv return d by (simp add: gather_inv_def) blast
qed

lemma gather_inv_step:
  assumes "gather_step e vp rp rr g g'" "gather_inv e vp ns s0 g" "distinct (map n_id ns)"
  shows "gather_inv e vp ns s0 g'"
  using assms(1)
proof cases
  case (permit i ts n s)
  then show ?thesis using gather_inv_permit assms(2,3) by blast
next
  case (enter i ts n l s s' t)
  then show ?thesis using gather_inv_enter assms(2,3) by blast
next
  case (return i ts n a k l s s' t)
  then show ?thesis using gather_inv_return assms(2,3) by blast
qed

lemma gather_inv_start:
  assumes "external_calls s \<le> max_external_calls (p_budget (v_plan vp))"
  shows "gather_inv e vp ns s (gather_start ns s)"
proof -
  have "permits (map (\<lambda>n. (n, Waiting)) ns) = 0" by (induction ns) (simp_all add: permits_def)
  moreover have "0 \<le> effective_parallelism e vp" by (simp add: effective_parallelism_def Let_def)
  moreover have "exclusive (map (\<lambda>n. (n, Waiting)) ns)" by (simp add: exclusive_def)
  ultimately show ?thesis using assms by (simp add: gather_inv_def gather_start_def comp_def)
qed

lemma gather_inv_runs:
  assumes "gather_runs e vp rp rr (gather_start ns s) g" "external_calls s \<le> max_external_calls (p_budget (v_plan vp))" "distinct (map n_id ns)"
  shows "gather_inv e vp ns s g"
  using assms(1) unfolding gather_runs_def
  by (induction rule: rtranclp_induct) (use assms(2,3) gather_inv_start gather_inv_step in blast)+

text \<open>
  C6. Bounds of a concurrent batch: in every state a batch of distinct nodes reaches under any
  interleaving, whether or not some task has raised, at most \<open>effective_parallelism\<close> tasks hold a
  permit, no two running tasks hold the lock of the same resource, every node is dispatched at most
  once, and the calls counted are the dispatches and never exceed the budget.
\<close>

theorem gather_bounds:
  assumes "gather_runs e vp rp rr (gather_start ns s) g" and "distinct (map n_id ns)"
    and "external_calls s \<le> max_external_calls (p_budget (v_plan vp))"
  shows "int (permits (g_tasks g)) \<le> effective_parallelism e vp \<and>
    (\<forall>i j r. i < length (g_tasks g) \<and> j < length (g_tasks g) \<and> holds_lock r (snd (g_tasks g ! i)) \<and> holds_lock r (snd (g_tasks g ! j)) \<longrightarrow> i = j) \<and>
    (\<exists>ks. dispatch_order (g_run g) = dispatch_order s @ ks \<and> distinct ks \<and> set ks \<subseteq> n_id ` set ns \<and>
       external_calls (g_run g) = external_calls s + int (length ks)) \<and>
    external_calls (g_run g) \<le> max_external_calls (p_budget (v_plan vp))"
proof -
  note inv = gather_inv_runs [OF assms(1,3,2), unfolded gather_inv_def]
  from inv obtain ks where ks: "dispatch_order (g_run g) = dispatch_order s @ ks" "distinct ks"
    "\<forall>k \<in> set ks. \<exists>j < length ns. k = n_id (ns ! j) \<and> started (snd (g_tasks g ! j))"
    "external_calls (g_run g) = external_calls s + int (length ks)" by blast
  from ks(3) have "set ks \<subseteq> n_id ` set ns" by (metis imageI nth_mem subsetI)
  with ks(1,2,4) have "\<exists>ks. dispatch_order (g_run g) = dispatch_order s @ ks \<and> distinct ks \<and> set ks \<subseteq> n_id ` set ns \<and>
       external_calls (g_run g) = external_calls s + int (length ks)" by blast
  moreover have "\<forall>i j r. i < length (g_tasks g) \<and> j < length (g_tasks g) \<and> holds_lock r (snd (g_tasks g ! i)) \<and> holds_lock r (snd (g_tasks g ! j)) \<longrightarrow> i = j"
    using inv unfolding exclusive_def by blast
  ultimately show ?thesis using inv by blast
qed

subsection \<open>With one permit the batch is sequential\<close>

text \<open>The two segments together are \<open>execute\<close>.\<close>

definition task_result :: "task \<Rightarrow> (plan_error, unit) result" where
  "task_result t = (case t of Raised err \<Rightarrow> Inl err | _ \<Rightarrow> Inr ())"

lemma execute_segments:
  assumes "enter_task e vp rp rr n l s = (s1, t)"
  shows "execute e vp rp rr n s =
    (case t of Running a k l \<Rightarrow> (case return_task e vp n a k s1 of (s2, t2) \<Rightarrow> (s2, task_result t2)) | _ \<Rightarrow> (s1, task_result t))"
proof -
  obtain u r where u: "execute_pre e vp rp rr n s = (u, r)" by (rule prod.exhaust)
  show ?thesis
  proof (cases r)
    case (Inl err)
    with assms u show ?thesis by (auto simp: enter_task_def execute_def task_result_def)
  next
    case (Inr p)
    show ?thesis
    proof (cases p)
      case Settled
      with assms u Inr show ?thesis by (auto simp: enter_task_def execute_def task_result_def)
    next
      case (Call a k)
      with assms u Inr have t: "t = Running a k l" "s1 = noted n u" by (auto simp: enter_task_def)
      obtain out w where o: "executor e n a (rs_world u) = (out, w)" by (rule prod.exhaust)
      then have d: "dispatch e n a u = (s1\<lparr>rs_world := w\<rparr>, out)" using t by (simp add: dispatch_def noted_def)
      have "rs_world s1 = rs_world u" using t by (simp add: noted_def)
      obtain v q where v: "execute_post e vp n k out (s1\<lparr>rs_world := w\<rparr>) = (v, q)" by (rule prod.exhaust)
      have "execute e vp rp rr n s = (v, q)" using u Inr Call d v by (simp add: execute_def)
      moreover have "return_task e vp n a k s1 = (v, case q of Inl err \<Rightarrow> Raised err | Inr _ \<Rightarrow> Finished)"
        using o v \<open>rs_world s1 = rs_world u\<close> by (cases q) (simp_all add: return_task_def)
      ultimately show ?thesis using t by (cases q) (simp_all add: task_result_def)
    qed
  qed
qed

lemma for_each_snoc: "for_each f (xs @ [x]) s = bind_s (for_each f xs s) (\<lambda>s _. f x s)"
proof (induction xs arbitrary: s)
  case Nil
  show ?case by (cases "f x s"; cases "snd (f x s)") auto
next
  case (Cons y xs)
  obtain t r where "f y s = (t, r)" by (rule prod.exhaust)
  with Cons.IH show ?case by (cases r) simp_all
qed

definition seq_at :: "'w engine \<Rightarrow> validated_plan \<Rightarrow> bool \<Rightarrow> (string \<times> json) list option \<Rightarrow> node list \<Rightarrow> 'w run_state \<Rightarrow> nat \<Rightarrow> 'w gather \<Rightarrow> bool" where
  "seq_at e vp rp rr ns s0 k g \<longleftrightarrow> k \<le> length ns \<and> (\<forall>i < k. snd (g_tasks g ! i) = Finished) \<and>
     (\<forall>i. k < i \<and> i < length ns \<longrightarrow> snd (g_tasks g ! i) = Waiting) \<and>
     (\<exists>sk. for_each (execute e vp rp rr) (take k ns) s0 = (sk, Inr ()) \<and>
        (if k = length ns then g_run g = sk
         else (case snd (g_tasks g ! k) of
            Waiting \<Rightarrow> g_run g = sk
          | Queued l \<Rightarrow> g_run g = sk
          | Running a key l \<Rightarrow> enter_task e vp rp rr (ns ! k) l sk = (g_run g, Running a key l)
          | _ \<Rightarrow> False)))"

definition seq_inv :: "'w engine \<Rightarrow> validated_plan \<Rightarrow> bool \<Rightarrow> (string \<times> json) list option \<Rightarrow> node list \<Rightarrow> 'w run_state \<Rightarrow> 'w gather \<Rightarrow> bool" where
  "seq_inv e vp rp rr ns s0 g \<longleftrightarrow> map fst (g_tasks g) = ns \<and>
     ((\<exists>i err. i < length ns \<and> snd (g_tasks g ! i) = Raised err) \<or> (\<exists>k. seq_at e vp rp rr ns s0 k g))"

text \<open>The node at position \<open>k\<close> ends without raising: the front moves on.\<close>

lemma seq_advance:
  assumes "k < length ns" "length ts = length ns" "\<forall>i < k. snd (ts ! i) = Finished" "\<forall>i. k < i \<and> i < length ns \<longrightarrow> snd (ts ! i) = Waiting"
    and "for_each (execute e vp rp rr) (take k ns) s0 = (sk, Inr ())" "execute e vp rp rr (ns ! k) sk = (s', Inr ())"
  shows "seq_at e vp rp rr ns s0 (Suc k) \<lparr>g_run = s', g_tasks = ts[k := (n, Finished)]\<rparr>"
proof -
  have "for_each (execute e vp rp rr) (take (Suc k) ns) s0 = (s', Inr ())"
    using assms(1,5,6) by (simp add: take_Suc_conv_app_nth for_each_snoc)
  moreover have "snd (ts[k := (n, Finished)] ! i) = Finished" if "i < Suc k" for i
    using that assms(1-3) by (auto simp: nth_list_update less_Suc_eq)
  ultimately show ?thesis using assms(1,2,4) by (auto simp: seq_at_def)
qed

lemma raised_update:
  "ts ! i = (n, t) \<Longrightarrow> t \<noteq> Raised err \<Longrightarrow> snd (ts ! j) = Raised err \<Longrightarrow> snd (ts[i := (n, t')] ! j) = Raised err"
  by (cases "i = j") auto

lemma seq_inv_permit:
  assumes inv: "seq_inv e vp rp rr ns s0 \<lparr>g_run = s, g_tasks = ts\<rparr>"
    and permit: "i < length ts" "ts ! i = (n, Waiting)" "\<forall>j < i. snd (ts ! j) \<noteq> Waiting" "int (permits ts) < effective_parallelism e vp"
    and one: "effective_parallelism e vp = 1"
  shows "seq_inv e vp rp rr ns s0 \<lparr>g_run = s, g_tasks = ts[i := (n, Queued (lock_of e vp n (rs_states s)))]\<rparr>"
proof -
  let ?t = "Queued (lock_of e vp n (rs_states s))"
  have fst: "map fst ts = ns" "length ts = length ns" using inv permit by (auto simp: seq_inv_def)
  have fst': "map fst (ts[i := (n, ?t)]) = ns" using permit fst by (simp add: map_fst_update)
  from inv permit consider (raised) j err where "j < length ns" "snd (ts ! j) = Raised err"
    | (at) k where "seq_at e vp rp rr ns s0 k \<lparr>g_run = s, g_tasks = ts\<rparr>" by (auto simp: seq_inv_def)
  then show ?thesis
  proof cases
    case raised
    then have "snd (ts[i := (n, ?t)] ! j) = Raised err" using raised_update [OF permit(2)] by simp
    with raised fst' show ?thesis by (auto simp: seq_inv_def)
  next
    case at
    have "permits ts = 0" using permit(4) one by simp
    then have idle: "\<not> holds_permit (snd (ts ! k))" if "k < length ts" using permit_counts that by (metis less_irrefl)
    from at have k: "k \<le> length ns" "\<forall>j < k. snd (ts ! j) = Finished" by (simp_all add: seq_at_def)
    have ik: "k \<le> i"
    proof (rule ccontr)
      assume "\<not> k \<le> i"
      then have "snd (ts ! i) = Finished" using k(2) by simp
      with permit(2) show False by simp
    qed
    have kl: "k < length ts" using ik permit by simp
    then have w: "snd (ts ! k) = Waiting" using at idle fst(2) by (cases "snd (ts ! k)") (auto simp: seq_at_def)
    have i: "i = k"
    proof (rule ccontr)
      assume "i \<noteq> k"
      with ik have "k < i" by simp
      with permit(3) w show False by blast
    qed
    then have "seq_at e vp rp rr ns s0 k \<lparr>g_run = s, g_tasks = ts[i := (n, ?t)]\<rparr>"
      using at w kl fst(2) by (auto simp: seq_at_def)
    with fst' show ?thesis by (auto simp: seq_inv_def)
  qed
qed

lemma seq_inv_enter:
  assumes inv: "seq_inv e vp rp rr ns s0 \<lparr>g_run = s, g_tasks = ts\<rparr>"
    and enter: "i < length ts" "ts ! i = (n, Queued l)" "lock_free l ts" "enter_task e vp rp rr n l s = (s', t)"
    and one: "effective_parallelism e vp = 1"
  shows "seq_inv e vp rp rr ns s0 \<lparr>g_run = s', g_tasks = ts[i := (n, t)]\<rparr>"
proof -
  have fst: "map fst ts = ns" "length ts = length ns" using inv enter by (auto simp: seq_inv_def)
  have fst': "map fst (ts[i := (n, t)]) = ns" using enter fst by (simp add: map_fst_update)
  have ni: "ns ! i = n" using enter fst by (metis fst_conv nth_map)
  from inv enter consider (raised) j err where "j < length ns" "snd (ts ! j) = Raised err"
    | (at) k where "seq_at e vp rp rr ns s0 k \<lparr>g_run = s, g_tasks = ts\<rparr>" by (auto simp: seq_inv_def)
  then show ?thesis
  proof cases
    case raised
    then have "snd (ts[i := (n, t)] ! j) = Raised err" using raised_update [OF enter(2)] by simp
    with raised fst' show ?thesis by (auto simp: seq_inv_def)
  next
    case at
    then have k: "k \<le> length ns" "\<forall>j < k. snd (ts ! j) = Finished" "\<forall>i. k < i \<and> i < length ns \<longrightarrow> snd (ts ! i) = Waiting"
      by (simp_all add: seq_at_def)
    have i: "i = k"
    proof (rule linorder_cases [of i k])
      assume "i < k"
      with k(2) enter(2) show ?thesis by force
    next
      assume "k < i"
      then have "snd (ts ! i) = Waiting" using k(3) enter(1) fst(2) by simp
      with enter(2) show ?thesis by simp
    qed
    with at enter(1,2) fst(2) obtain sk where sk: "for_each (execute e vp rp rr) (take k ns) s0 = (sk, Inr ())" "sk = s"
      by (auto simp: seq_at_def)
    note x = execute_segments [OF enter(4)]
    from enter_taskD(1) [OF enter(4)] show ?thesis
    proof (elim disjE exE)
      assume t: "t = Finished"
      have "seq_at e vp rp rr ns s0 (Suc k) \<lparr>g_run = s', g_tasks = ts[k := (n, Finished)]\<rparr>"
        by (rule seq_advance [OF _ fst(2) k(2,3) sk(1)]) (use x t sk ni i enter(1) fst(2) in \<open>auto simp: task_result_def\<close>)
      with fst'  t i show ?thesis by (auto simp: seq_inv_def)
    next
      fix err assume "t = Raised err"
      then have "snd (ts[i := (n, t)] ! i) = Raised err" "i < length ns" using enter(1) fst(2) by simp_all
      with fst' show ?thesis by (auto simp: seq_inv_def)
    next
      fix a key assume t: "t = Running a key l"
      have "seq_at e vp rp rr ns s0 k \<lparr>g_run = s', g_tasks = ts[i := (n, t)]\<rparr>"
        using k sk t enter(1,4) i ni fst(2) by (auto simp: seq_at_def)
      with fst' show ?thesis by (auto simp: seq_inv_def)
    qed
  qed
qed

lemma seq_inv_return:
  assumes inv: "seq_inv e vp rp rr ns s0 \<lparr>g_run = s, g_tasks = ts\<rparr>"
    and return: "i < length ts" "ts ! i = (n, Running a key l)" "return_task e vp n a key s = (s', t)"
    and one: "effective_parallelism e vp = 1"
  shows "seq_inv e vp rp rr ns s0 \<lparr>g_run = s', g_tasks = ts[i := (n, t)]\<rparr>"
proof -
  have fst: "map fst ts = ns" "length ts = length ns" using inv return by (auto simp: seq_inv_def)
  have fst': "map fst (ts[i := (n, t)]) = ns" using return fst by (simp add: map_fst_update)
  have ni: "ns ! i = n" using return fst by (metis fst_conv nth_map)
  from inv return consider (raised) j err where "j < length ns" "snd (ts ! j) = Raised err"
    | (at) k where "seq_at e vp rp rr ns s0 k \<lparr>g_run = s, g_tasks = ts\<rparr>" by (auto simp: seq_inv_def)
  then show ?thesis
  proof cases
    case raised
    then have "snd (ts[i := (n, t)] ! j) = Raised err" using raised_update [OF return(2)] by simp
    with raised fst' show ?thesis by (auto simp: seq_inv_def)
  next
    case at
    then have k: "k \<le> length ns" "\<forall>j < k. snd (ts ! j) = Finished" "\<forall>i. k < i \<and> i < length ns \<longrightarrow> snd (ts ! i) = Waiting"
      by (simp_all add: seq_at_def)
    have i: "i = k"
    proof (rule linorder_cases [of i k])
      assume "i < k"
      with k(2) return(2) show ?thesis by force
    next
      assume "k < i"
      then have "snd (ts ! i) = Waiting" using k(3) return(1) fst(2) by simp
      with return(2) show ?thesis by simp
    qed
    with at return(1,2) fst(2) ni obtain sk where sk: "for_each (execute e vp rp rr) (take k ns) s0 = (sk, Inr ())"
      "enter_task e vp rp rr (ns ! k) l sk = (s, Running a key l)" by (auto simp: seq_at_def)
    note x = execute_segments [OF sk(2)]
    from return_taskD(1) [OF return(3)] show ?thesis
    proof (elim disjE exE)
      assume t: "t = Finished"
      have "seq_at e vp rp rr ns s0 (Suc k) \<lparr>g_run = s', g_tasks = ts[k := (n, Finished)]\<rparr>"
        by (rule seq_advance [OF _ fst(2) k(2,3) sk(1)]) (use x t ni i return(1,3) fst(2) in \<open>auto simp: task_result_def\<close>)
      with fst'  t i show ?thesis by (auto simp: seq_inv_def)
    next
      fix err assume "t = Raised err"
      then have "snd (ts[i := (n, t)] ! i) = Raised err" "i < length ns" using return(1) fst(2) by simp_all
      with fst' show ?thesis by (auto simp: seq_inv_def)
    qed
  qed
qed

lemma seq_inv_step:
  assumes "gather_step e vp rp rr g g'" "seq_inv e vp rp rr ns s0 g" "effective_parallelism e vp = 1"
  shows "seq_inv e vp rp rr ns s0 g'"
  using assms(1)
proof cases
  case (permit i ts n s)
  then show ?thesis using seq_inv_permit assms(2,3) by blast
next
  case (enter i ts n l s s' t)
  then show ?thesis using seq_inv_enter assms(2,3) by blast
next
  case (return i ts n a k l s s' t)
  then show ?thesis using seq_inv_return assms(2,3) by blast
qed

lemma seq_inv_runs:
  assumes "gather_runs e vp rp rr (gather_start ns s) g" "effective_parallelism e vp = 1"
  shows "seq_inv e vp rp rr ns s g"
  using assms(1) unfolding gather_runs_def
proof (induction rule: rtranclp_induct)
  case base
  have "seq_at e vp rp rr ns s 0 (gather_start ns s)" by (simp add: seq_at_def gather_start_def)
  then show ?case by (auto simp: seq_inv_def gather_start_def comp_def)
next
  case (step g g')
  then show ?case using seq_inv_step [OF _ _ assms(2)] by blast
qed

text \<open>The sequential batch is one of the interleavings, whatever the number of permits.\<close>

definition front :: "node list \<Rightarrow> nat \<Rightarrow> (node \<times> task) list" where
  "front ns k = map (\<lambda>n. (n, Finished)) (take k ns) @ map (\<lambda>n. (n, Waiting)) (drop k ns)"

lemma front_split:
  "k < length ns \<Longrightarrow> front ns k = map (\<lambda>n. (n, Finished)) (take k ns) @ (ns ! k, Waiting) # map (\<lambda>n. (n, Waiting)) (drop (Suc k) ns)"
  by (simp add: front_def Cons_nth_drop_Suc [symmetric])

lemma front_update:
  "k < length ns \<Longrightarrow> (front ns k)[k := (ns ! k, Finished)] = front ns (Suc k)"
  by (simp add: front_split list_update_append) (simp add: front_def take_Suc_conv_app_nth)

lemma front_tasks: "x \<in> set (front ns k) \<Longrightarrow> snd x = Finished \<or> snd x = Waiting"
  by (auto simp: front_def)

lemma front_idle: "permits (front ns k) = 0"
  by (auto simp: permits_def filter_empty_conv dest!: front_tasks)

lemma front_lock_free: "lock_free l ((front ns k)[k := (n, Queued l')])"
proof (cases l)
  case (Some r)
  have "\<not> holds_lock r (snd x)" if "x \<in> set ((front ns k)[k := (n, Queued l')])" for x
  proof (cases "x = (n, Queued l')")
    case False
    with that set_update_subset_insert [of "front ns k" k "(n, Queued l')"] have "x \<in> set (front ns k)" by blast
    then show ?thesis using front_tasks by fastforce
  qed simp
  with Some show ?thesis by (auto simp: lock_free_def list_ex_iff)
qed (simp add: lock_free_def)

lemma front_step:
  assumes "k < length ns" "execute e vp rp rr (ns ! k) s = (s', Inr ())"
  shows "(gather_step e vp rp rr)\<^sup>*\<^sup>* \<lparr>g_run = s, g_tasks = front ns k\<rparr> \<lparr>g_run = s', g_tasks = front ns (Suc k)\<rparr>"
proof -
  let ?n = "ns ! k" and ?l = "lock_of e vp (ns ! k) (rs_states s)" and ?step = "gather_step e vp rp rr"
  let ?q = "(front ns k)[k := (?n, Queued ?l)]"
  have len: "length (front ns k) = length ns" by (simp add: front_def)
  have w: "front ns k ! k = (?n, Waiting)" "\<forall>j < k. snd (front ns k ! j) \<noteq> Waiting" using assms(1) by (simp_all add: front_split nth_append)
  have "int (permits (front ns k)) < effective_parallelism e vp"
    using front_idle by (simp add: effective_parallelism_def Let_def)
  then have 1: "?step \<lparr>g_run = s, g_tasks = front ns k\<rparr> \<lparr>g_run = s, g_tasks = ?q\<rparr>"
    using assms(1) w len by (intro gather_step.permit) simp_all
  obtain s1 t where t: "enter_task e vp rp rr ?n ?l s = (s1, t)" by (rule prod.exhaust)
  have 2: "?step \<lparr>g_run = s, g_tasks = ?q\<rparr> \<lparr>g_run = s1, g_tasks = ?q[k := (?n, t)]\<rparr>"
    using assms(1) len t front_lock_free by (intro gather_step.enter [where l = ?l]) simp_all
  have x: "(case t of Running a key l \<Rightarrow> (case return_task e vp ?n a key s1 of (s2, t2) \<Rightarrow> (s2, task_result t2)) | _ \<Rightarrow> (s1, task_result t)) = (s', Inr ())"
    using execute_segments [OF t] assms(2) by simp
  from enter_taskD(1) [OF t] show ?thesis
  proof (elim disjE exE)
    assume f: "t = Finished"
    with x front_update [OF assms(1)] 1 2 show ?thesis by (simp add: converse_rtranclp_into_rtranclp)
  next
    fix err assume "t = Raised err"
    with x show ?thesis by (simp add: task_result_def)
  next
    fix a key assume r: "t = Running a key ?l"
    obtain s2 t2 where t2: "return_task e vp ?n a key s1 = (s2, t2)" by (rule prod.exhaust)
    with x r have "s2 = s'" "task_result t2 = Inr ()" by simp_all
    then have f: "t2 = Finished" using return_taskD(1) [OF t2] by (auto simp: task_result_def)
    have 3: "?step \<lparr>g_run = s1, g_tasks = ?q[k := (?n, t)]\<rparr> \<lparr>g_run = s', g_tasks = (?q[k := (?n, t)])[k := (?n, Finished)]\<rparr>"
      using assms(1) len r t2 f \<open>s2 = s'\<close> by (intro gather_step.return [where n = ?n]) simp_all
    with 1 2 front_update [OF assms(1)] show ?thesis by (simp add: converse_rtranclp_into_rtranclp)
  qed
qed

lemma front_runs:
  assumes "k \<le> length ns" "for_each (execute e vp rp rr) (take k ns) s = (s', Inr ())"
  shows "(gather_step e vp rp rr)\<^sup>*\<^sup>* \<lparr>g_run = s, g_tasks = front ns 0\<rparr> \<lparr>g_run = s', g_tasks = front ns k\<rparr>"
  using assms
proof (induction k arbitrary: s')
  case (Suc k)
  then obtain t where "for_each (execute e vp rp rr) (take k ns) s = (t, Inr ())" "execute e vp rp rr (ns ! k) t = (s', Inr ())"
    by (auto simp: take_Suc_conv_app_nth for_each_snoc bind_s_Inr_iff)
  with Suc front_step [of k ns e vp rp rr t s'] show ?case by (meson Suc_le_lessD Suc_leD rtranclp_trans)
qed simp

text \<open>
  C11. One permit means sequential: for an accepted plan with a mutating node, the concurrent batch can
  reach a state in which every task has finished, with shared state \<open>s'\<close>, if and only if running
  the nodes one after the other in batch order returns normally with \<open>s'\<close>.
\<close>

theorem gather_sequential:
  assumes "validate_plan sha p cat = Inr vp" and "v_mutating_nodes vp \<noteq> []"
  shows "(\<exists>g. gather_runs e vp rp rr (gather_start ns s) g \<and> (\<forall>x \<in> set (g_tasks g). snd x = Finished) \<and> g_run g = s') \<longleftrightarrow>
    for_each (execute e vp rp rr) ns s = (s', Inr ())"
proof
  from assms(1) have "check_budget p (v_mutating_nodes vp) = Inr ()" "v_plan vp = p" by (blast elim: validate_plan_parts)+
  then have m: "max_parallelism (p_budget (v_plan vp)) \<le> 1"
    using assms(2) by (simp add: check_budget_def run_checks_Inr DAG_MAX_PARALLELISM_MUTATION_def del: run_checks_Cons)
  have one: "effective_parallelism e vp = 1"
    unfolding effective_parallelism_def Let_def using m by (auto simp: max_def min_le_iff_disj Min_le_iff)
  assume "\<exists>g. gather_runs e vp rp rr (gather_start ns s) g \<and> (\<forall>x \<in> set (g_tasks g). snd x = Finished) \<and> g_run g = s'"
  then obtain g where g: "gather_runs e vp rp rr (gather_start ns s) g" "\<forall>x \<in> set (g_tasks g). snd x = Finished" "g_run g = s'" by blast
  note inv = seq_inv_runs [OF g(1) one]
  then have len: "length (g_tasks g) = length ns" by (auto simp: seq_inv_def)
  then have fin: "snd (g_tasks g ! i) = Finished" if "i < length ns" for i using g(2) that by (metis nth_mem)
  with inv obtain k where "seq_at e vp rp rr ns s k g" by (auto simp: seq_inv_def)
  moreover from this have "k = length ns" using fin [of k] by (cases "k < length ns") (auto simp: seq_at_def)
  ultimately show "for_each (execute e vp rp rr) ns s = (s', Inr ())" using g(3) by (simp add: seq_at_def)
next
  assume "for_each (execute e vp rp rr) ns s = (s', Inr ())"
  then have "gather_runs e vp rp rr (gather_start ns s) \<lparr>g_run = s', g_tasks = front ns (length ns)\<rparr>"
    using front_runs [of "length ns" ns e vp rp rr s s'] by (simp add: gather_runs_def gather_start_def front_def)
  moreover have "\<forall>x \<in> set (front ns (length ns)). snd x = Finished" by (auto simp: front_def)
  ultimately show "\<exists>g. gather_runs e vp rp rr (gather_start ns s) g \<and> (\<forall>x \<in> set (g_tasks g). snd x = Finished) \<and> g_run g = s'"
    by fastforce
qed

lemma demo_batch_runs:
  "\<exists>s'. for_each (execute demo_engine demo_validated False None) [demo_a] (run_start demo_validated sample_checkpoint demo_db 0) = (s', Inr ()) \<and>
    rs_world s' = 1 \<and> external_calls s' = 1"
proof -
  have "initial_states demo_validated sample_checkpoint = demo_states PENDING" by code_simp
  then have "demo_at (demo_states PENDING) 0 (run_start demo_validated sample_checkpoint demo_db 0)"
    using demo_open by (simp add: demo_at_def run_start_def)
  from demo_execute_a [OF this] show ?thesis by (auto simp: demo_at_def)
qed

theorem gather_sequential_witness:
  "\<exists>g. gather_runs demo_engine demo_validated False None (gather_start [demo_a] (run_start demo_validated sample_checkpoint demo_db 0)) g \<and>
    (\<forall>x \<in> set (g_tasks g). snd x = Finished) \<and> rs_world (g_run g) = 1"
proof -
  obtain s' where s': "for_each (execute demo_engine demo_validated False None) [demo_a] (run_start demo_validated sample_checkpoint demo_db 0) = (s', Inr ())"
    "rs_world s' = 1" using demo_batch_runs by blast
  have "v_mutating_nodes demo_validated \<noteq> []" by simp
  with gather_sequential [OF demo_validates, of demo_engine False None "[demo_a]" _ s'] s' show ?thesis by blast
qed

theorem gather_bounds_witness:
  "\<exists>g. gather_runs demo_engine demo_validated False None (gather_start [demo_a] (run_start demo_validated sample_checkpoint demo_db 0)) g \<and>
    external_calls (g_run g) = 1 \<and> external_calls (g_run g) \<le> 4"
proof -
  let ?s = "run_start demo_validated sample_checkpoint demo_db (0 :: nat)"
  obtain s' where s': "for_each (execute demo_engine demo_validated False None) [demo_a] ?s = (s', Inr ())" "external_calls s' = 1"
    using demo_batch_runs by blast
  have g: "gather_runs demo_engine demo_validated False None (gather_start [demo_a] ?s) \<lparr>g_run = s', g_tasks = front [demo_a] 1\<rparr>"
    using front_runs [of 1 "[demo_a]" demo_engine demo_validated False None ?s s'] s' by (simp add: gather_runs_def gather_start_def front_def)
  have "external_calls ?s \<le> max_external_calls (p_budget (v_plan demo_validated))" by (simp add: run_start_def)
  from gather_bounds [OF g _ this] g s'(2) show ?thesis by (intro exI [of _ "\<lparr>g_run = s', g_tasks = front [demo_a] 1\<rparr>"]) simp
qed

end
