(* ===== verification/Py_Text.thy ===== *)
theory Py_Text
  imports Prelude
begin

section \<open>Python text\<close>

text \<open>
  The methods of \<open>str\<close> the contracts use, on texts given by their UTF-8 bytes: white space,
  \<open>strip\<close>, \<open>len\<close>, \<open>lower\<close>.
\<close>

text \<open>The UTF-8 texts of the code points for which \<open>str.isspace\<close> holds.\<close>

definition space_texts :: "string list" where
  "space_texts =
     map (\<lambda>b. [char_of b]) [9, 10, 11, 12, 13, 28, 29, 30, 31, 32 :: nat] @
     map (map char_of) [[0xC2, 0x85], [0xC2, 0xA0], [0xE1, 0x9A, 0x80 :: nat]] @
     map (\<lambda>b. [char_of (0xE2 :: nat), char_of (0x80 :: nat), char_of b])
       [0x80, 0x81, 0x82, 0x83, 0x84, 0x85, 0x86, 0x87, 0x88, 0x89, 0x8A, 0xA8, 0xA9, 0xAF :: nat] @
     map (map char_of) [[0xE2, 0x81, 0x9F], [0xE3, 0x80, 0x80 :: nat]]"

text \<open>The length of the white space character a text starts or ends with, 0 if there is none.\<close>

definition lead_space :: "string \<Rightarrow> nat" where
  "lead_space s = (case find (\<lambda>w. take (length w) s = w) space_texts of None \<Rightarrow> 0 | Some w \<Rightarrow> length w)"

definition trail_space :: "string \<Rightarrow> nat" where
  "trail_space s = (case find (\<lambda>w. length w \<le> length s \<and> drop (length s - length w) s = w) space_texts of None \<Rightarrow> 0 | Some w \<Rightarrow> length w)"

fun has_space :: "string \<Rightarrow> bool" where
  "has_space [] = False"
| "has_space (c # cs) = (lead_space (c # cs) > 0 \<or> has_space cs)"

function lstrip :: "string \<Rightarrow> string" where
  "lstrip s = (if s = [] \<or> lead_space s = 0 then s else lstrip (drop (lead_space s) s))"
  by pat_completeness auto
termination by (relation "measure length") auto

function rstrip :: "string \<Rightarrow> string" where
  "rstrip s = (if s = [] \<or> trail_space s = 0 then s else rstrip (take (length s - trail_space s) s))"
  by pat_completeness auto
termination by (relation "measure length") auto

declare lstrip.simps [simp del] rstrip.simps [simp del]

text \<open>\<open>s.strip()\<close> and \<open>len(s)\<close>\<close>

definition strip :: "string \<Rightarrow> string" where
  "strip s = rstrip (lstrip s)"

definition code_points :: "string \<Rightarrow> nat" where
  "code_points s = length (filter (\<lambda>c. of_char c div (64 :: nat) \<noteq> 2) s)"

text \<open>\<open>w in s\<close> on strings\<close>

fun substr :: "string \<Rightarrow> string \<Rightarrow> bool" where
  "substr w [] = (w = [])"
| "substr w (c # cs) = (take (length w) (c # cs) = w \<or> substr w cs)"

text \<open>
  \<open>s.lower()\<close> as far as ASCII goes: the Kelvin sign is the only character beyond ASCII whose lower
  case is an ASCII letter; the others stand for their lower case.
\<close>

definition kelvin_sign :: string where
  "kelvin_sign = map char_of [0xE2, 0x84, 0xAA :: nat]"

definition lower_ascii :: "char \<Rightarrow> char" where
  "lower_ascii c = (if CHR ''A'' \<le> c \<and> c \<le> CHR ''Z'' then char_of (of_char c + (32 :: nat)) else c)"

fun lower_text :: "string \<Rightarrow> string" where
  "lower_text [] = []"
| "lower_text (c # cs) =
     (if take 3 (c # cs) = kelvin_sign then CHR ''k'' # lower_text (drop 2 cs) else lower_ascii c # lower_text cs)"

text \<open>\<open>s.upper()\<close> as far as ASCII goes; the dotless i, whose upper case is I, is the one character beyond ASCII that matters for the words compared.\<close>

definition dotless_i :: string where
  "dotless_i = map char_of [0xC4, 0xB1 :: nat]"

definition upper_ascii :: "char \<Rightarrow> char" where
  "upper_ascii c = (if CHR ''a'' \<le> c \<and> c \<le> CHR ''z'' then char_of (of_char c - (32 :: nat)) else c)"

fun upper_text :: "string \<Rightarrow> string" where
  "upper_text [] = []"
| "upper_text (c # cs) = (if take 2 (c # cs) = dotless_i then CHR ''I'' # upper_text (drop 1 cs) else upper_ascii c # upper_text cs)"

text \<open>Texts these functions leave as they are: graphic characters at both ends, no capital letter.\<close>

definition graphic :: "char \<Rightarrow> bool" where
  "graphic c \<longleftrightarrow> (33 :: nat) \<le> of_char c \<and> of_char c < (127 :: nat)"

lemma space_not_graphic: "w \<in> set space_texts \<Longrightarrow> w \<noteq> [] \<and> \<not> graphic (hd w) \<and> \<not> graphic (last w)"
  by (auto simp: space_texts_def graphic_def)

lemma lead_space_graphic: "graphic (hd s) \<Longrightarrow> s \<noteq> [] \<Longrightarrow> lead_space s = 0"
proof -
  assume s: "graphic (hd s)" "s \<noteq> []"
  have "take (length w) s \<noteq> w" if w: "w \<in> set space_texts" for w
  proof
    assume e: "take (length w) s = w"
    with space_not_graphic [OF w] s have "hd w = hd s" by (metis hd_take length_greater_0_conv)
    with space_not_graphic [OF w] s show False by simp
  qed
  then have "find (\<lambda>w. take (length w) s = w) space_texts = None" by (simp add: find_None_iff)
  then show ?thesis by (simp add: lead_space_def)
qed

lemma trail_space_graphic: "graphic (last s) \<Longrightarrow> s \<noteq> [] \<Longrightarrow> trail_space s = 0"
proof -
  assume s: "graphic (last s)" "s \<noteq> []"
  have "\<not> (length w \<le> length s \<and> drop (length s - length w) s = w)" if w: "w \<in> set space_texts" for w
  proof
    assume e: "length w \<le> length s \<and> drop (length s - length w) s = w"
    with space_not_graphic [OF w] have "last w = last s" by (metis append_take_drop_id last_appendR)
    with space_not_graphic [OF w] s show False by simp
  qed
  then have "find (\<lambda>w. length w \<le> length s \<and> drop (length s - length w) s = w) space_texts = None" by (simp add: find_None_iff)
  then show ?thesis by (simp add: trail_space_def)
qed

lemma strip_graphic: "s \<noteq> [] \<Longrightarrow> graphic (hd s) \<Longrightarrow> graphic (last s) \<Longrightarrow> strip s = s"
  by (simp add: strip_def lstrip.simps [of s] rstrip.simps [of s] lead_space_graphic trail_space_graphic)

lemma lower_text_kept:
  "list_all (\<lambda>c. of_char c < (128 :: nat) \<and> \<not> (CHR ''A'' \<le> c \<and> c \<le> CHR ''Z'')) s \<Longrightarrow> lower_text s = s"
proof (induction s)
  case (Cons c cs)
  then have "take 3 (c # cs) \<noteq> kelvin_sign" by (auto simp: kelvin_sign_def)
  with Cons show ?case by (auto simp: lower_ascii_def)
qed simp

lemma upper_text_kept:
  "list_all (\<lambda>c. of_char c < (128 :: nat) \<and> \<not> (CHR ''a'' \<le> c \<and> c \<le> CHR ''z'')) s \<Longrightarrow> upper_text s = s"
proof (induction s)
  case (Cons c cs)
  then have "take 2 (c # cs) \<noteq> dotless_i" by (auto simp: dotless_i_def)
  with Cons show ?case by (auto simp: upper_ascii_def)
qed simp

end
