(* ===== verification/Batch_Contract.thy ===== *)
theory Batch_Contract
  imports Json Py_Text
begin

section \<open>Batch contract (v2/batch\_contract.py)\<close>

text \<open>
  The typed envelope over already typed steps: the constructors \<open>BatchStep\<close>, \<open>BatchRequest\<close>,
  \<open>BatchStepResult\<close> and \<open>BatchResult\<close> with their validation, the digests, and the aggregation of
  step statuses into the batch status. What the Python code checks with \<open>isinstance\<close> is given here
  by the types. A Python \<open>str\<close> is its UTF-8 text, so its length is counted in code points.
\<close>

subsection \<open>Limits and codes\<close>

definition BATCH_SCHEMA_VERSION :: string where "BATCH_SCHEMA_VERSION = ''batch/1''"
definition BATCH_MAX_ITEMS :: int where "BATCH_MAX_ITEMS = 10"
definition BATCH_MAX_PARALLELISM :: int where "BATCH_MAX_PARALLELISM = 4"
definition BATCH_MAX_PARALLELISM_MUTATION :: int where "BATCH_MAX_PARALLELISM_MUTATION = 1"
definition BATCH_MAX_TIMEOUT_S :: int where "BATCH_MAX_TIMEOUT_S = 300"
definition BATCH_MAX_INFLIGHT_GLOBAL :: int where "BATCH_MAX_INFLIGHT_GLOBAL = 8"
definition IDENTIFIER_MAX :: nat where "IDENTIFIER_MAX = 128"

lemmas batch_limits = BATCH_MAX_ITEMS_def BATCH_MAX_PARALLELISM_def BATCH_MAX_PARALLELISM_MUTATION_def
  BATCH_MAX_TIMEOUT_S_def BATCH_MAX_INFLIGHT_GLOBAL_def

datatype batch_error =
  BatchValidationError string
| BatchCapacityError string
| BatchDisabledError
| Batch_TypeError
| Batch_ValueError string

datatype batch_failure_policy = BATCH_FAIL_FAST | BATCH_CONTINUE_ON_ERROR

datatype step_status = STEP_SUCCESS | STEP_FAILED | STEP_DENIED | STEP_TIMED_OUT | STEP_CANCELLED | STEP_NOT_STARTED

datatype batch_status = BATCH_SUCCESS | BATCH_PARTIAL | BATCH_FAILED | BATCH_DENIED | BATCH_TIMED_OUT | BATCH_CANCELLED

datatype idempotency_outcome = EXECUTED | REPLAYED | CONFLICT

subsection \<open>Identifiers\<close>

definition require_identifier :: "string \<Rightarrow> string \<Rightarrow> (batch_error, string) result" where
  "require_identifier field v =
     (if strip v = [] then Inl (BatchValidationError (field @ '': must be a non-empty string''))
      else if code_points v > IDENTIFIER_MAX then Inl (BatchValidationError (field @ '': too long''))
      else if has_space v then Inl (BatchValidationError (field @ '': must not contain whitespace''))
      else Inr v)"

definition require_opt_identifier :: "string \<Rightarrow> string option \<Rightarrow> (batch_error, unit) result" where
  "require_opt_identifier field v =
     (case v of None \<Rightarrow> Inr () | Some x \<Rightarrow> bind_r (require_identifier field x) (\<lambda>_. Inr ()))"

definition require_positive_int :: "string \<Rightarrow> int \<Rightarrow> (batch_error, int) result" where
  "require_positive_int field v = (if v < 1 then Inl (BatchValidationError (field @ '': must be >= 1'')) else Inr v)"

subsection \<open>Steps and requests\<close>

record batch_step =
  bs_step_id :: string
  bs_tool :: string
  bs_args :: "(string \<times> json) list"
  bs_idempotency_key :: "string option"
  bs_approval_ref :: "string option"
  bs_step_timeout_s :: int
  bs_depends_on :: "string list"

definition step_new :: "batch_step \<Rightarrow> (batch_error, batch_step) result" where
  "step_new st =
     bind_r (require_identifier ''step_id'' (bs_step_id st)) (\<lambda>_.
     bind_r (require_identifier ''tool'' (bs_tool st)) (\<lambda>_.
     bind_r (require_opt_identifier ''idempotency_key'' (bs_idempotency_key st)) (\<lambda>_.
     bind_r (require_opt_identifier ''approval_ref'' (bs_approval_ref st)) (\<lambda>_.
     bind_r (require_positive_int ''step_timeout_s'' (bs_step_timeout_s st)) (\<lambda>_.
     if bs_depends_on st \<noteq> [] then Inl (BatchValidationError ''depends_on: must be empty in BATCH mode'')
     else Inr st)))))"

record batch_request =
  bq_batch_id :: string
  bq_steps :: "batch_step list"
  bq_failure_policy :: batch_failure_policy
  bq_max_parallelism :: int
  bq_batch_timeout_s :: int
  bq_dry_run :: bool
  bq_schema_version :: string
  bq_mode :: string

definition step_ids :: "batch_request \<Rightarrow> string list" where
  "step_ids rq = map bs_step_id (bq_steps rq)"

fun check_duplicates :: "string list \<Rightarrow> string list \<Rightarrow> (batch_error, unit) result" where
  "check_duplicates seen [] = Inr ()"
| "check_duplicates seen (i # ks) =
     (if i \<in> set seen then Inl (BatchValidationError (''steps: duplicate step_id '' @ i)) else check_duplicates (i # seen) ks)"

fun check_timeouts :: "int \<Rightarrow> batch_step list \<Rightarrow> (batch_error, unit) result" where
  "check_timeouts limit [] = Inr ()"
| "check_timeouts limit (st # sts) =
     (if bs_step_timeout_s st > limit then Inl (BatchValidationError (''step_timeout_s: step exceeds batch_timeout_s '' @ bs_step_id st))
      else check_timeouts limit sts)"

definition request_new :: "batch_request \<Rightarrow> (batch_error, batch_request) result" where
  "request_new rq =
     (if bq_schema_version rq \<noteq> BATCH_SCHEMA_VERSION then Inl (BatchValidationError ''schema_version: unknown value'')
      else if bq_mode rq \<noteq> ''BATCH'' then Inl (BatchValidationError ''mode: must be BATCH'')
      else
        bind_r (require_identifier ''batch_id'' (bq_batch_id rq)) (\<lambda>_.
        if bq_steps rq = [] then Inl (BatchValidationError ''steps: at least one step is required'')
        else if int (length (bq_steps rq)) > BATCH_MAX_ITEMS then Inl (BatchValidationError ''steps: exceeds BATCH_MAX_ITEMS'')
        else
          bind_r (check_duplicates [] (step_ids rq)) (\<lambda>_.
          bind_r (require_positive_int ''max_parallelism'' (bq_max_parallelism rq)) (\<lambda>_.
          bind_r (require_positive_int ''batch_timeout_s'' (bq_batch_timeout_s rq)) (\<lambda>_.
          if bq_max_parallelism rq > BATCH_MAX_PARALLELISM then Inl (BatchValidationError ''max_parallelism: exceeds ceiling'')
          else if bq_batch_timeout_s rq > BATCH_MAX_TIMEOUT_S then Inl (BatchValidationError ''batch_timeout_s: exceeds ceiling'')
          else bind_r (check_timeouts (bq_batch_timeout_s rq) (bq_steps rq)) (\<lambda>_. Inr rq))))))"

definition policy_value :: "batch_failure_policy \<Rightarrow> string" where
  "policy_value p = (case p of BATCH_FAIL_FAST \<Rightarrow> ''fail_fast'' | BATCH_CONTINUE_ON_ERROR \<Rightarrow> ''continue_on_error'')"

text \<open>\<open>canonical_json_bytes\<close> raises \<open>TypeError\<close> on a value without canonical text.\<close>

definition batch_hash :: "(string \<Rightarrow> string) \<Rightarrow> json \<Rightarrow> (batch_error, string) result" where
  "batch_hash sha v = (case canonical_hash sha v of Inl e \<Rightarrow> Inl Batch_TypeError | Inr h \<Rightarrow> Inr h)"

definition opt_json :: "string option \<Rightarrow> json" where
  "opt_json v = (case v of None \<Rightarrow> JNull | Some s \<Rightarrow> JStr s)"

definition step_digest :: "(string \<Rightarrow> string) \<Rightarrow> batch_step \<Rightarrow> (batch_error, string) result" where
  "step_digest sha st = batch_hash sha (JObj
     [(''step_id'', JStr (bs_step_id st)), (''tool'', JStr (bs_tool st)), (''args'', JObj (bs_args st)),
      (''idempotency_key'', opt_json (bs_idempotency_key st)), (''step_timeout_s'', JInt (bs_step_timeout_s st))])"

definition request_digest :: "(string \<Rightarrow> string) \<Rightarrow> batch_request \<Rightarrow> (batch_error, string) result" where
  "request_digest sha rq = bind_r (traverse (step_digest sha) (bq_steps rq)) (\<lambda>ds. batch_hash sha (JObj
     [(''batch_id'', JStr (bq_batch_id rq)), (''failure_policy'', JStr (policy_value (bq_failure_policy rq))),
      (''max_parallelism'', JInt (bq_max_parallelism rq)), (''batch_timeout_s'', JInt (bq_batch_timeout_s rq)),
      (''dry_run'', JBool (bq_dry_run rq)), (''steps'', JList (map JStr ds))]))"

subsection \<open>Results\<close>

record step_result =
  sr_step_id :: string
  sr_status :: step_status
  sr_started_at :: "string option"
  sr_finished_at :: "string option"
  sr_result :: "(string \<times> json) list option"
  sr_error :: "(string \<times> string) list option"
  sr_outcome :: "idempotency_outcome option"
  sr_audit_ref :: "string option"

definition step_result_new :: "step_result \<Rightarrow> (batch_error, step_result) result" where
  "step_result_new r =
     (if sr_status r = STEP_NOT_STARTED \<and> (sr_started_at r \<noteq> None \<or> sr_result r \<noteq> None)
      then Inl (BatchValidationError ''NOT_STARTED step must carry no timing or result'') else Inr r)"

definition not_started :: "string \<Rightarrow> step_result" where
  "not_started i = \<lparr>sr_step_id = i, sr_status = STEP_NOT_STARTED, sr_started_at = None, sr_finished_at = None, sr_result = None,
     sr_error = None, sr_outcome = None, sr_audit_ref = None\<rparr>"

record batch_result =
  bx_batch_id :: string
  bx_aggregate_status :: batch_status
  bx_steps :: "step_result list"
  bx_counts :: "(step_status \<times> nat) list"
  bx_started_at :: string
  bx_finished_at :: string
  bx_evidence_ref :: string
  bx_effective_parallelism :: int
  bx_max_observed_inflight :: nat

definition result_new :: "batch_result \<Rightarrow> (batch_error, batch_result) result" where
  "result_new r =
     (if sum_list (map snd (bx_counts r)) \<noteq> length (bx_steps r) then Inl (BatchValidationError ''counts: must sum to the number of steps'')
      else if \<not> distinct (map sr_step_id (bx_steps r)) then Inl (BatchValidationError ''steps: duplicate step_id in result'')
      else Inr r)"

definition all_statuses :: "step_status list" where
  "all_statuses = [STEP_SUCCESS, STEP_FAILED, STEP_DENIED, STEP_TIMED_OUT, STEP_CANCELLED, STEP_NOT_STARTED]"

definition count_statuses :: "step_result list \<Rightarrow> (step_status \<times> nat) list" where
  "count_statuses rs = filter (\<lambda>(x, n). n \<noteq> 0) (map (\<lambda>x. (x, length (filter (\<lambda>r. sr_status r = x) rs))) all_statuses)"

definition aggregate_status :: "step_result list \<Rightarrow> bool \<Rightarrow> bool \<Rightarrow> batch_status" where
  "aggregate_status rs cancelled timed_out =
     (let ss = map sr_status rs; successes = length (filter (\<lambda>x. x = STEP_SUCCESS) ss);
          stopped = [STEP_TIMED_OUT, STEP_CANCELLED, STEP_NOT_STARTED] in
      if successes = length ss \<and> ss \<noteq> [] then BATCH_SUCCESS
      else if successes \<noteq> 0 then BATCH_PARTIAL
      else if timed_out then BATCH_TIMED_OUT
      else if ss \<noteq> [] \<and> list_all (\<lambda>x. x = STEP_DENIED) ss then BATCH_DENIED
      else if ss \<noteq> [] \<and> list_all (\<lambda>x. x \<in> set stopped) ss
      then (if list_ex (\<lambda>x. x = STEP_TIMED_OUT) ss then BATCH_TIMED_OUT else BATCH_CANCELLED)
      else if list_ex (\<lambda>x. x \<in> {STEP_FAILED, STEP_DENIED, STEP_TIMED_OUT}) ss then BATCH_FAILED
      else if cancelled then BATCH_CANCELLED
      else BATCH_FAILED)"

subsection \<open>What the constructors and the aggregation guarantee\<close>

lemma check_duplicates_iff: "check_duplicates seen ks = Inr u \<longleftrightarrow> distinct ks \<and> set ks \<inter> set seen = {}"
  by (induction seen ks rule: check_duplicates.induct) auto

lemma check_timeouts_iff: "check_timeouts limit sts = Inr u \<longleftrightarrow> (\<forall>st \<in> set sts. bs_step_timeout_s st \<le> limit)"
  by (induction limit sts rule: check_timeouts.induct) auto

definition valid_request :: "batch_request \<Rightarrow> bool" where
  "valid_request rq \<longleftrightarrow> bq_steps rq \<noteq> [] \<and> int (length (bq_steps rq)) \<le> BATCH_MAX_ITEMS \<and> distinct (step_ids rq) \<and>
     1 \<le> bq_max_parallelism rq \<and> bq_max_parallelism rq \<le> BATCH_MAX_PARALLELISM \<and>
     1 \<le> bq_batch_timeout_s rq \<and> bq_batch_timeout_s rq \<le> BATCH_MAX_TIMEOUT_S \<and>
     (\<forall>st \<in> set (bq_steps rq). bs_step_timeout_s st \<le> bq_batch_timeout_s rq)"

lemma request_new_valid: "request_new rq = Inr rq' \<Longrightarrow> rq' = rq \<and> valid_request rq"
  by (auto simp: request_new_def valid_request_def bind_r_Inr_iff check_duplicates_iff check_timeouts_iff require_positive_int_def
      split: if_splits)

lemma length_by_status:
  "length rs = (\<Sum>x \<leftarrow> all_statuses. length (filter (\<lambda>r. sr_status r = x) rs))"
proof (induction rs)
  case (Cons r rs)
  then show ?case by (cases "sr_status r") (simp_all add: all_statuses_def)
qed (simp add: all_statuses_def)

lemma counts_sum: "sum_list (map snd (count_statuses rs)) = length rs"
proof -
  have "sum_list (map snd (filter (\<lambda>(x, n). n \<noteq> (0 :: nat)) ys)) = sum_list (map snd ys)" for ys :: "(step_status \<times> nat) list"
    by (induction ys) auto
  then show ?thesis unfolding count_statuses_def using length_by_status [of rs] by (simp add: comp_def)
qed

lemma list_all_map: "list_all P (map f xs) \<longleftrightarrow> (\<forall>x \<in> set xs. P (f x))"
  and list_ex_map: "list_ex P (map f xs) \<longleftrightarrow> (\<exists>x \<in> set xs. P (f x))"
  by (simp_all add: list_all_iff list_ex_iff)

lemma successes_all:
  "length (filter (\<lambda>x. x = STEP_SUCCESS) (map sr_status rs)) = length (map sr_status rs) \<longleftrightarrow> (\<forall>r \<in> set rs. sr_status r = STEP_SUCCESS)"
  by (induction rs) (auto, metis (no_types, lifting) Suc_n_not_le_n length_filter_le length_map)

text \<open>
  The aggregation algebra: the batch is reported successful exactly when every step succeeded,
  partial exactly when some but not all did, and without any success it is never reported as
  either; denied exactly when all steps were denied and the batch deadline did not pass.
\<close>

theorem aggregate_algebra:
  assumes "rs \<noteq> []"
  shows "(aggregate_status rs c t = BATCH_SUCCESS \<longleftrightarrow> (\<forall>r \<in> set rs. sr_status r = STEP_SUCCESS)) \<and>
    (aggregate_status rs c t = BATCH_PARTIAL \<longleftrightarrow>
       (\<exists>r \<in> set rs. sr_status r = STEP_SUCCESS) \<and> (\<exists>r \<in> set rs. sr_status r \<noteq> STEP_SUCCESS)) \<and>
    (aggregate_status rs c t = BATCH_DENIED \<longleftrightarrow> \<not> t \<and> (\<forall>r \<in> set rs. sr_status r = STEP_DENIED))"
proof -
  let ?n = "length (filter (\<lambda>x. x = STEP_SUCCESS) (map sr_status rs))"
  have all: "?n = length (map sr_status rs) \<longleftrightarrow> (\<forall>r \<in> set rs. sr_status r = STEP_SUCCESS)" by (rule successes_all)
  have ex: "?n \<noteq> 0 \<longleftrightarrow> (\<exists>r \<in> set rs. sr_status r = STEP_SUCCESS)" by (simp add: filter_empty_conv)
  have a: "aggregate_status rs c t =
     (if \<forall>r \<in> set rs. sr_status r = STEP_SUCCESS then BATCH_SUCCESS
      else if \<exists>r \<in> set rs. sr_status r = STEP_SUCCESS then BATCH_PARTIAL
      else if t then BATCH_TIMED_OUT
      else if \<forall>r \<in> set rs. sr_status r = STEP_DENIED then BATCH_DENIED
      else if \<forall>r \<in> set rs. sr_status r \<in> {STEP_TIMED_OUT, STEP_CANCELLED, STEP_NOT_STARTED}
      then (if \<exists>r \<in> set rs. sr_status r = STEP_TIMED_OUT then BATCH_TIMED_OUT else BATCH_CANCELLED)
      else if \<exists>r \<in> set rs. sr_status r \<in> {STEP_FAILED, STEP_DENIED, STEP_TIMED_OUT} then BATCH_FAILED
      else if c then BATCH_CANCELLED else BATCH_FAILED)"
    using assms unfolding aggregate_status_def Let_def all ex
    by (simp only: list_all_map list_ex_map comp_def map_is_Nil_conv not_False_eq_True simp_thms list.set)
  obtain r0 where "r0 \<in> set rs" using assms by (meson list.set_sel(1))
  then show ?thesis unfolding a by auto
qed

definition done_result :: "string \<Rightarrow> step_status \<Rightarrow> step_result" where
  "done_result i x = (not_started i)\<lparr>sr_status := x\<rparr>"

theorem aggregate_algebra_witness:
  "aggregate_status [done_result ''a'' STEP_SUCCESS, done_result ''b'' STEP_FAILED] False False = BATCH_PARTIAL"
  using aggregate_algebra [of "[done_result ''a'' STEP_SUCCESS, done_result ''b'' STEP_FAILED]" False False]
  by (simp add: done_result_def)

end
