(* ===== verification/Batch_Scheduler.thy ===== *)
theory Batch_Scheduler
  imports Batch_Contract "HOL-Library.AList"
begin

section \<open>Batch scheduler (v2/batch\_scheduler.py)\<close>

text \<open>
  \<open>BatchScheduler\<close>: one task per step over a bounded semaphore, with a closable admission, a
  batch deadline and a process-wide capacity. The tasks of a batch are a transition system; each
  transition is one segment of \<open>run_step\<close> between two suspension points, and the outcome of the
  injected executor (a value, a timeout, an exception) is chosen freely. \<open>batch_calls\<close> lists the
  executor calls made. The texts of \<open>_now_iso\<close> are chosen freely as well. The governance hooks
  do not raise, and \<open>run\<close> itself is not cancelled from outside.
\<close>

subsection \<open>Governance and capacity\<close>

record step_decision =
  sd_allowed :: bool
  sd_reason :: string
  sd_audit_ref :: "string option"
  sd_outcome :: "idempotency_outcome option"
  sd_mutates :: bool

definition allow_all :: "batch_request \<Rightarrow> batch_step \<Rightarrow> step_decision" where
  "allow_all rq st = \<lparr>sd_allowed = True, sd_reason = [], sd_audit_ref = Some (''audit:'' @ bq_batch_id rq @ '':'' @ bs_step_id st),
     sd_outcome = None, sd_mutates = False\<rparr>"

record capacity =
  cap_limit :: int
  cap_used :: int

definition capacity_new :: "int \<Rightarrow> (batch_error, capacity) result" where
  "capacity_new limit = (if limit < 1 then Inl (Batch_ValueError ''limit must be >= 1'') else Inr \<lparr>cap_limit = limit, cap_used = 0\<rparr>)"

definition cap_reserve :: "int \<Rightarrow> capacity \<Rightarrow> capacity \<times> (batch_error, unit) result" where
  "cap_reserve amount c =
     (if cap_used c + amount > cap_limit c then (c, Inl (BatchCapacityError ''limit'')) else (c\<lparr>cap_used := cap_used c + amount\<rparr>, Inr ()))"

definition cap_release :: "int \<Rightarrow> capacity \<Rightarrow> capacity" where
  "cap_release amount c = c\<lparr>cap_used := max 0 (cap_used c - amount)\<rparr>"

definition batch_parallelism :: "batch_request \<Rightarrow> bool \<Rightarrow> int" where
  "batch_parallelism rq has_mutation =
     max 1 (min (bq_max_parallelism rq) (if has_mutation then BATCH_MAX_PARALLELISM_MUTATION else BATCH_MAX_PARALLELISM))"

subsection \<open>Tasks\<close>

datatype phase = Created | Admission | In_flight string | Complete

datatype step_outcome = Out_value "(string \<times> json) list" | Out_timeout | Out_error string

record batch_state =
  batch_tasks :: "(batch_step \<times> phase) list"
  batch_results :: "(string \<times> step_result) list"
  batch_records :: "(string \<times> step_result) list"
  batch_calls :: "string list"
  admission_closed :: bool
  deadline_passed :: bool
  meter_current :: nat
  meter_max :: nat

definition put_result :: "step_result \<Rightarrow> batch_state \<Rightarrow> batch_state" where
  "put_result r s = s\<lparr>batch_results := AList.update (sr_step_id r) r (batch_results s)\<rparr>"

definition set_phase :: "nat \<Rightarrow> phase \<Rightarrow> batch_state \<Rightarrow> batch_state" where
  "set_phase i p s = s\<lparr>batch_tasks := (batch_tasks s)[i := (fst (batch_tasks s ! i), p)]\<rparr>"

definition denied_result :: "step_decision \<Rightarrow> string \<Rightarrow> step_result" where
  "denied_result d i = (not_started i)\<lparr>sr_status := STEP_DENIED,
     sr_error := Some [(''code'', ''DENIED''), (''reason'', sd_reason d)], sr_audit_ref := sd_audit_ref d\<rparr>"

text \<open>\<open>run_step\<close> up to \<open>async with admission\<close>.\<close>

definition begin_step :: "step_decision \<Rightarrow> nat \<Rightarrow> batch_step \<Rightarrow> batch_state \<Rightarrow> batch_state" where
  "begin_step d i st s =
     (if \<not> sd_allowed d then set_phase i Complete (put_result (denied_result d (bs_step_id st)) s)
      else if admission_closed s then set_phase i Complete (put_result (not_started (bs_step_id st)) s)
      else set_phase i Admission s)"

text \<open>From the permit to the call of the executor.\<close>

definition admit_step :: "string \<Rightarrow> nat \<Rightarrow> batch_step \<Rightarrow> batch_state \<Rightarrow> batch_state" where
  "admit_step now i st s =
     (if admission_closed s then set_phase i Complete (put_result (not_started (bs_step_id st)) s)
      else (set_phase i (In_flight now) s)\<lparr>batch_calls := batch_calls s @ [bs_step_id st],
             meter_current := meter_current s + 1, meter_max := max (meter_max s) (meter_current s + 1)\<rparr>)"

definition outcome_result :: "step_decision \<Rightarrow> string \<Rightarrow> string \<Rightarrow> string \<Rightarrow> step_outcome \<Rightarrow> step_result" where
  "outcome_result d i started now out =
     (let r = (not_started i)\<lparr>sr_started_at := Some started, sr_finished_at := Some now, sr_audit_ref := sd_audit_ref d\<rparr> in
      case out of
        Out_value v \<Rightarrow> r\<lparr>sr_status := STEP_SUCCESS, sr_result := Some v, sr_outcome := sd_outcome d\<rparr>
      | Out_timeout \<Rightarrow> r\<lparr>sr_status := STEP_TIMED_OUT, sr_error := Some [(''code'', ''STEP_TIMEOUT'')]\<rparr>
      | Out_error t \<Rightarrow> r\<lparr>sr_status := STEP_FAILED, sr_error := Some [(''code'', ''STEP_FAILED''), (''type'', t)]\<rparr>)"

text \<open>From the return of the executor to the end of \<open>run_step\<close>.\<close>

definition finish_step ::
  "batch_request \<Rightarrow> step_decision \<Rightarrow> string \<Rightarrow> string \<Rightarrow> step_outcome \<Rightarrow> nat \<Rightarrow> batch_step \<Rightarrow> batch_state \<Rightarrow> batch_state" where
  "finish_step rq d started now out i st s =
     (let r = outcome_result d (bs_step_id st) started now out in
      (set_phase i Complete (put_result r s))\<lparr>
        meter_current := meter_current s - 1,
        batch_records := batch_records s @ [(bs_step_id st, r)],
        admission_closed := (admission_closed s \<or> (bq_failure_policy rq = BATCH_FAIL_FAST \<and> sr_status r \<noteq> STEP_SUCCESS))\<rparr>)"

definition cancelled_result :: "step_decision \<Rightarrow> string \<Rightarrow> string \<Rightarrow> string \<Rightarrow> step_result" where
  "cancelled_result d i started now = (not_started i)\<lparr>sr_status := STEP_CANCELLED, sr_started_at := Some started, sr_finished_at := Some now,
     sr_error := Some [(''code'', ''BATCH_CANCELLED''), (''outcome'', ''INDETERMINATE'')], sr_outcome := sd_outcome d, sr_audit_ref := sd_audit_ref d\<rparr>"

text \<open>
  The deadline: \<open>wait_for\<close> cancels every task. A task in flight records its cancellation, the
  others end without a result.
\<close>

definition cancel_one :: "(batch_step \<Rightarrow> step_decision) \<Rightarrow> string \<Rightarrow> batch_step \<times> phase \<Rightarrow> batch_state \<Rightarrow> batch_state" where
  "cancel_one dec now t s =
     (case snd t of
        In_flight started \<Rightarrow> put_result (cancelled_result (dec (fst t)) (bs_step_id (fst t)) started now) s
      | _ \<Rightarrow> s)"

definition cancel_all :: "(batch_step \<Rightarrow> step_decision) \<Rightarrow> string \<Rightarrow> batch_state \<Rightarrow> batch_state" where
  "cancel_all dec now s =
     (fold (cancel_one dec now) (batch_tasks s) s)\<lparr>batch_tasks := map (\<lambda>(st, p). (st, Complete)) (batch_tasks s),
        meter_current := 0, deadline_passed := True\<rparr>"

definition in_flight :: "(batch_step \<times> phase) list \<Rightarrow> nat" where
  "in_flight ts = length (filter (\<lambda>t. case snd t of In_flight x \<Rightarrow> True | _ \<Rightarrow> False) ts)"

inductive batch_moves :: "batch_request \<Rightarrow> (batch_step \<Rightarrow> step_decision) \<Rightarrow> int \<Rightarrow> batch_state \<Rightarrow> batch_state \<Rightarrow> bool"
  for rq dec par where
  enter_step: "i < length (batch_tasks s) \<Longrightarrow> batch_tasks s ! i = (st, Created) \<Longrightarrow> \<forall>j < i. snd (batch_tasks s ! j) \<noteq> Created \<Longrightarrow>
     batch_moves rq dec par s (begin_step (dec st) i st s)"
| grant: "i < length (batch_tasks s) \<Longrightarrow> batch_tasks s ! i = (st, Admission) \<Longrightarrow> \<forall>j < i. snd (batch_tasks s ! j) \<noteq> Admission \<Longrightarrow>
     int (in_flight (batch_tasks s)) < par \<Longrightarrow> batch_moves rq dec par s (admit_step now i st s)"
| return_step: "i < length (batch_tasks s) \<Longrightarrow> batch_tasks s ! i = (st, In_flight started) \<Longrightarrow>
     batch_moves rq dec par s (finish_step rq (dec st) started now out i st s)"
| deadline: "t \<in> set (batch_tasks s) \<Longrightarrow> snd t \<noteq> Complete \<Longrightarrow> batch_moves rq dec par s (cancel_all dec now s)"

definition batch_start :: "batch_request \<Rightarrow> batch_state" where
  "batch_start rq = \<lparr>batch_tasks = map (\<lambda>st. (st, Created)) (bq_steps rq), batch_results = [], batch_records = [], batch_calls = [],
     admission_closed = False, deadline_passed = False, meter_current = 0, meter_max = 0\<rparr>"

subsection \<open>The result\<close>

definition result_of :: "batch_state \<Rightarrow> batch_step \<Rightarrow> step_result" where
  "result_of s st = (case map_of (batch_results s) (bs_step_id st) of None \<Rightarrow> not_started (bs_step_id st) | Some r \<Rightarrow> r)"

definition was_cancelled :: "batch_request \<Rightarrow> batch_state \<Rightarrow> bool" where
  "was_cancelled rq s \<longleftrightarrow> admission_closed s \<and> \<not> deadline_passed s \<and>
     list_ex (\<lambda>i. case map_of (batch_results s) i of None \<Rightarrow> True | Some r \<Rightarrow> sr_status r = STEP_NOT_STARTED) (step_ids rq)"

definition batch_aggregate :: "batch_request \<Rightarrow> step_result list \<Rightarrow> bool \<Rightarrow> bool \<Rightarrow> batch_status" where
  "batch_aggregate rq rs cancelled timed_out =
     (if bq_dry_run rq \<and> list_all (\<lambda>r. sr_status r = STEP_NOT_STARTED) rs then BATCH_SUCCESS
      else aggregate_status rs cancelled timed_out)"

definition batch_finalize ::
  "(string \<Rightarrow> string) \<Rightarrow> batch_request \<Rightarrow> step_result list \<Rightarrow> string \<Rightarrow> string \<Rightarrow> int \<Rightarrow> nat \<Rightarrow> bool \<Rightarrow> bool \<Rightarrow>
    (batch_error, batch_result) result" where
  "batch_finalize sha rq rs started now par observed cancelled timed_out =
     bind_r (request_digest sha rq) (\<lambda>dg. result_new
       \<lparr>bx_batch_id = bq_batch_id rq, bx_aggregate_status = batch_aggregate rq rs cancelled timed_out, bx_steps = rs,
        bx_counts = count_statuses rs, bx_started_at = started, bx_finished_at = now, bx_evidence_ref = ''batch-evidence:'' @ bq_batch_id rq @ '':'' @ take 16 dg,
        bx_effective_parallelism = par, bx_max_observed_inflight = observed\<rparr>)"

definition dry_result :: "(batch_step \<Rightarrow> step_decision) \<Rightarrow> batch_step \<Rightarrow> step_result" where
  "dry_result dec st = (if sd_allowed (dec st) then not_started (bs_step_id st)
     else (not_started (bs_step_id st))\<lparr>sr_status := STEP_DENIED, sr_error := Some [(''code'', ''DENIED''), (''reason'', sd_reason (dec st))]\<rparr>)"

definition has_mutation :: "batch_request \<Rightarrow> (batch_step \<Rightarrow> step_decision) \<Rightarrow> bool" where
  "has_mutation rq dec \<longleftrightarrow> list_ex (\<lambda>st. sd_mutates (dec st)) (bq_steps rq)"

text \<open>
  \<open>run\<close>: what it returns, and the capacity it leaves, for the batch states its tasks can end in.
\<close>

inductive batch_runs ::
  "(string \<Rightarrow> string) \<Rightarrow> batch_request \<Rightarrow> (batch_step \<Rightarrow> step_decision) \<Rightarrow> capacity \<Rightarrow> bool \<Rightarrow> batch_state
    \<Rightarrow> (batch_error, batch_result) result \<Rightarrow> capacity \<Rightarrow> bool"
  for sha rq dec cap where
  disabled: "batch_runs sha rq dec cap False (batch_start rq) (Inl BatchDisabledError) cap"
| dry: "bq_dry_run rq \<Longrightarrow>
     batch_runs sha rq dec cap True (batch_start rq)
       (batch_finalize sha rq (map (dry_result dec) (bq_steps rq)) started now (batch_parallelism rq (has_mutation rq dec)) 0 False False) cap"
| full: "\<not> bq_dry_run rq \<Longrightarrow> cap_reserve (batch_parallelism rq (has_mutation rq dec)) cap = (cap', Inl err) \<Longrightarrow>
     batch_runs sha rq dec cap True (batch_start rq) (Inl err) cap'"
| ran: "\<not> bq_dry_run rq \<Longrightarrow> par = batch_parallelism rq (has_mutation rq dec) \<Longrightarrow> cap_reserve par cap = (cap', Inr ()) \<Longrightarrow>
     (batch_moves rq dec par)\<^sup>*\<^sup>* (batch_start rq) s \<Longrightarrow> \<forall>t \<in> set (batch_tasks s). snd t = Complete \<Longrightarrow>
     batch_runs sha rq dec cap True s
       (batch_finalize sha rq (map (result_of s) (bq_steps rq)) started now par (meter_max s) (was_cancelled rq s) (deadline_passed s))
       (cap_release par cap')"

subsection \<open>Invariant of a batch\<close>

text \<open>What the results and the calls say about a step, by the phase of its task.\<close>

definition task_ok :: "(batch_step \<Rightarrow> step_decision) \<Rightarrow> batch_state \<Rightarrow> batch_step \<times> phase \<Rightarrow> bool" where
  "task_ok dec s t = (let st = fst t; i = bs_step_id st; called = (i \<in> set (batch_calls s)); r = map_of (batch_results s) i in
     case snd t of
       Created \<Rightarrow> \<not> called \<and> r = None
     | Admission \<Rightarrow> \<not> called \<and> r = None \<and> sd_allowed (dec st)
     | In_flight x \<Rightarrow> called \<and> r = None \<and> sd_allowed (dec st)
     | Complete \<Rightarrow>
         (case r of None \<Rightarrow> \<not> called \<and> deadline_passed s
          | Some x \<Rightarrow> sr_step_id x = i \<and> (called \<longleftrightarrow> sr_status x \<notin> {STEP_DENIED, STEP_NOT_STARTED}) \<and>
              (sr_status x = STEP_DENIED \<longleftrightarrow> \<not> sd_allowed (dec st)) \<and> (sr_status x = STEP_NOT_STARTED \<longrightarrow> admission_closed s)))"

definition batch_inv :: "batch_request \<Rightarrow> (batch_step \<Rightarrow> step_decision) \<Rightarrow> int \<Rightarrow> batch_state \<Rightarrow> bool" where
  "batch_inv rq dec par s \<longleftrightarrow> map fst (batch_tasks s) = bq_steps rq \<and> distinct (batch_calls s) \<and>
     meter_current s = in_flight (batch_tasks s) \<and> int (meter_current s) \<le> par \<and> int (meter_max s) \<le> par \<and>
     (\<forall>t \<in> set (batch_tasks s). task_ok dec s t)"

lemma set_phase_simps [simp]:
  "batch_results (set_phase i p s) = batch_results s" "batch_calls (set_phase i p s) = batch_calls s"
  "admission_closed (set_phase i p s) = admission_closed s" "deadline_passed (set_phase i p s) = deadline_passed s"
  "meter_current (set_phase i p s) = meter_current s" "meter_max (set_phase i p s) = meter_max s"
  "batch_tasks (set_phase i p s) = (batch_tasks s)[i := (fst (batch_tasks s ! i), p)]"
  by (simp_all add: set_phase_def)

lemma put_result_simps [simp]:
  "map_of (batch_results (put_result r s)) = (map_of (batch_results s))(sr_step_id r \<mapsto> r)"
  "batch_calls (put_result r s) = batch_calls s" "admission_closed (put_result r s) = admission_closed s"
  "deadline_passed (put_result r s) = deadline_passed s" "meter_current (put_result r s) = meter_current s"
  "meter_max (put_result r s) = meter_max s" "batch_tasks (put_result r s) = batch_tasks s"
  by (simp_all add: put_result_def update_conv')

lemma result_ids [simp]:
  "sr_step_id (not_started i) = i" "sr_step_id (denied_result d i) = i" "sr_step_id (outcome_result d i x y out) = i"
  "sr_step_id (cancelled_result d i x y) = i"
  "sr_status (not_started i) = STEP_NOT_STARTED" "sr_status (denied_result d i) = STEP_DENIED"
  "sr_status (cancelled_result d i x y) = STEP_CANCELLED" "sr_status (outcome_result d i x y out) \<notin> {STEP_DENIED, STEP_NOT_STARTED}"
  by (simp_all add: not_started_def denied_result_def outcome_result_def cancelled_result_def Let_def split: step_outcome.split)

lemma in_flight_update:
  assumes "i < length ts"
  shows "in_flight (ts[i := (st, p)]) + (case snd (ts ! i) of In_flight x \<Rightarrow> 1 | _ \<Rightarrow> 0) = in_flight ts + (case p of In_flight x \<Rightarrow> 1 | _ \<Rightarrow> 0)"
proof -
  have "ts = take i ts @ ts ! i # drop (Suc i) ts" using assms by (rule id_take_nth_drop)
  moreover have "ts[i := (st, p)] = take i ts @ (st, p) # drop (Suc i) ts" using assms by (rule upd_conv_take_nth_drop)
  ultimately have "in_flight ts = in_flight (take i ts @ ts ! i # drop (Suc i) ts)"
    "in_flight (ts[i := (st, p)]) = in_flight (take i ts @ (st, p) # drop (Suc i) ts)" by simp_all
  then show ?thesis by (simp add: in_flight_def split: phase.split)
qed

text \<open>A move of one task leaves what is known about the others.\<close>

lemma task_ok_frame:
  assumes "task_ok dec s t" "bs_step_id (fst t) \<noteq> i"
    and "map_of (batch_results s') (bs_step_id (fst t)) = map_of (batch_results s) (bs_step_id (fst t))"
    and "set (batch_calls s') \<subseteq> insert i (set (batch_calls s))" "set (batch_calls s) \<subseteq> set (batch_calls s')"
    and "deadline_passed s \<longrightarrow> deadline_passed s'" "admission_closed s \<longrightarrow> admission_closed s'"
  shows "task_ok dec s' t"
proof -
  have "bs_step_id (fst t) \<in> set (batch_calls s') \<longleftrightarrow> bs_step_id (fst t) \<in> set (batch_calls s)" using assms(2,4,5) by blast
  with assms(1,3,6,7) show ?thesis by (auto simp: task_ok_def Let_def split: phase.splits option.splits)
qed

lemma tasks_ok_update:
  assumes "\<forall>t \<in> set (batch_tasks s). task_ok dec s t" "distinct (map (bs_step_id \<circ> fst) (batch_tasks s))"
    and "i < length (batch_tasks s)" "batch_tasks s ! i = (st, q)" "batch_tasks s' = (batch_tasks s)[i := (st, p)]" "task_ok dec s' (st, p)"
    and "\<And>k. k \<noteq> bs_step_id st \<Longrightarrow> map_of (batch_results s') k = map_of (batch_results s) k"
    and "set (batch_calls s') \<subseteq> insert (bs_step_id st) (set (batch_calls s))" "set (batch_calls s) \<subseteq> set (batch_calls s')"
    and "deadline_passed s \<longrightarrow> deadline_passed s'" "admission_closed s \<longrightarrow> admission_closed s'"
  shows "\<forall>t \<in> set (batch_tasks s'). task_ok dec s' t"
proof
  fix t assume "t \<in> set (batch_tasks s')"
  then obtain j where j: "j < length (batch_tasks s)" "t = (batch_tasks s)[i := (st, p)] ! j"
    using assms(5) by (auto simp: in_set_conv_nth)
  show "task_ok dec s' t"
  proof (cases "j = i")
    case True
    with j assms(3,6) show ?thesis by simp
  next
    case False
    with j have t: "t = batch_tasks s ! j" by simp
    have "bs_step_id (fst t) \<noteq> bs_step_id st"
      using assms(2,3,4) False j(1) t by (metis (no_types, lifting) comp_apply fst_conv length_map nth_eq_iff_index_eq nth_map)
    moreover have "task_ok dec s t" using assms(1) j(1) t by simp
    ultimately show ?thesis using task_ok_frame [of dec s t "bs_step_id st" s'] assms(7-11) by blast
  qed
qed

lemma map_fst_phase:
  "i < length ts \<Longrightarrow> ts ! i = (st, q) \<Longrightarrow> map fst (ts[i := (st, p)]) = map fst ts"
  by (simp add: map_update list_update_same_conv)

lemma distinct_task_ids:
  "map fst (batch_tasks s) = bq_steps rq \<Longrightarrow> distinct (step_ids rq) \<Longrightarrow> distinct (map (bs_step_id \<circ> fst) (batch_tasks s))"
  by (metis list.map_comp step_ids_def)

lemma begin_step_inv:
  assumes inv: "batch_inv rq dec par s" and d: "distinct (step_ids rq)"
    and i: "i < length (batch_tasks s)" "batch_tasks s ! i = (st, Created)"
  shows "batch_inv rq dec par (begin_step (dec st) i st s)"
proof -
  let ?s = "begin_step (dec st) i st s"
  note ids = distinct_task_ids [OF _ d, of s]
  have ok: "task_ok dec s (st, Created)" "\<forall>t \<in> set (batch_tasks s). task_ok dec s t" "map fst (batch_tasks s) = bq_steps rq"
    using inv i by (auto simp: batch_inv_def dest: nth_mem)
  obtain p where p: "batch_tasks ?s = (batch_tasks s)[i := (st, p)]" "p = Complete \<or> p = Admission" "task_ok dec ?s (st, p)"
    using ok(1) i(2) by (fastforce simp: begin_step_def task_ok_def Let_def split: if_splits)
  have "\<forall>t \<in> set (batch_tasks ?s). task_ok dec ?s t"
    by (rule tasks_ok_update [OF ok(2) ids [OF ok(3)] i p(1,3)]) (auto simp: begin_step_def)
  moreover have "in_flight (batch_tasks ?s) = in_flight (batch_tasks s)"
    using in_flight_update [OF i(1), of st p] i(2) p(1,2) by (auto split: phase.splits)
  moreover have "map fst (batch_tasks ?s) = bq_steps rq" using p(1) ok(3) map_fst_phase [OF i] by simp
  moreover have "batch_calls ?s = batch_calls s" "meter_current ?s = meter_current s" "meter_max ?s = meter_max s"
    by (simp_all add: begin_step_def)
  ultimately show ?thesis using inv by (simp add: batch_inv_def)
qed

lemma admit_step_inv:
  assumes inv: "batch_inv rq dec par s" and d: "distinct (step_ids rq)"
    and i: "i < length (batch_tasks s)" "batch_tasks s ! i = (st, Admission)" and free: "int (in_flight (batch_tasks s)) < par"
  shows "batch_inv rq dec par (admit_step now i st s)"
proof -
  let ?s = "admit_step now i st s"
  note ids = distinct_task_ids [OF _ d, of s]
  have ok: "task_ok dec s (st, Admission)" "\<forall>t \<in> set (batch_tasks s). task_ok dec s t" "map fst (batch_tasks s) = bq_steps rq"
    using inv i by (auto simp: batch_inv_def dest: nth_mem)
  show ?thesis
  proof (cases "admission_closed s")
    case True
    then have t: "batch_tasks ?s = (batch_tasks s)[i := (st, Complete)]" using i(2) by (simp add: admit_step_def)
    have "task_ok dec ?s (st, Complete)" using ok(1) True by (simp add: admit_step_def task_ok_def Let_def)
    then have "\<forall>t \<in> set (batch_tasks ?s). task_ok dec ?s t"
      by (rule tasks_ok_update [OF ok(2) ids [OF ok(3)] i t]) (auto simp: admit_step_def)
    moreover have "in_flight (batch_tasks ?s) = in_flight (batch_tasks s)" using in_flight_update [OF i(1), of st Complete] i(2) t by simp
    ultimately show ?thesis using inv t ok(3) map_fst_phase [OF i, of Complete] True by (simp add: batch_inv_def admit_step_def)
  next
    case False
    then have t: "batch_tasks ?s = (batch_tasks s)[i := (st, In_flight now)]" using i(2) by (simp add: admit_step_def)
    have "task_ok dec ?s (st, In_flight now)" using ok(1) False by (simp add: admit_step_def task_ok_def Let_def)
    then have "\<forall>t \<in> set (batch_tasks ?s). task_ok dec ?s t"
      by (rule tasks_ok_update [OF ok(2) ids [OF ok(3)] i t]) (auto simp: admit_step_def)
    moreover have "in_flight (batch_tasks ?s) = in_flight (batch_tasks s) + 1" using in_flight_update [OF i(1), of st "In_flight now"] i(2) t by simp
    moreover have "bs_step_id st \<notin> set (batch_calls s)" using ok(1) by (simp add: task_ok_def Let_def)
    ultimately show ?thesis using inv t ok(3) map_fst_phase [OF i, of "In_flight now"] False free by (auto simp: batch_inv_def admit_step_def)
  qed
qed

lemma finish_step_inv:
  assumes inv: "batch_inv rq dec par s" and d: "distinct (step_ids rq)"
    and i: "i < length (batch_tasks s)" "batch_tasks s ! i = (st, In_flight started)"
  shows "batch_inv rq dec par (finish_step rq (dec st) started now out i st s)"
proof -
  let ?s = "finish_step rq (dec st) started now out i st s"
  note ids = distinct_task_ids [OF _ d, of s]
  have ok: "task_ok dec s (st, In_flight started)" "\<forall>t \<in> set (batch_tasks s). task_ok dec s t" "map fst (batch_tasks s) = bq_steps rq"
    using inv i by (auto simp: batch_inv_def dest: nth_mem)
  have t: "batch_tasks ?s = (batch_tasks s)[i := (st, Complete)]" using i(2) by (simp add: finish_step_def Let_def)
  have "task_ok dec ?s (st, Complete)"
    using ok(1) result_ids(8) [of "dec st" "bs_step_id st" started now out] by (auto simp: finish_step_def task_ok_def Let_def)
  then have "\<forall>t \<in> set (batch_tasks ?s). task_ok dec ?s t"
    by (rule tasks_ok_update [OF ok(2) ids [OF ok(3)] i t]) (auto simp: finish_step_def Let_def)
  moreover have "in_flight (batch_tasks s) = in_flight (batch_tasks ?s) + 1" using in_flight_update [OF i(1), of st Complete] i(2) t by simp
  ultimately show ?thesis using inv t ok(3) map_fst_phase [OF i, of Complete] by (auto simp: batch_inv_def finish_step_def Let_def)
qed

lemma cancel_fold_frame:
  "batch_calls (fold (cancel_one dec now) ts s) = batch_calls s" "admission_closed (fold (cancel_one dec now) ts s) = admission_closed s"
  "meter_max (fold (cancel_one dec now) ts s) = meter_max s"
  by (induction ts arbitrary: s) (simp_all add: cancel_one_def split: phase.split)

lemma cancel_fold_other:
  "\<forall>t \<in> set ts. bs_step_id (fst t) = k \<longrightarrow> (\<forall>x. snd t \<noteq> In_flight x) \<Longrightarrow>
   map_of (batch_results (fold (cancel_one dec now) ts s)) k = map_of (batch_results s) k"
proof (induction ts arbitrary: s)
  case (Cons t ts)
  then show ?case by (cases "snd t") (auto simp: cancel_one_def)
qed simp

lemma cancel_fold_hit:
  assumes "(st, In_flight x) \<in> set ts" "distinct (map (bs_step_id \<circ> fst) ts)"
  shows "map_of (batch_results (fold (cancel_one dec now) ts s)) (bs_step_id st) = Some (cancelled_result (dec st) (bs_step_id st) x now)"
  using assms
proof (induction ts arbitrary: s)
  case (Cons t ts)
  show ?case
  proof (cases "t = (st, In_flight x)")
    case True
    have "\<forall>t \<in> set ts. bs_step_id (fst t) \<noteq> bs_step_id st" using Cons.prems(2) True by force
    then have "map_of (batch_results (fold (cancel_one dec now) ts (cancel_one dec now t s))) (bs_step_id st) =
      map_of (batch_results (cancel_one dec now t s)) (bs_step_id st)" by (intro cancel_fold_other) blast
    with True show ?thesis by (simp add: cancel_one_def [of dec now "(st, In_flight x)"])
  next
    case False
    with Cons show ?thesis by simp
  qed
qed simp

lemma cancel_all_inv:
  assumes inv: "batch_inv rq dec par s" and d: "distinct (step_ids rq)" and par: "0 \<le> par"
  shows "batch_inv rq dec par (cancel_all dec now s)"
proof -
  let ?s = "cancel_all dec now s" and ?ts = "batch_tasks s"
  have fst: "map fst ?ts = bq_steps rq" and ok: "\<forall>t \<in> set ?ts. task_ok dec s t" using inv by (simp_all add: batch_inv_def)
  note ids = distinct_task_ids [OF fst d]
  have "task_ok dec ?s (st, Complete)" if t: "(st, p) \<in> set ?ts" for st p
  proof (cases "\<exists>x. p = In_flight x")
    case True
    then obtain x where p: "p = In_flight x" by blast
    have "map_of (batch_results ?s) (bs_step_id st) = Some (cancelled_result (dec st) (bs_step_id st) x now)"
      using cancel_fold_hit [OF t [unfolded p] ids] by (simp add: cancel_all_def)
    moreover have "task_ok dec s (st, In_flight x)" using ok t p by blast
    ultimately show ?thesis by (simp add: task_ok_def Let_def cancel_all_def cancel_fold_frame)
  next
    case False
    have uniq: "\<forall>u \<in> set ?ts. bs_step_id (fst u) = bs_step_id st \<longrightarrow> u = (st, p)"
    proof (intro ballI impI)
      fix u assume "u \<in> set ?ts" "bs_step_id (fst u) = bs_step_id st"
      moreover have "inj_on (bs_step_id \<circ> fst) (set ?ts)" using ids by (simp add: distinct_map)
      ultimately show "u = (st, p)" using t inj_onD [of "bs_step_id \<circ> fst" "set ?ts" u "(st, p)"] by simp
    qed
    then have "map_of (batch_results ?s) (bs_step_id st) = map_of (batch_results s) (bs_step_id st)"
      using False cancel_fold_other [of ?ts "bs_step_id st" dec now s] by (fastforce simp: cancel_all_def)
    moreover have "task_ok dec s (st, p)" using ok t by blast
    ultimately show ?thesis using False
      by (cases p) (auto simp: task_ok_def Let_def cancel_all_def cancel_fold_frame split: option.splits)
  qed
  then have "\<forall>t \<in> set (batch_tasks ?s). task_ok dec ?s t" by (auto simp: cancel_all_def)
  moreover have "map fst (batch_tasks ?s) = bq_steps rq" using fst by (simp add: cancel_all_def comp_def case_prod_beta)
  moreover have "in_flight (batch_tasks ?s) = 0" by (auto simp: cancel_all_def in_flight_def filter_empty_conv)
  moreover have "batch_calls ?s = batch_calls s" "meter_max ?s = meter_max s" "meter_current ?s = 0" by (simp_all add: cancel_all_def cancel_fold_frame)
  ultimately show ?thesis using inv par by (simp add: batch_inv_def)
qed

lemma batch_inv_start: "0 \<le> par \<Longrightarrow> batch_inv rq dec par (batch_start rq)"
proof -
  have "in_flight (map (\<lambda>st. (st, Created)) sts) = 0" for sts by (induction sts) (simp_all add: in_flight_def)
  then show "0 \<le> par \<Longrightarrow> batch_inv rq dec par (batch_start rq)"
    by (auto simp: batch_inv_def batch_start_def comp_def task_ok_def Let_def)
qed

lemma batch_inv_reach:
  assumes "(batch_moves rq dec par)\<^sup>*\<^sup>* (batch_start rq) s" "distinct (step_ids rq)" "0 \<le> par"
  shows "batch_inv rq dec par s"
  using assms(1)
proof (induction rule: rtranclp_induct)
  case base
  then show ?case using assms(3) by (rule batch_inv_start)
next
  case (step s s')
  from step(2) step(3) show ?case
    by cases (auto intro: begin_step_inv admit_step_inv finish_step_inv cancel_all_inv assms(2,3))
qed

subsection \<open>Properties\<close>

lemma parallelism_bounds:
  "1 \<le> batch_parallelism rq m" "batch_parallelism rq m \<le> BATCH_MAX_PARALLELISM" "batch_parallelism rq True = 1"
  by (auto simp: batch_parallelism_def batch_limits)

text \<open>
  C25. Bounded concurrency: in every state a batch can reach, the steps in flight are those the meter
  counts, at most the effective parallelism of them, hence at most four and exactly one at a time
  as soon as one step mutates; no step is called twice and only steps governance allows are called.
\<close>

theorem batch_inflight_bounded:
  assumes "valid_request rq" and "par = batch_parallelism rq (has_mutation rq dec)" and "(batch_moves rq dec par)\<^sup>*\<^sup>* (batch_start rq) s"
  shows "meter_current s = in_flight (batch_tasks s) \<and> int (in_flight (batch_tasks s)) \<le> par \<and> int (meter_max s) \<le> par \<and>
    par \<le> BATCH_MAX_PARALLELISM \<and> (has_mutation rq dec \<longrightarrow> in_flight (batch_tasks s) \<le> 1) \<and> distinct (batch_calls s) \<and>
    (\<forall>st \<in> set (bq_steps rq). bs_step_id st \<in> set (batch_calls s) \<longrightarrow> sd_allowed (dec st))"
proof -
  have d: "distinct (step_ids rq)" using assms(1) by (simp add: valid_request_def)
  have p: "0 \<le> par" "par \<le> BATCH_MAX_PARALLELISM" "has_mutation rq dec \<longrightarrow> par = 1"
    using parallelism_bounds(1,2) [of rq "has_mutation rq dec"] parallelism_bounds(3) [of rq] assms(2) by auto
  note inv = batch_inv_reach [OF assms(3) d p(1)]
  have "sd_allowed (dec st)" if "st \<in> set (bq_steps rq)" "bs_step_id st \<in> set (batch_calls s)" for st
  proof -
    from inv that(1) have "st \<in> fst ` set (batch_tasks s)" by (metis batch_inv_def set_map)
    then obtain q where "(st, q) \<in> set (batch_tasks s)" by auto
    then have "task_ok dec s (st, q)" using inv by (simp add: batch_inv_def)
    with that(2) show ?thesis by (auto simp: task_ok_def Let_def split: phase.splits option.splits)
  qed
  with inv p show ?thesis by (auto simp: batch_inv_def)
qed

text \<open>The moves, and which of them call the executor.\<close>

lemma move_after_closing:
  assumes "batch_moves rq dec par s s'" "admission_closed s"
  shows "admission_closed s' \<and> batch_calls s' = batch_calls s"
  using assms by cases (auto simp: begin_step_def admit_step_def finish_step_def Let_def cancel_all_def cancel_fold_frame)

text \<open>Progress: work left per phase; a batch never gets stuck before every task is complete.\<close>

definition phase_work :: "phase \<Rightarrow> nat" where
  "phase_work p = (case p of Created \<Rightarrow> 3 | Admission \<Rightarrow> 2 | In_flight x \<Rightarrow> 1 | Complete \<Rightarrow> 0)"

definition batch_work :: "batch_state \<Rightarrow> nat" where
  "batch_work s = sum_list (map (phase_work \<circ> snd) (batch_tasks s))"

lemma work_update:
  assumes "i < length ts"
  shows "sum_list (map (phase_work \<circ> snd) (ts[i := (st, p)])) + phase_work (snd (ts ! i)) =
    sum_list (map (phase_work \<circ> snd) ts) + phase_work p"
proof -
  have "ts = take i ts @ ts ! i # drop (Suc i) ts" using assms by (rule id_take_nth_drop)
  moreover have "ts[i := (st, p)] = take i ts @ (st, p) # drop (Suc i) ts" using assms by (rule upd_conv_take_nth_drop)
  ultimately have "sum_list (map (phase_work \<circ> snd) ts) = sum_list (map (phase_work \<circ> snd) (take i ts @ ts ! i # drop (Suc i) ts))"
    "sum_list (map (phase_work \<circ> snd) (ts[i := (st, p)])) = sum_list (map (phase_work \<circ> snd) (take i ts @ (st, p) # drop (Suc i) ts))"
    by simp_all
  then show ?thesis by simp
qed

lemma move_work:
  assumes "batch_moves rq dec par s s'"
  shows "batch_work s' < batch_work s"
  using assms
proof cases
  case (enter_step i st)
  then show ?thesis
    using work_update [of i "batch_tasks s" st Complete] work_update [of i "batch_tasks s" st Admission]
    by (auto simp: begin_step_def batch_work_def phase_work_def)
next
  case (grant i st now)
  then show ?thesis
    using work_update [of i "batch_tasks s" st Complete] work_update [of i "batch_tasks s" st "In_flight now"]
    by (auto simp: admit_step_def batch_work_def phase_work_def)
next
  case (return_step i st started now out)
  then show ?thesis
    using work_update [of i "batch_tasks s" st Complete] by (auto simp: finish_step_def Let_def batch_work_def phase_work_def)
next
  case (deadline t now)
  then have "0 < phase_work (snd t)" by (simp add: phase_work_def split: phase.split)
  then have "0 < batch_work s"
    using deadline(2) by (auto simp: batch_work_def sum_list_eq_0_iff intro: ccontr)
  moreover have "batch_work (cancel_all dec now s) = 0" by (auto simp: batch_work_def cancel_all_def phase_work_def sum_list_eq_0_iff)
  ultimately show ?thesis using deadline(1) by simp
qed

text \<open>A step that is not complete can be moved without the deadline: the scheduler never blocks itself.\<close>

lemma first_with: "\<exists>j < length xs. P (xs ! j) \<Longrightarrow> \<exists>i < length xs. P (xs ! i) \<and> (\<forall>j < i. \<not> P (xs ! j))"
  using exists_least_iff [of "\<lambda>j. j < length xs \<and> P (xs ! j)"] by (meson less_trans)

lemma move_exists:
  assumes "t \<in> set (batch_tasks s)" "snd t \<noteq> Complete" "1 \<le> par"
  shows "\<exists>s'. batch_moves rq dec par s s' \<and> deadline_passed s' = deadline_passed s"
proof -
  have fl: ?thesis if "i < length (batch_tasks s)" "snd (batch_tasks s ! i) = In_flight x" for i x
  proof -
    have "batch_tasks s ! i = (fst (batch_tasks s ! i), In_flight x)" using that by (simp add: prod_eq_iff)
    from batch_moves.return_step [OF that(1) this, of rq dec par "[]" Out_timeout]
    show ?thesis by (intro exI conjI) (assumption, simp add: finish_step_def Let_def)
  qed
  have cr: ?thesis if ex: "\<exists>j < length (batch_tasks s). snd (batch_tasks s ! j) = Created"
  proof -
    from first_with [where P = "\<lambda>t. snd t = Created", OF ex] obtain i where i: "i < length (batch_tasks s)" "snd (batch_tasks s ! i) = Created"
      "\<forall>j < i. snd (batch_tasks s ! j) \<noteq> Created" by blast
    then have "batch_tasks s ! i = (fst (batch_tasks s ! i), Created)" by (simp add: prod_eq_iff)
    from batch_moves.enter_step [OF i(1) this i(3), of rq dec par]
    show ?thesis by (intro exI conjI) (assumption, simp add: begin_step_def)
  qed
  obtain j where j: "j < length (batch_tasks s)" "batch_tasks s ! j = t" using assms(1) by (auto simp: in_set_conv_nth)
  show ?thesis
  proof (cases "snd t")
    case Created
    then show ?thesis using j by (intro cr) auto
  next
    case (In_flight x)
    then show ?thesis using j fl by auto
  next
    case Admission
    show ?thesis
    proof (cases "in_flight (batch_tasks s) = 0")
      case True
      have "\<exists>j < length (batch_tasks s). snd (batch_tasks s ! j) = Admission" using j Admission by auto
      from first_with [where P = "\<lambda>t. snd t = Admission", OF this] obtain i where i: "i < length (batch_tasks s)"
        "snd (batch_tasks s ! i) = Admission" "\<forall>j < i. snd (batch_tasks s ! j) \<noteq> Admission" by blast
      then have "batch_tasks s ! i = (fst (batch_tasks s ! i), Admission)" by (simp add: prod_eq_iff)
      from batch_moves.grant [OF i(1) this i(3), of par rq dec "[]"] True assms(3)
      show ?thesis by (intro exI [of _ "admit_step [] i (fst (batch_tasks s ! i)) s"]) (simp add: admit_step_def)
    next
      case False
      then obtain u where u: "u \<in> set (batch_tasks s)" "case snd u of In_flight x \<Rightarrow> True | _ \<Rightarrow> False"
        by (auto simp: in_flight_def filter_empty_conv)
      then obtain x where "snd u = In_flight x" by (cases "snd u") simp_all
      with u(1) obtain i where "i < length (batch_tasks s)" "snd (batch_tasks s ! i) = In_flight x" by (auto simp: in_set_conv_nth)
      then show ?thesis by (rule fl)
    qed
  next
    case Complete
    with assms(2) show ?thesis by simp
  qed
qed

text \<open>
  Fail-closed admission: once admission is closed, no schedule whatever calls the executor for
  another step, and admission stays closed.
\<close>

theorem batch_admission_closed:
  assumes "(batch_moves rq dec par)\<^sup>*\<^sup>* s s'" and "admission_closed s"
  shows "batch_calls s' = batch_calls s \<and> admission_closed s'"
  using assms by (induction rule: rtranclp_induct) (auto dest: move_after_closing)

text \<open>
  Every schedule of a batch ends: no run of the tasks makes more than three moves per step, and as
  long as some task is not complete another move is possible without waiting for the deadline, so
  the scheduler never blocks itself.
\<close>

theorem batch_terminates:
  assumes "valid_request rq" and "(batch_moves rq dec (batch_parallelism rq m) ^^ k) (batch_start rq) s"
  shows "k \<le> 3 * length (bq_steps rq) \<and>
    ((\<exists>t \<in> set (batch_tasks s). snd t \<noteq> Complete) \<longrightarrow>
     (\<exists>s'. batch_moves rq dec (batch_parallelism rq m) s s' \<and> deadline_passed s' = deadline_passed s))"
proof
  have w: "(batch_moves rq dec par ^^ k) s0 s \<Longrightarrow> k + batch_work s \<le> batch_work s0" for par s0 k s
  proof (induction k arbitrary: s)
    case (Suc k)
    then obtain t where "(batch_moves rq dec par ^^ k) s0 t" "batch_moves rq dec par t s" by auto
    with Suc.IH [of t] move_work [of rq dec par t s] show ?case by simp
  qed simp
  have "batch_work (batch_start rq) = 3 * length (bq_steps rq)"
    by (simp add: batch_work_def batch_start_def phase_work_def comp_def sum_list_triv)
  with w [OF assms(2)] show "k \<le> 3 * length (bq_steps rq)" by simp
  show "(\<exists>t \<in> set (batch_tasks s). snd t \<noteq> Complete) \<longrightarrow>
     (\<exists>s'. batch_moves rq dec (batch_parallelism rq m) s s' \<and> deadline_passed s' = deadline_passed s)"
    using move_exists parallelism_bounds(1) by blast
qed


lemma traverse_Inl:
  assumes "x \<in> set xs" "f x = Inl e" "\<And>y d. f y = Inl d \<Longrightarrow> d = e"
  shows "traverse f xs = Inl e"
  using assms(1)
proof (induction xs)
  case (Cons y ys)
  show ?case
  proof (cases "f y")
    case (Inl d)
    with assms(3) show ?thesis by simp
  next
    case (Inr v)
    with assms(2) Cons show ?thesis by auto
  qed
qed simp

text \<open>
  A float in the arguments loses the result: the request passes validation and its steps are
  executed, but the evidence reference needs the request digest, floats have no canonical text, and
  so \<open>run\<close> raises \<open>TypeError\<close> after the effects have happened.
\<close>

theorem batch_float_loses_result:
  assumes "st \<in> set (bq_steps rq)" and "(k, JFloat q) \<in> set (bs_args st)" and "\<not> bq_dry_run rq"
    and "batch_runs sha rq dec cap True s res cap'" and "cap_used cap + BATCH_MAX_PARALLELISM \<le> cap_limit cap"
  shows "res = Inl Batch_TypeError"
proof -
  have bad: "step_digest sha st = Inl Batch_TypeError"
    using assms(2) by (force simp: step_digest_def batch_hash_def canonical_hash_def canonical_json_text_def)
  have err: "step_digest sha x = Inl e \<Longrightarrow> e = Batch_TypeError" for x e
    by (auto simp: step_digest_def batch_hash_def split: sum.splits)
  have "traverse (step_digest sha) (bq_steps rq) = Inl Batch_TypeError" using traverse_Inl [where f = "step_digest sha", OF assms(1) bad] err by blast
  then have dg: "request_digest sha rq = Inl Batch_TypeError" by (simp add: request_digest_def)
  from assms(4) show ?thesis
  proof cases
    case (full err)
    then show ?thesis using assms(5) parallelism_bounds(2) [of rq "has_mutation rq dec"] by (simp add: cap_reserve_def split: if_splits)
  qed (use assms(3) dg in \<open>simp_all add: batch_finalize_def\<close>)
qed

subsection \<open>Sample batches\<close>

definition demo_step :: "string \<Rightarrow> (string \<times> json) list \<Rightarrow> batch_step" where
  "demo_step i a = \<lparr>bs_step_id = i, bs_tool = ''github.read'', bs_args = a, bs_idempotency_key = None, bs_approval_ref = None,
     bs_step_timeout_s = 30, bs_depends_on = []\<rparr>"

definition demo_request :: "batch_step list \<Rightarrow> batch_request" where
  "demo_request sts = \<lparr>bq_batch_id = ''b1'', bq_steps = sts, bq_failure_policy = BATCH_FAIL_FAST, bq_max_parallelism = 2,
     bq_batch_timeout_s = 60, bq_dry_run = False, bq_schema_version = BATCH_SCHEMA_VERSION, bq_mode = ''BATCH''\<rparr>"

definition demo_capacity :: capacity where
  "demo_capacity = \<lparr>cap_limit = 8, cap_used = 0\<rparr>"

text \<open>One allowed step, run from its creation to its value.\<close>

definition demo_s1 :: "batch_step \<Rightarrow> batch_state" where
  "demo_s1 st = begin_step (allow_all (demo_request [st]) st) 0 st (batch_start (demo_request [st]))"

definition demo_s2 :: "batch_step \<Rightarrow> batch_state" where
  "demo_s2 st = admit_step ''t0'' 0 st (demo_s1 st)"

definition demo_s3 :: "batch_step \<Rightarrow> step_outcome \<Rightarrow> batch_state" where
  "demo_s3 st out = finish_step (demo_request [st]) (allow_all (demo_request [st]) st) ''t0'' ''t1'' out 0 st (demo_s2 st)"

lemma demo_moves:
  assumes "1 \<le> par"
  shows "batch_moves (demo_request [st]) (allow_all (demo_request [st])) par (batch_start (demo_request [st])) (demo_s1 st)"
    "batch_moves (demo_request [st]) (allow_all (demo_request [st])) par (demo_s1 st) (demo_s2 st)"
    "batch_moves (demo_request [st]) (allow_all (demo_request [st])) par (demo_s2 st) (demo_s3 st out)"
proof -
  have 0: "batch_tasks (batch_start (demo_request [st])) = [(st, Created)]" by (simp add: batch_start_def demo_request_def)
  then show "batch_moves (demo_request [st]) (allow_all (demo_request [st])) par (batch_start (demo_request [st])) (demo_s1 st)"
    unfolding demo_s1_def by (intro batch_moves.enter_step) simp_all
  have "\<not> admission_closed (batch_start (demo_request [st]))" by (simp add: batch_start_def)
  with 0 have 1: "batch_tasks (demo_s1 st) = [(st, Admission)]" "\<not> admission_closed (demo_s1 st)"
    by (simp_all add: demo_s1_def begin_step_def allow_all_def)
  then show "batch_moves (demo_request [st]) (allow_all (demo_request [st])) par (demo_s1 st) (demo_s2 st)"
    unfolding demo_s2_def using assms by (intro batch_moves.grant) (simp_all add: in_flight_def)
  have "batch_tasks (demo_s2 st) = [(st, In_flight ''t0'')]" using 1 by (simp add: demo_s2_def admit_step_def)
  then show "batch_moves (demo_request [st]) (allow_all (demo_request [st])) par (demo_s2 st) (demo_s3 st out)"
    unfolding demo_s3_def by (intro batch_moves.return_step) simp_all
qed

lemma demo_reaches:
  assumes "1 \<le> par"
  shows "(batch_moves (demo_request [st]) (allow_all (demo_request [st])) par)\<^sup>*\<^sup>* (batch_start (demo_request [st])) (demo_s2 st)"
    "(batch_moves (demo_request [st]) (allow_all (demo_request [st])) par)\<^sup>*\<^sup>* (batch_start (demo_request [st])) (demo_s3 st out)"
  using demo_moves [OF assms, of st] by (meson rtranclp.rtrancl_into_rtrancl rtranclp.rtrancl_refl)+

lemma demo_s2_simps: "batch_calls (demo_s2 st) = [bs_step_id st]" "in_flight (batch_tasks (demo_s2 st)) = 1"
  by (simp_all add: demo_s2_def demo_s1_def admit_step_def begin_step_def allow_all_def batch_start_def demo_request_def in_flight_def set_phase_def)

lemma demo_s3_done: "\<forall>t \<in> set (batch_tasks (demo_s3 st out)). snd t = Complete"
  by (simp add: demo_s3_def finish_step_def Let_def demo_s2_def demo_s1_def admit_step_def begin_step_def allow_all_def batch_start_def
      demo_request_def set_phase_def put_result_def)

lemma demo_valid: "valid_request (demo_request [demo_step ''a'' as])"
  by (simp add: valid_request_def demo_request_def demo_step_def step_ids_def batch_limits)

theorem batch_inflight_bounded_witness:
  "in_flight (batch_tasks (demo_s2 (demo_step ''a'' []))) = 1 \<and> int (in_flight (batch_tasks (demo_s2 (demo_step ''a'' [])))) \<le> 4"
  using batch_inflight_bounded [OF demo_valid refl demo_reaches(1) [OF parallelism_bounds(1)]] demo_s2_simps(2)
  by (simp add: batch_limits)

theorem batch_terminates_witness:
  "\<exists>s'. batch_moves (demo_request [demo_step ''a'' []]) (allow_all (demo_request [demo_step ''a'' []]))
     (batch_parallelism (demo_request [demo_step ''a'' []]) False) (demo_s1 (demo_step ''a'' [])) s'"
proof -
  let ?st = "demo_step ''a'' []"
  have r: "(batch_moves (demo_request [?st]) (allow_all (demo_request [?st])) (batch_parallelism (demo_request [?st]) False) ^^ 1)
      (batch_start (demo_request [?st])) (demo_s1 ?st)"
    using demo_moves(1) [OF parallelism_bounds(1)] by (simp only: relpowp_1)
  have "\<exists>t \<in> set (batch_tasks (demo_s1 ?st)). snd t \<noteq> Complete"
    by (simp add: demo_s1_def begin_step_def allow_all_def batch_start_def demo_request_def set_phase_def)
  with batch_terminates [OF demo_valid r] show ?thesis by blast
qed

lemma demo_runs:
  "batch_runs sha (demo_request [st]) (allow_all (demo_request [st])) demo_capacity True (demo_s3 st out)
     (batch_finalize sha (demo_request [st]) (map (result_of (demo_s3 st out)) (bq_steps (demo_request [st]))) ''0'' ''1''
        (batch_parallelism (demo_request [st]) (has_mutation (demo_request [st]) (allow_all (demo_request [st])))) (meter_max (demo_s3 st out))
        (was_cancelled (demo_request [st]) (demo_s3 st out)) (deadline_passed (demo_s3 st out)))
     (cap_release (batch_parallelism (demo_request [st]) (has_mutation (demo_request [st]) (allow_all (demo_request [st]))))
        (demo_capacity\<lparr>cap_used := batch_parallelism (demo_request [st]) (has_mutation (demo_request [st]) (allow_all (demo_request [st])))\<rparr>))"
proof (rule batch_runs.ran)
  let ?par = "batch_parallelism (demo_request [st]) (has_mutation (demo_request [st]) (allow_all (demo_request [st])))"
  show "cap_reserve ?par demo_capacity = (demo_capacity\<lparr>cap_used := ?par\<rparr>, Inr ())"
    using parallelism_bounds(2) [of "demo_request [st]" "has_mutation (demo_request [st]) (allow_all (demo_request [st]))"]
    by (simp add: cap_reserve_def demo_capacity_def batch_limits)
qed (use demo_reaches(2) [OF parallelism_bounds(1)] demo_s3_done in \<open>simp_all add: demo_request_def\<close>)

lemma demo_digest: "request_digest (\<lambda>s. ''d'') (demo_request [demo_step ''a'' []]) = Inr ''d''"
  by (simp add: request_digest_def step_digest_def batch_hash_def canonical_hash_def canonical_json_text_def demo_request_def demo_step_def opt_json_def)


theorem batch_float_loses_result_witness:
  "\<exists>cap'. batch_runs (\<lambda>s. s) (demo_request [demo_step ''a'' [(''x'', JFloat (1 / 2))]]) (allow_all (demo_request [demo_step ''a'' [(''x'', JFloat (1 / 2))]]))
     demo_capacity True (demo_s3 (demo_step ''a'' [(''x'', JFloat (1 / 2))]) (Out_value [])) (Inl Batch_TypeError) cap' \<and>
   batch_calls (demo_s2 (demo_step ''a'' [(''x'', JFloat (1 / 2))])) = [''a'']"
proof -
  let ?st = "demo_step ''a'' [(''x'', JFloat (1 / 2))]"
  have a: "?st \<in> set (bq_steps (demo_request [?st]))" "(''x'', JFloat (1 / 2)) \<in> set (bs_args ?st)" "\<not> bq_dry_run (demo_request [?st])"
    "cap_used demo_capacity + BATCH_MAX_PARALLELISM \<le> cap_limit demo_capacity"
    by (simp_all add: demo_request_def demo_step_def demo_capacity_def batch_limits)
  from batch_float_loses_result [OF a(1-3) demo_runs a(4)] demo_runs have
    "\<exists>cap'. batch_runs (\<lambda>s. s) (demo_request [?st]) (allow_all (demo_request [?st])) demo_capacity True (demo_s3 ?st (Out_value [])) (Inl Batch_TypeError) cap'"
    by metis
  then show ?thesis using demo_s2_simps(1) [of ?st] by (simp add: demo_step_def)
qed

theorem batch_admission_closed_witness:
  "batch_calls (cancel_all (allow_all (demo_request [demo_step ''a'' []])) ''t2'' ((batch_start (demo_request [demo_step ''a'' []]))\<lparr>admission_closed := True\<rparr>)) = []"
proof -
  let ?rq = "demo_request [demo_step ''a'' []]"
  let ?s = "(batch_start ?rq)\<lparr>admission_closed := True\<rparr>"
  have "batch_moves ?rq (allow_all ?rq) 1 ?s (cancel_all (allow_all ?rq) ''t2'' ?s)"
    by (rule batch_moves.deadline [of "(demo_step ''a'' [], Created)"]) (simp_all add: batch_start_def demo_request_def)
  then have "(batch_moves ?rq (allow_all ?rq) 1)\<^sup>*\<^sup>* ?s (cancel_all (allow_all ?rq) ''t2'' ?s)" by simp
  from batch_admission_closed [OF this] show ?thesis by (simp add: batch_start_def)
qed

subsection \<open>Where fail-fast does less than documented\<close>

text \<open>
  Under \<open>fail_fast\<close> a denied step does not close admission, and closing admission cancels nothing
  that is in flight: only \<open>finish_step\<close> closes it, and only \<open>cancel_all\<close> (the deadline) cancels.
\<close>

lemma denied_step_keeps_admission: "\<not> sd_allowed d \<Longrightarrow> admission_closed (begin_step d i st s) = admission_closed s"
  by (simp add: begin_step_def)

lemma closing_keeps_others:
  "j \<noteq> i \<Longrightarrow> batch_tasks (finish_step rq d x y out i st s) ! j = batch_tasks s ! j"
  by (simp add: finish_step_def Let_def)

subsection \<open>Capacity\<close>

text \<open>Reservations and releases of the batches of the process; a release gives back what a batch reserved.\<close>

datatype cap_op = Cap_reserve int | Cap_release int

text \<open>The capacity with the reservations outstanding.\<close>

definition cap_step :: "capacity \<times> int list \<Rightarrow> cap_op \<Rightarrow> capacity \<times> int list" where
  "cap_step cl x = (case cl of (c, held) \<Rightarrow>
     (case x of
        Cap_reserve n \<Rightarrow> if 0 \<le> n then (case cap_reserve n c of (c', Inr _) \<Rightarrow> (c', n # held) | (c', Inl _) \<Rightarrow> (c', held)) else cl
      | Cap_release n \<Rightarrow> if n \<in> set held then (cap_release n c, remove1 n held) else cl))"

definition cap_inv :: "capacity \<times> int list \<Rightarrow> bool" where
  "cap_inv cl \<longleftrightarrow> cap_used (fst cl) = sum_list (snd cl) \<and> (\<forall>n \<in> set (snd cl). 0 \<le> n) \<and> cap_used (fst cl) \<le> cap_limit (fst cl)"

lemma sum_list_remove1: "n \<in> set held \<Longrightarrow> sum_list (remove1 n held) = sum_list held - (n :: int)"
  by (induction held) auto

lemma sum_list_ge: "\<forall>n \<in> set held. 0 \<le> n \<Longrightarrow> m \<in> set held \<Longrightarrow> (m :: int) \<le> sum_list held"
  by (simp add: member_le_sum_list)

interpretation capm: op_machine cap_step cap_inv
proof
  fix cl x assume inv: "cap_inv cl"
  obtain c held where cl: "cl = (c, held)" by (rule prod.exhaust)
  show "cap_inv (cap_step cl x)"
  proof (cases x)
    case (Cap_reserve n)
    with inv cl show ?thesis by (auto simp: cap_step_def cap_inv_def cap_reserve_def)
  next
    case (Cap_release n)
    have "set (remove1 n held) \<subseteq> set held" by (rule set_remove1_subset)
    with Cap_release inv cl sum_list_ge [of held n] sum_list_remove1 [of n held] show ?thesis
      by (auto simp: cap_step_def cap_inv_def cap_release_def)
  qed
qed

text \<open>
  The process-wide ceiling: over any interleaving of reservations and releases by any batches, the
  capacity in use is exactly what is reserved and never exceeds the limit, so the \<open>max 0\<close> in
  \<open>release\<close> never hides an imbalance.
\<close>

theorem capacity_exact:
  assumes "capacity_new limit = Inr c" and "run_ops cap_step (c, []) ops = (c', held)"
  shows "cap_used c' = sum_list held \<and> cap_used c' \<le> cap_limit c'"
proof -
  have "cap_inv (c, [])" using assms(1) by (auto simp: capacity_new_def cap_inv_def split: if_splits)
  from capm.run_inv [OF this, of ops] assms(2) show ?thesis by (simp add: cap_inv_def)
qed

theorem capacity_exact_witness:
  "cap_used (fst (run_ops cap_step (\<lparr>cap_limit = 8, cap_used = 0\<rparr>, []) [Cap_reserve 4, Cap_reserve 4, Cap_reserve 1, Cap_release 4])) = 4"
proof -
  have c: "capacity_new 8 = Inr \<lparr>cap_limit = 8, cap_used = 0\<rparr>" by (simp add: capacity_new_def)
  have "run_ops cap_step (\<lparr>cap_limit = 8, cap_used = 0\<rparr>, []) [Cap_reserve 4, Cap_reserve 4, Cap_reserve 1, Cap_release 4] =
      (\<lparr>cap_limit = 8, cap_used = 4\<rparr>, [4])" by (simp add: cap_step_def cap_reserve_def cap_release_def)
  from capacity_exact [OF c this] this show ?thesis by simp
qed

end
