(* ===== verification/Resolver_Contract.thy ===== *)
theory Resolver_Contract
  imports Json Py_Text
begin

section \<open>Resolver contract (v2/resolver\_contract.py)\<close>

text \<open>
  The closed reason codes of the mode resolver, its budget, the typed intent it decides on and the
  decision record, with the checks of their constructors and their canonical forms. SHA-256 is the
  parameter \<open>sha\<close>. What the Python code checks with \<open>isinstance\<close> is given here by the types.
\<close>

subsection \<open>Codes\<close>

datatype execution_mode = MODE_DIRECT | MODE_BATCH | MODE_DAG | MODE_RUNBOOK | MODE_HYBRID | MODE_AGENTIC

datatype policy_decision = ALLOW | DENY | APPROVAL_REQUIRED

datatype capability_state = CONFIGURED | AVAILABLE | HEALTHY | READY | DEGRADED | UNAVAILABLE | CAP_DENIED

datatype resolver_reason =
  R_DIRECT_EXACT | R_RUNBOOK_MATCH | R_BATCH_INDEPENDENT | R_DAG_TYPED_PLAN
| R_AGENTIC_AMBIGUOUS_INTENT | R_AGENTIC_UNBOUND_ARGUMENT | R_AGENTIC_UNKNOWN_TARGET
| R_AGENTIC_NO_CONTRACT_COVERAGE | R_AGENTIC_RESIDUAL_SUBINTENT
| R_REJ_DIRECT_NOT_READY | R_REJ_DIRECT_MULTI_TOOL | R_REJ_DIRECT_UNBOUND | R_REJ_NO_RUNBOOK
| R_REJ_RUNBOOK_VERSION_UNPINNED | R_REJ_NOT_INDEPENDENT | R_REJ_NOT_PLANNABLE | R_REJ_CYCLE_DETECTED
| E_REQ_INVALID | E_POLICY_DENY | E_BUDGET_NODES | E_BUDGET_TOKENS | E_BUDGET_DEADLINE
| E_AGENTIC_NOT_ALLOWED | E_AGENTIC_BUDGET_EXHAUSTED | E_AGENTIC_APPROVAL_MISSING
| E_AGENTIC_POLICY_FORBIDDEN | E_AGENTIC_CONTEXT_SHAPING_FAILED | E_SAFETY_DOWNGRADE_REFUSED
| E_RESOLVER_NONDETERMINISM

primrec resolver_value :: "resolver_reason \<Rightarrow> string" where
  "resolver_value R_DIRECT_EXACT = ''R-DIRECT-EXACT''"
| "resolver_value R_RUNBOOK_MATCH = ''R-RUNBOOK-MATCH''"
| "resolver_value R_BATCH_INDEPENDENT = ''R-BATCH-INDEPENDENT''"
| "resolver_value R_DAG_TYPED_PLAN = ''R-DAG-TYPED-PLAN''"
| "resolver_value R_AGENTIC_AMBIGUOUS_INTENT = ''R-AGENTIC-AMBIGUOUS-INTENT''"
| "resolver_value R_AGENTIC_UNBOUND_ARGUMENT = ''R-AGENTIC-UNBOUND-ARGUMENT''"
| "resolver_value R_AGENTIC_UNKNOWN_TARGET = ''R-AGENTIC-UNKNOWN-TARGET''"
| "resolver_value R_AGENTIC_NO_CONTRACT_COVERAGE = ''R-AGENTIC-NO-CONTRACT-COVERAGE''"
| "resolver_value R_AGENTIC_RESIDUAL_SUBINTENT = ''R-AGENTIC-RESIDUAL-SUBINTENT''"
| "resolver_value R_REJ_DIRECT_NOT_READY = ''R-REJ-DIRECT-NOT-READY''"
| "resolver_value R_REJ_DIRECT_MULTI_TOOL = ''R-REJ-DIRECT-MULTI-TOOL''"
| "resolver_value R_REJ_DIRECT_UNBOUND = ''R-REJ-DIRECT-UNBOUND''"
| "resolver_value R_REJ_NO_RUNBOOK = ''R-REJ-NO-RUNBOOK''"
| "resolver_value R_REJ_RUNBOOK_VERSION_UNPINNED = ''R-REJ-RUNBOOK-VERSION-UNPINNED''"
| "resolver_value R_REJ_NOT_INDEPENDENT = ''R-REJ-NOT-INDEPENDENT''"
| "resolver_value R_REJ_NOT_PLANNABLE = ''R-REJ-NOT-PLANNABLE''"
| "resolver_value R_REJ_CYCLE_DETECTED = ''R-REJ-CYCLE-DETECTED''"
| "resolver_value E_REQ_INVALID = ''E-REQ-INVALID''"
| "resolver_value E_POLICY_DENY = ''E-POLICY-DENY''"
| "resolver_value E_BUDGET_NODES = ''E-BUDGET-NODES''"
| "resolver_value E_BUDGET_TOKENS = ''E-BUDGET-TOKENS''"
| "resolver_value E_BUDGET_DEADLINE = ''E-BUDGET-DEADLINE''"
| "resolver_value E_AGENTIC_NOT_ALLOWED = ''E-AGENTIC-NOT-ALLOWED''"
| "resolver_value E_AGENTIC_BUDGET_EXHAUSTED = ''E-AGENTIC-BUDGET-EXHAUSTED''"
| "resolver_value E_AGENTIC_APPROVAL_MISSING = ''E-AGENTIC-APPROVAL-MISSING''"
| "resolver_value E_AGENTIC_POLICY_FORBIDDEN = ''E-AGENTIC-POLICY-FORBIDDEN''"
| "resolver_value E_AGENTIC_CONTEXT_SHAPING_FAILED = ''E-AGENTIC-CONTEXT-SHAPING-FAILED''"
| "resolver_value E_SAFETY_DOWNGRADE_REFUSED = ''E-SAFETY-DOWNGRADE-REFUSED''"
| "resolver_value E_RESOLVER_NONDETERMINISM = ''E-RESOLVER-NONDETERMINISM''"

definition is_mode_selection :: "resolver_reason \<Rightarrow> bool" where
  "is_mode_selection r \<longleftrightarrow> take 2 (resolver_value r) = ''R-'' \<and> take 6 (resolver_value r) \<noteq> ''R-REJ-''"

definition is_rejection :: "resolver_reason \<Rightarrow> bool" where
  "is_rejection r \<longleftrightarrow> take 6 (resolver_value r) = ''R-REJ-''"

definition is_refusal :: "resolver_reason \<Rightarrow> bool" where
  "is_refusal r \<longleftrightarrow> take 2 (resolver_value r) = ''E-''"

definition selects_agentic :: "resolver_reason \<Rightarrow> bool" where
  "selects_agentic r \<longleftrightarrow> is_mode_selection r \<and> substr ''AGENTIC'' (resolver_value r)"

definition MODE_FOR_REASON :: "(resolver_reason \<times> execution_mode) list" where
  "MODE_FOR_REASON =
     [(R_DIRECT_EXACT, MODE_DIRECT), (R_RUNBOOK_MATCH, MODE_RUNBOOK), (R_BATCH_INDEPENDENT, MODE_BATCH),
      (R_DAG_TYPED_PLAN, MODE_DAG), (R_AGENTIC_AMBIGUOUS_INTENT, MODE_AGENTIC), (R_AGENTIC_UNBOUND_ARGUMENT, MODE_AGENTIC),
      (R_AGENTIC_UNKNOWN_TARGET, MODE_AGENTIC), (R_AGENTIC_NO_CONTRACT_COVERAGE, MODE_AGENTIC),
      (R_AGENTIC_RESIDUAL_SUBINTENT, MODE_AGENTIC)]"

definition MODE_PREFERENCE :: "execution_mode list" where
  "MODE_PREFERENCE = [MODE_DIRECT, MODE_BATCH, MODE_DAG, MODE_RUNBOOK, MODE_AGENTIC]"

datatype resolver_error = ResolverContractError resolver_reason string | Resolver_TypeError | Resolver_KeyError

text \<open>\<open>canonical_hash\<close> raises \<open>TypeError\<close> on a value without canonical text.\<close>

definition resolver_hash :: "(string \<Rightarrow> string) \<Rightarrow> json \<Rightarrow> (resolver_error, string) result" where
  "resolver_hash sha v = (case canonical_hash sha v of Inl e \<Rightarrow> Inl Resolver_TypeError | Inr h \<Rightarrow> Inr h)"

subsection \<open>Budget\<close>

record resolver_budget =
  batch_max_nodes :: int
  dag_max_nodes :: int
  dag_max_depth :: int
  max_escalations_per_request :: int
  agentic_token_budget :: int
  agentic_deadline_s :: int
  direct_deadline_s :: int
  min_deterministic_coverage_permille :: int

definition budget_default :: resolver_budget where
  "budget_default = \<lparr>batch_max_nodes = 50, dag_max_nodes = 200, dag_max_depth = 12, max_escalations_per_request = 1,
     agentic_token_budget = 0, agentic_deadline_s = 120, direct_deadline_s = 10, min_deterministic_coverage_permille = 500\<rparr>"

definition budget_fields :: "resolver_budget \<Rightarrow> (string \<times> int) list" where
  "budget_fields b =
     [(''batch_max_nodes'', batch_max_nodes b), (''dag_max_nodes'', dag_max_nodes b), (''dag_max_depth'', dag_max_depth b),
      (''max_escalations_per_request'', max_escalations_per_request b), (''agentic_token_budget'', agentic_token_budget b),
      (''agentic_deadline_s'', agentic_deadline_s b), (''direct_deadline_s'', direct_deadline_s b),
      (''min_deterministic_coverage_permille'', min_deterministic_coverage_permille b)]"

definition budget_new :: "resolver_budget \<Rightarrow> (resolver_error, resolver_budget) result" where
  "budget_new b =
     (case find (\<lambda>(name, v). v < 0) (budget_fields b) of
        Some (name, v) \<Rightarrow> Inl (ResolverContractError E_REQ_INVALID name)
      | None \<Rightarrow>
          if \<not> (0 \<le> min_deterministic_coverage_permille b \<and> min_deterministic_coverage_permille b \<le> 1000)
          then Inl (ResolverContractError E_REQ_INVALID ''min_deterministic_coverage_permille'') else Inr b)"

definition allows_agentic :: "resolver_budget \<Rightarrow> bool" where
  "allows_agentic b \<longleftrightarrow> agentic_token_budget b > 0"

definition budget_canonical :: "resolver_budget \<Rightarrow> json" where
  "budget_canonical b = JObj
     [(''agentic_deadline_s'', JInt (agentic_deadline_s b)), (''agentic_token_budget'', JInt (agentic_token_budget b)),
      (''batch_max_nodes'', JInt (batch_max_nodes b)), (''dag_max_depth'', JInt (dag_max_depth b)),
      (''dag_max_nodes'', JInt (dag_max_nodes b)), (''direct_deadline_s'', JInt (direct_deadline_s b)),
      (''max_escalations_per_request'', JInt (max_escalations_per_request b)),
      (''min_deterministic_coverage_permille'', JInt (min_deterministic_coverage_permille b))]"

definition budget_digest_of :: "(string \<Rightarrow> string) \<Rightarrow> resolver_budget \<Rightarrow> (resolver_error, string) result" where
  "budget_digest_of sha b = resolver_hash sha (budget_canonical b)"

subsection \<open>Intents\<close>

text \<open>\<open>[a-z0-9][a-z0-9._-]{0,127}\<close> as a full match.\<close>

fun resolver_ident :: "string \<Rightarrow> bool" where
  "resolver_ident [] = False"
| "resolver_ident (c # cs) \<longleftrightarrow>
     (ascii_lower c \<or> CHR ''0'' \<le> c \<and> c \<le> CHR ''9'') \<and> length cs \<le> 127 \<and>
     list_all (\<lambda>d. ascii_lower d \<or> CHR ''0'' \<le> d \<and> d \<le> CHR ''9'' \<or> d \<in> set ''._-'') cs"

definition resolver_identifier :: "string \<Rightarrow> string \<Rightarrow> (resolver_error, string) result" where
  "resolver_identifier v field =
     (let text = lower_text (strip v)
      in if \<not> resolver_ident text then Inl (ResolverContractError E_REQ_INVALID field) else Inr text)"

record intent_operation =
  capability_id :: string
  target_scope_ref :: string
  op_fully_bound :: bool
  op_depends_on :: "string list"
  operation_ref :: string

definition operation_new :: "intent_operation \<Rightarrow> (resolver_error, intent_operation) result" where
  "operation_new op =
     bind_r (resolver_identifier (capability_id op) ''capability_id'') (\<lambda>c.
     if strip (target_scope_ref op) = [] then Inl (ResolverContractError E_REQ_INVALID ''target_scope_ref'')
     else Inr (op\<lparr>capability_id := c, operation_ref := (if operation_ref op = [] then c else operation_ref op)\<rparr>))"

definition operation_canonical :: "intent_operation \<Rightarrow> json" where
  "operation_canonical op = JObj
     [(''capability_id'', JStr (capability_id op)), (''depends_on'', JList (map JStr (op_depends_on op))),
      (''fully_bound'', JBool (op_fully_bound op)), (''operation_ref'', JStr (operation_ref op)),
      (''target_scope_ref'', JStr (target_scope_ref op))]"

record resolver_intent =
  request_id :: string
  intent_principal_ref :: string
  operations :: "intent_operation list"
  residual_subintent :: bool
  unknown_target :: bool
  no_contract_coverage :: bool
  runbook_ref :: string
  runbook_version_pinned :: bool
  intent_approval_ref :: string
  agentic_allowance :: bool
  escalation_count :: int

definition intent_new :: "resolver_intent \<Rightarrow> (resolver_error, resolver_intent) result" where
  "intent_new i =
     (if strip (request_id i) = [] then Inl (ResolverContractError E_REQ_INVALID ''request_id'')
      else if strip (intent_principal_ref i) = [] then Inl (ResolverContractError E_REQ_INVALID ''principal_ref'')
      else if \<not> distinct (map operation_ref (operations i)) then Inl (ResolverContractError E_REQ_INVALID ''operation_ref'')
      else Inr i)"

definition node_count :: "resolver_intent \<Rightarrow> int" where
  "node_count i = int (length (operations i))"

definition has_dependencies :: "resolver_intent \<Rightarrow> bool" where
  "has_dependencies i \<longleftrightarrow> list_ex (\<lambda>op. op_depends_on op \<noteq> []) (operations i)"

definition homogeneous :: "resolver_intent \<Rightarrow> bool" where
  "homogeneous i \<longleftrightarrow> length (remdups (map capability_id (operations i))) = 1"

definition fully_bound :: "resolver_intent \<Rightarrow> bool" where
  "fully_bound i \<longleftrightarrow> list_all op_fully_bound (operations i)"

definition intent_canonical :: "resolver_intent \<Rightarrow> json" where
  "intent_canonical i = JObj
     [(''agentic_allowance'', JBool (agentic_allowance i)), (''approval_ref'', JStr (intent_approval_ref i)),
      (''escalation_count'', JInt (escalation_count i)), (''no_contract_coverage'', JBool (no_contract_coverage i)),
      (''operations'', JList (map operation_canonical (operations i))), (''principal_ref'', JStr (intent_principal_ref i)),
      (''request_id'', JStr (request_id i)), (''residual_subintent'', JBool (residual_subintent i)),
      (''runbook_ref'', JStr (runbook_ref i)), (''runbook_version_pinned'', JBool (runbook_version_pinned i)),
      (''unknown_target'', JBool (unknown_target i))]"

definition intent_digest_of :: "(string \<Rightarrow> string) \<Rightarrow> resolver_intent \<Rightarrow> (resolver_error, string) result" where
  "intent_digest_of sha i = resolver_hash sha (intent_canonical i)"

subsection \<open>Decisions\<close>

definition RESOLVER_CONTRACT_VERSION :: string where "RESOLVER_CONTRACT_VERSION = ''1''"

record resolver_decision =
  rd_request_id :: string
  rd_mode :: "execution_mode option"
  primary_reason_code :: resolver_reason
  rejected_branches :: "resolver_reason list"
  deterministic_nodes :: int
  total_nodes :: int
  rd_escalation_count :: int
  agentic_tokens_authorized :: int
  intent_digest :: string
  budget_digest :: string
  snapshot_digest :: string
  contract_version :: string
  extra :: "(string \<times> json) list"

definition decision_new :: "resolver_decision \<Rightarrow> (resolver_error, resolver_decision) result" where
  "decision_new d =
     bind_r
       (if is_mode_selection (primary_reason_code d)
        then (case map_of MODE_FOR_REASON (primary_reason_code d) of
                None \<Rightarrow> Inl Resolver_KeyError
              | Some expected \<Rightarrow>
                  if rd_mode d \<noteq> Some expected then Inl (ResolverContractError E_REQ_INVALID ''mode/reason disagreement'') else Inr ())
        else if rd_mode d \<noteq> None then Inl (ResolverContractError E_REQ_INVALID ''refusal carries a mode'') else Inr ())
       (\<lambda>_. if list_ex (\<lambda>r. \<not> is_rejection r) (rejected_branches d)
            then Inl (ResolverContractError E_REQ_INVALID ''non-rejection in rejected_branches'') else Inr d)"

definition decision_refused :: "resolver_decision \<Rightarrow> bool" where
  "decision_refused d \<longleftrightarrow> is_refusal (primary_reason_code d)"

definition deterministic_coverage_permille :: "resolver_decision \<Rightarrow> int" where
  "deterministic_coverage_permille d =
     (if total_nodes d \<le> 0 then (if \<not> decision_refused d \<and> rd_mode d \<noteq> Some MODE_AGENTIC then 1000 else 0)
      else (deterministic_nodes d * 1000) div total_nodes d)"

definition mode_value :: "execution_mode \<Rightarrow> string" where
  "mode_value m = (case m of MODE_DIRECT \<Rightarrow> ''DIRECT'' | MODE_BATCH \<Rightarrow> ''BATCH'' | MODE_DAG \<Rightarrow> ''DAG''
     | MODE_RUNBOOK \<Rightarrow> ''RUNBOOK'' | MODE_HYBRID \<Rightarrow> ''HYBRID'' | MODE_AGENTIC \<Rightarrow> ''AGENTIC'')"

definition mode_text :: "execution_mode option \<Rightarrow> string" where
  "mode_text m = (case m of None \<Rightarrow> ''REFUSED'' | Some x \<Rightarrow> mode_value x)"

definition decision_canonical :: "resolver_decision \<Rightarrow> json" where
  "decision_canonical d = JObj
     ([(''agentic_tokens_authorized'', JInt (agentic_tokens_authorized d)), (''budget_digest'', JStr (budget_digest d)),
       (''contract_version'', JStr (contract_version d)),
       (''deterministic_coverage_permille'', JInt (deterministic_coverage_permille d)),
       (''deterministic_nodes'', JInt (deterministic_nodes d)), (''escalation_count'', JInt (rd_escalation_count d)),
       (''intent_digest'', JStr (intent_digest d)), (''mode'', JStr (mode_text (rd_mode d))),
       (''primary_reason_code'', JStr (resolver_value (primary_reason_code d))),
       (''rejected_branches'', JList (map (JStr \<circ> resolver_value) (rejected_branches d))),
       (''request_id'', JStr (rd_request_id d)), (''snapshot_digest'', JStr (snapshot_digest d)),
       (''total_nodes'', JInt (total_nodes d))] @
      (if extra d = [] then [] else [(''extra'', JObj (extra d))]))"

definition decision_json :: "resolver_decision \<Rightarrow> (resolver_error, string) result" where
  "decision_json d = (case canonical_json_text (decision_canonical d) of Inl e \<Rightarrow> Inl Resolver_TypeError | Inr t \<Rightarrow> Inr t)"

definition decision_digest :: "(string \<Rightarrow> string) \<Rightarrow> resolver_decision \<Rightarrow> (resolver_error, string) result" where
  "decision_digest sha d = resolver_hash sha (decision_canonical d)"

definition all_reasons :: "resolver_reason list" where
  "all_reasons =
     [R_DIRECT_EXACT, R_RUNBOOK_MATCH, R_BATCH_INDEPENDENT, R_DAG_TYPED_PLAN, R_AGENTIC_AMBIGUOUS_INTENT,
      R_AGENTIC_UNBOUND_ARGUMENT, R_AGENTIC_UNKNOWN_TARGET, R_AGENTIC_NO_CONTRACT_COVERAGE, R_AGENTIC_RESIDUAL_SUBINTENT,
      R_REJ_DIRECT_NOT_READY, R_REJ_DIRECT_MULTI_TOOL, R_REJ_DIRECT_UNBOUND, R_REJ_NO_RUNBOOK,
      R_REJ_RUNBOOK_VERSION_UNPINNED, R_REJ_NOT_INDEPENDENT, R_REJ_NOT_PLANNABLE, R_REJ_CYCLE_DETECTED,
      E_REQ_INVALID, E_POLICY_DENY, E_BUDGET_NODES, E_BUDGET_TOKENS, E_BUDGET_DEADLINE, E_AGENTIC_NOT_ALLOWED,
      E_AGENTIC_BUDGET_EXHAUSTED, E_AGENTIC_APPROVAL_MISSING, E_AGENTIC_POLICY_FORBIDDEN,
      E_AGENTIC_CONTEXT_SHAPING_FAILED, E_SAFETY_DOWNGRADE_REFUSED, E_RESOLVER_NONDETERMINISM]"

definition label_values :: "resolver_reason list \<Rightarrow> (resolver_error, string list) result" where
  "label_values rs =
     (let vs = map resolver_value rs
      in if filter (\<lambda>v. v \<notin> set (map resolver_value all_reasons)) vs \<noteq> []
         then Inl (ResolverContractError E_REQ_INVALID ''unknown label'') else Inr vs)"

subsection \<open>Basic facts\<close>

lemma reason_kinds:
  "is_mode_selection r \<longleftrightarrow> r \<in> fst ` set MODE_FOR_REASON"
  "is_mode_selection r \<longleftrightarrow> \<not> is_rejection r \<and> \<not> is_refusal r" "\<not> (is_rejection r \<and> is_refusal r)"
  by (cases r; simp add: is_mode_selection_def is_rejection_def is_refusal_def MODE_FOR_REASON_def)+

lemma resolver_hash_ok: "json_validate v \<Longrightarrow> resolver_hash sha v = Inr (sha (dumps v))"
  by (simp add: resolver_hash_def canonical_hash_def canonical_json_text_def)

lemma canonical_valid [simp]:
  "json_validate (budget_canonical b)" "json_validate (operation_canonical op)" "json_validate (intent_canonical i)"
  "extra d = [] \<Longrightarrow> json_validate (decision_canonical d)"
  by (auto simp: budget_canonical_def operation_canonical_def intent_canonical_def decision_canonical_def)

end
