(* ===== verification/Resolver_Graph.thy ===== *)
theory Resolver_Graph
  imports Resolver_Contract "HOL-Library.AList"
begin

section \<open>Dependency graphs of the resolver (v2/resolver.py)\<close>

text \<open>
  \<open>_has_cycle\<close> and \<open>_depth\<close>: a depth-first search with marks and a memoised recursion, with the
  mutable dictionaries passed along. Both are compared with the graph they are about: the search
  answers whether the dependency relation has a cycle, and on an acyclic relation the recursion
  computes the length of a longest chain of operations. The recursion limit of the interpreter is
  not modelled.
\<close>

type_synonym op_graph = "(string \<times> string list) list"

definition op_graph :: "resolver_intent \<Rightarrow> op_graph" where
  "op_graph i = fold (\<lambda>op g. AList.update (operation_ref op) (op_depends_on op) g) (operations i) []"

text \<open>The dependencies of a node that are nodes of the graph themselves.\<close>

definition graph_parents :: "op_graph \<Rightarrow> string \<Rightarrow> string list" where
  "graph_parents g n = filter (\<lambda>p. p \<in> fst ` set g) (case map_of g n of None \<Rightarrow> [] | Some ps \<Rightarrow> ps)"

subsection \<open>Depth-first search\<close>

text \<open>
  \<open>any(visit(n) for n in ns)\<close> with the marks: \<open>In_progress\<close> is 1, \<open>Done\<close> is 2, an unmarked node is
  0. The body of \<open>visit\<close> is the right-hand side of the second equation.
\<close>

datatype visit_mark = In_progress | Done

function visit_any :: "op_graph \<Rightarrow> string list \<Rightarrow> (string \<rightharpoonup> visit_mark) \<Rightarrow> (string \<rightharpoonup> visit_mark) \<times> bool" where
  "visit_any g [] st = (st, False)"
| "visit_any g (n # ns) st =
     (case st n of
        Some In_progress \<Rightarrow> (st, True)
      | Some Done \<Rightarrow> visit_any g ns st
      | None \<Rightarrow>
          (case visit_any g (graph_parents g n) (st(n \<mapsto> In_progress)) of
             (st', True) \<Rightarrow> (st', True)
           | (st', False) \<Rightarrow> visit_any g ns (st'(n \<mapsto> Done))))"
  by pat_completeness auto

text \<open>The search never takes a mark away, which is why it ends.\<close>

lemma visit_any_marks: "visit_any_dom (g, ns, st) \<Longrightarrow> dom st \<subseteq> dom (fst (visit_any g ns st))"
proof (induction g ns st rule: visit_any.pinduct)
  case (1 g st)
  then show ?case by (simp add: visit_any.psimps)
next
  case (2 g n ns st)
  show ?case
  proof (cases "st n")
    case None
    obtain st' b where r: "visit_any g (graph_parents g n) (st(n \<mapsto> In_progress)) = (st', b)" by (rule prod.exhaust)
    have "dom (st(n \<mapsto> In_progress)) \<subseteq> dom (fst (visit_any g (graph_parents g n) (st(n \<mapsto> In_progress))))" using 2(2) None by blast
    then have d: "dom st \<subseteq> dom st'" using r by auto
    show ?thesis
    proof (cases b)
      case True
      with 2(1) None r d show ?thesis by (simp add: visit_any.psimps)
    next
      case False
      with 2(3) None r have "dom (st'(n \<mapsto> Done)) \<subseteq> dom (fst (visit_any g ns (st'(n \<mapsto> Done))))" by metis
      with 2(1) None r d False show ?thesis by (auto simp: visit_any.psimps)
    qed
  next
    case (Some m)
    with 2 show ?thesis by (cases m) (simp_all add: visit_any.psimps)
  qed
qed

definition unmarked :: "op_graph \<Rightarrow> (string \<rightharpoonup> visit_mark) \<Rightarrow> nat" where
  "unmarked g st = card (fst ` set g - dom st)"

lemma unmarked_mono: "dom st \<subseteq> dom st' \<Longrightarrow> unmarked g st' \<le> unmarked g st"
  by (simp add: unmarked_def card_mono Diff_mono)

lemma unmarked_less: "n \<in> fst ` set g \<Longrightarrow> st n = None \<Longrightarrow> unmarked g (st(n \<mapsto> k)) < unmarked g st"
  unfolding unmarked_def by (rule psubset_card_mono) auto

lemma graph_parents_outside: "n \<notin> fst ` set g \<Longrightarrow> graph_parents g n = []"
  by (simp add: graph_parents_def map_of_eq_None_iff [THEN iffD2])

termination visit_any
proof (relation "measures [\<lambda>(g, ns, st). unmarked g st, \<lambda>(g, ns, st). length ns]")
  fix g n ns and st :: "string \<rightharpoonup> visit_mark"
  assume n: "st n = None"
  show "((g, graph_parents g n, st(n \<mapsto> In_progress)), g, n # ns, st)
    \<in> measures [\<lambda>(g, ns, st). unmarked g st, \<lambda>(g, ns, st). length ns]"
  proof (cases "n \<in> fst ` set g")
    case True
    with n unmarked_less show ?thesis by simp
  next
    case False
    have "unmarked g (st(n \<mapsto> In_progress)) \<le> unmarked g st" by (rule unmarked_mono) auto
    with False show ?thesis by (auto simp: graph_parents_outside)
  qed
next
  fix g n ns st' b and st :: "string \<rightharpoonup> visit_mark"
  assume "st n = None" and x: "(st', b) = visit_any g (graph_parents g n) (st(n \<mapsto> In_progress))"
    and d: "visit_any_dom (g, graph_parents g n, st(n \<mapsto> In_progress))"
  have "dom (st(n \<mapsto> In_progress)) \<subseteq> dom st'" using visit_any_marks [OF d] x [symmetric] by simp
  then have "dom st \<subseteq> dom st'" by auto
  then have "unmarked g (st'(n \<mapsto> Done)) \<le> unmarked g st" by (intro unmarked_mono) auto
  then show "((g, ns, st'(n \<mapsto> Done)), g, n # ns, st)
    \<in> measures [\<lambda>(g, ns, st). unmarked g st, \<lambda>(g, ns, st). length ns]" by auto
qed auto

definition has_cycle :: "resolver_intent \<Rightarrow> bool" where
  "has_cycle i = (let g = op_graph i in snd (visit_any g (map fst g) Map.empty))"

subsection \<open>The search finds the cycles\<close>

definition dep_rel :: "op_graph \<Rightarrow> (string \<times> string) set" where
  "dep_rel g = {(a, b). b \<in> set (graph_parents g a)}"

lemma graph_parents_nodes: "p \<in> set (graph_parents g n) \<Longrightarrow> p \<in> fst ` set g \<and> n \<in> fst ` set g"
  by (cases "n \<in> fst ` set g") (auto simp: graph_parents_outside, simp add: graph_parents_def)

text \<open>A search that finds nothing finishes its nodes and leaves the nodes in progress as they were.\<close>

lemma visit_any_done:
  assumes "visit_any g ns st = (st', False)"
  shows "(\<forall>m. st' m = Some In_progress \<longleftrightarrow> st m = Some In_progress) \<and> (\<forall>m. st m = Some Done \<longrightarrow> st' m = Some Done) \<and>
    (\<forall>n \<in> set ns. st' n = Some Done)"
  using assms
proof (induction g ns st arbitrary: st' rule: visit_any.induct)
  case (2 g n ns st)
  show ?case
  proof (cases "st n")
    case None
    then obtain u where u: "visit_any g (graph_parents g n) (st(n \<mapsto> In_progress)) = (u, False)" "visit_any g ns (u(n \<mapsto> Done)) = (st', False)"
      using 2(4) by (auto split: prod.splits bool.splits)
    note i = 2(1) [OF None u(1)] and j = 2(2) [OF None u(1) [symmetric] refl u(2)]
    have "st' m = Some In_progress \<longleftrightarrow> st m = Some In_progress" for m using i j None by (cases "m = n") auto
    moreover have "st m = Some Done \<longrightarrow> st' m = Some Done" for m using i j None by (cases "m = n") auto
    moreover have "st' n = Some Done" using j by simp
    ultimately show ?thesis using j by simp
  next
    case (Some m)
    with 2 show ?thesis by (cases m) auto
  qed
qed simp

lemma visit_any_sound:
  assumes "visit_any g ns st = (st', True)" "\<forall>m n. st m = Some In_progress \<and> n \<in> set ns \<longrightarrow> (m, n) \<in> (dep_rel g)\<^sup>+"
  shows "\<exists>n. (n, n) \<in> (dep_rel g)\<^sup>+"
  using assms
proof (induction g ns st arbitrary: st' rule: visit_any.induct)
  case (2 g n ns st)
  show ?case
  proof (cases "st n")
    case None
    obtain u b where u: "visit_any g (graph_parents g n) (st(n \<mapsto> In_progress)) = (u, b)" by (rule prod.exhaust)
    show ?thesis
    proof (cases b)
      case True
      have "(m, k) \<in> (dep_rel g)\<^sup>+" if "(st(n \<mapsto> In_progress)) m = Some In_progress" "k \<in> set (graph_parents g n)" for m k
      proof -
        have e: "(n, k) \<in> dep_rel g" using that(2) by (simp add: dep_rel_def)
        show ?thesis
        proof (cases "m = n")
          case True
          with e show ?thesis by blast
        next
          case False
          with that(1) 2(5) have "(m, n) \<in> (dep_rel g)\<^sup>+" by simp
          from this e show ?thesis by (rule trancl_into_trancl)
        qed
      qed
      moreover have "visit_any g (graph_parents g n) (st(n \<mapsto> In_progress)) = (u, True)" using u True by simp
      ultimately show ?thesis using 2(1) [OF None, of u] by blast
    next
      case False
      have "(m, k) \<in> (dep_rel g)\<^sup>+" if "(u(n \<mapsto> Done)) m = Some In_progress" "k \<in> set ns" for m k
      proof -
        have "m \<noteq> n" "u m = Some In_progress" using that(1) by (auto split: if_splits)
        then have "st m = Some In_progress" using visit_any_done [of g "graph_parents g n" "st(n \<mapsto> In_progress)" u] u False by simp
        with that(2) 2(5) show ?thesis by simp
      qed
      moreover have "visit_any g ns (u(n \<mapsto> Done)) = (st', True)" using 2(4) None u False by simp
      ultimately show ?thesis using 2(2) [OF None u [symmetric]] False by blast
    qed
  next
    case (Some m)
    with 2 show ?thesis by (cases m) auto
  qed
qed simp

text \<open>The finished nodes are closed under dependencies and lie on no cycle.\<close>

definition done_ok :: "op_graph \<Rightarrow> (string \<rightharpoonup> visit_mark) \<Rightarrow> bool" where
  "done_ok g st \<longleftrightarrow>
     (\<forall>b. st b = Some Done \<longrightarrow> (\<forall>p \<in> set (graph_parents g b). st p = Some Done) \<and> (b, b) \<notin> (dep_rel g)\<^sup>+)"

lemma done_closed: "(p, x) \<in> (dep_rel g)\<^sup>* \<Longrightarrow> done_ok g st \<Longrightarrow> st p = Some Done \<Longrightarrow> st x = Some Done"
  by (induction rule: rtrancl_induct) (auto simp: done_ok_def dep_rel_def)

lemma done_ok_finish:
  assumes "done_ok g st" "\<forall>p \<in> set (graph_parents g n). st p = Some Done" "st n = Some In_progress"
  shows "done_ok g (st(n \<mapsto> Done))"
proof -
  have "(n, n) \<notin> (dep_rel g)\<^sup>+"
  proof
    assume "(n, n) \<in> (dep_rel g)\<^sup>+"
    then obtain p where "(n, p) \<in> dep_rel g" "(p, n) \<in> (dep_rel g)\<^sup>*" by (metis tranclD)
    with assms(1,2) done_closed have "st n = Some Done" by (fastforce simp: dep_rel_def)
    with assms(3) show False by simp
  qed
  with assms show ?thesis by (auto simp: done_ok_def)
qed

lemma visit_any_complete:
  assumes "visit_any g ns st = (st', False)" "done_ok g st"
  shows "done_ok g st'"
  using assms
proof (induction g ns st arbitrary: st' rule: visit_any.induct)
  case (2 g n ns st)
  show ?case
  proof (cases "st n")
    case None
    then obtain u where u: "visit_any g (graph_parents g n) (st(n \<mapsto> In_progress)) = (u, False)" "visit_any g ns (u(n \<mapsto> Done)) = (st', False)"
      using 2(4) by (auto split: prod.splits bool.splits)
    have "done_ok g (st(n \<mapsto> In_progress))" using 2(5) None by (auto simp: done_ok_def)
    then have "done_ok g u" by (rule 2(1) [OF None u(1)])
    with visit_any_done [OF u(1)] done_ok_finish have "done_ok g (u(n \<mapsto> Done))" by simp
    with 2(2) [OF None u(1) [symmetric] refl u(2)] show ?thesis by blast
  next
    case (Some m)
    with 2 show ?thesis by (cases m) auto
  qed
qed simp

lemma has_cycle_iff: "has_cycle i \<longleftrightarrow> (\<exists>n. (n, n) \<in> (dep_rel (op_graph i))\<^sup>+)"
proof -
  let ?g = "op_graph i"
  obtain st b where r: "visit_any ?g (map fst ?g) Map.empty = (st, b)" by (rule prod.exhaust)
  then have h: "has_cycle i = b" by (simp add: has_cycle_def Let_def)
  show ?thesis
  proof (cases b)
    case True
    with visit_any_sound [of ?g "map fst ?g" Map.empty st] r h show ?thesis by simp
  next
    case False
    have "(n, n) \<notin> (dep_rel ?g)\<^sup>+" for n
    proof (cases "n \<in> fst ` set ?g")
      case True
      with visit_any_done [of ?g "map fst ?g" Map.empty st] visit_any_complete [of ?g "map fst ?g" Map.empty st] r False
      show ?thesis by (auto simp: done_ok_def)
    next
      case False
      then show ?thesis by (metis graph_parents_nodes dep_rel_def mem_Collect_eq case_prodD tranclD)
    qed
    with h False show ?thesis by simp
  qed
qed

subsection \<open>Depth\<close>

text \<open>
  The values of \<open>depth(n, seen)\<close> for the nodes of a list, with the memo. \<open>seen\<close> holds the nodes on
  the way down.
\<close>

function depth_list :: "op_graph \<Rightarrow> string list \<Rightarrow> string list \<Rightarrow> (string \<rightharpoonup> nat) \<Rightarrow> (string \<rightharpoonup> nat) \<times> nat list" where
  "depth_list g [] seen memo = (memo, [])"
| "depth_list g (n # ns) seen memo =
     (case (if n \<in> set seen then (memo, 0)
            else (case memo n of
                    Some v \<Rightarrow> (memo, v)
                  | None \<Rightarrow>
                      (case depth_list g (graph_parents g n) (n # seen) memo of
                         (memo', vs) \<Rightarrow> let v = 1 + fold max vs 0 in (memo'(n \<mapsto> v), v)))) of
        (memo', v) \<Rightarrow> (case depth_list g ns seen memo' of (memo'', vs) \<Rightarrow> (memo'', v # vs)))"
  by pat_completeness auto
termination depth_list
proof (relation "measures [\<lambda>(g, ns, seen, memo). card (fst ` set g - set seen), \<lambda>(g, ns, seen, memo). length ns]")
  fix g :: op_graph and n :: string and ns seen :: "string list" and memo :: "string \<rightharpoonup> nat"
  assume n: "n \<notin> set seen"
  show "((g, graph_parents g n, n # seen, memo), g, n # ns, seen, memo)
    \<in> measures [\<lambda>(g, ns, seen, memo). card (fst ` set g - set seen), \<lambda>(g, ns, seen, memo). length ns]"
  proof (cases "n \<in> fst ` set g")
    case True
    then have "fst ` set g - set (n # seen) \<subset> fst ` set g - set seen" using n by auto
    then have "card (fst ` set g - set (n # seen)) < card (fst ` set g - set seen)" by (intro psubset_card_mono) auto
    then show ?thesis by simp
  next
    case False
    then have "fst ` set g - set (n # seen) = fst ` set g - set seen" by auto
    with False show ?thesis by (simp add: graph_parents_outside)
  qed
qed auto

definition depth :: "resolver_intent \<Rightarrow> nat" where
  "depth i = (let g = op_graph i in fold max (snd (depth_list g (map fst g) [] Map.empty)) 0)"

text \<open>A chain of operations, each depending on the next.\<close>

fun dep_chain :: "op_graph \<Rightarrow> string list \<Rightarrow> bool" where
  "dep_chain g [] = True"
| "dep_chain g [n] = (n \<in> fst ` set g)"
| "dep_chain g (a # b # p) = (b \<in> set (graph_parents g a) \<and> dep_chain g (b # p))"

definition height_is :: "op_graph \<Rightarrow> string \<Rightarrow> nat \<Rightarrow> bool" where
  "height_is g n v \<longleftrightarrow> (\<exists>p. dep_chain g (n # p) \<and> length (n # p) = v) \<and> (\<forall>p. dep_chain g (n # p) \<longrightarrow> length (n # p) \<le> v)"

lemma fold_max_ge: "v \<in> set vs \<Longrightarrow> v \<le> fold max vs (k :: nat)" "k \<le> fold max vs k"
  by (induction vs arbitrary: k) (auto intro: order_trans [OF max.cobounded2] order_trans [OF max.cobounded1])

lemma fold_max_in: "fold max vs k = k \<or> fold max vs (k :: nat) \<in> set vs"
proof (induction vs arbitrary: k)
  case (Cons v vs)
  from Cons.IH [of "max v k"] show ?case by (auto simp: max_def)
qed simp

lemma height_step:
  assumes "n \<in> fst ` set g" "list_all2 (height_is g) (graph_parents g n) vs"
  shows "height_is g n (1 + fold max vs 0)"
proof -
  have hi: "length (n # p) \<le> 1 + fold max vs 0" if "dep_chain g (n # p)" for p
  proof (cases p)
    case (Cons b q)
    with that have b: "b \<in> set (graph_parents g n)" "dep_chain g (b # q)" by simp_all
    then obtain v where v: "v \<in> set vs" "height_is g b v"
      using assms(2) by (metis in_set_conv_nth list_all2_lengthD list_all2_nthD)
    with b have "length (b # q) \<le> v" by (simp add: height_is_def)
    with fold_max_ge(1) [OF v(1), of 0] Cons show ?thesis by simp
  qed simp
  have "\<exists>p. dep_chain g (n # p) \<and> length (n # p) = 1 + fold max vs 0"
  proof (cases "fold max vs 0 = 0")
    case True
    with assms(1) show ?thesis by (intro exI [of _ "[]"]) simp
  next
    case False
    then have "fold max vs 0 \<in> set vs" using fold_max_in [of vs 0] by simp
    then obtain b where "b \<in> set (graph_parents g n)" "height_is g b (fold max vs 0)"
      using assms(2) by (metis in_set_conv_nth list_all2_lengthD list_all2_nthD)
    then obtain q where "dep_chain g (n # b # q)" "length (b # q) = fold max vs 0" by (auto simp: height_is_def)
    then show ?thesis by (intro exI [of _ "b # q"]) simp
  qed
  with hi show ?thesis by (simp add: height_is_def)
qed

lemma depth_list_height:
  assumes "depth_list g ns seen memo = (memo', vs)" "\<forall>n. (n, n) \<notin> (dep_rel g)\<^sup>+" "set ns \<subseteq> fst ` set g"
    and "\<forall>s \<in> set seen. \<forall>n \<in> set ns. (s, n) \<in> (dep_rel g)\<^sup>+" "\<forall>n v. memo n = Some v \<longrightarrow> height_is g n v"
  shows "list_all2 (height_is g) ns vs \<and> (\<forall>n v. memo' n = Some v \<longrightarrow> height_is g n v)"
  using assms
proof (induction g ns seen memo arbitrary: memo' vs rule: depth_list.induct)
  case (2 g n ns seen memo)
  have new: "n \<notin> set seen" using 2(4,6) by auto
  have n: "n \<in> fst ` set g" "set ns \<subseteq> fst ` set g" using 2(5) by auto
  define r where "r = (case memo n of Some v \<Rightarrow> (memo, v)
      | None \<Rightarrow> (case depth_list g (graph_parents g n) (n # seen) memo of (m, vs) \<Rightarrow> let v = 1 + fold max vs 0 in (m(n \<mapsto> v), v)))"
  obtain m v where r: "r = (m, v)" by (rule prod.exhaust)
  have mv: "height_is g n v \<and> (\<forall>n v. m n = Some v \<longrightarrow> height_is g n v)"
  proof (cases "memo n")
    case None
    obtain u us where u: "depth_list g (graph_parents g n) (n # seen) memo = (u, us)" by (rule prod.exhaust)
    have "\<forall>s \<in> set (n # seen). \<forall>k \<in> set (graph_parents g n). (s, k) \<in> (dep_rel g)\<^sup>+"
    proof (intro ballI)
      fix s k assume s: "s \<in> set (n # seen)" and "k \<in> set (graph_parents g n)"
      then have e: "(n, k) \<in> dep_rel g" by (simp add: dep_rel_def)
      from s 2(6) have "s = n \<or> (s, n) \<in> (dep_rel g)\<^sup>+" by auto
      with e show "(s, k) \<in> (dep_rel g)\<^sup>+" by (auto intro: trancl_into_trancl)
    qed
    moreover have "set (graph_parents g n) \<subseteq> fst ` set g" using graph_parents_nodes by blast
    ultimately have "list_all2 (height_is g) (graph_parents g n) us \<and> (\<forall>n v. u n = Some v \<longrightarrow> height_is g n v)"
      using 2(1) [OF new None u 2(4)] 2(7) by blast
    with height_step [OF n(1)] r None u show ?thesis by (auto simp: r_def Let_def split: if_splits)
  next
    case (Some w)
    with r 2(7) show ?thesis by (simp add: r_def)
  qed
  obtain ws where ws: "depth_list g ns seen m = (memo', ws)" "vs = v # ws"
    using 2(3) r new by (auto simp: r_def split: prod.splits)
  have "list_all2 (height_is g) ns ws \<and> (\<forall>n v. memo' n = Some v \<longrightarrow> height_is g n v)"
    by (rule 2(2) [OF _ ws(1) 2(4) n(2)]) (use 2(6) mv new r in \<open>auto simp: r_def\<close>)
  with mv ws(2) show ?case by simp
qed simp

lemma dep_chain_nodes: "dep_chain g (n # p) \<Longrightarrow> n \<in> fst ` set g"
  by (cases p) (auto dest: graph_parents_nodes)

lemma depth_longest_chain:
  assumes "\<forall>n. (n, n) \<notin> (dep_rel (op_graph i))\<^sup>+"
  shows "(\<exists>p. dep_chain (op_graph i) p \<and> length p = depth i) \<and> (\<forall>p. dep_chain (op_graph i) p \<longrightarrow> length p \<le> depth i)"
proof -
  let ?g = "op_graph i"
  obtain m vs where r: "depth_list ?g (map fst ?g) [] Map.empty = (m, vs)" by (rule prod.exhaust)
  then have d: "depth i = fold max vs 0" by (simp add: depth_def Let_def)
  have h: "list_all2 (height_is ?g) (map fst ?g) vs" using depth_list_height [OF r assms] by simp
  have "length p \<le> depth i" if "dep_chain ?g p" for p
  proof (cases p)
    case (Cons n q)
    with that have "n \<in> set (map fst ?g)" using dep_chain_nodes by force
    then obtain v where v: "v \<in> set vs" "height_is ?g n v" using h by (metis in_set_conv_nth list_all2_lengthD list_all2_nthD)
    with that Cons fold_max_ge(1) [OF v(1), of 0] d show ?thesis by (force simp: height_is_def)
  qed simp
  moreover have "\<exists>p. dep_chain ?g p \<and> length p = depth i"
  proof (cases "depth i = 0")
    case True
    then show ?thesis by (intro exI [of _ "[]"]) simp
  next
    case False
    then have "depth i \<in> set vs" using d fold_max_in [of vs 0] by simp
    then obtain n where "height_is ?g n (depth i)" using h by (metis in_set_conv_nth list_all2_lengthD list_all2_nthD)
    then show ?thesis by (auto simp: height_is_def)
  qed
  ultimately show ?thesis by blast
qed

subsection \<open>The graph checks\<close>

text \<open>
  C23. The graph checks of the resolver are exact: \<open>_has_cycle\<close> returns true exactly when some operation
  depends on itself through dependencies within the intent, and for an acyclic intent \<open>_depth\<close> is
  the length of a longest chain of operations in which each depends on the next.
\<close>

theorem graph_checks_exact:
  "(has_cycle i \<longleftrightarrow> (\<exists>n. (n, n) \<in> (dep_rel (op_graph i))\<^sup>+)) \<and>
   (has_cycle i \<or> (\<exists>p. dep_chain (op_graph i) p \<and> length p = depth i) \<and> (\<nexists>p. dep_chain (op_graph i) p \<and> length p > depth i))"
  using has_cycle_iff [of i] depth_longest_chain [of i] by (auto simp: not_le [symmetric])

end
