(* ===== verification/Resolver.thy ===== *)
theory Resolver
  imports Resolver_Graph
begin

section \<open>Mode resolver (v2/resolver.py)\<close>

text \<open>
  \<open>ModeResolver.resolve\<close>: the decision tree from a typed intent, a capability snapshot, a policy
  result and a budget to one decision. Each block of the tree is a stage that either ends with a
  verdict or passes on the rejected branches collected so far. The decision record is then built
  by the constructor of the contract.
\<close>

record mode_resolver =
  mr_snapshot :: "(string \<times> capability_state) list"
  mr_snapshot_digest :: string
  mr_budget :: resolver_budget
  mr_runbooks :: "(string \<times> bool) list"
  mr_write_capabilities :: "string list"

definition usable :: "mode_resolver \<Rightarrow> intent_operation \<Rightarrow> bool" where
  "usable mr op =
     (case map_of (mr_snapshot mr) (capability_id op) of
        None \<Rightarrow> False
      | Some s \<Rightarrow> if capability_id op \<in> set (mr_write_capabilities mr) then s = READY else s = READY \<or> s = DEGRADED)"

text \<open>The arguments of \<open>_decision\<close>: reason, rejected branches, deterministic nodes, tokens.\<close>

datatype verdict = Verdict resolver_reason "resolver_reason list" int int

definition make_decision :: "(string \<Rightarrow> string) \<Rightarrow> mode_resolver \<Rightarrow> resolver_intent \<Rightarrow> verdict \<Rightarrow> (resolver_error, resolver_decision) result" where
  "make_decision sha mr i v = (case v of Verdict reason rejected nodes tokens \<Rightarrow>
     bind_r (intent_digest_of sha i) (\<lambda>idg. bind_r (budget_digest_of sha (mr_budget mr)) (\<lambda>bdg.
     decision_new \<lparr>rd_request_id = request_id i,
       rd_mode = (if is_mode_selection reason then map_of MODE_FOR_REASON reason else None),
       primary_reason_code = reason, rejected_branches = rejected, deterministic_nodes = nodes, total_nodes = node_count i,
       rd_escalation_count = escalation_count i, agentic_tokens_authorized = tokens, intent_digest = idg, budget_digest = bdg,
       snapshot_digest = mr_snapshot_digest mr, contract_version = RESOLVER_CONTRACT_VERSION, extra = []\<rparr>)))"

definition usable_count :: "mode_resolver \<Rightarrow> resolver_intent \<Rightarrow> int" where
  "usable_count mr i = int (length (filter (usable mr) (operations i)))"

subsection \<open>The stages\<close>

type_synonym stage = "(verdict, resolver_reason list) result"

text \<open>S0, S1 and the escalation budget.\<close>

definition stage_admit :: "mode_resolver \<Rightarrow> resolver_intent \<Rightarrow> policy_decision \<Rightarrow> stage" where
  "stage_admit mr i policy =
     (if node_count i = 0 \<and> \<not> (residual_subintent i \<or> no_contract_coverage i \<or> unknown_target i) then Inl (Verdict E_REQ_INVALID [] 0 0)
      else if policy = DENY then Inl (Verdict E_POLICY_DENY [] 0 0)
      else if escalation_count i > max_escalations_per_request (mr_budget mr) then Inl (Verdict E_AGENTIC_BUDGET_EXHAUSTED [] 0 0)
      else Inr [])"

text \<open>S2 and S3.\<close>

definition stage_direct :: "mode_resolver \<Rightarrow> resolver_intent \<Rightarrow> resolver_reason list \<Rightarrow> stage" where
  "stage_direct mr i rejected =
     (if node_count i = 1 \<and> \<not> residual_subintent i
      then (let op = operations i ! 0 in
            if \<not> op_fully_bound op then Inr (rejected @ [R_REJ_DIRECT_UNBOUND])
            else if \<not> usable mr op then Inr (rejected @ [R_REJ_DIRECT_NOT_READY])
            else Inl (Verdict R_DIRECT_EXACT rejected 1 0))
      else if node_count i > 1 then Inr (rejected @ [R_REJ_DIRECT_MULTI_TOOL])
      else if node_count i = 1 then Inr (rejected @ [R_REJ_DIRECT_MULTI_TOOL])
      else Inr rejected)"

text \<open>S6.\<close>

definition stage_batch :: "mode_resolver \<Rightarrow> resolver_intent \<Rightarrow> resolver_reason list \<Rightarrow> stage" where
  "stage_batch mr i rejected =
     (if node_count i > 1 \<and> \<not> residual_subintent i
      then (if has_dependencies i \<or> \<not> homogeneous i then Inr (rejected @ [R_REJ_NOT_INDEPENDENT])
            else if \<not> fully_bound i then Inr (rejected @ [R_REJ_DIRECT_UNBOUND])
            else if node_count i > batch_max_nodes (mr_budget mr) then Inl (Verdict E_BUDGET_NODES rejected 0 0)
            else if usable_count mr i \<noteq> node_count i then Inr (rejected @ [R_REJ_DIRECT_NOT_READY])
            else Inl (Verdict R_BATCH_INDEPENDENT rejected (usable_count mr i) 0))
      else if node_count i > 1 then Inr (rejected @ [R_REJ_NOT_INDEPENDENT])
      else Inr rejected)"

text \<open>S5.\<close>

definition stage_runbook :: "mode_resolver \<Rightarrow> resolver_intent \<Rightarrow> resolver_reason list \<Rightarrow> stage" where
  "stage_runbook mr i rejected =
     (case (if runbook_ref i = [] then None else map_of (mr_runbooks mr) (runbook_ref i)) of
        Some pinned \<Rightarrow>
          if \<not> (pinned \<and> runbook_version_pinned i) then Inr (rejected @ [R_REJ_RUNBOOK_VERSION_UNPINNED])
          else if \<not> fully_bound i then Inr (rejected @ [R_REJ_DIRECT_UNBOUND])
          else if residual_subintent i then Inr (rejected @ [R_REJ_NOT_PLANNABLE])
          else Inl (Verdict R_RUNBOOK_MATCH rejected (usable_count mr i) 0)
      | None \<Rightarrow> Inr (rejected @ [R_REJ_NO_RUNBOOK]))"

text \<open>S7.\<close>

definition stage_dag :: "mode_resolver \<Rightarrow> resolver_intent \<Rightarrow> resolver_reason list \<Rightarrow> stage" where
  "stage_dag mr i rejected =
     (if node_count i > 1 \<and> \<not> residual_subintent i
      then (if has_cycle i then Inr (rejected @ [R_REJ_CYCLE_DETECTED])
            else if \<not> fully_bound i then Inr (rejected @ [R_REJ_DIRECT_UNBOUND])
            else if node_count i > dag_max_nodes (mr_budget mr) \<or> int (depth i) > dag_max_depth (mr_budget mr)
            then Inl (Verdict E_BUDGET_NODES rejected 0 0)
            else if usable_count mr i \<noteq> node_count i then Inr (rejected @ [R_REJ_DIRECT_NOT_READY])
            else Inl (Verdict R_DAG_TYPED_PLAN rejected (usable_count mr i) 0))
      else Inr (rejected @ [R_REJ_NOT_PLANNABLE]))"

text \<open>S8.\<close>

definition agentic_reason :: "mode_resolver \<Rightarrow> resolver_intent \<Rightarrow> resolver_reason" where
  "agentic_reason mr i =
     (if no_contract_coverage i then R_AGENTIC_NO_CONTRACT_COVERAGE
      else if unknown_target i then R_AGENTIC_UNKNOWN_TARGET
      else if \<not> fully_bound i then R_AGENTIC_UNBOUND_ARGUMENT
      else if residual_subintent i \<and> usable_count mr i > 0 then R_AGENTIC_RESIDUAL_SUBINTENT
      else R_AGENTIC_AMBIGUOUS_INTENT)"

definition writes :: "mode_resolver \<Rightarrow> resolver_intent \<Rightarrow> bool" where
  "writes mr i \<longleftrightarrow> list_ex (\<lambda>op. capability_id op \<in> set (mr_write_capabilities mr)) (operations i)"

definition stage_agentic :: "mode_resolver \<Rightarrow> resolver_intent \<Rightarrow> bool \<Rightarrow> bool \<Rightarrow> resolver_reason list \<Rightarrow> verdict" where
  "stage_agentic mr i policy_allows_agentic context_shaping_ok rejected =
     (if \<not> (agentic_allowance i \<and> allows_agentic (mr_budget mr)) then Verdict E_AGENTIC_NOT_ALLOWED rejected 0 0
      else if escalation_count i \<ge> max_escalations_per_request (mr_budget mr) then Verdict E_AGENTIC_BUDGET_EXHAUSTED rejected 0 0
      else if writes mr i \<and> intent_approval_ref i = [] then Verdict E_AGENTIC_APPROVAL_MISSING rejected 0 0
      else if \<not> policy_allows_agentic then Verdict E_AGENTIC_POLICY_FORBIDDEN rejected 0 0
      else if \<not> context_shaping_ok then Verdict E_AGENTIC_CONTEXT_SHAPING_FAILED rejected 0 0
      else Verdict (agentic_reason mr i) rejected (usable_count mr i) (agentic_token_budget (mr_budget mr)))"

text \<open>A stage that ends returns; otherwise the next one goes on with the rejected branches.\<close>

definition decided :: "stage \<Rightarrow> (resolver_reason list \<Rightarrow> verdict) \<Rightarrow> verdict" where
  "decided s f = (case s of Inl v \<Rightarrow> v | Inr rejected \<Rightarrow> f rejected)"

definition resolve_verdict :: "mode_resolver \<Rightarrow> resolver_intent \<Rightarrow> policy_decision \<Rightarrow> bool \<Rightarrow> bool \<Rightarrow> verdict" where
  "resolve_verdict mr i policy pa cs =
     decided (stage_admit mr i policy) (\<lambda>r. decided (stage_direct mr i r) (\<lambda>r. decided (stage_batch mr i r) (\<lambda>r.
     decided (stage_runbook mr i r) (\<lambda>r. decided (stage_dag mr i r) (\<lambda>r. stage_agentic mr i pa cs r)))))"

definition resolve ::
  "(string \<Rightarrow> string) \<Rightarrow> mode_resolver \<Rightarrow> resolver_intent \<Rightarrow> policy_decision \<Rightarrow> bool \<Rightarrow> bool \<Rightarrow> (resolver_error, resolver_decision) result" where
  "resolve sha mr i policy policy_allows_agentic context_shaping_ok =
     make_decision sha mr i (resolve_verdict mr i policy policy_allows_agentic context_shaping_ok)"

definition replay_decision ::
  "(string \<Rightarrow> string) \<Rightarrow> mode_resolver \<Rightarrow> resolver_intent \<Rightarrow> policy_decision \<Rightarrow> bool \<Rightarrow> bool \<Rightarrow> int
    \<Rightarrow> (resolver_error, resolver_decision \<times> nat) result" where
  "replay_decision sha mr i policy pa cs repetitions =
     bind_r (resolve sha mr i policy pa cs) (\<lambda>first. bind_r (decision_json first) (\<lambda>reference.
     bind_r (traverse (\<lambda>_. bind_r (resolve sha mr i policy pa cs) decision_json) [1 .. repetitions - 1]) (\<lambda>texts.
     Inr (first, length (filter (\<lambda>t. t \<noteq> reference) texts)))))"

subsection \<open>What each stage decides\<close>

text \<open>The conditions under which each mode is admissible, in terms of the intent alone.\<close>

definition admitted :: "mode_resolver \<Rightarrow> resolver_intent \<Rightarrow> policy_decision \<Rightarrow> bool" where
  "admitted mr i policy \<longleftrightarrow>
     (operations i \<noteq> [] \<or> residual_subintent i \<or> no_contract_coverage i \<or> unknown_target i) \<and> policy \<noteq> DENY \<and>
     escalation_count i \<le> max_escalations_per_request (mr_budget mr)"

definition direct_ok :: "mode_resolver \<Rightarrow> resolver_intent \<Rightarrow> bool" where
  "direct_ok mr i \<longleftrightarrow> (\<exists>op. operations i = [op] \<and> op_fully_bound op \<and> usable mr op) \<and> \<not> residual_subintent i"

definition several :: "resolver_intent \<Rightarrow> bool" where
  "several i \<longleftrightarrow> length (operations i) > 1 \<and> \<not> residual_subintent i \<and> (\<forall>op \<in> set (operations i). op_fully_bound op)"

definition independent :: "resolver_intent \<Rightarrow> bool" where
  "independent i \<longleftrightarrow> several i \<and> (\<forall>op \<in> set (operations i). op_depends_on op = []) \<and> (\<exists>c. \<forall>op \<in> set (operations i). capability_id op = c)"

definition all_usable :: "mode_resolver \<Rightarrow> resolver_intent \<Rightarrow> bool" where
  "all_usable mr i \<longleftrightarrow> (\<forall>op \<in> set (operations i). usable mr op)"

definition runbook_ok :: "mode_resolver \<Rightarrow> resolver_intent \<Rightarrow> bool" where
  "runbook_ok mr i \<longleftrightarrow> runbook_ref i \<noteq> [] \<and> map_of (mr_runbooks mr) (runbook_ref i) = Some True \<and> runbook_version_pinned i \<and>
     (\<forall>op \<in> set (operations i). op_fully_bound op) \<and> \<not> residual_subintent i"

definition plannable :: "resolver_intent \<Rightarrow> bool" where
  "plannable i \<longleftrightarrow> several i \<and> (\<forall>n. (n, n) \<notin> (dep_rel (op_graph i))\<^sup>+)"

definition dag_fits :: "mode_resolver \<Rightarrow> resolver_intent \<Rightarrow> bool" where
  "dag_fits mr i \<longleftrightarrow> node_count i \<le> dag_max_nodes (mr_budget mr) \<and>
     (\<forall>p. dep_chain (op_graph i) p \<longrightarrow> int (length p) \<le> dag_max_depth (mr_budget mr))"

definition agentic_ok :: "mode_resolver \<Rightarrow> resolver_intent \<Rightarrow> bool \<Rightarrow> bool \<Rightarrow> bool" where
  "agentic_ok mr i pa cs \<longleftrightarrow> agentic_allowance i \<and> agentic_token_budget (mr_budget mr) > 0 \<and>
     escalation_count i < max_escalations_per_request (mr_budget mr) \<and>
     ((\<exists>op \<in> set (operations i). capability_id op \<in> set (mr_write_capabilities mr)) \<longrightarrow> intent_approval_ref i \<noteq> []) \<and> pa \<and> cs"

text \<open>A stage that passes on adds at most one rejected branch.\<close>

definition passes :: "stage \<Rightarrow> resolver_reason list \<Rightarrow> bool" where
  "passes s rejected \<longleftrightarrow> (\<exists>rs. s = Inr (rejected @ rs) \<and> length rs \<le> 1 \<and> list_all is_rejection rs)"

lemma passesI [intro]: "passes (Inr rejected) rejected" "is_rejection r \<Longrightarrow> passes (Inr (rejected @ [r])) rejected"
  by (auto simp: passes_def)

lemma rejections [simp]:
  "is_rejection R_REJ_DIRECT_NOT_READY" "is_rejection R_REJ_DIRECT_MULTI_TOOL" "is_rejection R_REJ_DIRECT_UNBOUND"
  "is_rejection R_REJ_NO_RUNBOOK" "is_rejection R_REJ_RUNBOOK_VERSION_UNPINNED" "is_rejection R_REJ_NOT_INDEPENDENT"
  "is_rejection R_REJ_NOT_PLANNABLE" "is_rejection R_REJ_CYCLE_DETECTED"
  by (simp_all add: is_rejection_def)

lemma node_count_iff:
  "node_count i = 0 \<longleftrightarrow> operations i = []" "node_count i = 1 \<longleftrightarrow> (\<exists>op. operations i = [op])"
  "node_count i > 1 \<longleftrightarrow> length (operations i) > 1"
  by (auto simp: node_count_def length_Suc_conv)

lemma usable_count_all: "usable_count mr i = node_count i \<longleftrightarrow> all_usable mr i"
  by (simp add: usable_count_def node_count_def all_usable_def) (metis filter_True length_filter_less nat_neq_iff)

lemma homogeneous_iff: "operations i \<noteq> [] \<Longrightarrow> homogeneous i \<longleftrightarrow> (\<exists>c. \<forall>op \<in> set (operations i). capability_id op = c)"
proof -
  assume ne: "operations i \<noteq> []"
  have "homogeneous i \<longleftrightarrow> card (capability_id ` set (operations i)) = 1"
    by (simp add: homogeneous_def length_remdups_card_conv)
  also have "\<dots> \<longleftrightarrow> (\<exists>c. capability_id ` set (operations i) = {c})" by (simp add: card_1_singleton_iff)
  also have "\<dots> \<longleftrightarrow> (\<exists>c. \<forall>op \<in> set (operations i). capability_id op = c)"
    using ne by (intro iff_exI) (auto simp: set_eq_iff image_iff neq_Nil_conv)
  finally show ?thesis .
qed

lemma stage_admit_spec:
  "if admitted mr i policy then stage_admit mr i policy = Inr []
   else \<exists>r. stage_admit mr i policy = Inl (Verdict r [] 0 0) \<and> is_refusal r"
  by (auto simp: stage_admit_def admitted_def node_count_iff is_refusal_def)

lemma stage_direct_spec:
  "if direct_ok mr i then stage_direct mr i rej = Inl (Verdict R_DIRECT_EXACT rej 1 0) else passes (stage_direct mr i rej) rej"
  by (auto simp: stage_direct_def direct_ok_def node_count_iff Let_def)

lemma fully_bound_iff: "fully_bound i \<longleftrightarrow> (\<forall>op \<in> set (operations i). op_fully_bound op)"
  and has_dependencies_iff: "has_dependencies i \<longleftrightarrow> \<not> (\<forall>op \<in> set (operations i). op_depends_on op = [])"
  by (simp_all add: fully_bound_def list_all_iff has_dependencies_def list_ex_iff)

lemma independent_iff:
  "independent i \<longleftrightarrow> node_count i > 1 \<and> \<not> residual_subintent i \<and> \<not> has_dependencies i \<and> homogeneous i \<and> fully_bound i"
proof (cases "operations i = []")
  case False
  then show ?thesis
    by (simp add: independent_def several_def node_count_iff homogeneous_iff fully_bound_iff has_dependencies_iff) blast
qed (simp add: independent_def several_def node_count_def)

lemma stage_batch_spec:
  "if independent i \<and> node_count i > batch_max_nodes (mr_budget mr) then stage_batch mr i rej = Inl (Verdict E_BUDGET_NODES rej 0 0)
   else if independent i \<and> all_usable mr i then stage_batch mr i rej = Inl (Verdict R_BATCH_INDEPENDENT rej (node_count i) 0)
   else passes (stage_batch mr i rej) rej"
  unfolding independent_iff usable_count_all [symmetric] by (auto simp: stage_batch_def)

lemma stage_runbook_spec:
  "if runbook_ok mr i then stage_runbook mr i rej = Inl (Verdict R_RUNBOOK_MATCH rej (usable_count mr i) 0)
   else passes (stage_runbook mr i rej) rej"
  by (auto simp: stage_runbook_def runbook_ok_def fully_bound_iff split: option.splits)

lemma plannable_iff: "plannable i \<longleftrightarrow> node_count i > 1 \<and> \<not> residual_subintent i \<and> \<not> has_cycle i \<and> fully_bound i"
  by (auto simp: plannable_def several_def node_count_iff fully_bound_iff has_cycle_iff)

lemma dag_fits_iff:
  assumes "plannable i"
  shows "dag_fits mr i \<longleftrightarrow> \<not> (node_count i > dag_max_nodes (mr_budget mr) \<or> int (depth i) > dag_max_depth (mr_budget mr))"
proof -
  obtain q where q: "dep_chain (op_graph i) q" "length q = depth i" "\<forall>p. dep_chain (op_graph i) p \<longrightarrow> length p \<le> depth i"
    using depth_longest_chain [of i] assms by (auto simp: plannable_def)
  have "(\<forall>p. dep_chain (op_graph i) p \<longrightarrow> int (length p) \<le> m) \<longleftrightarrow> int (depth i) \<le> m" for m
    using q by (metis of_nat_le_iff order_trans)
  then show ?thesis by (auto simp: dag_fits_def)
qed

lemma stage_dag_spec:
  "if plannable i \<and> \<not> dag_fits mr i then stage_dag mr i rej = Inl (Verdict E_BUDGET_NODES rej 0 0)
   else if plannable i \<and> all_usable mr i then stage_dag mr i rej = Inl (Verdict R_DAG_TYPED_PLAN rej (node_count i) 0)
   else passes (stage_dag mr i rej) rej"
proof (cases "plannable i")
  case True
  with dag_fits_iff [OF True, of mr] plannable_iff [of i] usable_count_all [of mr i] show ?thesis by (auto simp: stage_dag_def)
next
  case False
  then have "\<not> (node_count i > 1 \<and> \<not> residual_subintent i \<and> \<not> has_cycle i \<and> fully_bound i)" by (simp add: plannable_iff)
  with False show ?thesis by (auto simp: stage_dag_def)
qed

lemma agentic_reason_mode: "is_mode_selection (agentic_reason mr i)" "map_of MODE_FOR_REASON (agentic_reason mr i) = Some MODE_AGENTIC"
  by (auto simp: agentic_reason_def is_mode_selection_def MODE_FOR_REASON_def)

lemma stage_agentic_spec:
  "if agentic_ok mr i pa cs
   then stage_agentic mr i pa cs rej = Verdict (agentic_reason mr i) rej (usable_count mr i) (agentic_token_budget (mr_budget mr))
   else \<exists>r. stage_agentic mr i pa cs rej = Verdict r rej 0 0 \<and> is_refusal r"
  by (auto simp: stage_agentic_def agentic_ok_def allows_agentic_def writes_def list_ex_iff is_refusal_def)

subsection \<open>The tree as a preference order\<close>

text \<open>
  The mode the tree selects, stated over the conditions: the first admissible mode in the order
  DIRECT, BATCH, RUNBOOK, DAG, AGENTIC, where an over-budget batch or plan is refused rather than
  passed on.
\<close>

definition mode_spec :: "mode_resolver \<Rightarrow> resolver_intent \<Rightarrow> policy_decision \<Rightarrow> bool \<Rightarrow> bool \<Rightarrow> execution_mode option" where
  "mode_spec mr i policy pa cs =
     (if \<not> admitted mr i policy then None
      else if direct_ok mr i then Some MODE_DIRECT
      else if independent i \<and> node_count i > batch_max_nodes (mr_budget mr) then None
      else if independent i \<and> all_usable mr i then Some MODE_BATCH
      else if runbook_ok mr i then Some MODE_RUNBOOK
      else if plannable i \<and> \<not> dag_fits mr i then None
      else if plannable i \<and> all_usable mr i then Some MODE_DAG
      else if agentic_ok mr i pa cs then Some MODE_AGENTIC
      else None)"

text \<open>A verdict that selects the given mode, after at most \<open>k\<close> rejected branches.\<close>

definition verdict_is :: "mode_resolver \<Rightarrow> nat \<Rightarrow> execution_mode option \<Rightarrow> verdict \<Rightarrow> bool" where
  "verdict_is mr k m v = (case v of Verdict r rejected nodes tokens \<Rightarrow>
     length rejected \<le> k \<and> list_all is_rejection rejected \<and>
     (case m of None \<Rightarrow> is_refusal r \<and> tokens = 0
      | Some x \<Rightarrow> is_mode_selection r \<and> map_of MODE_FOR_REASON r = Some x \<and>
          tokens = (if x = MODE_AGENTIC then agentic_token_budget (mr_budget mr) else 0)))"

abbreviation rejected_ok :: "nat \<Rightarrow> resolver_reason list \<Rightarrow> bool" where
  "rejected_ok k rejected \<equiv> length rejected \<le> k \<and> list_all is_rejection rejected"

lemma decided_passes:
  assumes "passes s rejected" "rejected_ok k rejected" "\<And>r. rejected_ok (Suc k) r \<Longrightarrow> P (f r)"
  shows "P (decided s f)"
proof -
  obtain rs where "s = Inr (rejected @ rs)" "length rs \<le> 1" "list_all is_rejection rs" using assms(1) by (auto simp: passes_def)
  with assms(2,3) show ?thesis by (simp add: decided_def)
qed

lemma verdict_is_refusal: "rejected_ok k rejected \<Longrightarrow> is_refusal r \<Longrightarrow> verdict_is mr k None (Verdict r rejected nodes 0)"
  by (simp add: verdict_is_def)

lemma verdict_is_mode:
  "rejected_ok k rejected \<Longrightarrow> (r, m) \<in> set MODE_FOR_REASON \<Longrightarrow> tokens = (if m = MODE_AGENTIC then agentic_token_budget (mr_budget mr) else 0) \<Longrightarrow>
   verdict_is mr k (Some m) (Verdict r rejected nodes tokens)"
  by (auto simp: verdict_is_def MODE_FOR_REASON_def is_mode_selection_def)

lemma verdict_agentic:
  assumes "rejected_ok 4 rejected"
  shows "verdict_is mr 4 (if agentic_ok mr i pa cs then Some MODE_AGENTIC else None) (stage_agentic mr i pa cs rejected)"
  using stage_agentic_spec [of mr i pa cs rejected] assms agentic_reason_mode [of mr i]
  by (auto simp: verdict_is_def split: if_splits)

lemma verdict_dag:
  assumes "rejected_ok 3 rejected"
  shows "verdict_is mr 4 (if plannable i \<and> \<not> dag_fits mr i then None else if plannable i \<and> all_usable mr i then Some MODE_DAG
      else if agentic_ok mr i pa cs then Some MODE_AGENTIC else None)
    (decided (stage_dag mr i rejected) (stage_agentic mr i pa cs))"
proof -
  note spec = stage_dag_spec [of i mr rejected]
  consider "plannable i \<and> \<not> dag_fits mr i" | "plannable i" "dag_fits mr i" "all_usable mr i" | "\<not> (plannable i \<and> (\<not> dag_fits mr i \<or> all_usable mr i))" by blast
  then show ?thesis
  proof cases
    case 1
    with spec assms show ?thesis by (simp add: decided_def verdict_is_def is_refusal_def)
  next
    case 2
    with spec assms show ?thesis by (simp add: decided_def verdict_is_def MODE_FOR_REASON_def is_mode_selection_def)
  next
    case 3
    then have "passes (stage_dag mr i rejected) rejected" using spec by (auto split: if_splits)
    then have "verdict_is mr 4 (if agentic_ok mr i pa cs then Some MODE_AGENTIC else None) (decided (stage_dag mr i rejected) (stage_agentic mr i pa cs))"
      by (rule decided_passes [OF _ assms]) (rule verdict_agentic, simp)
    with 3 show ?thesis by auto
  qed
qed

lemma verdict_resolve: "verdict_is mr 4 (mode_spec mr i policy pa cs) (resolve_verdict mr i policy pa cs)"
proof (cases "admitted mr i policy")
  case False
  with stage_admit_spec [of mr i policy] show ?thesis by (auto simp: resolve_verdict_def decided_def verdict_is_def mode_spec_def)
next
  case adm: True
  let ?dag = "\<lambda>r. decided (stage_dag mr i r) (stage_agentic mr i pa cs)"
  let ?book = "\<lambda>r. decided (stage_runbook mr i r) ?dag"
  let ?batch = "\<lambda>r. decided (stage_batch mr i r) ?book"
  have v: "resolve_verdict mr i policy pa cs = decided (stage_direct mr i []) ?batch"
    using stage_admit_spec [of mr i policy] adm by (simp add: resolve_verdict_def decided_def)
  define dm where "dm = (if plannable i \<and> \<not> dag_fits mr i then None else if plannable i \<and> all_usable mr i then Some MODE_DAG
      else if agentic_ok mr i pa cs then Some MODE_AGENTIC else None)"
  have book: "verdict_is mr 4 (if runbook_ok mr i then Some MODE_RUNBOOK else dm) (?book r)" if "rejected_ok 2 r" for r
  proof (cases "runbook_ok mr i")
    case True
    with that stage_runbook_spec [of mr i r] show ?thesis by (simp add: decided_def verdict_is_def MODE_FOR_REASON_def is_mode_selection_def)
  next
    case False
    then have "passes (stage_runbook mr i r) r" using stage_runbook_spec [of mr i r] by simp
    then have "verdict_is mr 4 dm (?book r)" by (rule decided_passes [OF _ that]) (simp add: dm_def verdict_dag)
    with False show ?thesis by simp
  qed
  define bm where "bm = (if independent i \<and> node_count i > batch_max_nodes (mr_budget mr) then None
      else if independent i \<and> all_usable mr i then Some MODE_BATCH else if runbook_ok mr i then Some MODE_RUNBOOK else dm)"
  have batch: "verdict_is mr 4 bm (?batch r)" if "rejected_ok 1 r" for r
  proof (cases "independent i \<and> (node_count i > batch_max_nodes (mr_budget mr) \<or> all_usable mr i)")
    case True
    with that stage_batch_spec [of i mr r] show ?thesis
      by (auto simp: bm_def decided_def verdict_is_def MODE_FOR_REASON_def is_mode_selection_def is_refusal_def split: if_splits)
  next
    case False
    then have "passes (stage_batch mr i r) r" using stage_batch_spec [of i mr r] by (auto split: if_splits)
    then have "verdict_is mr 4 (if runbook_ok mr i then Some MODE_RUNBOOK else dm) (?batch r)"
      by (rule decided_passes [OF _ that]) (rule book, simp)
    with False show ?thesis by (auto simp: bm_def)
  qed
  have m: "mode_spec mr i policy pa cs = (if direct_ok mr i then Some MODE_DIRECT else bm)" using adm by (simp add: mode_spec_def bm_def dm_def)
  show ?thesis
  proof (cases "direct_ok mr i")
    case True
    with stage_direct_spec [of mr i "[]"] show ?thesis
      by (simp add: v m decided_def verdict_is_def MODE_FOR_REASON_def is_mode_selection_def)
  next
    case False
    then have "passes (stage_direct mr i []) []" using stage_direct_spec [of mr i "[]"] by simp
    then have "verdict_is mr 4 bm (decided (stage_direct mr i []) ?batch)" by (rule decided_passes [where k = 0]) (simp_all add: batch)
    with False show ?thesis by (simp add: v m)
  qed
qed

lemma make_decision_ok:
  assumes "verdict_is mr k m v"
  shows "\<exists>d. make_decision sha mr i v = Inr d \<and> rd_mode d = m \<and> (decision_refused d \<longleftrightarrow> m = None) \<and> rejected_ok k (rejected_branches d) \<and>
    agentic_tokens_authorized d = (if m = Some MODE_AGENTIC then agentic_token_budget (mr_budget mr) else 0) \<and>
    rd_request_id d = request_id i \<and> rd_escalation_count d = escalation_count i \<and> snapshot_digest d = mr_snapshot_digest mr \<and>
    intent_digest d = sha (dumps (intent_canonical i)) \<and> budget_digest d = sha (dumps (budget_canonical (mr_budget mr))) \<and> extra d = []"
proof (cases v)
  case (Verdict r rejected nodes tokens)
  have h: "intent_digest_of sha i = Inr (sha (dumps (intent_canonical i)))"
    "budget_digest_of sha (mr_budget mr) = Inr (sha (dumps (budget_canonical (mr_budget mr))))"
    by (simp_all add: intent_digest_of_def budget_digest_of_def resolver_hash_ok)
  have "list_all is_rejection rejected" using assms Verdict by (simp add: verdict_is_def)
  then have e: "\<not> list_ex (\<lambda>r. \<not> is_rejection r) rejected" by (simp add: list_all_iff list_ex_iff)
  show ?thesis
  proof (cases m)
    case None
    with assms Verdict have "is_refusal r" by (simp add: verdict_is_def)
    moreover from this have "\<not> is_mode_selection r" using reason_kinds(2) by blast
    ultimately show ?thesis using assms Verdict h e None
      by (simp add: make_decision_def decision_new_def verdict_is_def decision_refused_def)
  next
    case (Some x)
    with assms Verdict have "is_mode_selection r" by (simp add: verdict_is_def)
    moreover from this have "\<not> is_refusal r" using reason_kinds(2) by blast
    ultimately show ?thesis using assms Verdict h e Some
      by (simp add: make_decision_def decision_new_def verdict_is_def decision_refused_def)
  qed
qed

subsection \<open>Properties\<close>


lemma resolve_mode:
  assumes "resolve sha mr i policy pa cs = Inr d"
  shows "rd_mode d = mode_spec mr i policy pa cs \<and> (decision_refused d \<longleftrightarrow> rd_mode d = None) \<and> rd_request_id d = request_id i \<and>
    intent_digest d = sha (dumps (intent_canonical i)) \<and> snapshot_digest d = mr_snapshot_digest mr \<and> extra d = [] \<and>
    list_all is_rejection (rejected_branches d) \<and> length (rejected_branches d) \<le> 4"
  using make_decision_ok [OF verdict_resolve [of mr i policy pa cs], of sha i] assms unfolding resolve_def by auto

lemma resolve_total: "\<exists>d. resolve sha mr i policy pa cs = Inr d"
  using make_decision_ok [OF verdict_resolve [of mr i policy pa cs], of sha i] unfolding resolve_def by blast

text \<open>
  The agentic mode is the last resort and needs every grant: it is selected only if the policy did
  not deny, the caller allowed it, a positive token budget was declared, an escalation is left,
  writes carry an approval, the agentic policy and the context shaping agree, and neither a direct
  call, nor a batch, nor a runbook, nor a plan could serve the request.
\<close>

theorem agentic_last_resort:
  assumes "resolve sha mr i policy pa cs = Inr d" and "rd_mode d = Some MODE_AGENTIC"
  shows "policy \<noteq> DENY \<and> agentic_ok mr i pa cs \<and> \<not> direct_ok mr i \<and> \<not> (independent i \<and> all_usable mr i) \<and> \<not> runbook_ok mr i \<and>
    \<not> (plannable i \<and> all_usable mr i) \<and> agentic_tokens_authorized d > 0"
proof -
  have m: "mode_spec mr i policy pa cs = Some MODE_AGENTIC" using resolve_mode [OF assms(1)] assms(2) by simp
  then have "policy \<noteq> DENY \<and> agentic_ok mr i pa cs \<and> \<not> direct_ok mr i \<and> \<not> (independent i \<and> all_usable mr i) \<and> \<not> runbook_ok mr i \<and>
    \<not> (plannable i \<and> all_usable mr i)"
    by (auto simp: mode_spec_def admitted_def split: if_splits)
  moreover have "agentic_tokens_authorized d = agentic_token_budget (mr_budget mr)"
    using make_decision_ok [OF verdict_resolve [of mr i policy pa cs], of sha i] assms m unfolding resolve_def by auto
  ultimately show ?thesis by (simp add: agentic_ok_def)
qed

subsection \<open>Samples\<close>

definition sample_op :: "string \<Rightarrow> string \<Rightarrow> string list \<Rightarrow> intent_operation" where
  "sample_op c r ds = \<lparr>capability_id = c, target_scope_ref = ''repo'', op_fully_bound = True, op_depends_on = ds, operation_ref = r\<rparr>"

definition sample_intent :: "intent_operation list \<Rightarrow> resolver_intent" where
  "sample_intent ops = \<lparr>request_id = ''r1'', intent_principal_ref = ''p'', operations = ops, residual_subintent = False,
     unknown_target = False, no_contract_coverage = False, runbook_ref = [], runbook_version_pinned = True,
     intent_approval_ref = [], agentic_allowance = True, escalation_count = 0\<rparr>"

definition sample_resolver :: mode_resolver where
  "sample_resolver = \<lparr>mr_snapshot = [(''read'', READY)], mr_snapshot_digest = ''s'',
     mr_budget = budget_default\<lparr>agentic_token_budget := 100\<rparr>, mr_runbooks = [], mr_write_capabilities = []\<rparr>"

text \<open>An operation without a usable capability escalates.\<close>

theorem agentic_last_resort_witness:
  "\<exists>d. resolve (\<lambda>s. s) sample_resolver (sample_intent [sample_op ''other'' ''a'' []]) ALLOW True True = Inr d \<and>
    rd_mode d = Some MODE_AGENTIC \<and> agentic_tokens_authorized d > 0"
proof -
  let ?i = "sample_intent [sample_op ''other'' ''a'' []]"
  obtain d where d: "resolve (\<lambda>s. s) sample_resolver ?i ALLOW True True = Inr d" using resolve_total by blast
  have "mode_spec sample_resolver ?i ALLOW True True = Some MODE_AGENTIC"
    by (simp add: mode_spec_def admitted_def direct_ok_def independent_def several_def runbook_ok_def plannable_def agentic_ok_def
        sample_intent_def sample_resolver_def sample_op_def budget_default_def usable_def)
  with resolve_mode [OF d] have m: "rd_mode d = Some MODE_AGENTIC" by simp
  with agentic_last_resort [OF d m] d show ?thesis by blast
qed

end
