(* ===== verification/Hybrid.thy ===== *)
theory Hybrid
  imports Resolver
begin

section \<open>Hybrid execution (v2/hybrid\_execution.py)\<close>

text \<open>
  \<open>HybridCoordinator.run\<close>: resolve, execute deterministically, escalate the rest to a reasoning step
  that proposes a plan, and resolve again. The injected executor and reasoning step are parameters;
  they act on a world of their own type \<open>'w\<close> and do not raise. \<open>hy_calls\<close> lists the executor calls
  made, each with the decision and the operations it was given. One iteration of the \<open>while True\<close>
  loop is \<open>hybrid_step\<close>; the loop ends because every iteration that goes on spends an escalation. The
  outcome leaves out \<open>provider_calls_from_agentic_layer\<close> (always 0) and \<open>extra\<close> (always empty).
\<close>

subsection \<open>Secret-shaped material (v2/provider\_contract.py)\<close>

definition SECRET_SHAPED_NAMES :: "string list" where
  "SECRET_SHAPED_NAMES = [''apikey'', ''api_key'', ''authorization'', ''bearer'', ''cookie'', ''credential'', ''passwd'',
     ''password'', ''private_key'', ''refresh_token'', ''secret'', ''token'']"

definition SECRET_VALUE_PREFIXES :: "string list" where
  "SECRET_VALUE_PREFIXES = [''bearer '', ''basic '', ''ghp_'', ''gho_'', ''github_pat_'', ''glpat-'', ''xoxb-'', ''-----begin'']"

text \<open>The loop over the reference suffixes of \<open>_key_is_secret\<close> returns false in every case.\<close>

definition key_is_secret :: "string \<Rightarrow> bool" where
  "key_is_secret name \<longleftrightarrow> lower_text (strip name) \<in> set SECRET_SHAPED_NAMES"

definition value_is_secret :: "string \<Rightarrow> bool" where
  "value_is_secret v \<longleftrightarrow> (let lowered = lower_text (strip v) in
     lowered \<in> set SECRET_SHAPED_NAMES \<or> list_ex (\<lambda>p. take (length p) lowered = p) SECRET_VALUE_PREFIXES)"

fun audit_safe :: "json \<Rightarrow> string \<Rightarrow> string list"
  and audit_entries :: "(string \<times> json) list \<Rightarrow> string \<Rightarrow> string list"
  and audit_items :: "json list \<Rightarrow> nat \<Rightarrow> string \<Rightarrow> string list" where
  "audit_safe (JObj kvs) path = audit_entries kvs path"
| "audit_safe (JStr s) path = (if value_is_secret s then [path] else [])"
| "audit_safe (JList xs) path = audit_items xs 0 path"
| "audit_safe v path = []"
| "audit_entries [] path = []"
| "audit_entries ((k, v) # kvs) path =
     (if key_is_secret k then [path @ ''.'' @ k] else []) @ audit_safe v (path @ ''.'' @ k) @ audit_entries kvs path"
| "audit_items [] n path = []"
| "audit_items (x # xs) n path = audit_safe x (path @ ''['' @ nat_text n @ '']'') @ audit_items xs (Suc n) path"

subsection \<open>Contexts and proposals\<close>

record agentic_context =
  cx_request_id :: string
  cx_intent_summary :: string
  available_capability_ids :: "string list"
  target_scope_refs :: "string list"
  escalations_remaining :: int
  token_budget :: int

definition context_digest :: "(string \<Rightarrow> string) \<Rightarrow> agentic_context \<Rightarrow> (resolver_error, string) result" where
  "context_digest sha c = resolver_hash sha (JObj
     [(''available_capability_ids'', JList (map JStr (available_capability_ids c))), (''escalations_remaining'', JInt (escalations_remaining c)),
      (''intent_summary'', JStr (cx_intent_summary c)), (''request_id'', JStr (cx_request_id c)),
      (''target_scope_refs'', JList (map JStr (target_scope_refs c))), (''token_budget'', JInt (token_budget c))])"

record agentic_proposal =
  pr_operations :: "intent_operation list"
  tokens_used :: int
  abandoned :: bool

datatype shaping_error = ContextShapingError string

definition carries_forbidden :: "(string \<times> json) list \<Rightarrow> string \<Rightarrow> bool" where
  "carries_forbidden forbidden summary \<longleftrightarrow>
     list_ex (\<lambda>(k, v). case v of JStr s \<Rightarrow> s \<noteq> [] \<and> substr s summary | _ \<Rightarrow> False) forbidden"

definition shape_context ::
  "resolver_intent \<Rightarrow> resolver_budget \<Rightarrow> string \<Rightarrow> (string \<times> json) list \<Rightarrow> (shaping_error, agentic_context) result" where
  "shape_context i b summary forbidden =
     (if carries_forbidden forbidden summary then Inl (ContextShapingError ''summary carries forbidden material'')
      else
        (let c = \<lparr>cx_request_id = request_id i, cx_intent_summary = summary,
                  available_capability_ids = sort (remdups (map capability_id (operations i))),
                  target_scope_refs = sort (remdups (map target_scope_ref (operations i))),
                  escalations_remaining = max 0 (max_escalations_per_request b - escalation_count i),
                  token_budget = agentic_token_budget b\<rparr>
         in if audit_safe (JObj [(''intent_summary'', JStr (cx_intent_summary c)),
                 (''capability_ids'', JList (map JStr (available_capability_ids c))),
                 (''targets'', JList (map JStr (target_scope_refs c)))]) ''$'' \<noteq> []
            then Inl (ContextShapingError ''shaped context contains secret-shaped material'') else Inr c))"

subsection \<open>The coordinator\<close>

record 'w coordinator =
  co_resolver :: mode_resolver
  co_executor :: "resolver_decision \<Rightarrow> intent_operation list \<Rightarrow> 'w \<Rightarrow> int \<times> 'w"
  co_step :: "(agentic_context \<Rightarrow> 'w \<Rightarrow> agentic_proposal \<times> 'w) option"
  co_sha :: "string \<Rightarrow> string"

record hybrid_outcome =
  ho_request_id :: string
  ho_decisions :: "resolver_decision list"
  final_decision :: resolver_decision
  deterministic_nodes_executed :: int
  ho_total_nodes :: int
  agentic_tokens_used :: int
  ho_escalations :: int
  ho_partial :: bool

definition deterministic_coverage :: "hybrid_outcome \<Rightarrow> rat" where
  "deterministic_coverage h = (if ho_total_nodes h \<le> 0 then 0 else rat_of_int (deterministic_nodes_executed h) / rat_of_int (ho_total_nodes h))"

text \<open>The local variables of \<open>run\<close> with the world and the log of executor calls.\<close>

record 'w hybrid_state =
  hy_decisions :: "resolver_decision list"
  hy_executed :: int
  hy_tokens :: int
  hy_escalations :: int
  hy_partial :: bool
  hy_current :: resolver_intent
  hy_world :: 'w
  hy_calls :: "(resolver_decision \<times> intent_operation list) list"

definition hybrid_outcome_of :: "resolver_intent \<Rightarrow> resolver_decision \<Rightarrow> bool \<Rightarrow> 'w hybrid_state \<Rightarrow> hybrid_outcome" where
  "hybrid_outcome_of i d part s = \<lparr>ho_request_id = request_id i, ho_decisions = hy_decisions s, final_decision = d,
     deterministic_nodes_executed = hy_executed s, ho_total_nodes = node_count i, agentic_tokens_used = hy_tokens s,
     ho_escalations = hy_escalations s, ho_partial = part\<rparr>"

definition call_executor :: "'w coordinator \<Rightarrow> resolver_decision \<Rightarrow> intent_operation list \<Rightarrow> 'w hybrid_state \<Rightarrow> 'w hybrid_state" where
  "call_executor co d ops s =
     (case co_executor co d ops (hy_world s) of
        (n, w) \<Rightarrow> s\<lparr>hy_executed := hy_executed s + n, hy_world := w, hy_calls := hy_calls s @ [(d, ops)]\<rparr>)"

text \<open>The shaped context of an iteration; \<open>None\<close> beside a flag when escalation is not allowed.\<close>

definition shaped :: "'w coordinator \<Rightarrow> string \<Rightarrow> (string \<times> json) list \<Rightarrow> resolver_intent \<Rightarrow> bool \<times> agentic_context option" where
  "shaped co summary forbidden cur =
     (if agentic_allowance cur \<and> allows_agentic (mr_budget (co_resolver co))
      then (case shape_context cur (mr_budget (co_resolver co)) summary forbidden of Inl e \<Rightarrow> (False, None) | Inr c \<Rightarrow> (True, Some c))
      else (True, None))"

text \<open>The refusal after a reasoning step that used too many tokens.\<close>

definition exhausted_decision ::
  "'w coordinator \<Rightarrow> resolver_intent \<Rightarrow> resolver_decision \<Rightarrow> 'w hybrid_state \<Rightarrow> (resolver_error, resolver_decision) result" where
  "exhausted_decision co i d s =
     bind_r (intent_digest_of (co_sha co) (hy_current s)) (\<lambda>idg. bind_r (budget_digest_of (co_sha co) (mr_budget (co_resolver co))) (\<lambda>bdg.
     decision_new \<lparr>rd_request_id = request_id (hy_current s), rd_mode = None, primary_reason_code = E_AGENTIC_BUDGET_EXHAUSTED,
       rejected_branches = rejected_branches d, deterministic_nodes = hy_executed s, total_nodes = node_count i,
       rd_escalation_count = hy_escalations s, agentic_tokens_authorized = 0, intent_digest = idg, budget_digest = bdg,
       snapshot_digest = snapshot_digest d, contract_version = RESOLVER_CONTRACT_VERSION, extra = []\<rparr>))"

text \<open>The intent that re-enters the tree.\<close>

definition proposed_intent :: "resolver_intent \<Rightarrow> agentic_proposal \<Rightarrow> resolver_intent" where
  "proposed_intent cur p = cur\<lparr>operations := pr_operations p, residual_subintent := False, unknown_target := False,
     no_contract_coverage := False, escalation_count := escalation_count cur + 1\<rparr>"

text \<open>After the reasoning step: refuse, give up, or go on with the proposal.\<close>

definition after_proposal ::
  "'w coordinator \<Rightarrow> resolver_intent \<Rightarrow> resolver_decision \<Rightarrow> agentic_proposal \<Rightarrow> 'w hybrid_state
    \<Rightarrow> 'w hybrid_state \<times> (resolver_error, hybrid_outcome option) result" where
  "after_proposal co i d p s =
     (let s = s\<lparr>hy_tokens := hy_tokens s + max 0 (tokens_used p), hy_escalations := hy_escalations s + 1\<rparr> in
      if hy_tokens s > agentic_token_budget (mr_budget (co_resolver co))
      then (case exhausted_decision co i d s of
              Inl e \<Rightarrow> (s, Inl e)
            | Inr x \<Rightarrow> (let s = s\<lparr>hy_decisions := hy_decisions s @ [x]\<rparr> in (s, Inr (Some (hybrid_outcome_of i x True s)))))
      else if abandoned p \<or> pr_operations p = [] then (s, Inr (Some (hybrid_outcome_of i d True s)))
      else (case intent_new (proposed_intent (hy_current s) p) of
              Inl e \<Rightarrow> (s\<lparr>hy_partial := True\<rparr>, Inl e)
            | Inr cur \<Rightarrow> (s\<lparr>hy_partial := True, hy_current := cur\<rparr>, Inr None)))"

text \<open>The agentic mode first executes the operations that are fully bound.\<close>

definition deterministic_segment :: "'w coordinator \<Rightarrow> resolver_decision \<Rightarrow> 'w hybrid_state \<Rightarrow> 'w hybrid_state" where
  "deterministic_segment co d s =
     (let part = filter op_fully_bound (operations (hy_current s))
      in if part \<noteq> [] \<and> deterministic_nodes d > 0 then call_executor co d part s else s)"

text \<open>One iteration: an outcome, or \<open>None\<close> to go on.\<close>

definition hybrid_step ::
  "'w coordinator \<Rightarrow> resolver_intent \<Rightarrow> policy_decision \<Rightarrow> bool \<Rightarrow> string \<Rightarrow> (string \<times> json) list \<Rightarrow> 'w hybrid_state
    \<Rightarrow> 'w hybrid_state \<times> (resolver_error, hybrid_outcome option) result" where
  "hybrid_step co i policy pa summary forbidden s =
     (case shaped co summary forbidden (hy_current s) of (ok, context) \<Rightarrow>
      (case resolve (co_sha co) (co_resolver co) (hy_current s) policy pa ok of
         Inl e \<Rightarrow> (s, Inl e)
       | Inr d \<Rightarrow>
           (let s = s\<lparr>hy_decisions := hy_decisions s @ [d]\<rparr> in
            if rd_mode d \<noteq> None \<and> rd_mode d \<noteq> Some MODE_AGENTIC
            then (let s = call_executor co d (operations (hy_current s)) s in (s, Inr (Some (hybrid_outcome_of i d (hy_partial s) s))))
            else if decision_refused d
            then (s, Inr (Some (hybrid_outcome_of i d (hy_partial s \<or> hy_executed s > 0) s)))
            else
              (let s = deterministic_segment co d s in
               case (co_step co, context) of
                 (Some think, Some c) \<Rightarrow>
                   (case think c (hy_world s) of (p, w) \<Rightarrow> after_proposal co i d p (s\<lparr>hy_world := w\<rparr>))
               | _ \<Rightarrow> (s, Inr (Some (hybrid_outcome_of i d True s)))))))"

text \<open>What one iteration does to the counters, the log and the world.\<close>

definition authorised_call :: "'w coordinator \<Rightarrow> policy_decision \<Rightarrow> bool \<Rightarrow> resolver_decision \<times> intent_operation list \<Rightarrow> bool" where
  "authorised_call co policy pa call = (case call of (d, ops) \<Rightarrow>
     \<exists>cur ok. resolve (co_sha co) (co_resolver co) cur policy pa ok = Inr d \<and> rd_mode d \<noteq> None \<and> set ops \<subseteq> set (operations cur) \<and>
       (rd_mode d = Some MODE_AGENTIC \<longrightarrow> (\<forall>op \<in> set ops. op_fully_bound op)))"

abbreviation max_esc :: "'w coordinator \<Rightarrow> int" where
  "max_esc co \<equiv> max_escalations_per_request (mr_budget (co_resolver co))"

abbreviation token_limit :: "'w coordinator \<Rightarrow> int" where
  "token_limit co \<equiv> agentic_token_budget (mr_budget (co_resolver co))"

definition step_effect :: "'w coordinator \<Rightarrow> policy_decision \<Rightarrow> bool \<Rightarrow> 'w hybrid_state \<Rightarrow> 'w hybrid_state \<Rightarrow> bool" where
  "step_effect co policy pa s s' \<longleftrightarrow>
     (hy_calls s' = hy_calls s \<or> (\<exists>c. hy_calls s' = hy_calls s @ [c] \<and> authorised_call co policy pa c)) \<and>
     (hy_escalations s' = hy_escalations s \<and> hy_tokens s' = hy_tokens s \<or>
      hy_escalations s' = hy_escalations s + 1 \<and> escalation_count (hy_current s) < max_esc co) \<and>
     (policy = DENY \<longrightarrow> hy_world s' = hy_world s \<and> hy_calls s' = hy_calls s \<and> hy_escalations s' = hy_escalations s)"

text \<open>What an outcome says, given the final state of the local variables.\<close>

definition outcome_agrees :: "'w coordinator \<Rightarrow> resolver_intent \<Rightarrow> 'w hybrid_state \<Rightarrow> hybrid_outcome \<Rightarrow> bool" where
  "outcome_agrees co i s h \<longleftrightarrow> ho_request_id h = request_id i \<and> ho_decisions h = hy_decisions s \<and> hy_decisions s \<noteq> [] \<and>
     final_decision h = last (hy_decisions s) \<and> deterministic_nodes_executed h = hy_executed s \<and> ho_escalations h = hy_escalations s \<and>
     agentic_tokens_used h = hy_tokens s \<and>
     (hy_tokens s > token_limit co \<longrightarrow> primary_reason_code (final_decision h) = E_AGENTIC_BUDGET_EXHAUSTED \<and> rd_mode (final_decision h) = None)"

lemma call_executor_simps [simp]:
  "hy_calls (call_executor co d ops s) = hy_calls s @ [(d, ops)]" "hy_escalations (call_executor co d ops s) = hy_escalations s"
  "hy_tokens (call_executor co d ops s) = hy_tokens s" "hy_current (call_executor co d ops s) = hy_current s"
  "hy_decisions (call_executor co d ops s) = hy_decisions s" "hy_partial (call_executor co d ops s) = hy_partial s"
  by (simp_all add: call_executor_def split: prod.split)

lemma exhausted_ok:
  assumes "exhausted_decision co i d s = Inr x"
  shows "primary_reason_code x = E_AGENTIC_BUDGET_EXHAUSTED" "rd_mode x = None"
  using assms by (auto simp: exhausted_decision_def bind_r_Inr_iff decision_new_def is_mode_selection_def split: if_splits)

lemma outcome_of_agrees:
  "hy_decisions s \<noteq> [] \<Longrightarrow> d = last (hy_decisions s) \<Longrightarrow>
   (hy_tokens s > token_limit co \<Longrightarrow> primary_reason_code d = E_AGENTIC_BUDGET_EXHAUSTED \<and> rd_mode d = None) \<Longrightarrow>
   outcome_agrees co i s (hybrid_outcome_of i d part s)"
  by (simp add: outcome_agrees_def hybrid_outcome_of_def)

lemma after_proposal_spec:
  assumes "after_proposal co i d p s = (s', r)" "hy_decisions s \<noteq> []" "d = last (hy_decisions s)"
  shows "hy_calls s' = hy_calls s \<and> hy_world s' = hy_world s \<and> hy_escalations s' = hy_escalations s + 1 \<and>
    (r = Inr None \<longrightarrow> escalation_count (hy_current s') = escalation_count (hy_current s) + 1 \<and> hy_tokens s' \<le> token_limit co) \<and>
    (\<forall>h. r = Inr (Some h) \<longrightarrow> outcome_agrees co i s' h)"
proof -
  let ?s = "s\<lparr>hy_tokens := hy_tokens s + max 0 (tokens_used p), hy_escalations := hy_escalations s + 1\<rparr>"
  consider "hy_tokens ?s > token_limit co" | "hy_tokens ?s \<le> token_limit co" "abandoned p \<or> pr_operations p = []"
    | "hy_tokens ?s \<le> token_limit co" "\<not> (abandoned p \<or> pr_operations p = [])" by linarith
  then show ?thesis
  proof cases
    case 1
    show ?thesis
    proof (cases "exhausted_decision co i d ?s")
      case (Inl e)
      with 1 assms(1) show ?thesis by (auto simp: after_proposal_def Let_def)
    next
      case (Inr x)
      let ?t = "?s\<lparr>hy_decisions := hy_decisions s @ [x]\<rparr>"
      have "s' = ?t" "r = Inr (Some (hybrid_outcome_of i x True ?t))" using 1 assms(1) Inr by (auto simp: after_proposal_def Let_def)
      moreover have "outcome_agrees co i ?t (hybrid_outcome_of i x True ?t)" by (rule outcome_of_agrees) (use exhausted_ok [OF Inr] in simp_all)
      ultimately show ?thesis by simp
    qed
  next
    case 2
    then have "s' = ?s" "r = Inr (Some (hybrid_outcome_of i d True ?s))" using assms(1) by (auto simp: after_proposal_def Let_def)
    moreover have "outcome_agrees co i ?s (hybrid_outcome_of i d True ?s)" by (rule outcome_of_agrees) (use 2(1) assms(2,3) in simp_all)
    ultimately show ?thesis by simp
  next
    case 3
    then show ?thesis using assms(1)
      by (cases "intent_new (proposed_intent (hy_current s) p)")
        (auto simp: after_proposal_def Let_def proposed_intent_def intent_new_def split: if_splits)
  qed
qed

lemma hybrid_step_spec:
  assumes step: "hybrid_step co i policy pa summary forbidden s = (s', r)" and tok: "hy_tokens s \<le> token_limit co"
  shows "step_effect co policy pa s s'"
    "r = Inr None \<Longrightarrow> escalation_count (hy_current s) < max_esc co \<and> hy_escalations s' = hy_escalations s + 1 \<and>
      escalation_count (hy_current s') = escalation_count (hy_current s) + 1 \<and> hy_tokens s' \<le> token_limit co"
    "r = Inr (Some h) \<Longrightarrow> outcome_agrees co i s' h"
proof -
  obtain ok cx where sh: "shaped co summary forbidden (hy_current s) = (ok, cx)" by (rule prod.exhaust)
  obtain d where d: "resolve (co_sha co) (co_resolver co) (hy_current s) policy pa ok = Inr d" using resolve_total by blast
  note m = resolve_mode [OF d]
  let ?s = "s\<lparr>hy_decisions := hy_decisions s @ [d]\<rparr>"
  have "step_effect co policy pa s s' \<and>
    (r = Inr None \<longrightarrow> escalation_count (hy_current s) < max_esc co \<and> hy_escalations s' = hy_escalations s + 1 \<and>
      escalation_count (hy_current s') = escalation_count (hy_current s) + 1 \<and> hy_tokens s' \<le> token_limit co) \<and>
    (\<forall>h. r = Inr (Some h) \<longrightarrow> outcome_agrees co i s' h)"
  proof (cases "rd_mode d = None \<or> rd_mode d = Some MODE_AGENTIC")
    case False
    let ?t = "call_executor co d (operations (hy_current s)) ?s"
    have r: "s' = ?t" "r = Inr (Some (hybrid_outcome_of i d (hy_partial ?t) ?t))" using False step sh d by (auto simp: hybrid_step_def Let_def)
    have "policy \<noteq> DENY" using m False by (auto simp: mode_spec_def admitted_def split: if_splits)
    moreover have "authorised_call co policy pa (d, operations (hy_current s))" using d False by (auto simp: authorised_call_def)
    ultimately have "step_effect co policy pa s s'" using r by (simp add: step_effect_def)
    moreover have "outcome_agrees co i ?t (hybrid_outcome_of i d (hy_partial ?t) ?t)" by (rule outcome_of_agrees) (use tok in simp_all)
    ultimately show ?thesis using r by simp
  next
    case True
    show ?thesis
    proof (cases "decision_refused d")
      case ref: True
      have r: "s' = ?s" "r = Inr (Some (hybrid_outcome_of i d (hy_partial ?s \<or> hy_executed ?s > 0) ?s))"
        using True ref step sh d by (auto simp: hybrid_step_def Let_def)
      moreover have "outcome_agrees co i ?s (hybrid_outcome_of i d (hy_partial ?s \<or> hy_executed ?s > 0) ?s)"
        by (rule outcome_of_agrees) (use tok in simp_all)
      ultimately show ?thesis by (simp add: step_effect_def)
    next
      case False
      with True m have a: "rd_mode d = Some MODE_AGENTIC" by auto
      then have ag: "policy \<noteq> DENY" "escalation_count (hy_current s) < max_esc co"
        using m by (auto simp: mode_spec_def admitted_def agentic_ok_def split: if_splits)
      let ?t = "deterministic_segment co d ?s" and ?part = "filter op_fully_bound (operations (hy_current s))"
      have auth: "authorised_call co policy pa (d, ?part)" using d a by (auto simp: authorised_call_def)
      have t: "hy_escalations ?t = hy_escalations s" "hy_tokens ?t = hy_tokens s" "hy_current ?t = hy_current s" "hy_decisions ?t = hy_decisions s @ [d]"
        "hy_calls ?t = hy_calls s \<or> hy_calls ?t = hy_calls s @ [(d, ?part)]" by (simp_all add: deterministic_segment_def Let_def)
      show ?thesis
      proof (cases "\<exists>think c. co_step co = Some think \<and> cx = Some c")
        case True
        then obtain think c where tc: "co_step co = Some think" "cx = Some c" by blast
        obtain p w where pw: "think c (hy_world ?t) = (p, w)" by (rule prod.exhaust)
        have ap: "after_proposal co i d p (?t\<lparr>hy_world := w\<rparr>) = (s', r)"
          using step sh d a False tc pw by (simp add: hybrid_step_def Let_def)
        have l: "hy_decisions (?t\<lparr>hy_world := w\<rparr>) \<noteq> []" "d = last (hy_decisions (?t\<lparr>hy_world := w\<rparr>))" by (simp_all add: t)
        have "step_effect co policy pa s s'" using after_proposal_spec [OF ap l] t auth ag by (auto simp: step_effect_def)
        with after_proposal_spec [OF ap l] t ag show ?thesis by simp
      next
        case none: False
        have r: "s' = ?t" "r = Inr (Some (hybrid_outcome_of i d True ?t))"
          using step sh d a False none by (auto simp: hybrid_step_def Let_def split: option.splits)
        have "outcome_agrees co i ?t (hybrid_outcome_of i d True ?t)" by (rule outcome_of_agrees) (use tok t in simp_all)
        moreover have "step_effect co policy pa s ?t" using t auth ag by (auto simp: step_effect_def)
        ultimately show ?thesis using r by simp
      qed
    qed
  qed
  then show "step_effect co policy pa s s'"
    "r = Inr None \<Longrightarrow> escalation_count (hy_current s) < max_esc co \<and> hy_escalations s' = hy_escalations s + 1 \<and>
      escalation_count (hy_current s') = escalation_count (hy_current s) + 1 \<and> hy_tokens s' \<le> token_limit co"
    "r = Inr (Some h) \<Longrightarrow> outcome_agrees co i s' h" by blast+
qed

subsection \<open>The loop\<close>

text \<open>An iteration that goes on spends an escalation, whatever the state.\<close>

lemma hybrid_step_continues:
  assumes "hybrid_step co i policy pa summary forbidden s = (s', Inr None)"
  shows "escalation_count (hy_current s) < max_esc co \<and> escalation_count (hy_current s') = escalation_count (hy_current s) + 1"
proof -
  obtain ok cx where sh: "shaped co summary forbidden (hy_current s) = (ok, cx)" by (rule prod.exhaust)
  obtain d where d: "resolve (co_sha co) (co_resolver co) (hy_current s) policy pa ok = Inr d" using resolve_total by blast
  let ?t = "deterministic_segment co d (s\<lparr>hy_decisions := hy_decisions s @ [d]\<rparr>)"
  have t: "hy_current ?t = hy_current s" "hy_decisions ?t = hy_decisions s @ [d]" by (simp_all add: deterministic_segment_def Let_def)
  from assms sh d have m: "\<not> (rd_mode d \<noteq> None \<and> rd_mode d \<noteq> Some MODE_AGENTIC)" "\<not> decision_refused d"
    by (auto simp: hybrid_step_def Let_def split: if_splits)
  with resolve_mode [OF d] have "mode_spec (co_resolver co) (hy_current s) policy pa ok = Some MODE_AGENTIC" by auto
  then have lt: "escalation_count (hy_current s) < max_esc co" by (auto simp: mode_spec_def agentic_ok_def split: if_splits)
  obtain p w where ap: "after_proposal co i d p (?t\<lparr>hy_world := w\<rparr>) = (s', Inr None)"
    using assms sh d m by (auto simp: hybrid_step_def Let_def split: option.splits prod.splits if_splits)
  from after_proposal_spec [OF ap] t lt show ?thesis by simp
qed

function hybrid_loop ::
  "'w coordinator \<Rightarrow> resolver_intent \<Rightarrow> policy_decision \<Rightarrow> bool \<Rightarrow> string \<Rightarrow> (string \<times> json) list \<Rightarrow> 'w hybrid_state
    \<Rightarrow> 'w hybrid_state \<times> (resolver_error, hybrid_outcome) result" where
  "hybrid_loop co i policy pa summary forbidden s =
     (case hybrid_step co i policy pa summary forbidden s of
        (s', Inl e) \<Rightarrow> (s', Inl e)
      | (s', Inr (Some h)) \<Rightarrow> (s', Inr h)
      | (s', Inr None) \<Rightarrow> hybrid_loop co i policy pa summary forbidden s')"
  by pat_completeness auto
termination
proof (relation "measure (\<lambda>(co, i, policy, pa, summary, forbidden, s). nat (max_esc co - escalation_count (hy_current s)))", goal_cases)
  case (2 co i policy pa summary forbidden s s' r q)
  then have "hybrid_step co i policy pa summary forbidden s = (s', Inr None)" by simp
  from hybrid_step_continues [OF this] show ?case by simp
qed simp

declare hybrid_loop.simps [simp del]

definition hybrid_run ::
  "'w coordinator \<Rightarrow> resolver_intent \<Rightarrow> policy_decision \<Rightarrow> bool \<Rightarrow> string \<Rightarrow> (string \<times> json) list \<Rightarrow> 'w
    \<Rightarrow> 'w hybrid_state \<times> (resolver_error, hybrid_outcome) result" where
  "hybrid_run co i policy pa summary forbidden w =
     hybrid_loop co i policy pa summary forbidden
       \<lparr>hy_decisions = [], hy_executed = 0, hy_tokens = 0, hy_escalations = 0, hy_partial = False, hy_current = i,
        hy_world = w, hy_calls = []\<rparr>"

definition hybrid_inv :: "'w coordinator \<Rightarrow> resolver_intent \<Rightarrow> policy_decision \<Rightarrow> bool \<Rightarrow> 'w hybrid_state \<Rightarrow> bool" where
  "hybrid_inv co i policy pa s \<longleftrightarrow> (\<forall>c \<in> set (hy_calls s). authorised_call co policy pa c) \<and> int (length (hy_calls s)) \<le> hy_escalations s \<and>
     hy_escalations s = escalation_count (hy_current s) - escalation_count i \<and>
     hy_escalations s \<le> max 0 (max_esc co - escalation_count i) \<and> hy_tokens s \<le> token_limit co"

lemma hybrid_loop_spec:
  assumes "hybrid_loop co i policy pa summary forbidden s = (s', r)" "hybrid_inv co i policy pa s"
  shows "(\<forall>c \<in> set (hy_calls s'). authorised_call co policy pa c) \<and> int (length (hy_calls s')) \<le> hy_escalations s' + 1 \<and>
    hy_escalations s' \<le> max 0 (max_esc co - escalation_count i) \<and> (\<forall>h. r = Inr h \<longrightarrow> outcome_agrees co i s' h) \<and>
    (policy = DENY \<longrightarrow> hy_world s' = hy_world s \<and> hy_calls s' = hy_calls s \<and> hy_escalations s' = hy_escalations s)"
  using assms
proof (induction co i policy pa summary forbidden s arbitrary: s' r rule: hybrid_loop.induct)
  case (1 co i policy pa summary forbidden s)
  obtain t q where t: "hybrid_step co i policy pa summary forbidden s = (t, q)" by (rule prod.exhaust)
  have tok: "hy_tokens s \<le> token_limit co" using 1(3) by (simp add: hybrid_inv_def)
  note sp = hybrid_step_spec [OF t tok]
  have eff: "(\<forall>c \<in> set (hy_calls t). authorised_call co policy pa c) \<and> int (length (hy_calls t)) \<le> hy_escalations t + 1 \<and>
      hy_escalations t \<le> max 0 (max_esc co - escalation_count i)"
    using sp(1) 1(3) by (auto simp: step_effect_def hybrid_inv_def)
  show ?case
  proof (cases "q = Inr None")
    case True
    with sp(1) sp(2) [OF True] 1(3) have inv: "hybrid_inv co i policy pa t" by (auto simp: hybrid_inv_def step_effect_def)
    have "hybrid_loop co i policy pa summary forbidden t = (s', r)"
      using 1(2) hybrid_loop.simps [of co i policy pa summary forbidden s] t True by simp
    from 1(1) [OF t [symmetric] True refl this inv] sp(1) show ?thesis by (auto simp: step_effect_def)
  next
    case False
    have unf: "(s', r) = (case q of Inl e \<Rightarrow> (t, Inl e) | Inr None \<Rightarrow> hybrid_loop co i policy pa summary forbidden t | Inr (Some h) \<Rightarrow> (t, Inr h))"
      using 1(2) hybrid_loop.simps [of co i policy pa summary forbidden s] t by (simp split: sum.split option.split)
    with False have "s' = t" "r = Inr h \<longrightarrow> q = Inr (Some h)" for h by (auto split: sum.splits option.splits)
    with eff sp(1,3) show ?thesis by (auto simp: step_effect_def)
  qed
qed

subsection \<open>Properties\<close>

lemma hybrid_run_spec:
  assumes "hybrid_run co i policy pa summary forbidden w = (s', r)" "budget_new (mr_budget (co_resolver co)) = Inr b"
  shows "(\<forall>c \<in> set (hy_calls s'). authorised_call co policy pa c) \<and> int (length (hy_calls s')) \<le> hy_escalations s' + 1 \<and>
    hy_escalations s' \<le> max 0 (max_esc co - escalation_count i) \<and> (\<forall>h. r = Inr h \<longrightarrow> outcome_agrees co i s' h) \<and>
    (policy = DENY \<longrightarrow> hy_world s' = w \<and> hy_calls s' = [] \<and> hy_escalations s' = 0)"
proof -
  let ?s = "\<lparr>hy_decisions = [], hy_executed = 0, hy_tokens = 0, hy_escalations = 0, hy_partial = False, hy_current = i, hy_world = w, hy_calls = []\<rparr>"
  have "token_limit co \<ge> 0" using assms(2) by (auto simp: budget_new_def budget_fields_def find_None_iff split: option.splits if_splits)
  then have "hybrid_inv co i policy pa ?s" by (simp add: hybrid_inv_def)
  from hybrid_loop_spec [OF assms(1) [unfolded hybrid_run_def] this] show ?thesis by simp
qed

text \<open>
  C22. A coordinated request ends within its budgets: the reasoning step is called at most as often as
  escalations are left, the executor at most once more than that, and the outcome reports exactly
  the decisions, executed nodes, tokens and escalations of the run, its final decision being the
  last one; when the tokens used exceed the budget the final decision is the refusal for it.
\<close>

theorem hybrid_within_budget:
  assumes "hybrid_run co i policy pa summary forbidden w = (s', r)" and "budget_new (mr_budget (co_resolver co)) = Inr b"
  shows "hy_escalations s' \<le> max 0 (max_escalations_per_request (mr_budget (co_resolver co)) - escalation_count i) \<and>
    int (length (hy_calls s')) \<le> hy_escalations s' + 1 \<and>
    (\<forall>h. r = Inr h \<longrightarrow> ho_decisions h = hy_decisions s' \<and> final_decision h = last (ho_decisions h) \<and>
       deterministic_nodes_executed h = hy_executed s' \<and> ho_escalations h = hy_escalations s' \<and> agentic_tokens_used h = hy_tokens s' \<and>
       (agentic_tokens_used h > agentic_token_budget (mr_budget (co_resolver co)) \<longrightarrow>
          primary_reason_code (final_decision h) = E_AGENTIC_BUDGET_EXHAUSTED \<and> rd_mode (final_decision h) = None))"
  using hybrid_run_spec [OF assms] by (auto simp: outcome_agrees_def)

text \<open>
  C21. No execution without a decision: every call of the executor is made under a decision the resolver
  returned for the policy result of the request, selects a mode, and is given operations of the
  intent it was decided for, fully bound ones if the mode is agentic. A denied request calls
  neither the executor nor the reasoning step.
\<close>

theorem hybrid_calls_authorised:
  assumes "hybrid_run co i policy pa summary forbidden w = (s', r)" and "budget_new (mr_budget (co_resolver co)) = Inr b"
  shows "(\<forall>(d, ops) \<in> set (hy_calls s'). \<exists>cur ok. resolve (co_sha co) (co_resolver co) cur policy pa ok = Inr d \<and> rd_mode d \<noteq> None \<and>
      set ops \<subseteq> set (operations cur) \<and> (rd_mode d = Some MODE_AGENTIC \<longrightarrow> (\<forall>op \<in> set ops. op_fully_bound op))) \<and>
    (policy = DENY \<longrightarrow> hy_calls s' = [] \<and> hy_world s' = w \<and> hy_escalations s' = 0)"
  using hybrid_run_spec [OF assms] unfolding authorised_call_def by simp

text \<open>A coordinator that counts its executor calls, with a reasoning step that proposes a readable operation.\<close>

definition sample_coordinator :: "nat coordinator" where
  "sample_coordinator = \<lparr>co_resolver = sample_resolver, co_executor = (\<lambda>d ops w. (int (length ops), Suc w)),
     co_step = Some (\<lambda>c w. (\<lparr>pr_operations = [sample_op ''read'' ''a'' []], tokens_used = 10, abandoned = False\<rparr>, w)), co_sha = (\<lambda>s. s)\<rparr>"

lemma sample_budget: "budget_new (mr_budget (co_resolver sample_coordinator)) = Inr (mr_budget sample_resolver)"
  by (simp add: sample_coordinator_def sample_resolver_def budget_default_def budget_new_def budget_fields_def)

theorem hybrid_within_budget_witness:
  "\<exists>s' r. hybrid_run sample_coordinator (sample_intent [sample_op ''other'' ''a'' []]) ALLOW True ''read it'' [] 0 = (s', r) \<and>
    hy_escalations s' \<le> 1 \<and> length (hy_calls s') \<le> 2"
proof -
  let ?i = "sample_intent [sample_op ''other'' ''a'' []]"
  obtain s' r where s: "hybrid_run sample_coordinator ?i ALLOW True ''read it'' [] 0 = (s', r)" by (rule prod.exhaust)
  have "max 0 (max_escalations_per_request (mr_budget (co_resolver sample_coordinator)) - escalation_count ?i) = 1"
    by (simp add: sample_coordinator_def sample_resolver_def budget_default_def sample_intent_def)
  with hybrid_within_budget [OF s sample_budget] have "hy_escalations s' \<le> 1" "int (length (hy_calls s')) \<le> hy_escalations s' + 1" by simp_all
  with s show ?thesis by force
qed

theorem hybrid_calls_authorised_witness:
  "hy_world (fst (hybrid_run sample_coordinator (sample_intent [sample_op ''read'' ''a'' []]) DENY True ''read it'' [] 0)) = 0"
proof -
  obtain s' r where s: "hybrid_run sample_coordinator (sample_intent [sample_op ''read'' ''a'' []]) DENY True ''read it'' [] 0 = (s', r)"
    by (rule prod.exhaust)
  from hybrid_calls_authorised [OF this sample_budget] s show ?thesis by simp
qed

end
