(* ===== verification/Audit_Chain.thy ===== *)
theory Audit_Chain
  imports Hybrid
begin

section \<open>Audit chain (v2/audit\_chain.py)\<close>

text \<open>
  The link that binds a resolver decision to the intent that was executed, the cardinality bounds
  and the chained digest. SHA-256 is the parameter \<open>sha\<close>; where a result needs it, it is collision
  free on the texts that are hashed.
\<close>

definition MAX_REJECTED_BRANCHES :: int where "MAX_REJECTED_BRANCHES = 16"
definition MAX_REASON_LABELS_PER_RUN :: int where "MAX_REASON_LABELS_PER_RUN = 1 + MAX_REJECTED_BRANCHES"
definition MAX_NODES_PER_REQUEST :: int where "MAX_NODES_PER_REQUEST = 200"
definition MAX_AGENTIC_ESCALATIONS :: int where "MAX_AGENTIC_ESCALATIONS = 1"

record audit_link =
  al_request_id :: string
  decision_digest_text :: string
  executed_plan_digest :: string
  matched :: bool
  al_mode :: string
  al_reason_code :: string

definition link_canonical :: "audit_link \<Rightarrow> json" where
  "link_canonical l = JObj
     [(''decision_digest'', JStr (decision_digest_text l)), (''executed_plan_digest'', JStr (executed_plan_digest l)),
      (''matched'', JBool (matched l)), (''mode'', JStr (al_mode l)), (''reason_code'', JStr (al_reason_code l)),
      (''request_id'', JStr (al_request_id l))]"

definition link_digest :: "(string \<Rightarrow> string) \<Rightarrow> audit_link \<Rightarrow> (resolver_error, string) result" where
  "link_digest sha l = resolver_hash sha (link_canonical l)"

definition bind_audit_link :: "(string \<Rightarrow> string) \<Rightarrow> resolver_decision \<Rightarrow> resolver_intent \<Rightarrow> (resolver_error, audit_link) result" where
  "bind_audit_link sha d executed =
     bind_r (intent_digest_of sha executed) (\<lambda>dg. bind_r (decision_digest sha d) (\<lambda>ddg.
     Inr \<lparr>al_request_id = rd_request_id d, decision_digest_text = ddg, executed_plan_digest = dg, matched = (dg = intent_digest d),
          al_mode = mode_text (rd_mode d), al_reason_code = resolver_value (primary_reason_code d)\<rparr>))"

datatype audit_error = AuditChainError string

definition enforce_cardinality :: "resolver_intent \<Rightarrow> int \<Rightarrow> (audit_error, unit) result" where
  "enforce_cardinality i budget_nodes =
     (if node_count i > MAX_NODES_PER_REQUEST then Inl (AuditChainError ''node count over MAX_NODES_PER_REQUEST'')
      else if node_count i > budget_nodes then Inl (AuditChainError ''node count over budget'')
      else if escalation_count i > MAX_AGENTIC_ESCALATIONS then Inl (AuditChainError ''escalation budget exceeded'')
      else Inr ())"

definition truncated_rejected_branches :: "resolver_decision \<Rightarrow> string list" where
  "truncated_rejected_branches d =
     (let codes = resolver_value (primary_reason_code d) # map resolver_value (rejected_branches d)
      in if int (length codes) > MAX_REASON_LABELS_PER_RUN then take (nat MAX_REASON_LABELS_PER_RUN) codes @ [''OVERFLOW''] else codes)"

definition digest_chain :: "(string \<Rightarrow> string) \<Rightarrow> json list \<Rightarrow> (resolver_error, string) result" where
  "digest_chain sha payloads =
     foldl (\<lambda>acc p. bind_r acc (\<lambda>a. bind_r (resolver_hash sha p) (\<lambda>leaf. Inr (sha (a @ leaf))))) (Inr (sha [])) payloads"

definition link_reason_code :: "resolver_decision \<Rightarrow> string" where
  "link_reason_code d = resolver_value (primary_reason_code d)"

subsection \<open>Canonical forms identify intents\<close>

lemma resolver_hash_inj:
  assumes "inj sha" "resolver_hash sha v = Inr h" "resolver_hash sha w = Inr h"
  shows "canon v = canon w"
  using assms by (auto simp: resolver_hash_def canonical_hash_def canonical_json_text_def intro!: canonical_text_inj dest: injD
      split: sum.splits if_splits)

lemma operation_canonical_inj:
  assumes "canon (operation_canonical x) = canon (operation_canonical y)"
  shows "x = (y :: intent_operation)"
proof -
  note e = canon_JObj_entry [OF assms [unfolded operation_canonical_def]]
  have "JList (map JStr (op_depends_on x)) = JList (map JStr (op_depends_on y))"
    using e [of "''depends_on''"] by (simp add: comp_def)
  then have "op_depends_on x = op_depends_on y" by (simp add: inj_map_eq_map inj_def)
  then show ?thesis
    using e [of "''capability_id''"] e [of "''fully_bound''"] e [of "''operation_ref''"] e [of "''target_scope_ref''"] by simp
qed

lemma intent_canonical_inj:
  assumes "canon (intent_canonical x) = canon (intent_canonical y)"
  shows "x = (y :: resolver_intent)"
proof -
  note e = canon_JObj_entry [OF assms [unfolded intent_canonical_def]]
  have "map (canon \<circ> operation_canonical) (operations x) = map (canon \<circ> operation_canonical) (operations y)"
    using e [of "''operations''"] by simp
  moreover have "inj (canon \<circ> operation_canonical :: intent_operation \<Rightarrow> json)" using operation_canonical_inj by (auto simp: inj_def)
  ultimately have "operations x = operations y" by (simp add: inj_map_eq_map)
  then show ?thesis
    using e [of "''agentic_allowance''"] e [of "''approval_ref''"] e [of "''escalation_count''"] e [of "''no_contract_coverage''"]
      e [of "''principal_ref''"] e [of "''request_id''"] e [of "''residual_subintent''"] e [of "''runbook_ref''"]
      e [of "''runbook_version_pinned''"] e [of "''unknown_target''"] by simp
qed

text \<open>
  C24. The link matches exactly when the intent that was executed is the intent that was decided: with a
  collision free hash, the link bound to the decision of \<open>resolve\<close> for an intent has \<open>matched\<close> set
  if and only if every field of the executed intent, operations and their order included, is the same.
\<close>

theorem audit_link_binds:
  assumes "inj sha" and "resolve sha mr i policy pa cs = Inr d"
  shows "\<exists>l. bind_audit_link sha d executed = Inr l \<and> (matched l \<longleftrightarrow> executed = i) \<and> al_request_id l = request_id i"
proof -
  have d: "intent_digest d = sha (dumps (intent_canonical i))" "rd_request_id d = request_id i" "extra d = []"
    using resolve_mode [OF assms(2)] by simp_all
  have h: "intent_digest_of sha executed = Inr (sha (dumps (intent_canonical executed)))"
    by (simp add: intent_digest_of_def resolver_hash_ok)
  have "executed = i" if "sha (dumps (intent_canonical executed)) = sha (dumps (intent_canonical i))"
    using that injD [OF assms(1)] by (intro intent_canonical_inj canonical_text_inj) simp_all
  with d h show ?thesis by (auto simp: bind_audit_link_def decision_digest_def resolver_hash_ok)
qed

theorem audit_link_binds_witness:
  "\<exists>d l. resolve (\<lambda>s. s) sample_resolver (sample_intent []) ALLOW True True = Inr d \<and>
    bind_audit_link (\<lambda>s. s) d (sample_intent [sample_op ''read'' ''a'' []]) = Inr l \<and> \<not> matched l"
proof -
  obtain d where d: "resolve (\<lambda>s. s) sample_resolver (sample_intent []) ALLOW True True = Inr d" using resolve_total by blast
  have "inj (\<lambda>s :: string. s)" by (simp add: inj_def)
  from audit_link_binds [OF this d, of "sample_intent [sample_op ''read'' ''a'' []]"] d show ?thesis by (auto simp: sample_intent_def)
qed

subsection \<open>The chained digest\<close>

definition chain_acc :: "(string \<Rightarrow> string) \<Rightarrow> json list \<Rightarrow> string" where
  "chain_acc sha ps = foldl (\<lambda>a p. sha (a @ sha (dumps p))) (sha []) ps"

text \<open>The texts the chain hashes.\<close>

definition chain_texts :: "(string \<Rightarrow> string) \<Rightarrow> json list \<Rightarrow> string set" where
  "chain_texts sha ps = insert [] (dumps ` set ps \<union> {chain_acc sha us @ sha (dumps p) | us p vs. ps = us @ p # vs})"

lemma chain_acc_snoc: "chain_acc sha (ps @ [p]) = sha (chain_acc sha ps @ sha (dumps p))"
  by (simp add: chain_acc_def)

lemma digest_chain_acc: "digest_chain sha ps = Inr h \<longleftrightarrow> list_all json_validate ps \<and> h = chain_acc sha ps"
proof (induction ps arbitrary: h rule: rev_induct)
  case (snoc p ps)
  have "digest_chain sha (ps @ [p]) = bind_r (digest_chain sha ps) (\<lambda>a. bind_r (resolver_hash sha p) (\<lambda>leaf. Inr (sha (a @ leaf))))"
    by (simp add: digest_chain_def)
  moreover have "resolver_hash sha p = Inr leaf \<longleftrightarrow> json_validate p \<and> leaf = sha (dumps p)" for leaf
    by (auto simp: resolver_hash_def canonical_hash_def canonical_json_text_def)
  ultimately show ?case using snoc by (auto simp: bind_r_Inr_iff chain_acc_snoc)
qed (auto simp: digest_chain_def chain_acc_def)

lemma chain_texts_snoc:
  "chain_texts sha ps \<subseteq> chain_texts sha (ps @ [p])" "dumps p \<in> chain_texts sha (ps @ [p])"
  "chain_acc sha ps @ sha (dumps p) \<in> chain_texts sha (ps @ [p])"
  by (force simp: chain_texts_def)+

lemma chain_acc_eq:
  assumes "inj_on sha (chain_texts sha ps \<union> chain_texts sha qs)" "\<forall>x \<in> chain_texts sha ps \<union> chain_texts sha qs. length (sha x) = n" "0 < n"
    and "chain_acc sha ps = chain_acc sha qs"
  shows "map dumps ps = map dumps qs"
  using assms
proof (induction ps arbitrary: qs rule: rev_induct)
  case Nil
  show ?case
  proof (cases qs rule: rev_cases)
    case (snoc us q)
    let ?t = "chain_acc sha us @ sha (dumps q)"
    have "?t \<in> chain_texts sha qs" "[] \<in> chain_texts sha ([] :: json list)" "dumps q \<in> chain_texts sha qs"
      using chain_texts_snoc snoc by (auto simp: chain_texts_def)
    moreover have "sha [] = sha ?t" using Nil(4) snoc by (simp add: chain_acc_snoc) (simp add: chain_acc_def)
    ultimately have "?t = []" "length (sha (dumps q)) = n" using Nil(1,2) by (auto dest: inj_onD)
    with Nil(3) show ?thesis by simp
  qed simp
next
  case (snoc p ps)
  show ?case
  proof (cases qs rule: rev_cases)
    case Nil
    let ?t = "chain_acc sha ps @ sha (dumps p)"
    have "?t \<in> chain_texts sha (ps @ [p])" "[] \<in> chain_texts sha (ps @ [p])" "dumps p \<in> chain_texts sha (ps @ [p])"
      using chain_texts_snoc by (auto simp: chain_texts_def)
    moreover have "sha ?t = sha []" using snoc(5) Nil by (simp add: chain_acc_snoc) (simp add: chain_acc_def)
    ultimately have "?t = []" "length (sha (dumps p)) = n" using snoc(2,3) by (auto dest: inj_onD)
    with snoc(4) show ?thesis by simp
  next
    case qs: (snoc us q)
    let ?T = "chain_texts sha (ps @ [p]) \<union> chain_texts sha (us @ [q])"
    have T: "inj_on sha ?T" "\<forall>x \<in> ?T. length (sha x) = n" using snoc(2,3) qs by simp_all
    have mem: "chain_acc sha ps @ sha (dumps p) \<in> ?T" "chain_acc sha us @ sha (dumps q) \<in> ?T" "dumps p \<in> ?T" "dumps q \<in> ?T"
      using chain_texts_snoc by blast+
    have "chain_acc sha ps @ sha (dumps p) = chain_acc sha us @ sha (dumps q)"
      using snoc(5) qs mem T(1) by (auto simp: chain_acc_snoc dest: inj_onD)
    moreover have "length (sha (dumps p)) = length (sha (dumps q))" using T(2) mem by simp
    ultimately have e: "chain_acc sha ps = chain_acc sha us" "sha (dumps p) = sha (dumps q)" by simp_all
    then have "dumps p = dumps q" using T(1) mem by (auto dest: inj_onD)
    moreover have "map dumps ps = map dumps us"
    proof (rule snoc.IH [OF _ _ snoc(4) e(1)])
      have s: "chain_texts sha ps \<union> chain_texts sha us \<subseteq> ?T" using chain_texts_snoc(1) by blast
      show "inj_on sha (chain_texts sha ps \<union> chain_texts sha us)" by (rule inj_on_subset [OF T(1) s])
      show "\<forall>x \<in> chain_texts sha ps \<union> chain_texts sha us. length (sha x) = n" using T(2) s by blast
    qed
    ultimately show ?thesis using qs by simp
  qed
qed

text \<open>
  A tampered link breaks the chain: if the hash has digests of one length and no collision among the
  texts hashed for two chains, equal chain digests come from the same payloads in the same order, up
  to the order of keys; no link can be changed, dropped, added or swapped.
\<close>

theorem digest_chain_tamper_evident:
  assumes "digest_chain sha ps = Inr h" and "digest_chain sha qs = Inr h"
    and "inj_on sha (chain_texts sha ps \<union> chain_texts sha qs)"
    and "\<forall>x \<in> chain_texts sha ps \<union> chain_texts sha qs. length (sha x) = n" and "0 < n"
  shows "map canon ps = map canon qs"
proof -
  have v: "list_all json_validate ps" "list_all json_validate qs" "chain_acc sha ps = chain_acc sha qs"
    using assms(1,2) by (simp_all add: digest_chain_acc)
  from chain_acc_eq [OF assms(3-5) v(3)] have d: "map dumps ps = map dumps qs" .
  then have l: "length ps = length qs" by (metis length_map)
  show ?thesis
  proof (rule nth_equalityI)
    fix k assume "k < length (map canon ps)"
    then have k: "k < length ps" "k < length qs" using l by simp_all
    then have "dumps (ps ! k) = dumps (qs ! k)" using d by (metis nth_map)
    then have "canon (ps ! k) = canon (qs ! k)" using v(1,2) k by (intro canonical_text_inj) (simp_all add: list_all_length)
    then show "map canon ps ! k = map canon qs ! k" using k by simp
  qed (simp add: l)
qed

definition letter_hash :: "string \<Rightarrow> string" where
  "letter_hash s = (if s = [] then ''a'' else if s = ''null'' then ''b'' else if s = ''true'' then ''c'' else if s = ''ab'' then ''d'' else ''e'')"

lemma chain_texts_single: "chain_texts sha [p] = {[], dumps p, sha [] @ sha (dumps p)}"
  by (auto simp: chain_texts_def chain_acc_def Cons_eq_append_conv)

theorem digest_chain_tamper_evident_witness:
  "digest_chain letter_hash [JNull] \<noteq> digest_chain letter_hash [JBool True]"
proof
  assume e: "digest_chain letter_hash [JNull] = digest_chain letter_hash [JBool True]"
  have h: "digest_chain letter_hash [JNull] = Inr (chain_acc letter_hash [JNull])" by (simp add: digest_chain_acc)
  let ?T = "chain_texts letter_hash [JNull] \<union> chain_texts letter_hash [JBool True]"
  have "inj_on letter_hash ?T" by (simp add: chain_texts_single inj_on_def letter_hash_def)
  moreover have "\<forall>x \<in> ?T. length (letter_hash x) = 1" by (simp add: letter_hash_def)
  ultimately have "map canon [JNull] = map canon [JBool True]"
    by (intro digest_chain_tamper_evident [where n = 1, OF h h [unfolded e]]) simp_all
  then show False by simp
qed

text \<open>The labels of a decision are bounded: at most the ceiling and one overflow mark.\<close>

lemma truncated_bounded: "int (length (truncated_rejected_branches d)) \<le> MAX_REASON_LABELS_PER_RUN + 1"
  by (simp add: truncated_rejected_branches_def Let_def MAX_REASON_LABELS_PER_RUN_def MAX_REJECTED_BRANCHES_def)

end
