(* ===== verification/Py_Time.thy ===== *)
theory Py_Time
  imports Json
begin

section \<open>Python time and double precision\<close>

text \<open>
  \<open>datetime\<close> values, their ISO text in UTC, and the double precision arithmetic of
  \<open>timedelta.total_seconds() * 1000\<close>.
\<close>

subsection \<open>Date and time\<close>

text \<open>A \<open>datetime\<close>: the instant \<open>astimezone(UTC)\<close> makes of it, and whether it has a time zone.\<close>

record moment =
  instant :: utc
  aware :: bool

text \<open>
  Year, month and day of a day number counted from 1970-01-01 in the proleptic Gregorian calendar:
  eras of 400 years that start on the first of March.
\<close>

definition year_of_era :: "int \<Rightarrow> int" where
  "year_of_era doe = (doe - doe div 1460 + doe div 36524 - doe div 146096) div 365"

definition day_of_year :: "int \<Rightarrow> int \<Rightarrow> int" where
  "day_of_year doe yoe = doe - (365 * yoe + yoe div 4 - yoe div 100)"

definition month_of_day :: "int \<Rightarrow> int" where
  "month_of_day doy = (if (5 * doy + 2) div 153 < 10 then (5 * doy + 2) div 153 + 3 else (5 * doy + 2) div 153 - 9)"

definition day_of_month :: "int \<Rightarrow> int" where
  "day_of_month doy = doy - (153 * ((5 * doy + 2) div 153) + 2) div 5 + 1"

definition civil_year :: "int \<Rightarrow> int \<Rightarrow> int \<Rightarrow> int \<times> int \<times> int" where
  "civil_year era yoe doy =
     (yoe + era * 400 + (if month_of_day doy \<le> 2 then 1 else 0), month_of_day doy, day_of_month doy)"

definition civil_era :: "int \<Rightarrow> int \<Rightarrow> int \<times> int \<times> int" where
  "civil_era era doe = civil_year era (year_of_era doe) (day_of_year doe (year_of_era doe))"

definition civil_date :: "int \<Rightarrow> int \<times> int \<times> int" where
  "civil_date z = civil_era ((z + 719468) div 146097) ((z + 719468) mod 146097)"

lemma civil_date_samples:
  "civil_date 0 = (1970, 1, 1)" "civil_date 19782 = (2024, 2, 29)" "civil_date 47540 = (2100, 2, 28)"
  "civil_date (- 719162) = (1, 1, 1)" "civil_date 2932896 = (9999, 12, 31)"
  by (simp_all add: civil_date_def civil_era_def civil_year_def year_of_era_def day_of_year_def month_of_day_def day_of_month_def)

definition pad_int :: "nat \<Rightarrow> int \<Rightarrow> string" where
  "pad_int w i = (let t = nat_text (nat i) in replicate (w - length t) (CHR ''0'') @ t)"

text \<open>\<open>t.astimezone(UTC).isoformat()\<close>; the microseconds are left out when they are 0.\<close>

definition iso_text :: "utc \<Rightarrow> string" where
  "iso_text t =
     (let day = t div 86400000000; us = t mod 86400000000; s = us div 1000000; f = us mod 1000000
      in case civil_date day of (y, m, d) \<Rightarrow>
        pad_int 4 y @ ''-'' @ pad_int 2 m @ ''-'' @ pad_int 2 d @ ''T'' @
        pad_int 2 (s div 3600) @ '':'' @ pad_int 2 (s mod 3600 div 60) @ '':'' @ pad_int 2 (s mod 60) @
        (if f = 0 then '''' else ''.'' @ pad_int 6 f) @ ''+00:00'')"

subsection \<open>Double precision\<close>

text \<open>
  The double nearest to a fraction \<open>p / q\<close>, ties to even, in the range of normal numbers, given as
  \<open>m * 2 ^ a / 2 ^ b\<close>: the fraction is scaled so that its integer part has 53 bits, and rounded.
\<close>

fun log2_floor :: "nat \<Rightarrow> nat" where
  "log2_floor n = (if n \<le> 1 then 0 else Suc (log2_floor (n div 2)))"

declare log2_floor.simps [simp del]

lemma log2_floor_step: "n \<le> 1 \<Longrightarrow> log2_floor n = 0" "2 \<le> n \<Longrightarrow> log2_floor n = Suc (log2_floor (n div 2))"
  by (subst log2_floor.simps, simp)+

definition round_div :: "nat \<Rightarrow> nat \<Rightarrow> nat" where
  "round_div p q =
     (let f = p div q; r = p mod q
      in if 2 * r < q \<or> (2 * r = q \<and> even f) then f else f + 1)"

text \<open>The least shift, by \<open>b - a\<close> binary places, that gives the quotient 53 bits.\<close>

definition double_shift :: "nat \<Rightarrow> nat \<Rightarrow> nat \<times> nat" where
  "double_shift p q =
     (let k = 52 + int (log2_floor q) - int (log2_floor p); b = nat k; a = nat (- k)
      in if q * 2 ^ a * 2 ^ 52 \<le> p * 2 ^ b then (a, b) else if a = 0 then (0, b + 1) else (a - 1, 0))"

definition double_frac :: "nat \<Rightarrow> nat \<Rightarrow> nat \<times> nat \<times> nat" where
  "double_frac p q =
     (if p = 0 then (0, 0, 0) else case double_shift p q of (a, b) \<Rightarrow> (round_div (p * 2 ^ b) (q * 2 ^ a), a, b))"

text \<open>\<open>int(delta.total_seconds() * 1000)\<close> for a difference in microseconds that is not negative.\<close>

definition millis_of_micros :: "nat \<Rightarrow> nat" where
  "millis_of_micros us =
     (case double_frac us 1000000 of (m, a, b) \<Rightarrow>
      case double_frac (m * 2 ^ a * 1000) (2 ^ b) of (n, c, d) \<Rightarrow> n * 2 ^ c div 2 ^ d)"

text \<open>The product may fall below the exact value: 1.001 seconds count as 1000 milliseconds.\<close>

lemma millis_samples: "millis_of_micros 1001000 = 1000" "millis_of_micros 1000000 = 1000" "millis_of_micros 2500 = 2"
  by (simp_all add: millis_of_micros_def double_frac_def double_shift_def round_div_def log2_floor_step Let_def)

end
