(* ===== verification/Mutation_Enums.thy ===== *)
theory Mutation_Enums
  imports Idempotency Resolver_Contract Py_Time
begin

section \<open>Codes and errors of mutations (v2/enums.py, v2/errors.py)\<close>

text \<open>
  The reason codes, stages and states a governed mutation reports, and the exceptions its stages
  raise. An exception carries its reason and its stage; the operator's note is left out, it is not
  part of the text of the exception. \<open>Inl\<close> of the idempotency store is wrapped in
  \<open>Store_error\<close>; \<open>Other_exception\<close> is any exception that is not a \<open>MutationError\<close>.
\<close>

datatype mutation_reason =
  REPOSITORY_OUT_OF_SCOPE | UNKNOWN_MUTATION | MUTATION_NOT_REGISTERED | DESTRUCTIVE_OPERATION_FORBIDDEN
| WRITE_CAPABILITY_NOT_READY | WRITE_CAPABILITY_MISMATCH | READ_CAPABILITY_CANNOT_MUTATE | PERMISSION_SUPERSET
| ADMINISTRATION_PERMISSION_PRESENT | APPROVAL_MISSING | APPROVAL_UNKNOWN | APPROVAL_EXPIRED
| APPROVAL_ALREADY_CONSUMED | APPROVAL_DIGEST_MISMATCH | APPROVAL_SCOPE_MISMATCH | APPROVER_NOT_DISTINCT
| IDEMPOTENT_REPLAY | OPERATION_IN_PROGRESS | RECONCILIATION_REQUIRED | PRECONDITION_DRIFT
| REF_ALREADY_EXISTS | MERGE_NOT_PERMITTED | MERGE_TARGET_DEFAULT_BRANCH | PULL_REQUEST_NOT_MERGEABLE
| REQUIRED_CHECKS_NOT_GREEN | PROTECTION_STATE_UNVERIFIABLE | REQUIRED_REVIEWS_NOT_SATISFIED | AUDIT_RECORD_UNWRITABLE
| REDACTION_UNPROVEN | INVALID_REF_NAME | INVALID_ARGUMENTS

primrec reason_value :: "mutation_reason \<Rightarrow> string" where
  "reason_value REPOSITORY_OUT_OF_SCOPE = ''REPOSITORY_OUT_OF_SCOPE''"
| "reason_value UNKNOWN_MUTATION = ''UNKNOWN_MUTATION''"
| "reason_value MUTATION_NOT_REGISTERED = ''MUTATION_NOT_REGISTERED''"
| "reason_value DESTRUCTIVE_OPERATION_FORBIDDEN = ''DESTRUCTIVE_OPERATION_FORBIDDEN''"
| "reason_value WRITE_CAPABILITY_NOT_READY = ''WRITE_CAPABILITY_NOT_READY''"
| "reason_value WRITE_CAPABILITY_MISMATCH = ''WRITE_CAPABILITY_MISMATCH''"
| "reason_value READ_CAPABILITY_CANNOT_MUTATE = ''READ_CAPABILITY_CANNOT_MUTATE''"
| "reason_value PERMISSION_SUPERSET = ''PERMISSION_SUPERSET''"
| "reason_value ADMINISTRATION_PERMISSION_PRESENT = ''ADMINISTRATION_PERMISSION_PRESENT''"
| "reason_value APPROVAL_MISSING = ''APPROVAL_MISSING''"
| "reason_value APPROVAL_UNKNOWN = ''APPROVAL_UNKNOWN''"
| "reason_value APPROVAL_EXPIRED = ''APPROVAL_EXPIRED''"
| "reason_value APPROVAL_ALREADY_CONSUMED = ''APPROVAL_ALREADY_CONSUMED''"
| "reason_value APPROVAL_DIGEST_MISMATCH = ''APPROVAL_DIGEST_MISMATCH''"
| "reason_value APPROVAL_SCOPE_MISMATCH = ''APPROVAL_SCOPE_MISMATCH''"
| "reason_value APPROVER_NOT_DISTINCT = ''APPROVER_NOT_DISTINCT''"
| "reason_value IDEMPOTENT_REPLAY = ''IDEMPOTENT_REPLAY''"
| "reason_value OPERATION_IN_PROGRESS = ''OPERATION_IN_PROGRESS''"
| "reason_value RECONCILIATION_REQUIRED = ''RECONCILIATION_REQUIRED''"
| "reason_value PRECONDITION_DRIFT = ''PRECONDITION_DRIFT''"
| "reason_value REF_ALREADY_EXISTS = ''REF_ALREADY_EXISTS''"
| "reason_value MERGE_NOT_PERMITTED = ''MERGE_NOT_PERMITTED''"
| "reason_value MERGE_TARGET_DEFAULT_BRANCH = ''MERGE_TARGET_DEFAULT_BRANCH''"
| "reason_value PULL_REQUEST_NOT_MERGEABLE = ''PULL_REQUEST_NOT_MERGEABLE''"
| "reason_value REQUIRED_CHECKS_NOT_GREEN = ''REQUIRED_CHECKS_NOT_GREEN''"
| "reason_value PROTECTION_STATE_UNVERIFIABLE = ''PROTECTION_STATE_UNVERIFIABLE''"
| "reason_value REQUIRED_REVIEWS_NOT_SATISFIED = ''REQUIRED_REVIEWS_NOT_SATISFIED''"
| "reason_value AUDIT_RECORD_UNWRITABLE = ''AUDIT_RECORD_UNWRITABLE''"
| "reason_value REDACTION_UNPROVEN = ''REDACTION_UNPROVEN''"
| "reason_value INVALID_REF_NAME = ''INVALID_REF_NAME''"
| "reason_value INVALID_ARGUMENTS = ''INVALID_ARGUMENTS''"

datatype mut_stage =
  SCOPE | REGISTRY | POLICY | CREDENTIAL
| APPROVAL | IDEMPOTENCY | PRECONDITION_REVALIDATION | WRITE_AHEAD_AUDIT
| PROVIDER_CALL | READ_BACK | RESULT_SHAPING

primrec stage_value :: "mut_stage \<Rightarrow> string" where
  "stage_value SCOPE = ''SCOPE''"
| "stage_value REGISTRY = ''REGISTRY''"
| "stage_value POLICY = ''POLICY''"
| "stage_value CREDENTIAL = ''CREDENTIAL''"
| "stage_value APPROVAL = ''APPROVAL''"
| "stage_value IDEMPOTENCY = ''IDEMPOTENCY''"
| "stage_value PRECONDITION_REVALIDATION = ''PRECONDITION_REVALIDATION''"
| "stage_value WRITE_AHEAD_AUDIT = ''WRITE_AHEAD_AUDIT''"
| "stage_value PROVIDER_CALL = ''PROVIDER_CALL''"
| "stage_value READ_BACK = ''READ_BACK''"
| "stage_value RESULT_SHAPING = ''RESULT_SHAPING''"

definition MUTATION_STAGE_ORDER :: "mut_stage list" where
  "MUTATION_STAGE_ORDER =
     [SCOPE, REGISTRY, POLICY, CREDENTIAL, APPROVAL, IDEMPOTENCY,
      PRECONDITION_REVALIDATION, WRITE_AHEAD_AUDIT, PROVIDER_CALL, READ_BACK, RESULT_SHAPING]"

datatype write_capability = CAP_BRANCH | CAP_PR | CAP_MERGE

primrec write_capability_value :: "write_capability \<Rightarrow> string" where
  "write_capability_value CAP_BRANCH = ''github.write.branch''"
| "write_capability_value CAP_PR = ''github.write.pr''"
| "write_capability_value CAP_MERGE = ''github.write.merge''"

datatype approval_state = AP_PENDING | AP_CONSUMED | AP_EXPIRED | AP_REVOKED

primrec approval_state_value :: "approval_state \<Rightarrow> string" where
  "approval_state_value AP_PENDING = ''PENDING''"
| "approval_state_value AP_CONSUMED = ''CONSUMED''"
| "approval_state_value AP_EXPIRED = ''EXPIRED''"
| "approval_state_value AP_REVOKED = ''REVOKED''"

definition approval_usable :: "approval_state \<Rightarrow> bool" where
  "approval_usable s \<longleftrightarrow> s = AP_PENDING"

primrec outcome_value :: "mutation_outcome \<Rightarrow> string" where
  "outcome_value PENDING = ''PENDING''"
| "outcome_value COMMITTED = ''COMMITTED''"
| "outcome_value FAILED_CLEAN = ''FAILED_CLEAN''"
| "outcome_value AMBIGUOUS = ''AMBIGUOUS''"
| "outcome_value DENIED = ''DENIED''"

primrec idem_status_value :: "idempotency_status \<Rightarrow> string" where
  "idem_status_value NEW = ''NEW''"
| "idem_status_value REPLAYED = ''REPLAYED''"
| "idem_status_value IN_PROGRESS = ''IN_PROGRESS''"

primrec policy_value :: "policy_decision \<Rightarrow> string" where
  "policy_value ALLOW = ''ALLOW''"
| "policy_value DENY = ''DENY''"
| "policy_value APPROVAL_REQUIRED = ''APPROVAL_REQUIRED''"

primrec capability_value :: "capability_state \<Rightarrow> string" where
  "capability_value CONFIGURED = ''CONFIGURED''"
| "capability_value AVAILABLE = ''AVAILABLE''"
| "capability_value HEALTHY = ''HEALTHY''"
| "capability_value READY = ''READY''"
| "capability_value DEGRADED = ''DEGRADED''"
| "capability_value UNAVAILABLE = ''UNAVAILABLE''"
| "capability_value CAP_DENIED = ''DENIED''"

datatype mut_error =
  MutationDenied mutation_reason mut_stage
| MutationScopeError mutation_reason mut_stage
| WriteCapabilityError mutation_reason mut_stage
| ApprovalError mutation_reason mut_stage
| DigestMismatchError mutation_reason mut_stage
| ConcurrencyDriftError mutation_reason mut_stage
| AuditWriteError mutation_reason mut_stage
| Store_error mutation_error
| MutationIndeterminateError mutation_reason mut_stage
| Other_exception string

text \<open>\<open>except MutationDeniedError\<close>: every class but the indeterminate one derives from it.\<close>

fun is_mutation_denied :: "mut_error \<Rightarrow> bool" where
  "is_mutation_denied (MutationIndeterminateError r st) = False"
| "is_mutation_denied (Other_exception n) = False"
| "is_mutation_denied _ = True"

lemma reason_value_inj: "reason_value r = reason_value r' \<longleftrightarrow> r = r'"
  by (cases r; simp; cases r'; simp)

lemma enum_values_inj:
  "write_capability_value c = write_capability_value c' \<longleftrightarrow> c = c'"
  "approval_state_value a = approval_state_value a' \<longleftrightarrow> a = a'"
  "idem_status_value i = idem_status_value i' \<longleftrightarrow> i = i'"
  "policy_value p = policy_value p' \<longleftrightarrow> p = p'"
  "capability_value k = capability_value k' \<longleftrightarrow> k = k'"
  "outcome_value u = outcome_value u' \<longleftrightarrow> u = u'"
  subgoal by (cases c; cases c'; simp)
  subgoal by (cases a; cases a'; simp)
  subgoal by (cases i; cases i'; simp)
  subgoal by (cases p; cases p'; simp)
  subgoal by (cases k; cases k'; simp)
  subgoal by (cases u; cases u'; simp)
  done

end
