(* ===== verification/Mutation_Digest.thy ===== *)
theory Mutation_Digest
  imports Mutation_Enums
begin

section \<open>Operation digests and approvals of mutations (v2/mutation\_digest.py)\<close>

text \<open>
  The descriptor of a mutation with its canonical digest, the single-use approvals bound to that
  digest and their in-memory store, and the idempotency key of v2/mutation\_idempotency.py. SHA-256 is the
  parameter \<open>sha\<close>. Every operation of the store runs under its lock. A time given by the caller is
  the instant \<open>astimezone(UTC)\<close> makes of it.
\<close>

subsection \<open>Validation\<close>

definition lift_store :: "(mutation_error, 'a) result \<Rightarrow> (mut_error, 'a) result" where
  "lift_store x = (case x of Inl e \<Rightarrow> Inl (Store_error e) | Inr a \<Rightarrow> Inr a)"

definition md_require_identifier :: "string \<Rightarrow> (mut_error, string) result" where
  "md_require_identifier v =
     (if re_ident ''._:@=+-'' 127 v then Inr v else Inl (MutationDenied INVALID_ARGUMENTS APPROVAL))"

definition md_require_sha :: "string \<Rightarrow> (mut_error, string) result" where
  "md_require_sha v =
     (if length v = 40 \<and> list_all hex_lower v then Inr v else Inl (MutationDenied INVALID_ARGUMENTS APPROVAL))"

text \<open>\<^verbatim>\<open>\A[a-z][a-z0-9_]*(?:\.[a-z][a-z0-9_]*)+\Z\<close>: at least two names between dots.\<close>

fun split_on :: "char \<Rightarrow> string \<Rightarrow> string list" where
  "split_on c [] = [[]]"
| "split_on c (x # xs) = (case split_on c xs of [] \<Rightarrow> [[x]] | y # ys \<Rightarrow> if x = c then [] # y # ys else (x # y) # ys)"

fun op_name :: "string \<Rightarrow> bool" where
  "op_name [] = False"
| "op_name (c # cs) \<longleftrightarrow> ascii_lower c \<and> list_all (\<lambda>d. ascii_lower d \<or> CHR ''0'' \<le> d \<and> d \<le> CHR ''9'' \<or> d = CHR ''_'') cs"

definition md_require_operation :: "string \<Rightarrow> (mut_error, string) result" where
  "md_require_operation v =
     (let ns = split_on (CHR ''.'') v
      in if length ns \<ge> 2 \<and> list_all op_name ns then Inr v else Inl (MutationDenied INVALID_ARGUMENTS REGISTRY))"

definition canonical_arguments :: "(string \<times> json) list \<Rightarrow> (mut_error, (string \<times> json) list) result" where
  "canonical_arguments kvs =
     (case canonical_json_text (JObj kvs) of Inl e \<Rightarrow> Inl (MutationDenied INVALID_ARGUMENTS APPROVAL) | Inr t \<Rightarrow> Inr kvs)"

definition when_some :: "('a \<Rightarrow> ('e, 'b) result) \<Rightarrow> 'a option \<Rightarrow> ('e, unit) result" where
  "when_some f v = (case v of None \<Rightarrow> Inr () | Some x \<Rightarrow> bind_r (f x) (\<lambda>_. Inr ()))"

subsection \<open>Descriptors\<close>

record op_preconditions =
  base_sha :: "string option"
  expected_head_sha :: "string option"
  required_checks_policy :: "string option"

definition preconditions_new :: "op_preconditions \<Rightarrow> (mut_error, op_preconditions) result" where
  "preconditions_new p =
     (if base_sha p = None \<and> expected_head_sha p = None then Inl (MutationDenied INVALID_ARGUMENTS PRECONDITION_REVALIDATION)
      else bind_r (when_some md_require_sha (base_sha p)) (\<lambda>_.
           bind_r (when_some md_require_sha (expected_head_sha p)) (\<lambda>_.
           bind_r (when_some md_require_identifier (required_checks_policy p)) (\<lambda>_. Inr p))))"

definition opt_entry :: "string \<Rightarrow> string option \<Rightarrow> (string \<times> json) list" where
  "opt_entry k v = (case v of None \<Rightarrow> [] | Some x \<Rightarrow> [(k, JStr x)])"

definition preconditions_canonical :: "op_preconditions \<Rightarrow> json" where
  "preconditions_canonical p = JObj
     (opt_entry ''base_sha'' (base_sha p) @ opt_entry ''expected_head_sha'' (expected_head_sha p) @
      opt_entry ''required_checks_policy'' (required_checks_policy p))"

record op_descriptor =
  od_operation :: string
  od_capability :: write_capability
  od_repository :: string
  od_arguments :: "(string \<times> json) list"
  od_preconditions :: op_preconditions
  od_policy_version :: string
  od_registry_snapshot_hash :: string

definition descriptor_new :: "op_descriptor \<Rightarrow> (mut_error, op_descriptor) result" where
  "descriptor_new d =
     bind_r (md_require_operation (od_operation d)) (\<lambda>_.
     bind_r (lift_store (require_repository (od_repository d))) (\<lambda>_.
     bind_r (canonical_arguments (od_arguments d)) (\<lambda>_.
     bind_r (md_require_identifier (od_policy_version d)) (\<lambda>_.
     bind_r (lift_store (require_digest (od_registry_snapshot_hash d) ''registry_snapshot_hash'')) (\<lambda>_. Inr d)))))"

definition ends_with :: "string \<Rightarrow> string \<Rightarrow> bool" where
  "ends_with w s \<longleftrightarrow> length w \<le> length s \<and> drop (length s - length w) s = w"

definition requires_distinct_approver :: "op_descriptor \<Rightarrow> bool" where
  "requires_distinct_approver d \<longleftrightarrow> ends_with ''.merge_pr'' (od_operation d)"

definition descriptor_canonical :: "op_descriptor \<Rightarrow> json" where
  "descriptor_canonical d = JObj
     [(''schema'', JStr ''v2.phase3.operation.1''), (''operation'', JStr (od_operation d)),
      (''capability'', JStr (write_capability_value (od_capability d))), (''repository'', JStr (od_repository d)),
      (''arguments'', JObj (od_arguments d)), (''preconditions'', preconditions_canonical (od_preconditions d)),
      (''policy_version'', JStr (od_policy_version d)), (''registry_snapshot_hash'', JStr (od_registry_snapshot_hash d))]"

text \<open>\<open>canonical_hash\<close> with its \<open>TypeError\<close>.\<close>

definition mut_hash :: "(string \<Rightarrow> string) \<Rightarrow> json \<Rightarrow> (mut_error, string) result" where
  "mut_hash sha v = (case canonical_hash sha v of Inl e \<Rightarrow> Inl (Other_exception ''TypeError'') | Inr h \<Rightarrow> Inr h)"

definition compute_operation_digest :: "(string \<Rightarrow> string) \<Rightarrow> op_descriptor \<Rightarrow> (mut_error, string) result" where
  "compute_operation_digest sha d = mut_hash sha (descriptor_canonical d)"

definition digest_evidence :: "(string \<Rightarrow> string) \<Rightarrow> op_descriptor \<Rightarrow> (mut_error, (string \<times> string) list) result" where
  "digest_evidence sha d = bind_r (compute_operation_digest sha d) (\<lambda>dg. Inr
     [(''schema'', ''v2.phase3.operation.1''), (''operation'', od_operation d),
      (''capability'', write_capability_value (od_capability d)), (''repository'', od_repository d),
      (''operation_digest'', dg), (''policy_version'', od_policy_version d),
      (''registry_snapshot_hash'', od_registry_snapshot_hash d)])"

definition compute_idempotency_key ::
  "(string \<Rightarrow> string) \<Rightarrow> string \<Rightarrow> write_capability \<Rightarrow> string \<Rightarrow> string \<Rightarrow> string \<Rightarrow> string option \<Rightarrow> (mut_error, string) result" where
  "compute_idempotency_key sha princ cap repo op dg client =
     bind_r (lift_store (require_repository repo)) (\<lambda>_.
     bind_r (lift_store (require_digest dg ''operation_digest'')) (\<lambda>_.
     if client = Some [] then Inl (MutationDenied INVALID_ARGUMENTS IDEMPOTENCY)
     else mut_hash sha (JObj
       ([(''schema'', JStr ''v2.phase3.idempotency.1''), (''principal'', JStr princ),
         (''capability'', JStr (write_capability_value cap)), (''repository'', JStr repo),
         (''operation'', JStr op), (''operation_digest'', JStr dg)] @ opt_entry ''client_key'' client))))"

subsection \<open>Approvals\<close>

record approval_record =
  ar_approval_id :: string
  ar_principal :: string
  ar_approver :: string
  ar_operation_digest :: string
  ar_repository :: string
  ar_operation :: string
  ar_nonce :: string
  ar_expires_at :: moment
  ar_trust_context :: string
  ar_state :: approval_state
  ar_consumed_at :: "utc option"

definition approval_record_new :: "approval_record \<Rightarrow> (mut_error, approval_record) result" where
  "approval_record_new r =
     bind_r (md_require_identifier (ar_approval_id r)) (\<lambda>_.
     bind_r (md_require_identifier (ar_principal r)) (\<lambda>_.
     bind_r (md_require_identifier (ar_approver r)) (\<lambda>_.
     bind_r (lift_store (require_digest (ar_operation_digest r) ''operation_digest'')) (\<lambda>_.
     bind_r (lift_store (require_repository (ar_repository r))) (\<lambda>_.
     bind_r (md_require_operation (ar_operation r)) (\<lambda>_.
     bind_r (md_require_identifier (ar_nonce r)) (\<lambda>_.
     bind_r (md_require_identifier (ar_trust_context r)) (\<lambda>_.
     if \<not> aware (ar_expires_at r) then Inl (MutationDenied INVALID_ARGUMENTS APPROVAL) else Inr r))))))))"

definition ar_is_expired :: "approval_record \<Rightarrow> utc \<Rightarrow> bool" where
  "ar_is_expired r now \<longleftrightarrow> now \<ge> instant (ar_expires_at r)"

definition approval_evidence :: "approval_record \<Rightarrow> (string \<times> string) list" where
  "approval_evidence r =
     [(''approval_id'', ar_approval_id r), (''operation'', ar_operation r), (''repository'', ar_repository r),
      (''operation_digest'', ar_operation_digest r), (''state'', approval_state_value (ar_state r)),
      (''trust_context'', ar_trust_context r)]"

text \<open>The store: the dictionary of the records, in insertion order.\<close>

type_synonym ma_store = "(string \<times> approval_record) list"

definition ma_issue :: "approval_record \<Rightarrow> ma_store \<Rightarrow> ma_store \<times> (mut_error, approval_record) result" where
  "ma_issue r s =
     (if ar_state r \<noteq> AP_PENDING \<or> ar_consumed_at r \<noteq> None then (s, Inl (MutationDenied APPROVAL_ALREADY_CONSUMED APPROVAL))
      else if map_of s (ar_approval_id r) \<noteq> None then (s, Inl (MutationDenied APPROVAL_ALREADY_CONSUMED APPROVAL))
      else (AList.update (ar_approval_id r) r s, Inr r))"

definition ma_get :: "string \<Rightarrow> ma_store \<Rightarrow> approval_record option" where
  "ma_get i s = map_of s i"

definition ma_revoke :: "string \<Rightarrow> ma_store \<Rightarrow> ma_store" where
  "ma_revoke i s =
     (case map_of s i of
        None \<Rightarrow> s
      | Some r \<Rightarrow> if ar_state r \<noteq> AP_PENDING then s else AList.update i (r\<lparr>ar_state := AP_REVOKED\<rparr>) s)"

definition ma_verify_and_consume ::
  "(string \<Rightarrow> string) \<Rightarrow> string \<Rightarrow> op_descriptor \<Rightarrow> string \<Rightarrow> utc \<Rightarrow> ma_store \<Rightarrow> ma_store \<times> (mut_error, approval_record) result" where
  "ma_verify_and_consume sha i d princ now s =
     (case compute_operation_digest sha d of
        Inl e \<Rightarrow> (s, Inl e)
      | Inr expected \<Rightarrow>
          (case map_of s i of
             None \<Rightarrow> (s, Inl (ApprovalError APPROVAL_UNKNOWN APPROVAL))
           | Some r \<Rightarrow>
               if ar_state r = AP_CONSUMED then (s, Inl (ApprovalError APPROVAL_ALREADY_CONSUMED APPROVAL))
               else if ar_state r \<noteq> AP_PENDING then (s, Inl (ApprovalError APPROVAL_UNKNOWN APPROVAL))
               else if ar_is_expired r now
               then (AList.update i (r\<lparr>ar_state := AP_EXPIRED\<rparr>) s, Inl (ApprovalError APPROVAL_EXPIRED APPROVAL))
               else if ar_operation_digest r \<noteq> expected then (s, Inl (DigestMismatchError APPROVAL_DIGEST_MISMATCH APPROVAL))
               else if ar_repository r \<noteq> od_repository d \<or> ar_operation r \<noteq> od_operation d \<or> ar_principal r \<noteq> princ
               then (s, Inl (ApprovalError APPROVAL_SCOPE_MISMATCH APPROVAL))
               else if requires_distinct_approver d \<and> ar_approver r = ar_principal r
               then (s, Inl (ApprovalError APPROVER_NOT_DISTINCT APPROVAL))
               else let r' = r\<lparr>ar_state := AP_CONSUMED, ar_consumed_at := Some now\<rparr>
                    in (AList.update i r' s, Inr r')))"

definition ma_lapse :: "utc \<Rightarrow> approval_record \<Rightarrow> bool" where
  "ma_lapse now r \<longleftrightarrow> ar_state r = AP_PENDING \<and> ar_is_expired r now"

definition ma_purge_expired :: "utc \<Rightarrow> ma_store \<Rightarrow> ma_store \<times> nat" where
  "ma_purge_expired now s =
     (map (\<lambda>(i, r). (i, if ma_lapse now r then r\<lparr>ar_state := AP_EXPIRED\<rparr> else r)) s,
      length (filter (\<lambda>(i, r). ma_lapse now r) s))"

definition digest_binding ::
  "(string \<Rightarrow> string) \<Rightarrow> op_descriptor \<Rightarrow> approval_record \<Rightarrow> string \<Rightarrow> (mut_error, op_descriptor \<times> approval_record \<times> string) result" where
  "digest_binding sha d r dg =
     (if dg = [] then bind_r (compute_operation_digest sha d) (\<lambda>h. Inr (d, r, h)) else Inr (d, r, dg))"

definition binding_evidence ::
  "(string \<Rightarrow> string) \<Rightarrow> op_descriptor \<times> approval_record \<times> string \<Rightarrow> (mut_error, (string \<times> string) list) result" where
  "binding_evidence sha b = bind_r (digest_evidence sha (fst b)) (\<lambda>e.
     Inr (foldl (\<lambda>kvs (k, v). AList.update k v kvs) e (approval_evidence (fst (snd b)))))"

subsection \<open>The digest identifies the operation\<close>

lemma mut_hash_Inr: "mut_hash sha v = Inr h \<longleftrightarrow> json_validate v \<and> h = sha (dumps v)"
  by (auto simp: mut_hash_def canonical_hash_def canonical_json_text_def)

lemma mut_hash_inj:
  assumes "inj sha" "mut_hash sha v = Inr h" "mut_hash sha w = Inr h"
  shows "canon v = canon w"
  using assms by (auto simp: mut_hash_Inr intro!: canonical_text_inj dest: injD)

lemma opt_entry_eq: "map_of (opt_entry k v) j = (if j = k then map_option JStr v else None)"
  by (auto simp: opt_entry_def split: option.splits)

lemma preconditions_canonical_inj:
  assumes "canon (preconditions_canonical p) = canon (preconditions_canonical q)"
  shows "p = (q :: op_preconditions)"
proof -
  have e: "map_option JStr (base_sha p) = map_option JStr (base_sha q)"
    "map_option JStr (expected_head_sha p) = map_option JStr (expected_head_sha q)"
    "map_option JStr (required_checks_policy p) = map_option JStr (required_checks_policy q)"
    using assms unfolding preconditions_canonical_def
    by (auto simp: opt_entry_def split: option.splits)
  have "inj JStr" by (simp add: inj_def)
  then have "a = b" if "map_option JStr a = map_option JStr b" for a b
    using that by (metis option.inj_map_strong injD)
  with e show ?thesis by simp
qed

lemma descriptor_canonical_inj:
  assumes "canon (descriptor_canonical x) = canon (descriptor_canonical y)"
  shows "canon (JObj (od_arguments x)) = canon (JObj (od_arguments y)) \<and> x\<lparr>od_arguments := []\<rparr> = (y :: op_descriptor)\<lparr>od_arguments := []\<rparr>"
proof -
  note e = canon_JObj_entry [OF assms [unfolded descriptor_canonical_def]]
  have "canon (preconditions_canonical (od_preconditions x)) = canon (preconditions_canonical (od_preconditions y))"
    using e [of "''preconditions''"] by simp
  then have "od_preconditions x = od_preconditions y" by (rule preconditions_canonical_inj)
  moreover have "canon (JObj (od_arguments x)) = canon (JObj (od_arguments y))" using e [of "''arguments''"] by simp
  ultimately show ?thesis
    using e [of "''operation''"] e [of "''capability''"] e [of "''repository''"] e [of "''policy_version''"]
      e [of "''registry_snapshot_hash''"] by (simp add: enum_values_inj)
qed

text \<open>The same operation: every field is equal, the arguments up to the order of keys.\<close>

definition same_operation :: "op_descriptor \<Rightarrow> op_descriptor \<Rightarrow> bool" where
  "same_operation x y \<longleftrightarrow>
     canon (JObj (od_arguments x)) = canon (JObj (od_arguments y)) \<and> x\<lparr>od_arguments := []\<rparr> = y\<lparr>od_arguments := []\<rparr>"

lemma operation_digest_binds:
  assumes "inj sha" "compute_operation_digest sha x = Inr h" "compute_operation_digest sha y = Inr h"
  shows "same_operation x y"
  unfolding same_operation_def
  by (rule descriptor_canonical_inj [OF mut_hash_inj [OF assms [unfolded compute_operation_digest_def]]])

subsection \<open>Consumption\<close>

definition ma_consumable :: "(string \<Rightarrow> string) \<Rightarrow> op_descriptor \<Rightarrow> string \<Rightarrow> utc \<Rightarrow> approval_record \<Rightarrow> bool" where
  "ma_consumable sha d princ now r \<longleftrightarrow>
     ar_state r = AP_PENDING \<and> now < instant (ar_expires_at r) \<and> compute_operation_digest sha d = Inr (ar_operation_digest r) \<and>
     ar_repository r = od_repository d \<and> ar_operation r = od_operation d \<and> ar_principal r = princ \<and>
     (requires_distinct_approver d \<longrightarrow> ar_approver r \<noteq> princ)"

lemma ma_consume_iff:
  "ma_verify_and_consume sha i d princ now s = (s', Inr r') \<longleftrightarrow>
   (\<exists>r. map_of s i = Some r \<and> ma_consumable sha d princ now r \<and>
     r' = r\<lparr>ar_state := AP_CONSUMED, ar_consumed_at := Some now\<rparr> \<and> s' = AList.update i r' s)"
proof (cases "compute_operation_digest sha d")
  case (Inl e)
  then show ?thesis by (simp add: ma_verify_and_consume_def ma_consumable_def)
next
  case (Inr h)
  show ?thesis
  proof (cases "map_of s i")
    case None
    with Inr show ?thesis by (simp add: ma_verify_and_consume_def)
  next
    case (Some r)
    with Inr show ?thesis by (auto simp: ma_verify_and_consume_def ma_consumable_def ar_is_expired_def Let_def)
  qed
qed

subsection \<open>The store as a machine\<close>

datatype ma_op =
  MA_issue approval_record
| MA_revoke string
| MA_consume string op_descriptor string utc
| MA_purge utc

fun ma_step :: "(string \<Rightarrow> string) \<Rightarrow> ma_store \<Rightarrow> ma_op \<Rightarrow> ma_store" where
  "ma_step sha s (MA_issue r) = fst (ma_issue r s)"
| "ma_step sha s (MA_revoke i) = ma_revoke i s"
| "ma_step sha s (MA_consume i d p t) = fst (ma_verify_and_consume sha i d p t s)"
| "ma_step sha s (MA_purge t) = fst (ma_purge_expired t s)"

fun ma_spends :: "(string \<Rightarrow> string) \<Rightarrow> string \<Rightarrow> ma_store \<Rightarrow> ma_op \<Rightarrow> bool" where
  "ma_spends sha i s (MA_consume j d p t) \<longleftrightarrow> j = i \<and> \<not> isl (snd (ma_verify_and_consume sha j d p t s))"
| "ma_spends sha i s _ \<longleftrightarrow> False"

definition ma_spent :: "string \<Rightarrow> ma_store \<Rightarrow> bool" where
  "ma_spent i s \<longleftrightarrow> (\<exists>r. map_of s i = Some r \<and> ar_state r = AP_CONSUMED)"

lemma map_of_purge:
  "map_of (fst (ma_purge_expired now s)) i =
   map_option (\<lambda>r. if ma_lapse now r then r\<lparr>ar_state := AP_EXPIRED\<rparr> else r) (map_of s i)"
  by (induction s) (auto simp: ma_purge_expired_def)

lemma ma_spent_consume: "ma_spent i s \<Longrightarrow> ma_spent i (fst (ma_verify_and_consume sha j d p t s))"
  by (auto simp: ma_spent_def ma_verify_and_consume_def update_conv' Let_def split: sum.splits option.splits)

lemma ma_spent_purge: "ma_spent i s \<Longrightarrow> ma_spent i (fst (ma_purge_expired t s))"
  by (auto simp: ma_spent_def map_of_purge ma_lapse_def simp del: map_option_eq_Some)

lemma ma_spent_step: "ma_spent i s \<Longrightarrow> ma_spent i (ma_step sha s x)"
  by (cases x) (auto simp: ma_spent_consume ma_spent_purge, auto simp: ma_spent_def ma_issue_def ma_revoke_def update_conv'
      split: option.splits)

lemma ma_consume_spends:
  assumes "ma_verify_and_consume sha i d p t s = (s', Inr r')"
  shows "\<not> ma_spent i s \<and> ma_spent i s'"
  using assms by (auto simp: ma_consume_iff ma_consumable_def ma_spent_def update_conv')

lemma ma_spendsD:
  assumes "ma_spends sha i s x"
  shows "\<not> ma_spent i s \<and> ma_spent i (ma_step sha s x)"
proof -
  from assms obtain d p t where x: "x = MA_consume i d p t" by (cases x) auto
  with assms obtain s' r' where "ma_verify_and_consume sha i d p t s = (s', Inr r')"
    by (cases "ma_verify_and_consume sha i d p t s"; cases "snd (ma_verify_and_consume sha i d p t s)") auto
  with x ma_consume_spends show ?thesis by fastforce
qed

interpretation mau: single_use "ma_step sha" "\<lambda>_. True" "ma_spends sha i" "ma_spent i" "\<lambda>_. False" for sha i
  by unfold_locales (auto simp: ma_spendsD ma_spent_step)

text \<open>
  An approval of a mutation is spent at most once, whatever is issued, revoked, consumed and purged
  around it.
\<close>

lemma ma_single_use: "spend_count (ma_step sha) (ma_spends sha i) s xs \<le> 1"
  by (rule mau.spend_at_most_once) simp_all

end
