(* ===== verification/Tool_Schema.thy ===== *)
theory Tool_Schema
  imports Mutation_Digest
begin

section \<open>Tool definitions (v2/schema.py)\<close>

text \<open>
  The identifiers of the tool registry, the scan of JSON schemas for materialized credentials, and the
  definition of a tool with the checks of its constructor. Bounds that pydantic enforces on numbers are part
  of the constructors; the texts of the errors are left out. The free text of a description is no part of
  any decision or canonical form and is left out as well.
\<close>

datatype registry_error =
  RegistryValidationError string
| RegistryFrozenError
| DuplicateToolError string
| DuplicateCapabilityError string
| UnknownToolError string
| UnknownCapabilityError string
| PolicyValidationError string

subsection \<open>Identifiers\<close>

definition WILDCARD_TOKENS :: "string list" where
  "WILDCARD_TOKENS = [''*'', ''?'', ''['', '']'', ''**'']"

definition seg_char :: "char \<Rightarrow> bool" where
  "seg_char c \<longleftrightarrow> ascii_lower c \<or> CHR ''0'' \<le> c \<and> c \<le> CHR ''9''"

definition id_segment :: "string \<Rightarrow> bool" where
  "id_segment s \<longleftrightarrow> s \<noteq> [] \<and> seg_char (hd s) \<and> seg_char (last s) \<and> list_all (\<lambda>c. seg_char c \<or> c = CHR ''_'' \<or> c = CHR ''-'') s"

text \<open>\<^verbatim>\<open>[a-z0-9]([a-z0-9_-]*[a-z0-9])?(\.[a-z0-9]([a-z0-9_-]*[a-z0-9])?)*\<close> as a full match\<close>

definition re_identifier :: "string \<Rightarrow> bool" where
  "re_identifier s \<longleftrightarrow> list_all id_segment (split_on (CHR ''.'') s)"

definition normalize_identifier :: "string \<Rightarrow> string \<Rightarrow> (registry_error, string) result" where
  "normalize_identifier raw field =
     (let v = lower_text (strip raw)
      in if v = [] then Inl (RegistryValidationError field)
         else if list_ex (\<lambda>t. substr t v) WILDCARD_TOKENS then Inl (RegistryValidationError field)
         else if \<not> re_identifier v then Inl (RegistryValidationError field)
         else Inr v)"

definition SENSITIVE_CREDENTIAL_NAMES :: "string list" where
  "SENSITIVE_CREDENTIAL_NAMES =
     [''password'', ''passwd'', ''secret'', ''token'', ''api_key'', ''apikey'', ''authorization'', ''cookie'', ''private_key'', ''credential'']"

definition is_sensitive_property_name :: "string \<Rightarrow> bool" where
  "is_sensitive_property_name n \<longleftrightarrow> lower_text (strip n) \<in> set SENSITIVE_CREDENTIAL_NAMES"

definition id_words :: "string \<Rightarrow> string list" where
  "id_words s = concat (map (split_on (CHR ''-'')) (concat (map (split_on (CHR ''_'')) (split_on (CHR ''.'') s))))"

definition is_sensitive_identifier :: "string \<Rightarrow> bool" where
  "is_sensitive_identifier n \<longleftrightarrow>
     (let l = lower_text (strip n)
      in l \<in> set SENSITIVE_CREDENTIAL_NAMES \<or> list_ex (\<lambda>w. w \<in> set SENSITIVE_CREDENTIAL_NAMES) (filter (\<lambda>w. w \<noteq> []) (id_words l)))"

definition reject_sensitive_identifier :: "string \<Rightarrow> string \<Rightarrow> (registry_error, unit) result" where
  "reject_sensitive_identifier v field = (if is_sensitive_identifier v then Inl (RegistryValidationError field) else Inr ())"

subsection \<open>Schemas without credentials\<close>

fun is_materialized :: "json \<Rightarrow> bool" where
  "is_materialized JNull = False"
| "is_materialized (JStr s) = (s \<noteq> [])"
| "is_materialized (JList xs) = (xs \<noteq> [])"
| "is_materialized (JObj kvs) = (kvs \<noteq> [])"
| "is_materialized _ = True"

definition MATERIALIZING_KEYWORDS :: "string list" where
  "MATERIALIZING_KEYWORDS = [''default'', ''const'', ''example'', ''examples'']"

definition materializes :: "(string \<times> json) list \<Rightarrow> bool" where
  "materializes kvs \<longleftrightarrow>
     list_ex (\<lambda>k. case map_of kvs k of None \<Rightarrow> False | Some v \<Rightarrow> is_materialized v) MATERIALIZING_KEYWORDS"

text \<open>The nodes the scan goes on to from a node, each with the flag it is called with.\<close>

definition named_children :: "(string \<times> json) list \<Rightarrow> (bool \<times> json) list" where
  "named_children kvs = concat (map (\<lambda>c. case map_of kvs c of
       Some (JObj ns) \<Rightarrow> map (\<lambda>(n, v). (is_sensitive_property_name n, v)) ns | _ \<Rightarrow> [])
     [''properties'', ''$defs'', ''definitions'', ''patternProperties''])"

definition item_children :: "bool \<Rightarrow> (string \<times> json) list \<Rightarrow> (bool \<times> json) list" where
  "item_children s kvs =
     (case map_of kvs ''items'' of
        Some (JObj obj) \<Rightarrow> [(s, JObj obj)] | Some (JList xs) \<Rightarrow> map (Pair s) xs | _ \<Rightarrow> [])"

definition list_children :: "bool \<Rightarrow> (string \<times> json) list \<Rightarrow> (bool \<times> json) list" where
  "list_children s kvs = concat (map (\<lambda>c. case map_of kvs c of Some (JList xs) \<Rightarrow> map (Pair s) xs | _ \<Rightarrow> [])
     [''allOf'', ''anyOf'', ''oneOf''])"

definition single_children :: "bool \<Rightarrow> (string \<times> json) list \<Rightarrow> (bool \<times> json) list" where
  "single_children s kvs = concat (map (\<lambda>c. case map_of kvs c of Some (JObj obj) \<Rightarrow> [(s, JObj obj)] | _ \<Rightarrow> [])
     [''not'', ''additionalProperties'', ''contains''])"

definition schema_children :: "bool \<Rightarrow> (string \<times> json) list \<Rightarrow> (bool \<times> json) list" where
  "schema_children s kvs = named_children kvs @ item_children s kvs @ list_children s kvs @ single_children s kvs"

lemma size_entry: "map_of kvs k = Some v \<Longrightarrow> size v < size (JObj kvs)"
  by (induction kvs) (auto split: if_splits)

lemma size_pair_mem: "(n, v) \<in> set kvs \<Longrightarrow> size v < size (JObj kvs)"
  by (induction kvs) auto

lemma size_list_mem: "v \<in> set xs \<Longrightarrow> size v < size (JList xs)"
  by (induction xs) auto

text \<open>A child is an entry of the node, an entry of an entry or an element of an entry.\<close>

definition child_value :: "(string \<times> json) list \<Rightarrow> json \<Rightarrow> bool" where
  "child_value kvs v \<longleftrightarrow>
     (\<exists>k w. map_of kvs k = Some w \<and> (v = w \<or> (\<exists>ns n. w = JObj ns \<and> (n, v) \<in> set ns) \<or> (\<exists>xs. w = JList xs \<and> v \<in> set xs)))"

lemma child_value_size: "child_value kvs v \<Longrightarrow> size v < size (JObj kvs)"
  unfolding child_value_def using size_entry size_pair_mem size_list_mem by (metis order.strict_trans)

lemma child_valueI:
  "Some v = map_of kvs k \<Longrightarrow> child_value kvs v" "Some (JObj ns) = map_of kvs k \<Longrightarrow> (n, v) \<in> set ns \<Longrightarrow> child_value kvs v"
  "Some (JList xs) = map_of kvs k \<Longrightarrow> v \<in> set xs \<Longrightarrow> child_value kvs v"
  unfolding child_value_def by metis+

lemma children_values:
  "(s', v) \<in> set (named_children kvs) \<Longrightarrow> child_value kvs v" "(s', v) \<in> set (item_children s kvs) \<Longrightarrow> child_value kvs v"
  "(s', v) \<in> set (list_children s kvs) \<Longrightarrow> child_value kvs v" "(s', v) \<in> set (single_children s kvs) \<Longrightarrow> child_value kvs v"
  unfolding named_children_def item_children_def list_children_def single_children_def
  subgoal by (auto split: option.split_asm json.split_asm intro: child_valueI)
  subgoal by (cases "map_of kvs ''items''"; cases "the (map_of kvs ''items'')") (auto intro: child_valueI [OF sym])
  subgoal by (auto split: option.split_asm json.split_asm intro: child_valueI)
  subgoal by (auto split: option.split_asm json.split_asm intro: child_valueI)
  done

lemma size_schema_children: "(s', v) \<in> set (schema_children s kvs) \<Longrightarrow> size v < size (JObj kvs)"
  unfolding schema_children_def by (auto dest!: children_values child_value_size)

text \<open>\<open>_reject_materialized_credentials\<close>: whether the scan passes.\<close>

function scan_credentials :: "bool \<Rightarrow> json \<Rightarrow> bool" where
  "scan_credentials s (JObj kvs) \<longleftrightarrow> \<not> (s \<and> materializes kvs) \<and> (\<forall>(s', v) \<in> set (schema_children s kvs). scan_credentials s' v)"
| "scan_credentials s JNull \<longleftrightarrow> True"
| "scan_credentials s (JBool b) \<longleftrightarrow> True"
| "scan_credentials s (JInt i) \<longleftrightarrow> True"
| "scan_credentials s (JFloat r) \<longleftrightarrow> True"
| "scan_credentials s (JStr t) \<longleftrightarrow> True"
| "scan_credentials s (JList xs) \<longleftrightarrow> True"
  by pat_completeness auto
termination scan_credentials
proof (relation "measure (\<lambda>(s, v). size v)")
  fix s kvs x s' v
  assume "x \<in> set (schema_children s kvs)" "(s', v) = x"
  then show "((s', v), s, JObj kvs) \<in> measure (\<lambda>(s, v). size v)" using size_schema_children by auto
qed simp

definition validate_json_schema :: "json \<Rightarrow> string \<Rightarrow> (registry_error, json) result" where
  "validate_json_schema v field =
     (case v of
        JObj kvs \<Rightarrow>
          if kvs = [] then Inl (RegistryValidationError field)
          else if map_of kvs ''type'' \<notin> {None, Some JNull, Some (JStr ''object'')} then Inl (RegistryValidationError field)
          else if \<not> scan_credentials False v then Inl (RegistryValidationError field)
          else Inr v
      | _ \<Rightarrow> Inl (RegistryValidationError field))"

text \<open>The nodes a schema exposes: reachable through the containers the scan knows.\<close>

inductive schema_node :: "bool \<times> json \<Rightarrow> bool \<times> json \<Rightarrow> bool" where
  Here: "schema_node x x"
| Child: "(s', v) \<in> set (schema_children s kvs) \<Longrightarrow> schema_node (s', v) y \<Longrightarrow> schema_node (s, JObj kvs) y"

lemma scan_credentials_exact:
  "scan_credentials s v \<longleftrightarrow> (\<forall>s' kvs. schema_node (s, v) (s', JObj kvs) \<longrightarrow> \<not> (s' \<and> materializes kvs))"
proof
  assume "scan_credentials s v"
  have "\<not> (s' \<and> materializes kvs)" if "schema_node x y" "scan_credentials (fst x) (snd x)" "y = (s', JObj kvs)" for x y s' kvs
    using that by (induction rule: schema_node.induct) auto
  with \<open>scan_credentials s v\<close> show "\<forall>s' kvs. schema_node (s, v) (s', JObj kvs) \<longrightarrow> \<not> (s' \<and> materializes kvs)" by fastforce
next
  assume "\<forall>s' kvs. schema_node (s, v) (s', JObj kvs) \<longrightarrow> \<not> (s' \<and> materializes kvs)"
  then show "scan_credentials s v"
  proof (induction s v rule: scan_credentials.induct)
    case (1 s kvs)
    have "scan_credentials s' w" if "(s', w) \<in> set (schema_children s kvs)" for s' w
      using 1 that by (blast intro: schema_node.Child)
    moreover have "\<not> (s \<and> materializes kvs)" using 1(2) schema_node.Here by blast
    ultimately show ?case by auto
  qed simp_all
qed

subsection \<open>Classification\<close>

datatype security_tier = T0 | T1 | T2 | T3 | T4
datatype mutation_class = MUT_NONE | MUT_LOW | MUT_STANDARD | MUT_PRIVILEGED | MUT_DESTRUCTIVE
datatype idempotency_semantics =
  IDEM_READ | NATURALLY_IDEMPOTENT | KEYED_IDEMPOTENT | IDEMPOTENT_BY_PRECONDITION | NON_IDEMPOTENT
datatype retry_class = RETRY_SAFE | RETRY_CONDITIONAL | NO_RETRY
datatype approval_requirement = NOT_REQUIRED | CONDITIONAL | REQUIRED
datatype result_shaping = SHAPING_UNSUPPORTED | SHAPING_SUPPORTED | SHAPING_REQUIRED
datatype stability = EXPERIMENTAL | BETA | STABLE | DEPRECATED

primrec tier_value :: "security_tier \<Rightarrow> string" where
  "tier_value T0 = ''T0''" | "tier_value T1 = ''T1''" | "tier_value T2 = ''T2''" | "tier_value T3 = ''T3''" | "tier_value T4 = ''T4''"

primrec mutation_class_value :: "mutation_class \<Rightarrow> string" where
  "mutation_class_value MUT_NONE = ''NONE''" | "mutation_class_value MUT_LOW = ''LOW''"
| "mutation_class_value MUT_STANDARD = ''STANDARD''" | "mutation_class_value MUT_PRIVILEGED = ''PRIVILEGED''"
| "mutation_class_value MUT_DESTRUCTIVE = ''DESTRUCTIVE''"

primrec idempotency_value :: "idempotency_semantics \<Rightarrow> string" where
  "idempotency_value IDEM_READ = ''READ''" | "idempotency_value NATURALLY_IDEMPOTENT = ''NATURALLY_IDEMPOTENT''"
| "idempotency_value KEYED_IDEMPOTENT = ''KEYED_IDEMPOTENT''"
| "idempotency_value IDEMPOTENT_BY_PRECONDITION = ''IDEMPOTENT_BY_PRECONDITION''"
| "idempotency_value NON_IDEMPOTENT = ''NON_IDEMPOTENT''"

primrec retry_class_value :: "retry_class \<Rightarrow> string" where
  "retry_class_value RETRY_SAFE = ''RETRY_SAFE''" | "retry_class_value RETRY_CONDITIONAL = ''RETRY_CONDITIONAL''"
| "retry_class_value NO_RETRY = ''NO_RETRY''"

primrec approval_requirement_value :: "approval_requirement \<Rightarrow> string" where
  "approval_requirement_value NOT_REQUIRED = ''NOT_REQUIRED''" | "approval_requirement_value CONDITIONAL = ''CONDITIONAL''"
| "approval_requirement_value REQUIRED = ''REQUIRED''"

primrec shaping_value :: "result_shaping \<Rightarrow> string" where
  "shaping_value SHAPING_UNSUPPORTED = ''UNSUPPORTED''" | "shaping_value SHAPING_SUPPORTED = ''SUPPORTED''"
| "shaping_value SHAPING_REQUIRED = ''REQUIRED''"

primrec stability_value :: "stability \<Rightarrow> string" where
  "stability_value EXPERIMENTAL = ''EXPERIMENTAL''" | "stability_value BETA = ''BETA''"
| "stability_value STABLE = ''STABLE''" | "stability_value DEPRECATED = ''DEPRECATED''"

definition is_read_only_tier :: "security_tier \<Rightarrow> bool" where
  "is_read_only_tier t \<longleftrightarrow> t \<in> {T0, T1}"

subsection \<open>Definitions\<close>

record retry_policy =
  retry_class :: retry_class
  max_attempts :: int
  initial_backoff_seconds :: int
  max_backoff_seconds :: int
  honor_retry_after :: bool

definition retry_policy_new :: "retry_policy \<Rightarrow> (registry_error, retry_policy) result" where
  "retry_policy_new r =
     (if \<not> (1 \<le> max_attempts r \<and> max_attempts r \<le> 10) \<or> \<not> (0 \<le> initial_backoff_seconds r \<and> initial_backoff_seconds r \<le> 60) \<or>
         \<not> (0 \<le> max_backoff_seconds r \<and> max_backoff_seconds r \<le> 300) then Inl (RegistryValidationError ''retry_policy'')
      else if retry_class r = NO_RETRY \<and> max_attempts r \<noteq> 1 then Inl (RegistryValidationError ''retry_policy'')
      else if retry_class r \<noteq> NO_RETRY \<and> max_attempts r < 2 then Inl (RegistryValidationError ''retry_policy'')
      else if max_backoff_seconds r < initial_backoff_seconds r then Inl (RegistryValidationError ''retry_policy'')
      else Inr r)"

definition retry_policy_canonical :: "retry_policy \<Rightarrow> json" where
  "retry_policy_canonical r = JObj
     [(''honor_retry_after'', JBool (honor_retry_after r)), (''initial_backoff_seconds'', JInt (initial_backoff_seconds r)),
      (''max_attempts'', JInt (max_attempts r)), (''max_backoff_seconds'', JInt (max_backoff_seconds r)),
      (''retry_class'', JStr (retry_class_value (retry_class r)))]"

record resource_key =
  rk_scope :: string
  rk_selector :: string

definition resource_key_new :: "resource_key \<Rightarrow> (registry_error, resource_key) result" where
  "resource_key_new k =
     bind_r (normalize_identifier (rk_scope k) ''resource_key.scope'') (\<lambda>sc.
     bind_r (normalize_identifier (rk_selector k) ''resource_key.selector'') (\<lambda>se.
     bind_r (reject_sensitive_identifier se ''resource_key.selector'') (\<lambda>_. Inr \<lparr>rk_scope = sc, rk_selector = se\<rparr>)))"

definition resource_key_text :: "resource_key \<Rightarrow> string" where
  "resource_key_text k = rk_scope k @ '':'' @ rk_selector k"

definition resource_key_canonical :: "resource_key \<Rightarrow> json" where
  "resource_key_canonical k = JObj [(''scope'', JStr (rk_scope k)), (''selector'', JStr (rk_selector k))]"

record tool_definition =
  td_tool_id :: string
  td_provider :: string
  td_operation :: string
  td_version :: int
  td_execution_mode :: execution_mode
  td_input_schema :: json
  td_output_schema :: json
  td_security_tier :: security_tier
  td_read_only :: bool
  td_mutation_class :: mutation_class
  td_idempotency :: idempotency_semantics
  td_policy_action :: string
  td_approval_requirement :: approval_requirement
  td_capability_id :: string
  td_credential_capability_id :: "string option"
  td_timeout_seconds :: int
  td_retry_policy :: retry_policy
  td_resource_key :: resource_key
  td_result_shaping :: result_shaping
  td_stability :: stability
  td_deprecated :: bool
  td_backend :: string

definition backend_new :: "string \<Rightarrow> (registry_error, string) result" where
  "backend_new v =
     (if strip v = [] then Inr []
      else bind_r (normalize_identifier (strip v) ''backend'') (\<lambda>n. bind_r (reject_sensitive_identifier n ''backend'') (\<lambda>_. Inr n)))"

definition td_is_destructive :: "tool_definition \<Rightarrow> bool" where
  "td_is_destructive t \<longleftrightarrow> td_mutation_class t = MUT_DESTRUCTIVE \<or> td_security_tier t = T4"

definition td_invariants :: "tool_definition \<Rightarrow> bool" where
  "td_invariants t \<longleftrightarrow>
     \<not> (td_read_only t \<and> td_mutation_class t \<noteq> MUT_NONE) \<and>
     \<not> (\<not> td_read_only t \<and> td_mutation_class t = MUT_NONE) \<and>
     \<not> (td_read_only t \<and> \<not> is_read_only_tier (td_security_tier t)) \<and>
     \<not> (\<not> td_read_only t \<and> is_read_only_tier (td_security_tier t)) \<and>
     \<not> (td_read_only t \<and> td_idempotency t \<noteq> IDEM_READ) \<and>
     \<not> (\<not> td_read_only t \<and> td_idempotency t = IDEM_READ) \<and>
     \<not> (td_mutation_class t = MUT_DESTRUCTIVE \<and> td_security_tier t \<noteq> T4) \<and>
     \<not> (td_security_tier t = T4 \<and> td_mutation_class t \<noteq> MUT_DESTRUCTIVE) \<and>
     starts_with (td_provider t @ ''.'') (td_tool_id t) \<and>
     \<not> (\<not> td_read_only t \<and> retry_class (td_retry_policy t) = RETRY_SAFE \<and> td_idempotency t = NON_IDEMPOTENT)"

definition tool_definition_new :: "tool_definition \<Rightarrow> (registry_error, tool_definition) result" where
  "tool_definition_new t =
     (if td_version t < 1 then Inl (RegistryValidationError ''version'')
      else if \<not> (1 \<le> td_timeout_seconds t \<and> td_timeout_seconds t \<le> 3600) then Inl (RegistryValidationError ''timeout_seconds'')
      else
        bind_r (normalize_identifier (td_tool_id t) ''tool_id'') (\<lambda>i.
        bind_r (normalize_identifier (td_provider t) ''provider'') (\<lambda>p.
        bind_r (normalize_identifier (td_operation t) ''operation'') (\<lambda>op.
        bind_r (validate_json_schema (td_input_schema t) ''input_schema'') (\<lambda>_.
        bind_r (validate_json_schema (td_output_schema t) ''output_schema'') (\<lambda>_.
        bind_r (normalize_identifier (td_policy_action t) ''policy_action'') (\<lambda>a.
        bind_r (normalize_identifier (td_capability_id t) ''capability_id'') (\<lambda>c.
        bind_r (case td_credential_capability_id t of None \<Rightarrow> Inr None
                | Some x \<Rightarrow> bind_r (normalize_identifier x ''credential_capability_id'') (\<lambda>y. Inr (Some y))) (\<lambda>cc.
        bind_r (backend_new (td_backend t)) (\<lambda>b.
        let t' = t\<lparr>td_tool_id := i, td_provider := p, td_operation := op, td_policy_action := a, td_capability_id := c,
                   td_credential_capability_id := cc, td_backend := b\<rparr>
        in if td_invariants t' then Inr t' else Inl (RegistryValidationError ''invariants'')))))))))))"

definition tool_canonical :: "tool_definition \<Rightarrow> json" where
  "tool_canonical t = JObj
     [(''approval_requirement'', JStr (approval_requirement_value (td_approval_requirement t))), (''backend'', JStr (td_backend t)),
      (''capability_id'', JStr (td_capability_id t)),
      (''credential_capability_id'', case td_credential_capability_id t of None \<Rightarrow> JNull | Some c \<Rightarrow> JStr c),
      (''deprecated'', JBool (td_deprecated t)), (''execution_mode'', JStr (mode_value (td_execution_mode t))),
      (''idempotency'', JStr (idempotency_value (td_idempotency t))), (''input_schema'', td_input_schema t),
      (''mutation_class'', JStr (mutation_class_value (td_mutation_class t))), (''operation'', JStr (td_operation t)),
      (''output_schema'', td_output_schema t), (''policy_action'', JStr (td_policy_action t)),
      (''provider'', JStr (td_provider t)), (''read_only'', JBool (td_read_only t)),
      (''resource_key'', resource_key_canonical (td_resource_key t)),
      (''result_shaping'', JStr (shaping_value (td_result_shaping t))), (''retry_policy'', retry_policy_canonical (td_retry_policy t)),
      (''security_tier'', JStr (tier_value (td_security_tier t))), (''stability'', JStr (stability_value (td_stability t))),
      (''timeout_seconds'', JInt (td_timeout_seconds t)), (''tool_id'', JStr (td_tool_id t)), (''version'', JInt (td_version t))]"

definition definition_hash :: "(string \<Rightarrow> string) \<Rightarrow> tool_definition \<Rightarrow> (mut_error, string) result" where
  "definition_hash sha t = mut_hash sha (tool_canonical t)"

end
