(* ===== verification/Policy_Engine.thy ===== *)
theory Policy_Engine
  imports Tool_Schema
begin

section \<open>Registries and the policy engine (v2/capabilities.py, v2/registry.py, v2/credentials.py, v2/policy.py)\<close>

text \<open>
  The capability registry and the tool registry with their freeze, the canonical snapshot, the static
  credential broker, and the evaluation of a tool under explicit rules. A registry is the dictionary of
  its entries in insertion order with the frozen flag.
\<close>

subsection \<open>Capabilities\<close>

record capability_descriptor =
  cd_capability_id :: string
  cd_provider :: string
  cd_state :: capability_state
  cd_version :: int

definition capability_descriptor_new :: "capability_descriptor \<Rightarrow> (registry_error, capability_descriptor) result" where
  "capability_descriptor_new d =
     (if cd_version d < 1 then Inl (RegistryValidationError ''version'')
      else bind_r (normalize_identifier (cd_capability_id d) ''capability_id'') (\<lambda>i.
           bind_r (normalize_identifier (cd_provider d) ''provider'') (\<lambda>p. Inr (d\<lparr>cd_capability_id := i, cd_provider := p\<rparr>))))"

definition state_available :: "capability_state \<Rightarrow> bool" where
  "state_available s \<longleftrightarrow> s \<in> {AVAILABLE, HEALTHY, READY, DEGRADED}"

definition state_healthy :: "capability_state \<Rightarrow> bool" where
  "state_healthy s \<longleftrightarrow> s \<in> {HEALTHY, READY}"

definition state_ready :: "capability_state \<Rightarrow> bool" where
  "state_ready s \<longleftrightarrow> s = READY"

definition capability_canonical :: "capability_descriptor \<Rightarrow> json" where
  "capability_canonical d = JObj
     [(''capability_id'', JStr (cd_capability_id d)), (''provider'', JStr (cd_provider d)),
      (''state'', JStr (capability_value (cd_state d))), (''version'', JInt (cd_version d))]"

definition with_state :: "capability_state \<Rightarrow> capability_descriptor \<Rightarrow> capability_descriptor" where
  "with_state s d = d\<lparr>cd_state := s\<rparr>"

record capability_registry =
  cr_capabilities :: "(string \<times> capability_descriptor) list"
  cr_frozen :: bool

definition cr_register ::
  "capability_descriptor \<Rightarrow> capability_registry \<Rightarrow> capability_registry \<times> (registry_error, capability_descriptor) result" where
  "cr_register d r =
     (if cr_frozen r then (r, Inl RegistryFrozenError)
      else if map_of (cr_capabilities r) (cd_capability_id d) \<noteq> None then (r, Inl (DuplicateCapabilityError (cd_capability_id d)))
      else (r\<lparr>cr_capabilities := AList.update (cd_capability_id d) d (cr_capabilities r)\<rparr>, Inr d))"

definition cr_freeze :: "capability_registry \<Rightarrow> capability_registry" where
  "cr_freeze r = r\<lparr>cr_frozen := True\<rparr>"

definition cr_get :: "string \<Rightarrow> capability_registry \<Rightarrow> (registry_error, capability_descriptor) result" where
  "cr_get i r =
     (case normalize_identifier i ''capability_id'' of
        Inl e \<Rightarrow> Inl (UnknownCapabilityError i)
      | Inr k \<Rightarrow> (case map_of (cr_capabilities r) k of None \<Rightarrow> Inl (UnknownCapabilityError k) | Some d \<Rightarrow> Inr d))"

definition cr_contains :: "string \<Rightarrow> capability_registry \<Rightarrow> bool" where
  "cr_contains i r \<longleftrightarrow> \<not> isl (cr_get i r)"

definition cr_is_ready :: "string \<Rightarrow> capability_registry \<Rightarrow> bool" where
  "cr_is_ready i r = (case cr_get i r of Inl e \<Rightarrow> False | Inr d \<Rightarrow> state_ready (cd_state d))"

definition cr_ordered :: "capability_registry \<Rightarrow> capability_descriptor list" where
  "cr_ordered r = map snd (sort_key fst (cr_capabilities r))"

definition cr_canonical :: "capability_registry \<Rightarrow> json" where
  "cr_canonical r = JList (map capability_canonical (cr_ordered r))"

subsection \<open>Tools\<close>

record tool_registry =
  tr_capabilities :: capability_registry
  tr_tools :: "(string \<times> tool_definition) list"
  tr_frozen :: bool

definition tr_register_capability ::
  "capability_descriptor \<Rightarrow> tool_registry \<Rightarrow> tool_registry \<times> (registry_error, capability_descriptor) result" where
  "tr_register_capability d r =
     (if tr_frozen r then (r, Inl RegistryFrozenError)
      else case cr_register d (tr_capabilities r) of (cr, x) \<Rightarrow> (r\<lparr>tr_capabilities := cr\<rparr>, x))"

definition tr_register :: "tool_definition \<Rightarrow> tool_registry \<Rightarrow> tool_registry \<times> (registry_error, tool_definition) result" where
  "tr_register t r =
     (if tr_frozen r then (r, Inl RegistryFrozenError)
      else if map_of (tr_tools r) (td_tool_id t) \<noteq> None then (r, Inl (DuplicateToolError (td_tool_id t)))
      else if \<not> cr_contains (td_capability_id t) (tr_capabilities r) then (r, Inl (RegistryValidationError (td_tool_id t)))
      else if (case td_credential_capability_id t of None \<Rightarrow> False | Some c \<Rightarrow> \<not> cr_contains c (tr_capabilities r))
      then (r, Inl (RegistryValidationError (td_tool_id t)))
      else (r\<lparr>tr_tools := AList.update (td_tool_id t) t (tr_tools r)\<rparr>, Inr t))"

definition tr_freeze :: "tool_registry \<Rightarrow> tool_registry" where
  "tr_freeze r = r\<lparr>tr_capabilities := cr_freeze (tr_capabilities r), tr_frozen := True\<rparr>"

definition tr_get :: "string \<Rightarrow> tool_registry \<Rightarrow> (registry_error, tool_definition) result" where
  "tr_get i r =
     (case normalize_identifier i ''tool_id'' of
        Inl e \<Rightarrow> Inl (UnknownToolError i)
      | Inr k \<Rightarrow> (case map_of (tr_tools r) k of None \<Rightarrow> Inl (UnknownToolError k) | Some t \<Rightarrow> Inr t))"

definition tr_contains :: "string \<Rightarrow> tool_registry \<Rightarrow> bool" where
  "tr_contains i r \<longleftrightarrow> \<not> isl (tr_get i r)"

definition tr_ordered :: "tool_registry \<Rightarrow> tool_definition list" where
  "tr_ordered r = map snd (sort_key fst (tr_tools r))"

definition snapshot_payload :: "tool_registry \<Rightarrow> json" where
  "snapshot_payload r = JObj
     [(''capabilities'', cr_canonical (tr_capabilities r)), (''schema_version'', JStr ''v2.phase1.1''),
      (''tools'', JList (map tool_canonical (tr_ordered r)))]"

definition capability_snapshot_hash :: "(string \<Rightarrow> string) \<Rightarrow> tool_registry \<Rightarrow> (mut_error, string) result" where
  "capability_snapshot_hash sha r = mut_hash sha (snapshot_payload r)"

subsection \<open>Credentials\<close>

text \<open>A broker answers with a status or \<open>None\<close>; the static one over a fixed set of statuses.\<close>

record credential_status =
  st_capability_id :: string
  st_provider :: string
  st_state :: capability_state
  st_version :: int

type_synonym broker_status = "string \<Rightarrow> credential_status option"

definition static_broker :: "credential_status list \<Rightarrow> broker_status" where
  "static_broker sts i =
     (case normalize_identifier i ''credential_capability_id'' of
        Inl e \<Rightarrow> None
      | Inr k \<Rightarrow> map_of (foldl (\<lambda>m s. AList.update (st_capability_id s) s m) [] sts) k)"

definition broker_is_ready :: "broker_status \<Rightarrow> string \<Rightarrow> bool" where
  "broker_is_ready b i = (case b i of None \<Rightarrow> False | Some s \<Rightarrow> state_ready (st_state s))"

subsection \<open>Rules and evaluation\<close>

datatype policy_reason =
  ALLOWED | UNKNOWN_TOOL | MISSING_POLICY_RULE | EXPLICIT_DENY | APPROVAL_REQUIRED_BY_RULE | APPROVAL_REQUIRED_BY_TOOL
| CAPABILITY_UNKNOWN | CAPABILITY_NOT_READY | CREDENTIAL_CAPABILITY_UNKNOWN | CREDENTIAL_CAPABILITY_NOT_READY
| DESTRUCTIVE_DENIED_BY_DEFAULT | POLICY_ACTION_MISMATCH

record policy_rule =
  pr_policy_action :: string
  pr_decision :: policy_decision

definition policy_rule_new :: "policy_rule \<Rightarrow> (registry_error, policy_rule) result" where
  "policy_rule_new r =
     (let raw = strip (pr_policy_action r)
      in if list_ex (\<lambda>c. c \<in> set raw) ''*?[]'' then Inl (PolicyValidationError ''wildcard'')
         else case normalize_identifier raw ''policy_action'' of
                Inl e \<Rightarrow> Inl (PolicyValidationError ''policy_action'') | Inr a \<Rightarrow> Inr (r\<lparr>pr_policy_action := a\<rparr>))"

type_synonym policy_rules = "(string \<times> policy_rule) list"

definition rule_set_new :: "policy_rule list \<Rightarrow> (registry_error, policy_rules) result" where
  "rule_set_new rules =
     foldl (\<lambda>acc r. bind_r acc (\<lambda>m. if map_of m (pr_policy_action r) \<noteq> None then Inl (PolicyValidationError (pr_policy_action r))
                                  else Inr (AList.update (pr_policy_action r) r m))) (Inr []) rules"

definition rules_get :: "string \<Rightarrow> policy_rules \<Rightarrow> policy_rule option" where
  "rules_get a rules = (case normalize_identifier a ''policy_action'' of Inl e \<Rightarrow> None | Inr k \<Rightarrow> map_of rules k)"

record policy_evaluation =
  pe_tool_id :: string
  pe_policy_action :: string
  pe_decision :: policy_decision
  pe_reason_code :: policy_reason

record policy_engine =
  en_registry :: tool_registry
  en_rules :: policy_rules
  en_broker :: "broker_status option"

definition evaluation :: "tool_definition \<Rightarrow> policy_decision \<Rightarrow> policy_reason \<Rightarrow> policy_evaluation" where
  "evaluation t d r = \<lparr>pe_tool_id = td_tool_id t, pe_policy_action = td_policy_action t, pe_decision = d, pe_reason_code = r\<rparr>"

text \<open>The credential check of \<open>evaluate_tool\<close>: the reason of a denial, if any.\<close>

definition credential_denial :: "policy_engine \<Rightarrow> tool_definition \<Rightarrow> policy_reason option" where
  "credential_denial en t =
     (case td_credential_capability_id t of
        None \<Rightarrow> None
      | Some c \<Rightarrow>
          (case en_broker en of
             None \<Rightarrow> Some CREDENTIAL_CAPABILITY_UNKNOWN
           | Some b \<Rightarrow>
               (case b c of
                  None \<Rightarrow> Some CREDENTIAL_CAPABILITY_UNKNOWN
                | Some s \<Rightarrow> if \<not> state_ready (st_state s) then Some CREDENTIAL_CAPABILITY_NOT_READY else None)))"

definition rule_evaluation :: "policy_engine \<Rightarrow> tool_definition \<Rightarrow> policy_evaluation" where
  "rule_evaluation en t =
     (case rules_get (td_policy_action t) (en_rules en) of
        None \<Rightarrow> evaluation t DENY MISSING_POLICY_RULE
      | Some rule \<Rightarrow>
          if pr_policy_action rule \<noteq> td_policy_action t then evaluation t DENY POLICY_ACTION_MISMATCH
          else if pr_decision rule = DENY then evaluation t DENY EXPLICIT_DENY
          else if pr_decision rule = APPROVAL_REQUIRED then evaluation t APPROVAL_REQUIRED APPROVAL_REQUIRED_BY_RULE
          else if td_approval_requirement t = REQUIRED then evaluation t APPROVAL_REQUIRED APPROVAL_REQUIRED_BY_TOOL
          else evaluation t ALLOW ALLOWED)"

definition evaluate_tool :: "policy_engine \<Rightarrow> tool_definition \<Rightarrow> policy_evaluation" where
  "evaluate_tool en t =
     (if td_is_destructive t then evaluation t DENY DESTRUCTIVE_DENIED_BY_DEFAULT
      else case cr_get (td_capability_id t) (tr_capabilities (en_registry en)) of
             Inl e \<Rightarrow> evaluation t DENY CAPABILITY_UNKNOWN
           | Inr d \<Rightarrow>
               if \<not> state_ready (cd_state d) then evaluation t DENY CAPABILITY_NOT_READY
               else case credential_denial en t of
                      Some r \<Rightarrow> evaluation t DENY r
                    | None \<Rightarrow> rule_evaluation en t)"

definition evaluate :: "policy_engine \<Rightarrow> string \<Rightarrow> policy_evaluation" where
  "evaluate en tool_id =
     (case tr_get tool_id (en_registry en) of
        Inl e \<Rightarrow>
          (let safe = lower_text (strip tool_id)
           in \<lparr>pe_tool_id = (if safe = [] then ''<empty>'' else safe), pe_policy_action = ''<unknown>'', pe_decision = DENY,
               pe_reason_code = UNKNOWN_TOOL\<rparr>)
      | Inr t \<Rightarrow> evaluate_tool en t)"

definition evaluate_all :: "policy_engine \<Rightarrow> policy_evaluation list" where
  "evaluate_all en = map (evaluate_tool en) (tr_ordered (en_registry en))"

subsection \<open>Decisions are fail closed\<close>

text \<open>What every decision but a denial rests on: a registered, harmless tool, ready capabilities, an explicit rule.\<close>

definition policy_grounds :: "policy_engine \<Rightarrow> string \<Rightarrow> tool_definition \<Rightarrow> policy_rule \<Rightarrow> bool" where
  "policy_grounds en i t rule \<longleftrightarrow>
     tr_get i (en_registry en) = Inr t \<and> \<not> td_is_destructive t \<and>
     cr_is_ready (td_capability_id t) (tr_capabilities (en_registry en)) \<and>
     (\<forall>c. td_credential_capability_id t = Some c \<longrightarrow> (\<exists>b. en_broker en = Some b \<and> broker_is_ready b c)) \<and>
     rules_get (td_policy_action t) (en_rules en) = Some rule \<and> pr_policy_action rule = td_policy_action t"

lemma credential_denial_None:
  "credential_denial en t = None \<longleftrightarrow>
   (\<forall>c. td_credential_capability_id t = Some c \<longrightarrow> (\<exists>b. en_broker en = Some b \<and> broker_is_ready b c))"
  by (auto simp: credential_denial_def broker_is_ready_def split: option.splits)

lemma evaluate_tool_not_deny:
  assumes "pe_decision (evaluate_tool en t) \<noteq> DENY"
  shows "\<not> td_is_destructive t \<and> cr_is_ready (td_capability_id t) (tr_capabilities (en_registry en)) \<and> credential_denial en t = None \<and>
    evaluate_tool en t = rule_evaluation en t"
  using assms by (auto simp: evaluate_tool_def evaluation_def cr_is_ready_def split: if_splits sum.splits option.splits)

lemma evaluate_tool_ready:
  assumes "\<not> td_is_destructive t" "cr_is_ready (td_capability_id t) (tr_capabilities (en_registry en))" "credential_denial en t = None"
  shows "evaluate_tool en t = rule_evaluation en t"
  using assms by (auto simp: evaluate_tool_def cr_is_ready_def split: sum.splits)

lemma rule_evaluation_decision:
  "pe_decision (rule_evaluation en t) = d \<and> d \<noteq> DENY \<longleftrightarrow>
   (\<exists>rule. rules_get (td_policy_action t) (en_rules en) = Some rule \<and> pr_policy_action rule = td_policy_action t \<and>
     (if d = ALLOW then pr_decision rule = ALLOW \<and> td_approval_requirement t \<noteq> REQUIRED
      else d = APPROVAL_REQUIRED \<and>
        (pr_decision rule = APPROVAL_REQUIRED \<or> pr_decision rule = ALLOW \<and> td_approval_requirement t = REQUIRED)))"
proof (cases "rules_get (td_policy_action t) (en_rules en)")
  case None
  then show ?thesis by (auto simp: rule_evaluation_def evaluation_def)
next
  case (Some rule)
  then show ?thesis
    by (cases "pr_decision rule"; cases d) (auto simp: rule_evaluation_def evaluation_def)
qed

text \<open>
  C18. The engine fails closed: a tool is allowed exactly when it is registered and not destructive, its capability and the credential
  capability it declares are ready, and the explicit rule of its action says ALLOW without the tool demanding
  approval; it is referred to approval exactly when the rule says so, or says ALLOW for a tool that demands
  approval. Everything else is denied.
\<close>

theorem policy_fail_closed:
  "(pe_decision (evaluate en i) = ALLOW \<longleftrightarrow>
     (\<exists>t rule. policy_grounds en i t rule \<and> pr_decision rule = ALLOW \<and> td_approval_requirement t \<noteq> REQUIRED)) \<and>
   (pe_decision (evaluate en i) = APPROVAL_REQUIRED \<longleftrightarrow>
     (\<exists>t rule. policy_grounds en i t rule \<and>
       (pr_decision rule = APPROVAL_REQUIRED \<or> pr_decision rule = ALLOW \<and> td_approval_requirement t = REQUIRED)))"
proof (cases "tr_get i (en_registry en)")
  case (Inl e)
  then show ?thesis by (simp add: evaluate_def policy_grounds_def Let_def)
next
  case (Inr t)
  then have e: "evaluate en i = evaluate_tool en t" by (simp add: evaluate_def)
  let ?g = "\<not> td_is_destructive t \<and> cr_is_ready (td_capability_id t) (tr_capabilities (en_registry en)) \<and> credential_denial en t = None"
  have d: "pe_decision (evaluate en i) = d \<and> d \<noteq> DENY \<longleftrightarrow> ?g \<and> pe_decision (rule_evaluation en t) = d \<and> d \<noteq> DENY" for d
    using evaluate_tool_not_deny [of en t] evaluate_tool_ready [of t en] e by auto
  show ?thesis
    using d [of ALLOW] d [of APPROVAL_REQUIRED] rule_evaluation_decision [of en t ALLOW] rule_evaluation_decision [of en t APPROVAL_REQUIRED] Inr
    unfolding policy_grounds_def credential_denial_None by auto
qed

subsection \<open>The snapshot identifies the registry\<close>

definition registry_wf :: "tool_registry \<Rightarrow> bool" where
  "registry_wf r \<longleftrightarrow>
     distinct (map fst (tr_tools r)) \<and> (\<forall>(k, t) \<in> set (tr_tools r). td_tool_id t = k) \<and>
     distinct (map fst (cr_capabilities (tr_capabilities r))) \<and>
     (\<forall>(k, d) \<in> set (cr_capabilities (tr_capabilities r)). cd_capability_id d = k)"

text \<open>Registration keeps that, and after \<open>freeze\<close> nothing changes any more.\<close>

lemma alist_update_wf:
  assumes "distinct (map fst xs)" "\<forall>(k, v) \<in> set xs. f v = k" "f w = j"
  shows "distinct (map fst (AList.update j w xs)) \<and> (\<forall>(k, v) \<in> set (AList.update j w xs). f v = k)"
proof
  show d: "distinct (map fst (AList.update j w xs))" using assms(1) by (rule distinct_update)
  show "\<forall>(k, v) \<in> set (AList.update j w xs). f v = k"
  proof clarify
    fix k v assume "(k, v) \<in> set (AList.update j w xs)"
    then have "map_of (AList.update j w xs) k = Some v" using d by (simp add: map_of_eq_Some_iff)
    then have "k = j \<and> v = w \<or> map_of xs k = Some v" by (auto simp: update_conv' split: if_splits)
    then show "f v = k" using assms(2,3) by (auto dest: map_of_SomeD)
  qed
qed

lemma registry_wf_register:
  "registry_wf r \<Longrightarrow> registry_wf (fst (tr_register t r))" "registry_wf r \<Longrightarrow> registry_wf (fst (tr_register_capability d r))"
  using alist_update_wf [of "tr_tools r" td_tool_id t "td_tool_id t"]
    alist_update_wf [of "cr_capabilities (tr_capabilities r)" cd_capability_id d "cd_capability_id d"]
  by (auto simp: registry_wf_def tr_register_def tr_register_capability_def cr_register_def)

lemma frozen_registry_fixed:
  "fst (tr_register t (tr_freeze r)) = tr_freeze r \<and> fst (tr_register_capability d (tr_freeze r)) = tr_freeze r \<and> tr_freeze (tr_freeze r) = tr_freeze r"
  by (simp add: tr_register_def tr_register_capability_def tr_freeze_def cr_freeze_def)

text \<open>A definition with the keys of its schemas in order.\<close>

definition norm_tool :: "tool_definition \<Rightarrow> tool_definition" where
  "norm_tool t = t\<lparr>td_input_schema := canon (td_input_schema t), td_output_schema := canon (td_output_schema t)\<rparr>"

lemma classification_values_inj:
  "tier_value a = tier_value a' \<longleftrightarrow> a = a'" "mutation_class_value b = mutation_class_value b' \<longleftrightarrow> b = b'"
  "idempotency_value c = idempotency_value c' \<longleftrightarrow> c = c'" "retry_class_value d = retry_class_value d' \<longleftrightarrow> d = d'"
  "approval_requirement_value e = approval_requirement_value e' \<longleftrightarrow> e = e'" "shaping_value f = shaping_value f' \<longleftrightarrow> f = f'"
  "stability_value g = stability_value g' \<longleftrightarrow> g = g'" "mode_value m = mode_value m' \<longleftrightarrow> m = m'"
  subgoal by (cases a; cases a'; simp)
  subgoal by (cases b; cases b'; simp)
  subgoal by (cases c; cases c'; simp)
  subgoal by (cases d; cases d'; simp)
  subgoal by (cases e; cases e'; simp)
  subgoal by (cases f; cases f'; simp)
  subgoal by (cases g; cases g'; simp)
  subgoal by (cases m; cases m'; simp add: mode_value_def)
  done

lemma capability_canonical_inj:
  assumes "canon (capability_canonical x) = canon (capability_canonical y)"
  shows "x = (y :: capability_descriptor)"
proof -
  note e = canon_JObj_entry [OF assms [unfolded capability_canonical_def]]
  show ?thesis using e [of "''capability_id''"] e [of "''provider''"] e [of "''state''"] e [of "''version''"] by (simp add: enum_values_inj)
qed

lemma retry_policy_canonical_inj:
  assumes "canon (retry_policy_canonical x) = canon (retry_policy_canonical y)"
  shows "x = (y :: retry_policy)"
proof -
  note e = canon_JObj_entry [OF assms [unfolded retry_policy_canonical_def]]
  show ?thesis
    using e [of "''honor_retry_after''"] e [of "''initial_backoff_seconds''"] e [of "''max_attempts''"] e [of "''max_backoff_seconds''"]
      e [of "''retry_class''"] by (simp add: classification_values_inj)
qed

lemma resource_key_canonical_inj:
  assumes "canon (resource_key_canonical x) = canon (resource_key_canonical y)"
  shows "x = (y :: resource_key)"
proof -
  note e = canon_JObj_entry [OF assms [unfolded resource_key_canonical_def]]
  show ?thesis using e [of "''scope''"] e [of "''selector''"] by simp
qed

lemma tool_canonical_inj: "canon (tool_canonical x) = canon (tool_canonical y) \<longleftrightarrow> norm_tool x = norm_tool y"
proof
  assume a: "canon (tool_canonical x) = canon (tool_canonical y)"
  note e = canon_JObj_entry [OF a [unfolded tool_canonical_def]]
  have "td_retry_policy x = td_retry_policy y" using e [of "''retry_policy''"] retry_policy_canonical_inj by simp
  moreover have "td_resource_key x = td_resource_key y" using e [of "''resource_key''"] resource_key_canonical_inj by simp
  moreover have "td_credential_capability_id x = td_credential_capability_id y"
    using e [of "''credential_capability_id''"] by (simp split: option.splits)
  ultimately show "norm_tool x = norm_tool y"
    using e [of "''approval_requirement''"] e [of "''backend''"] e [of "''capability_id''"] e [of "''deprecated''"] e [of "''execution_mode''"]
      e [of "''idempotency''"] e [of "''input_schema''"] e [of "''mutation_class''"] e [of "''operation''"] e [of "''output_schema''"]
      e [of "''policy_action''"] e [of "''provider''"] e [of "''read_only''"] e [of "''result_shaping''"] e [of "''security_tier''"]
      e [of "''stability''"] e [of "''timeout_seconds''"] e [of "''tool_id''"] e [of "''version''"]
    by (simp add: norm_tool_def classification_values_inj)
next
  assume "norm_tool x = norm_tool y"
  moreover have "canon (tool_canonical t) = canon (tool_canonical (norm_tool t))" for t
    by (simp add: tool_canonical_def norm_tool_def canon_idem split: option.splits)
  ultimately show "canon (tool_canonical x) = canon (tool_canonical y)" by metis
qed

lemma sort_key_map_eq:
  assumes "\<forall>x \<in> set xs. g (f x) = k x"
  shows "map f (sort_key k xs) = sort_key g (map f xs)"
proof -
  have ins: "map f (insort_key k x ys) = insort_key g (f x) (map f ys)" if "g (f x) = k x" "\<forall>y \<in> set ys. g (f y) = k y" for x ys
    using that by (induction ys) auto
  show ?thesis using assms by (induction xs) (simp_all add: ins)
qed

text \<open>Two dictionaries listed in the order of their keys give the same list of views exactly when they give the same set.\<close>

lemma ordered_views:
  fixes g :: "'b \<Rightarrow> 'k :: linorder"
  assumes "distinct (map fst xs)" "distinct (map fst ys)"
    and "\<forall>(k, v) \<in> set xs \<union> set ys. g (f v) = k"
  shows "map (f \<circ> snd) (sort_key fst xs) = map (f \<circ> snd) (sort_key fst ys) \<longleftrightarrow> f ` snd ` set xs = f ` snd ` set ys"
proof
  assume "map (f \<circ> snd) (sort_key fst xs) = map (f \<circ> snd) (sort_key fst ys)"
  then have "set (map (f \<circ> snd) (sort_key fst xs)) = set (map (f \<circ> snd) (sort_key fst ys))" by simp
  then show "f ` snd ` set xs = f ` snd ` set ys" by (simp add: image_comp)
next
  assume e: "f ` snd ` set xs = f ` snd ` set ys"
  have d: "distinct (map (f \<circ> snd) zs) \<and> inj_on g (set (map (f \<circ> snd) zs)) \<and> map (f \<circ> snd) (sort_key fst zs) = sort_key g (map (f \<circ> snd) zs)"
    if "distinct (map fst zs)" "\<forall>(k, v) \<in> set zs. g (f v) = k" for zs
  proof -
    have m: "map g (map (f \<circ> snd) zs) = map fst zs" using that(2) by auto
    have "distinct (map g (map (f \<circ> snd) zs))" unfolding m by (rule that(1))
    moreover have "map (f \<circ> snd) (sort_key fst zs) = sort_key g (map (f \<circ> snd) zs)"
      using that(2) by (intro sort_key_map_eq) auto
    ultimately show ?thesis by (simp only: distinct_map)
  qed
  have "mset (map (f \<circ> snd) xs) = mset (map (f \<circ> snd) ys)"
    using d [of xs] d [of ys] assms e by (subst set_eq_iff_mset_eq_distinct [symmetric]) (auto simp: image_comp)
  then have "sort_key g (map (f \<circ> snd) xs) = sort_key g (map (f \<circ> snd) ys)"
    using d [of xs] assms by (intro sort_key_inj_key_eq) auto
  then show "map (f \<circ> snd) (sort_key fst xs) = map (f \<circ> snd) (sort_key fst ys)" using d [of xs] d [of ys] assms by auto
qed

lemma snapshot_payload_canon:
  "canon (snapshot_payload r) = canon (snapshot_payload r') \<longleftrightarrow>
   cr_ordered (tr_capabilities r) = cr_ordered (tr_capabilities r') \<and> map norm_tool (tr_ordered r) = map norm_tool (tr_ordered r')"
proof -
  have "inj (\<lambda>x. canon (capability_canonical x))" using capability_canonical_inj by (auto simp: inj_def)
  then have c: "map (canon \<circ> capability_canonical) xs = map (canon \<circ> capability_canonical) ys \<longleftrightarrow> xs = ys" for xs ys
    by (intro inj_map_eq_map) (simp add: comp_def)
  have t: "map (canon \<circ> tool_canonical) xs = map (canon \<circ> tool_canonical) ys \<longleftrightarrow> map norm_tool xs = map norm_tool ys" for xs ys
    by (auto simp: list_eq_iff_nth_eq tool_canonical_inj)
  show ?thesis
  proof
    assume a: "canon (snapshot_payload r) = canon (snapshot_payload r')"
    note e = canon_JObj_entry [OF a [unfolded snapshot_payload_def]]
    show "cr_ordered (tr_capabilities r) = cr_ordered (tr_capabilities r') \<and> map norm_tool (tr_ordered r) = map norm_tool (tr_ordered r')"
      using e [of "''capabilities''"] e [of "''tools''"] c t by (simp add: cr_canonical_def)
  next
    assume "cr_ordered (tr_capabilities r) = cr_ordered (tr_capabilities r') \<and> map norm_tool (tr_ordered r) = map norm_tool (tr_ordered r')"
    then show "canon (snapshot_payload r) = canon (snapshot_payload r')"
      using t [of "tr_ordered r" "tr_ordered r'"] by (simp add: snapshot_payload_def cr_canonical_def)
  qed
qed

text \<open>
  The snapshot digest identifies the tool surface: two registries built with the same digest function
  have equal snapshot hashes exactly when they hold the same capabilities and the same tool definitions,
  schemas up to the order of keys, whatever the order of registration; every material change changes the
  hash.
\<close>

theorem snapshot_hash_exact:
  assumes "inj sha" and "registry_wf r" and "registry_wf r'"
    and "capability_snapshot_hash sha r = Inr h" and "capability_snapshot_hash sha r' = Inr h'"
  shows "h = h' \<longleftrightarrow>
    snd ` set (cr_capabilities (tr_capabilities r)) = snd ` set (cr_capabilities (tr_capabilities r')) \<and>
    norm_tool ` snd ` set (tr_tools r) = norm_tool ` snd ` set (tr_tools r')"
proof -
  have v: "json_validate (snapshot_payload r)" "json_validate (snapshot_payload r')"
    "h = sha (dumps (snapshot_payload r))" "h' = sha (dumps (snapshot_payload r'))"
    using assms(4,5) by (simp_all add: capability_snapshot_hash_def mut_hash_Inr)
  have "h = h' \<longleftrightarrow> canon (snapshot_payload r) = canon (snapshot_payload r')"
    unfolding v(3,4) inj_eq [OF assms(1)] using canonical_text_inj [OF v(1,2)] dumps_canon by metis
  moreover have c: "distinct (map fst (cr_capabilities (tr_capabilities r)))" "distinct (map fst (cr_capabilities (tr_capabilities r')))"
    "\<forall>(k, d) \<in> set (cr_capabilities (tr_capabilities r)) \<union> set (cr_capabilities (tr_capabilities r')). cd_capability_id d = k"
    using assms(2,3) by (auto simp: registry_wf_def)
  from ordered_views [OF c(1,2), of cd_capability_id "\<lambda>d. d"] c(3)
  have "cr_ordered (tr_capabilities r) = cr_ordered (tr_capabilities r') \<longleftrightarrow>
      snd ` set (cr_capabilities (tr_capabilities r)) = snd ` set (cr_capabilities (tr_capabilities r'))"
    by (simp add: cr_ordered_def comp_def)
  moreover have t: "distinct (map fst (tr_tools r))" "distinct (map fst (tr_tools r'))"
    "\<forall>(k, d) \<in> set (tr_tools r) \<union> set (tr_tools r'). td_tool_id (norm_tool d) = k"
    using assms(2,3) by (auto simp: registry_wf_def norm_tool_def)
  from ordered_views [OF t(1,2), of td_tool_id norm_tool] t(3)
  have "map norm_tool (tr_ordered r) = map norm_tool (tr_ordered r') \<longleftrightarrow> norm_tool ` snd ` set (tr_tools r) = norm_tool ` snd ` set (tr_tools r')"
    by (simp add: tr_ordered_def)
  ultimately show ?thesis by (simp add: snapshot_payload_canon)
qed

definition sample_registry :: "capability_descriptor list \<Rightarrow> tool_registry" where
  "sample_registry ds = \<lparr>tr_capabilities = \<lparr>cr_capabilities = map (\<lambda>d. (cd_capability_id d, d)) ds, cr_frozen = True\<rparr>,
     tr_tools = [], tr_frozen = True\<rparr>"

definition sample_capability :: "string \<Rightarrow> capability_state \<Rightarrow> capability_descriptor" where
  "sample_capability i s = \<lparr>cd_capability_id = i, cd_provider = ''github'', cd_state = s, cd_version = 1\<rparr>"

theorem snapshot_hash_exact_witness:
  "capability_snapshot_hash (\<lambda>s. s) (sample_registry [sample_capability ''a'' READY, sample_capability ''b'' READY]) =
     capability_snapshot_hash (\<lambda>s. s) (sample_registry [sample_capability ''b'' READY, sample_capability ''a'' READY]) \<and>
   capability_snapshot_hash (\<lambda>s. s) (sample_registry [sample_capability ''a'' READY]) \<noteq>
     capability_snapshot_hash (\<lambda>s. s) (sample_registry [sample_capability ''a'' DEGRADED])"
proof -
  have i: "inj (\<lambda>s :: string. s)" by (simp add: inj_def)
  have h: "capability_snapshot_hash (\<lambda>s. s) (sample_registry ds) = Inr (dumps (snapshot_payload (sample_registry ds)))" for ds
    by (simp add: capability_snapshot_hash_def mut_hash_Inr)
       (simp add: snapshot_payload_def cr_canonical_def capability_canonical_def sample_registry_def tr_ordered_def)
  have w: "registry_wf (sample_registry ds)" if "distinct (map cd_capability_id ds)" for ds
    using that by (auto simp: registry_wf_def sample_registry_def comp_def)
  show ?thesis
    using snapshot_hash_exact [OF i w w h h, of "[sample_capability ''a'' READY, sample_capability ''b'' READY]"
          "[sample_capability ''b'' READY, sample_capability ''a'' READY]"]
      snapshot_hash_exact [OF i w w h h, of "[sample_capability ''a'' READY]" "[sample_capability ''a'' DEGRADED]"]
    unfolding h by (auto simp: sample_registry_def sample_capability_def)
qed

end
