(* ===== verification/Github_Registry.thy ===== *)
theory Github_Registry
  imports Policy_Engine
begin

section \<open>Typed GitHub mutations (v2/github\_mutation\_registry.py)\<close>

text \<open>
  The closed set of mutations with their schemas, the validation and normalization of their arguments, and their
  contracts. The arguments of a caller are any JSON values: \<open>arguments.get(k)\<close> of a missing key is \<open>None\<close>.
\<close>

subsection \<open>Validation\<close>

definition reg_deny :: "mutation_reason \<Rightarrow> mut_error" where
  "reg_deny r = MutationDenied r REGISTRY"

definition arg_of :: "(string \<times> json) list \<Rightarrow> string \<Rightarrow> json" where
  "arg_of kvs k = (case map_of kvs k of None \<Rightarrow> JNull | Some v \<Rightarrow> v)"

definition re_repo_segment :: "string \<Rightarrow> bool" where
  "re_repo_segment s \<longleftrightarrow> re_ident ''._-'' 99 s"

definition validate_repository :: "json \<Rightarrow> json \<Rightarrow> (mut_error, string) result" where
  "validate_repository owner repo =
     (case (owner, repo) of
        (JStr a, JStr b) \<Rightarrow>
          if \<not> re_repo_segment a \<or> \<not> re_repo_segment b then Inl (MutationScopeError INVALID_ARGUMENTS SCOPE) else Inr (a @ ''/'' @ b)
      | _ \<Rightarrow> Inl (MutationScopeError INVALID_ARGUMENTS SCOPE))"

definition BRANCH_TOKENS :: "string list" where
  "BRANCH_TOKENS = [''..'', ''//'', [backslash], ''@'' @ [CHR 0x7B], ''~'', ''^'', '':'', ''?'', ''*'', ''['', '']'']"

text \<open>The checks of \<open>validate_branch_name\<close> on a text, in their order.\<close>

definition branch_name_ok :: "string \<Rightarrow> bool" where
  "branch_name_ok n \<longleftrightarrow>
     n \<noteq> [] \<and> list_all (\<lambda>c. of_char c < (128 :: nat)) n \<and>
     \<not> list_ex (\<lambda>c. of_char c < (32 :: nat) \<or> of_char c = (127 :: nat)) n \<and> \<not> has_space n \<and>
     \<not> starts_with ''-'' n \<and> \<not> starts_with ''/'' n \<and> \<not> starts_with ''.'' n \<and>
     \<not> ends_with ''/'' n \<and> \<not> ends_with ''.'' n \<and> \<not> ends_with ''.lock'' n \<and>
     \<not> list_ex (\<lambda>t. substr t n) BRANCH_TOKENS \<and> \<not> starts_with ''refs/'' (lower_text n) \<and> re_ident ''._/-'' 254 n"

definition validate_branch_name :: "json \<Rightarrow> (mut_error, string) result" where
  "validate_branch_name v =
     (case v of JStr n \<Rightarrow> if branch_name_ok n then Inr n else Inl (reg_deny INVALID_REF_NAME) | _ \<Rightarrow> Inl (reg_deny INVALID_REF_NAME))"

definition qualified_ref :: "json \<Rightarrow> (mut_error, string) result" where
  "qualified_ref v = bind_r (validate_branch_name v) (\<lambda>n. Inr (''refs/heads/'' @ n))"

definition validate_sha :: "json \<Rightarrow> (mut_error, string) result" where
  "validate_sha v = (case v of JStr s \<Rightarrow> if length s = 40 \<and> list_all hex_lower s then Inr s else Inl (reg_deny INVALID_ARGUMENTS) | _ \<Rightarrow> Inl (reg_deny INVALID_ARGUMENTS))"

text \<open>\<open>_validate_text\<close>\<close>

definition validate_text :: "int \<Rightarrow> bool \<Rightarrow> json \<Rightarrow> (mut_error, string) result" where
  "validate_text maximum required v =
     (if v = JNull \<and> \<not> required then Inr []
      else case v of
             JStr s \<Rightarrow>
               if required \<and> strip s = [] then Inl (reg_deny INVALID_ARGUMENTS)
               else if int (code_points s) > maximum then Inl (reg_deny INVALID_ARGUMENTS)
               else if list_ex (\<lambda>c. of_char c < (32 :: nat) \<and> c \<notin> {CHR 0x0A, CHR 0x09}) s then Inl (reg_deny INVALID_ARGUMENTS)
               else if CHR 0x7F \<in> set s then Inl (reg_deny INVALID_ARGUMENTS)
               else Inr s
           | _ \<Rightarrow> Inl (reg_deny INVALID_ARGUMENTS))"

subsection \<open>Schemas\<close>

definition MAX_TITLE_LENGTH :: int where "MAX_TITLE_LENGTH = 200"
definition MAX_BODY_LENGTH :: int where "MAX_BODY_LENGTH = 8000"
definition MUTATION_TIMEOUT_SECONDS :: int where "MUTATION_TIMEOUT_SECONDS = 30"
definition CREATE_BRANCH_TOOL_ID :: string where "CREATE_BRANCH_TOOL_ID = ''github.create_branch''"
definition CREATE_PR_TOOL_ID :: string where "CREATE_PR_TOOL_ID = ''github.create_pr''"

definition object_schema :: "(string \<times> json) list \<Rightarrow> string list \<Rightarrow> (string \<times> json) list" where
  "object_schema properties required =
     [(''type'', JStr ''object''), (''additionalProperties'', JBool False), (''properties'', JObj properties),
      (''required'', JList (map JStr required))]"

definition sha_property :: "string \<Rightarrow> json" where
  "sha_property hint = JObj [(''type'', JStr ''string''), (''pattern'', JStr ''^[0-9a-f]{40}$''), (''minLength'', JInt 40),
     (''maxLength'', JInt 40), (''title'', JStr hint)]"

definition text_property :: "int option \<Rightarrow> int option \<Rightarrow> json" where
  "text_property lo hi = JObj ([(''type'', JStr ''string'')] @ (case lo of None \<Rightarrow> [] | Some n \<Rightarrow> [(''minLength'', JInt n)]) @
     (case hi of None \<Rightarrow> [] | Some n \<Rightarrow> [(''maxLength'', JInt n)]))"

definition repository_properties :: "(string \<times> json) list" where
  "repository_properties = [(''owner'', text_property (Some 1) (Some 100)), (''repo'', text_property (Some 1) (Some 100))]"

definition create_branch_input_schema :: "(string \<times> json) list" where
  "create_branch_input_schema = object_schema
     (repository_properties @ [(''branch'', text_property (Some 1) (Some 255)), (''base_sha'', sha_property ''pinned base commit'')])
     [''owner'', ''repo'', ''branch'', ''base_sha'']"

definition create_pr_input_schema :: "(string \<times> json) list" where
  "create_pr_input_schema = object_schema
     (repository_properties @
      [(''head'', text_property (Some 1) (Some 255)), (''base'', text_property (Some 1) (Some 255)),
       (''title'', text_property (Some 1) (Some MAX_TITLE_LENGTH)), (''body'', text_property None (Some MAX_BODY_LENGTH)),
       (''draft'', JObj [(''type'', JStr ''boolean'')]), (''expected_head_sha'', sha_property ''expected head commit'')])
     [''owner'', ''repo'', ''head'', ''base'', ''title'', ''expected_head_sha'']"

definition enum_property :: "string list \<Rightarrow> json" where
  "enum_property vs = JObj [(''type'', JStr ''string''), (''enum'', JList (map JStr vs))]"

definition result_schema :: "(string \<times> json) list \<Rightarrow> string list \<Rightarrow> (string \<times> json) list" where
  "result_schema properties required = object_schema
     ([(''repository'', text_property None None), (''operation_digest'', text_property None None),
       (''idempotency_status'', enum_property [''NEW'', ''REPLAYED'', ''IN_PROGRESS'']),
       (''outcome'', enum_property [''PENDING'', ''COMMITTED'', ''FAILED_CLEAN'', ''AMBIGUOUS'', ''DENIED''])] @ properties)
     ([''repository'', ''outcome'', ''idempotency_status''] @ required)"

definition create_branch_output_schema :: "(string \<times> json) list" where
  "create_branch_output_schema = result_schema
     [(''ref'', text_property None None), (''sha'', sha_property ''created ref target''), (''url'', text_property None None)] [''ref'']"

definition create_pr_output_schema :: "(string \<times> json) list" where
  "create_pr_output_schema = result_schema
     [(''number'', JObj [(''type'', JStr ''integer''), (''minimum'', JInt 1)]), (''head_sha'', sha_property ''head commit at creation''),
      (''state'', enum_property [''open'', ''closed'']), (''draft'', JObj [(''type'', JStr ''boolean'')]), (''url'', text_property None None)]
     [''number'']"

subsection \<open>Normalization\<close>

definition schema_properties :: "(string \<times> json) list \<Rightarrow> string list" where
  "schema_properties sch = (case map_of sch ''properties'' of Some (JObj ps) \<Rightarrow> map fst ps | _ \<Rightarrow> [])"

definition schema_required :: "(string \<times> json) list \<Rightarrow> string list" where
  "schema_required sch = (case map_of sch ''required'' of Some (JList xs) \<Rightarrow> concat (map (\<lambda>x. case x of JStr k \<Rightarrow> [k] | _ \<Rightarrow> []) xs) | _ \<Rightarrow> [])"

definition reject_unknown_keys :: "(string \<times> json) list \<Rightarrow> (string \<times> json) list \<Rightarrow> (mut_error, unit) result" where
  "reject_unknown_keys args sch =
     (if \<not> set (map fst args) \<subseteq> set (schema_properties sch) then Inl (reg_deny INVALID_ARGUMENTS)
      else if \<not> set (schema_required sch) \<subseteq> set (map fst args) then Inl (reg_deny INVALID_ARGUMENTS)
      else Inr ())"

definition normalize_create_branch_arguments :: "(string \<times> json) list \<Rightarrow> (mut_error, (string \<times> json) list) result" where
  "normalize_create_branch_arguments args =
     bind_r (reject_unknown_keys args create_branch_input_schema) (\<lambda>_.
     bind_r (validate_repository (arg_of args ''owner'') (arg_of args ''repo'')) (\<lambda>repository.
     bind_r (validate_branch_name (arg_of args ''branch'')) (\<lambda>branch.
     bind_r (validate_sha (arg_of args ''base_sha'')) (\<lambda>sha.
     Inr [(''base_sha'', JStr sha), (''branch'', JStr branch), (''ref'', JStr (''refs/heads/'' @ branch)), (''repository'', JStr repository)]))))"

definition normalize_create_pr_arguments :: "(string \<times> json) list \<Rightarrow> (mut_error, (string \<times> json) list) result" where
  "normalize_create_pr_arguments args =
     bind_r (reject_unknown_keys args create_pr_input_schema) (\<lambda>_.
     bind_r (validate_repository (arg_of args ''owner'') (arg_of args ''repo'')) (\<lambda>repository.
     bind_r (validate_branch_name (arg_of args ''head'')) (\<lambda>hd_branch.
     bind_r (validate_branch_name (arg_of args ''base'')) (\<lambda>base.
     if hd_branch = base then Inl (reg_deny INVALID_ARGUMENTS) else
     bind_r (validate_text MAX_TITLE_LENGTH True (arg_of args ''title'')) (\<lambda>title.
     bind_r (validate_text MAX_BODY_LENGTH False (arg_of args ''body'')) (\<lambda>body.
     bind_r (case map_of args ''draft'' of None \<Rightarrow> Inr True | Some (JBool b) \<Rightarrow> Inr b | Some _ \<Rightarrow> Inl (reg_deny INVALID_ARGUMENTS)) (\<lambda>draft.
     bind_r (validate_sha (arg_of args ''expected_head_sha'')) (\<lambda>sha.
     Inr [(''base'', JStr base), (''body'', JStr body), (''draft'', JBool draft), (''expected_head_sha'', JStr sha),
          (''head'', JStr hd_branch), (''repository'', JStr repository), (''title'', JStr title)]))))))))"

definition unknown_mutation :: "string \<Rightarrow> mut_error" where
  "unknown_mutation tool_id =
     (let i = lower_text (strip tool_id)
      in if i \<in> {''github.delete_repository'', ''github.delete_ref''} then reg_deny DESTRUCTIVE_OPERATION_FORBIDDEN
         else if i \<in> {''github.delete_repository'', ''github.delete_ref'', ''github.update_ref'', ''github.merge_pr''}
         then reg_deny MUTATION_NOT_REGISTERED
         else reg_deny UNKNOWN_MUTATION)"

definition normalize_arguments :: "string \<Rightarrow> (string \<times> json) list \<Rightarrow> (mut_error, (string \<times> json) list) result" where
  "normalize_arguments tool_id args =
     (if tool_id = CREATE_BRANCH_TOOL_ID then normalize_create_branch_arguments args
      else if tool_id = CREATE_PR_TOOL_ID then normalize_create_pr_arguments args
      else Inl (unknown_mutation tool_id))"

subsection \<open>Contracts\<close>

datatype parallel_safety = SERIALIZE_PER_RESOURCE | UNRESTRICTED

record read_back_contract =
  rb_required :: bool
  rb_endpoint_template :: string
  rb_verified_fields :: "string list"
  rb_unverifiable_outcome :: mutation_outcome

definition read_back_contract_new :: "read_back_contract \<Rightarrow> (mut_error, read_back_contract) result" where
  "read_back_contract_new r =
     (if \<not> rb_required r \<or> rb_verified_fields r = [] \<or> rb_unverifiable_outcome r \<noteq> AMBIGUOUS then Inl (reg_deny INVALID_ARGUMENTS) else Inr r)"

record mutation_contract =
  mc_tool_id :: string
  mc_definition :: tool_definition
  mc_write_capability :: write_capability
  mc_parallel_safety :: parallel_safety
  mc_read_back :: read_back_contract
  mc_method :: string
  mc_endpoint_template :: string
  mc_success_status :: "int list"
  mc_clean_failure_status :: "int list"
  mc_ambiguous_status :: "int list"
  mc_precondition_fields :: "string list"
  mc_result_fields :: "string list"
  mc_compensation :: string

definition require_write_capability :: "write_capability \<Rightarrow> (mut_error, string) result" where
  "require_write_capability c =
     (let v = write_capability_value c
      in if v = ''github.read'' \<or> \<not> starts_with ''github.write'' v then Inl (MutationDenied WRITE_CAPABILITY_MISMATCH CREDENTIAL) else Inr v)"

definition mutation_contract_new :: "mutation_contract \<Rightarrow> (mut_error, mutation_contract) result" where
  "mutation_contract_new c =
     (let d = mc_definition c
      in if mc_tool_id c \<notin> {CREATE_BRANCH_TOOL_ID, CREATE_PR_TOOL_ID} then Inl (reg_deny MUTATION_NOT_REGISTERED)
         else if td_tool_id d \<noteq> mc_tool_id c then Inl (reg_deny INVALID_ARGUMENTS)
         else if td_read_only d \<or> td_mutation_class d = MUT_NONE then Inl (reg_deny INVALID_ARGUMENTS)
         else if td_mutation_class d = MUT_DESTRUCTIVE \<or> td_is_destructive d then Inl (reg_deny DESTRUCTIVE_OPERATION_FORBIDDEN)
         else if mc_method c \<noteq> ''POST'' then Inl (reg_deny INVALID_ARGUMENTS)
         else if CHR ''{'' \<notin> set (mc_endpoint_template c) \<or> starts_with ''http'' (mc_endpoint_template c) then Inl (reg_deny INVALID_ARGUMENTS)
         else if td_credential_capability_id d \<noteq> Some (write_capability_value (mc_write_capability c))
         then Inl (MutationDenied WRITE_CAPABILITY_MISMATCH CREDENTIAL)
         else bind_r (require_write_capability (mc_write_capability c)) (\<lambda>_.
              if td_idempotency d \<noteq> IDEMPOTENT_BY_PRECONDITION \<or> mc_precondition_fields c = [] then Inl (reg_deny INVALID_ARGUMENTS)
              else if retry_class (td_retry_policy d) \<noteq> NO_RETRY \<or> max_attempts (td_retry_policy d) \<noteq> 1 then Inl (reg_deny INVALID_ARGUMENTS)
              else if td_approval_requirement d \<noteq> REQUIRED then Inl (MutationDenied APPROVAL_MISSING APPROVAL)
              else if set (mc_success_status c) \<inter> (set (mc_clean_failure_status c) \<union> set (mc_ambiguous_status c)) \<noteq> {} \<or>
                   set (mc_clean_failure_status c) \<inter> set (mc_ambiguous_status c) \<noteq> {} then Inl (reg_deny INVALID_ARGUMENTS)
              else Inr c))"

definition classify_status :: "mutation_contract \<Rightarrow> int \<Rightarrow> mutation_outcome" where
  "classify_status c status =
     (if status \<in> set (mc_success_status c) then COMMITTED
      else if status \<in> set (mc_clean_failure_status c) then FAILED_CLEAN else AMBIGUOUS)"

definition mutation_definition ::
  "string \<Rightarrow> string \<Rightarrow> string \<Rightarrow> (string \<times> json) list \<Rightarrow> (string \<times> json) list \<Rightarrow> write_capability \<Rightarrow> tool_definition" where
  "mutation_definition tool_id op action inp outp cap =
     \<lparr>td_tool_id = tool_id, td_provider = ''github'', td_operation = op, td_version = 1, td_execution_mode = MODE_DIRECT,
      td_input_schema = JObj inp, td_output_schema = JObj outp, td_security_tier = T3, td_read_only = False,
      td_mutation_class = MUT_STANDARD, td_idempotency = IDEMPOTENT_BY_PRECONDITION, td_policy_action = action,
      td_approval_requirement = REQUIRED, td_capability_id = ''github.api'', td_credential_capability_id = Some (write_capability_value cap),
      td_timeout_seconds = MUTATION_TIMEOUT_SECONDS,
      td_retry_policy = \<lparr>retry_class = NO_RETRY, max_attempts = 1, initial_backoff_seconds = 0, max_backoff_seconds = 0, honor_retry_after = True\<rparr>,
      td_resource_key = \<lparr>rk_scope = ''repository'', rk_selector = ''default''\<rparr>, td_result_shaping = SHAPING_REQUIRED,
      td_stability = EXPERIMENTAL, td_deprecated = False, td_backend = ''github-rest''\<rparr>"

definition create_branch_contract :: mutation_contract where
  "create_branch_contract =
     \<lparr>mc_tool_id = CREATE_BRANCH_TOOL_ID,
      mc_definition = mutation_definition CREATE_BRANCH_TOOL_ID ''create_branch'' ''github.branch.create''
        create_branch_input_schema create_branch_output_schema CAP_BRANCH,
      mc_write_capability = CAP_BRANCH, mc_parallel_safety = SERIALIZE_PER_RESOURCE,
      mc_read_back = \<lparr>rb_required = True, rb_endpoint_template = ''/repos/{owner}/{repo}/git/ref/heads/{branch}'',
        rb_verified_fields = [''ref'', ''sha''], rb_unverifiable_outcome = AMBIGUOUS\<rparr>,
      mc_method = ''POST'', mc_endpoint_template = ''/repos/{owner}/{repo}/git/refs'', mc_success_status = [201],
      mc_clean_failure_status = [401, 403, 404, 422], mc_ambiguous_status = [408, 429, 500, 502, 503, 504],
      mc_precondition_fields = [''base_sha''], mc_result_fields = [''ref'', ''sha'', ''url''],
      mc_compensation = ''delete_created_ref_if_unreferenced_and_at_base_sha''\<rparr>"

definition create_pr_contract :: mutation_contract where
  "create_pr_contract =
     \<lparr>mc_tool_id = CREATE_PR_TOOL_ID,
      mc_definition = mutation_definition CREATE_PR_TOOL_ID ''create_pr'' ''github.pr.create''
        create_pr_input_schema create_pr_output_schema CAP_PR,
      mc_write_capability = CAP_PR, mc_parallel_safety = SERIALIZE_PER_RESOURCE,
      mc_read_back = \<lparr>rb_required = True, rb_endpoint_template = ''/repos/{owner}/{repo}/pulls/{number}'',
        rb_verified_fields = [''number'', ''head_sha'', ''state''], rb_unverifiable_outcome = AMBIGUOUS\<rparr>,
      mc_method = ''POST'', mc_endpoint_template = ''/repos/{owner}/{repo}/pulls'', mc_success_status = [201],
      mc_clean_failure_status = [401, 403, 404, 422], mc_ambiguous_status = [408, 429, 500, 502, 503, 504],
      mc_precondition_fields = [''expected_head_sha''], mc_result_fields = [''number'', ''head_sha'', ''state'', ''draft'', ''url''],
      mc_compensation = ''close_pull_request_never_delete''\<rparr>"

definition mutation_contracts :: "(string \<times> mutation_contract) list" where
  "mutation_contracts = [(CREATE_BRANCH_TOOL_ID, create_branch_contract), (CREATE_PR_TOOL_ID, create_pr_contract)]"

definition get_mutation_contract :: "string \<Rightarrow> (mut_error, mutation_contract) result" where
  "get_mutation_contract tool_id =
     (case map_of mutation_contracts (lower_text (strip tool_id)) of None \<Rightarrow> Inl (unknown_mutation tool_id) | Some c \<Rightarrow> Inr c)"

definition github_mutation_policy_rules :: policy_rules where
  "github_mutation_policy_rules =
     [(''github.branch.create'', \<lparr>pr_policy_action = ''github.branch.create'', pr_decision = APPROVAL_REQUIRED\<rparr>),
      (''github.pr.create'', \<lparr>pr_policy_action = ''github.pr.create'', pr_decision = APPROVAL_REQUIRED\<rparr>)]"

definition build_github_mutation_registry :: "capability_state \<Rightarrow> capability_state \<Rightarrow> capability_state \<Rightarrow> tool_registry" where
  "build_github_mutation_registry api branch pr =
     (let cap = (\<lambda>i s. (i, \<lparr>cd_capability_id = i, cd_provider = ''github'', cd_state = s, cd_version = 1\<rparr>))
      in \<lparr>tr_capabilities = \<lparr>cr_capabilities = [cap ''github.api'' api, cap ''github.write.branch'' branch, cap ''github.write.pr'' pr], cr_frozen = True\<rparr>,
          tr_tools = map (\<lambda>(i, c). (i, mc_definition c)) mutation_contracts, tr_frozen = True\<rparr>)"

text \<open>The contracts pass the checks of their constructors.\<close>

lemma contracts_valid:
  "mutation_contract_new create_branch_contract = Inr create_branch_contract"
  "mutation_contract_new create_pr_contract = Inr create_pr_contract"
  by (simp_all add: mutation_contract_new_def create_branch_contract_def create_pr_contract_def mutation_definition_def
      CREATE_BRANCH_TOOL_ID_def CREATE_PR_TOOL_ID_def Let_def td_is_destructive_def starts_with_def require_write_capability_def)

lemma get_mutation_contract_cases:
  "get_mutation_contract i = Inr c \<Longrightarrow> c = create_branch_contract \<or> c = create_pr_contract"
  by (auto simp: get_mutation_contract_def mutation_contracts_def split: option.splits if_splits)

end
