(* ===== verification/Mutation_Audit.thy ===== *)
theory Mutation_Audit
  imports Mutation_Digest
begin

section \<open>Write-ahead mutation audit (v2/mutation\_audit.py)\<close>

text \<open>
  The records a mutation leaves before and after its provider call: the validated values that enter
  them, the two sinks, and the ledger that issues a handle only over a record it has seen stored and
  closes it once. A sink is given by its operations, as the \<open>AuditSink\<close> protocol has it. Handles are
  mutable objects compared by identity: they live in a heap and are named by their address. Fields
  checked with \<open>isinstance\<close> have that type here; \<open>None\<close> and an empty mapping are both falsy and are the
  empty list.
\<close>

subsection \<open>Texts that may be recorded\<close>

definition audit_error :: "mutation_reason \<Rightarrow> mut_error" where
  "audit_error r = AuditWriteError r WRITE_AHEAD_AUDIT"

definition redaction_error :: mut_error where
  "redaction_error = audit_error REDACTION_UNPROVEN"

definition audit_unwritable :: mut_error where
  "audit_unwritable = audit_error AUDIT_RECORD_UNWRITABLE"

definition SECRET_MARKERS :: "string list" where
  "SECRET_MARKERS =
     [''ghp_'', ''gho_'', ''ghu_'', ''ghs_'', ''ghr_'', ''github_pat_'', ''-----begin'', ''authorization:'', ''bearer '',
      ''basic '', ''private_key'', ''client_secret'', ''installation_id'', ''access_token'', ''refresh_token'', ''password'',
      ''x-hub-signature'']"

text \<open>\<^verbatim>\<open>[A-Za-z0-9+/_=-]{80,}\<close> somewhere in the text\<close>

fun has_run :: "(char \<Rightarrow> bool) \<Rightarrow> nat \<Rightarrow> string \<Rightarrow> bool" where
  "has_run p n [] = (n = 0)"
| "has_run p n (c # cs) = (n \<le> length (takeWhile p (c # cs)) \<or> has_run p n cs)"

definition opaque_char :: "char \<Rightarrow> bool" where
  "opaque_char c \<longleftrightarrow> ascii_alnum c \<or> c \<in> set ''+/_=-''"

definition looks_secret_bearing :: "string \<Rightarrow> bool" where
  "looks_secret_bearing v \<longleftrightarrow> list_ex (\<lambda>m. substr m (lower_text v)) SECRET_MARKERS \<or> has_run opaque_char 80 v"

definition require_safe_text :: "nat \<Rightarrow> string \<Rightarrow> (mut_error, string) result" where
  "require_safe_text max_length v =
     (if v = [] then Inl redaction_error
      else if code_points v > max_length then Inl redaction_error
      else if list_ex (\<lambda>c. c \<in> {CHR 0x0A, CHR 0x0D, CHR 0x00}) v then Inl redaction_error
      else if looks_secret_bearing v then Inl redaction_error
      else Inr v)"

text \<open>\<open>pattern.match\<close> of a pattern between \<^verbatim>\<open>^\<close> and \<^verbatim>\<open>$\<close>, which also matches before a final newline.\<close>

definition re_dollar :: "(string \<Rightarrow> bool) \<Rightarrow> string \<Rightarrow> bool" where
  "re_dollar p s \<longleftrightarrow> p s \<or> (s \<noteq> [] \<and> last s = CHR 0x0A \<and> p (butlast s))"

definition re_hex :: "nat \<Rightarrow> string \<Rightarrow> bool" where
  "re_hex n s \<longleftrightarrow> length s = n \<and> list_all hex_lower s"

definition repo_part :: "string \<Rightarrow> bool" where
  "repo_part s \<longleftrightarrow> 1 \<le> length s \<and> length s \<le> 100 \<and> list_all (\<lambda>c. ascii_alnum c \<or> c \<in> set ''_.-'') s"

definition re_repository :: "string \<Rightarrow> bool" where
  "re_repository s \<longleftrightarrow>
     (let own = takeWhile (\<lambda>c. c \<noteq> CHR ''/'') s; rest = dropWhile (\<lambda>c. c \<noteq> CHR ''/'') s
      in repo_part own \<and> rest \<noteq> [] \<and> repo_part (tl rest))"

text \<open>\<^verbatim>\<open>[a-z0-9]+(?:[._][a-z0-9]+)+\<close>: at least two words, one dot or underscore between them\<close>

definition re_operation :: "string \<Rightarrow> bool" where
  "re_operation s \<longleftrightarrow>
     (let ws = concat (map (split_on (CHR ''_'')) (split_on (CHR ''.'') s))
      in length ws \<ge> 2 \<and> list_all (\<lambda>w. w \<noteq> [] \<and> list_all (\<lambda>c. ascii_lower c \<or> CHR ''0'' \<le> c \<and> c \<le> CHR ''9'') w) ws)"

definition re_opaque_id :: "string \<Rightarrow> bool" where
  "re_opaque_id s \<longleftrightarrow> re_ident ''._:-'' 127 s"

definition MAX_STRING_LENGTH :: nat where "MAX_STRING_LENGTH = 256"

definition require_pattern :: "(string \<Rightarrow> bool) \<Rightarrow> string \<Rightarrow> (mut_error, string) result" where
  "require_pattern p v =
     bind_r (require_safe_text MAX_STRING_LENGTH v) (\<lambda>t. if re_dollar p t then Inr t else Inl audit_unwritable)"

definition require_optional_pattern :: "(string \<Rightarrow> bool) \<Rightarrow> string option \<Rightarrow> (mut_error, string option) result" where
  "require_optional_pattern p v = (case v of None \<Rightarrow> Inr None | Some x \<Rightarrow> bind_r (require_pattern p x) (\<lambda>t. Inr (Some t)))"

definition PRECONDITION_KEYS :: "string list" where
  "PRECONDITION_KEYS = [''base_sha'', ''expected_head_sha'', ''merge_base_sha'']"

definition require_preconditions :: "(string \<times> string) list \<Rightarrow> (mut_error, (string \<times> string) list) result" where
  "require_preconditions kvs =
     bind_r (traverse (\<lambda>(k, v). if k \<notin> set PRECONDITION_KEYS then Inl redaction_error
                              else bind_r (require_pattern (re_hex 40) v) (\<lambda>t. Inr (k, t))) kvs)
       (\<lambda>items. Inr (sort_key fst items))"

definition require_artifact_refs :: "(string \<times> string) list \<Rightarrow> (mut_error, (string \<times> string) list) result" where
  "require_artifact_refs kvs =
     bind_r (traverse (\<lambda>(k, v).
         bind_r (require_pattern re_opaque_id k) (\<lambda>sk.
         bind_r (require_safe_text MAX_STRING_LENGTH v) (\<lambda>t.
         if substr ''://'' t \<or> take 1 t = ''/'' \<or> take 1 t = ''~'' then Inl redaction_error
         else if \<not> re_dollar re_opaque_id t then Inl redaction_error
         else Inr (sk, t)))) kvs)
       (\<lambda>items. Inr (sort_key fst items))"

subsection \<open>Evidence\<close>

datatype verification_state = NOT_ATTEMPTED | VERIFIED | MISMATCH | UNVERIFIABLE

primrec verification_value :: "verification_state \<Rightarrow> string" where
  "verification_value NOT_ATTEMPTED = ''NOT_ATTEMPTED''"
| "verification_value VERIFIED = ''VERIFIED''"
| "verification_value MISMATCH = ''MISMATCH''"
| "verification_value UNVERIFIABLE = ''UNVERIFIABLE''"

definition proves_commit :: "verification_state \<Rightarrow> bool" where
  "proves_commit v \<longleftrightarrow> v = VERIFIED"

datatype evidence_class = EV_SUCCESS | EV_FAILED | EV_BLOCKED | EV_INDETERMINATE

primrec evidence_value :: "evidence_class \<Rightarrow> string" where
  "evidence_value EV_SUCCESS = ''SUCCESS''"
| "evidence_value EV_FAILED = ''FAILED''"
| "evidence_value EV_BLOCKED = ''BLOCKED''"
| "evidence_value EV_INDETERMINATE = ''INDETERMINATE''"

definition mutation_confirmed :: "evidence_class \<Rightarrow> bool" where
  "mutation_confirmed c \<longleftrightarrow> c = EV_SUCCESS"

definition evidence_requires_reconciliation :: "evidence_class \<Rightarrow> bool" where
  "evidence_requires_reconciliation c \<longleftrightarrow> c = EV_INDETERMINATE"

definition evidence_allows_new_attempt :: "evidence_class \<Rightarrow> bool" where
  "evidence_allows_new_attempt c \<longleftrightarrow> c = EV_FAILED"

definition OUTCOME_TO_EVIDENCE :: "(mutation_outcome \<times> evidence_class) list" where
  "OUTCOME_TO_EVIDENCE = [(COMMITTED, EV_SUCCESS), (FAILED_CLEAN, EV_FAILED), (DENIED, EV_BLOCKED), (AMBIGUOUS, EV_INDETERMINATE)]"

definition evidence_class_for :: "mutation_outcome \<Rightarrow> (mut_error, evidence_class) result" where
  "evidence_class_for out = (case map_of OUTCOME_TO_EVIDENCE out of None \<Rightarrow> Inl audit_unwritable | Some c \<Rightarrow> Inr c)"

subsection \<open>Intents\<close>

record capability_snapshot =
  cs_capability_id :: write_capability
  cs_state :: capability_state
  cs_snapshot_hash :: string
  cs_policy_version :: string

definition capability_snapshot_new :: "capability_snapshot \<Rightarrow> (mut_error, capability_snapshot) result" where
  "capability_snapshot_new c =
     bind_r (require_pattern (re_hex 64) (cs_snapshot_hash c)) (\<lambda>_.
     bind_r (require_pattern re_opaque_id (cs_policy_version c)) (\<lambda>_. Inr c))"

definition snapshot_ready :: "capability_snapshot \<Rightarrow> bool" where
  "snapshot_ready c \<longleftrightarrow> cs_state c = READY"

definition snapshot_canonical :: "capability_snapshot \<Rightarrow> json" where
  "snapshot_canonical c = JObj
     [(''capability_id'', JStr (write_capability_value (cs_capability_id c))), (''state'', JStr (capability_value (cs_state c))),
      (''snapshot_hash'', JStr (cs_snapshot_hash c)), (''policy_version'', JStr (cs_policy_version c))]"

record approval_reference =
  ap_approval_id :: string
  ap_state :: approval_state
  ap_bound_digest :: string

definition approval_reference_new :: "approval_reference \<Rightarrow> (mut_error, approval_reference) result" where
  "approval_reference_new a =
     bind_r (require_pattern re_opaque_id (ap_approval_id a)) (\<lambda>_.
     bind_r (require_pattern (re_hex 64) (ap_bound_digest a)) (\<lambda>_. Inr a))"

definition approval_reference_canonical :: "approval_reference \<Rightarrow> json" where
  "approval_reference_canonical a = JObj
     [(''approval_id'', JStr (ap_approval_id a)), (''state'', JStr (approval_state_value (ap_state a))),
      (''bound_digest'', JStr (ap_bound_digest a))]"

record mutation_intent =
  mi_principal :: string
  mi_operation :: string
  mi_repository :: string
  mi_operation_digest :: string
  mi_policy_decision :: policy_decision
  mi_capability :: capability_snapshot
  mi_idempotency_key :: string
  mi_idempotency_status :: idempotency_status
  mi_approval :: "approval_reference option"
  mi_preconditions :: "(string \<times> string) list"
  mi_registry_snapshot_hash :: "string option"

definition mutation_intent_new :: "mutation_intent \<Rightarrow> (mut_error, mutation_intent) result" where
  "mutation_intent_new i =
     bind_r (require_pattern re_opaque_id (mi_principal i)) (\<lambda>_.
     bind_r (require_pattern re_operation (mi_operation i)) (\<lambda>_.
     bind_r (require_pattern re_repository (mi_repository i)) (\<lambda>_.
     bind_r (require_pattern (re_hex 64) (mi_operation_digest i)) (\<lambda>_.
     bind_r (require_pattern (re_hex 64) (mi_idempotency_key i)) (\<lambda>_.
     bind_r (require_optional_pattern (re_hex 64) (mi_registry_snapshot_hash i)) (\<lambda>_.
     bind_r (require_preconditions (mi_preconditions i)) (\<lambda>_. Inr i)))))))"

definition mi_approval_required :: "mutation_intent \<Rightarrow> bool" where
  "mi_approval_required i \<longleftrightarrow> mi_policy_decision i = APPROVAL_REQUIRED"

definition intent_entries :: "mutation_intent \<Rightarrow> (string \<times> string) list \<Rightarrow> (string \<times> json) list" where
  "intent_entries i ps =
     [(''schema'', JStr ''v2.phase3.mutation-audit.1''), (''principal'', JStr (mi_principal i)),
      (''operation'', JStr (mi_operation i)), (''repository'', JStr (mi_repository i)),
      (''operation_digest'', JStr (mi_operation_digest i)), (''policy_decision'', JStr (policy_value (mi_policy_decision i))),
      (''capability'', snapshot_canonical (mi_capability i)), (''idempotency_key'', JStr (mi_idempotency_key i)),
      (''idempotency_status'', JStr (idem_status_value (mi_idempotency_status i))),
      (''preconditions_observed'', JList (map (\<lambda>(k, v). JObj [(''key'', JStr k), (''sha'', JStr v)]) ps))] @
     (case mi_approval i of None \<Rightarrow> [] | Some a \<Rightarrow> [(''approval'', approval_reference_canonical a)]) @
     opt_entry ''registry_snapshot_hash'' (mi_registry_snapshot_hash i)"

definition mutation_intent_canonical :: "mutation_intent \<Rightarrow> (mut_error, (string \<times> json) list) result" where
  "mutation_intent_canonical i = bind_r (require_preconditions (mi_preconditions i)) (\<lambda>ps. Inr (intent_entries i ps))"

subsection \<open>Observations\<close>

record provider_observation =
  po_outcome :: mutation_outcome
  po_verification :: verification_state
  po_attempts :: int
  po_started_at :: moment
  po_finished_at :: moment
  po_status_class :: "string option"
  po_reason :: "mutation_reason option"
  po_result_digest :: "string option"
  po_artifact_refs :: "(string \<times> string) list"

text \<open>\<^verbatim>\<open>re.fullmatch("[1-5]xx", status)\<close>\<close>

definition require_status_class :: "string option \<Rightarrow> (mut_error, unit) result" where
  "require_status_class v =
     (case v of
        None \<Rightarrow> Inr ()
      | Some s \<Rightarrow> bind_r (require_safe_text 8 s) (\<lambda>t.
          if t \<in> {''1xx'', ''2xx'', ''3xx'', ''4xx'', ''5xx''} then Inr () else Inl audit_unwritable))"

definition provider_observation_new :: "provider_observation \<Rightarrow> (mut_error, provider_observation) result" where
  "provider_observation_new ob =
     (if po_outcome ob = PENDING then Inl audit_unwritable
      else if po_attempts ob < 0 then Inl audit_unwritable
      else if \<not> aware (po_started_at ob) \<or> \<not> aware (po_finished_at ob) then Inl audit_unwritable
      else if instant (po_finished_at ob) < instant (po_started_at ob) then Inl audit_unwritable
      else bind_r (require_status_class (po_status_class ob)) (\<lambda>_.
           bind_r (require_optional_pattern (re_hex 64) (po_result_digest ob)) (\<lambda>_.
           bind_r (require_artifact_refs (po_artifact_refs ob)) (\<lambda>_.
           if po_outcome ob = COMMITTED \<and> \<not> proves_commit (po_verification ob) then Inl (audit_error RECONCILIATION_REQUIRED)
           else if po_outcome ob = DENIED \<and> po_attempts ob \<noteq> 0 then Inl audit_unwritable
           else Inr ob))))"

definition observation_evidence_class :: "provider_observation \<Rightarrow> (mut_error, evidence_class) result" where
  "observation_evidence_class ob = evidence_class_for (po_outcome ob)"

definition duration_ms :: "provider_observation \<Rightarrow> int" where
  "duration_ms ob = int (millis_of_micros (nat (instant (po_finished_at ob) - instant (po_started_at ob))))"

definition observation_entries :: "provider_observation \<Rightarrow> evidence_class \<Rightarrow> (string \<times> string) list \<Rightarrow> (string \<times> json) list" where
  "observation_entries ob ec refs =
     [(''outcome'', JStr (outcome_value (po_outcome ob))), (''evidence_class'', JStr (evidence_value ec)),
      (''verification'', JStr (verification_value (po_verification ob))), (''attempts'', JInt (po_attempts ob)),
      (''started_at'', JStr (iso_text (instant (po_started_at ob)))),
      (''finished_at'', JStr (iso_text (instant (po_finished_at ob)))), (''duration_ms'', JInt (duration_ms ob))] @
     opt_entry ''status_class'' (po_status_class ob) @ opt_entry ''reason'' (map_option reason_value (po_reason ob)) @
     opt_entry ''result_digest'' (po_result_digest ob) @
     (if refs = [] then [] else [(''artifact_refs'', JList (map (\<lambda>(k, v). JObj [(''key'', JStr k), (''ref'', JStr v)]) refs))])"

definition observation_canonical :: "provider_observation \<Rightarrow> (mut_error, (string \<times> json) list) result" where
  "observation_canonical ob =
     bind_r (observation_evidence_class ob) (\<lambda>ec.
     bind_r (require_artifact_refs (po_artifact_refs ob)) (\<lambda>refs. Inr (observation_entries ob ec refs)))"

subsection \<open>Sinks\<close>

text \<open>
  The protocol: \<open>append\<close>, \<open>exists\<close> and \<open>read\<close> over a state of the sink. What \<open>read\<close> returns is the value
  it loads, which need not be a dictionary when the stored text was changed from outside.
\<close>

type_synonym audit_body = "(string \<times> json) list"

record 's audit_sink =
  sk_durable :: bool
  sk_append :: "string \<Rightarrow> audit_body \<Rightarrow> 's \<Rightarrow> 's \<times> (mut_error, unit) result"
  sk_exists :: "string \<Rightarrow> 's \<Rightarrow> (mut_error, bool) result"
  sk_read :: "string \<Rightarrow> 's \<Rightarrow> (mut_error, json option) result"

paragraph \<open>InMemoryAuditSink\<close>

type_synonym memory_sink = "(string \<times> audit_body) list"

definition memory_append :: "string \<Rightarrow> audit_body \<Rightarrow> memory_sink \<Rightarrow> memory_sink \<times> (mut_error, unit) result" where
  "memory_append i body s =
     (if map_of s i \<noteq> None then (s, Inl audit_unwritable) else (AList.update i body s, Inr ()))"

definition memory_exists :: "string \<Rightarrow> memory_sink \<Rightarrow> (mut_error, bool) result" where
  "memory_exists i s = Inr (map_of s i \<noteq> None)"

definition memory_read :: "string \<Rightarrow> memory_sink \<Rightarrow> (mut_error, json option) result" where
  "memory_read i s = Inr (map_option JObj (map_of s i))"

definition in_memory_sink :: "memory_sink audit_sink" where
  "in_memory_sink = \<lparr>sk_durable = False, sk_append = memory_append, sk_exists = memory_exists, sk_read = memory_read\<rparr>"

paragraph \<open>FileAuditSink\<close>

text \<open>
  The files of the directory. A file written by the sink holds the canonical text of a record; it is
  represented by the value \<open>json.loads\<close> reads from it. \<open>Not_json\<close> is a file changed from outside that
  \<open>json.loads\<close> refuses. The operating system may fail at the points where \<open>append\<close> calls it; what it
  does at the next calls is part of the state.
\<close>

datatype audit_file = Json_text json | Not_json

datatype os_fault = No_fault | Fault_mkstemp | Fault_write | Fault_chmod | Fault_replace | Fault_dir_sync

record file_sink =
  fs_files :: "(string \<times> audit_file) list"
  fs_faults :: "os_fault list"

definition path_for :: "string \<Rightarrow> (mut_error, string) result" where
  "path_for i =
     bind_r (require_pattern re_opaque_id i) (\<lambda>safe.
     if CHR ''/'' \<in> set safe \<or> take 1 safe = ''.'' then Inl audit_unwritable else Inr (safe @ ''.json''))"

definition next_fault :: "file_sink \<Rightarrow> os_fault" where
  "next_fault s = (case fs_faults s of [] \<Rightarrow> No_fault | f # _ \<Rightarrow> f)"

definition file_append :: "string \<Rightarrow> audit_body \<Rightarrow> file_sink \<Rightarrow> file_sink \<times> (mut_error, unit) result" where
  "file_append i body s =
     (case path_for i of
        Inl e \<Rightarrow> (s, Inl e)
      | Inr path \<Rightarrow>
          if map_of (fs_files s) path \<noteq> None then (s, Inl audit_unwritable)
          else if \<not> json_validate (JObj body) then (s, Inl (Other_exception ''TypeError''))
          else let t = s\<lparr>fs_faults := tl (fs_faults s)\<rparr>;
                   w = t\<lparr>fs_files := AList.update path (Json_text (canon (JObj body))) (fs_files t)\<rparr>
               in case next_fault s of
                    No_fault \<Rightarrow> (w, Inr ())
                  | Fault_mkstemp \<Rightarrow> (t, Inl (Other_exception ''OSError''))
                  | Fault_dir_sync \<Rightarrow> (w, Inl audit_unwritable)
                  | _ \<Rightarrow> (t, Inl audit_unwritable))"

definition file_exists :: "string \<Rightarrow> file_sink \<Rightarrow> (mut_error, bool) result" where
  "file_exists i s = (case path_for i of Inl e \<Rightarrow> Inr False | Inr path \<Rightarrow> Inr (map_of (fs_files s) path \<noteq> None))"

definition file_read :: "string \<Rightarrow> file_sink \<Rightarrow> (mut_error, json option) result" where
  "file_read i s =
     (case path_for i of
        Inl e \<Rightarrow> Inl audit_unwritable
      | Inr path \<Rightarrow>
          (case map_of (fs_files s) path of
             None \<Rightarrow> Inr None
           | Some (Json_text v) \<Rightarrow> Inr (Some v)
           | Some Not_json \<Rightarrow> Inl audit_unwritable))"

definition file_audit_sink :: "file_sink audit_sink" where
  "file_audit_sink = \<lparr>sk_durable = True, sk_append = file_append, sk_exists = file_exists, sk_read = file_read\<rparr>"

subsection \<open>The ledger\<close>

record audit_handle =
  ah_audit_id :: string
  ah_record_digest :: string
  ah_intent :: mutation_intent
  ah_recorded_at :: moment
  ah_ledger_token :: nat
  ah_finalized :: bool

definition provider_call_permitted :: "audit_handle \<Rightarrow> bool" where
  "provider_call_permitted h \<longleftrightarrow> \<not> ah_finalized h"

record mutation_evidence =
  ev_schema :: string
  ev_audit_id :: string
  ev_intent_digest :: string
  ev_evidence_class :: evidence_class
  ev_outcome :: mutation_outcome
  ev_verification :: verification_state
  ev_attempts :: int
  ev_recorded_at :: moment
  ev_finalized_at :: moment
  ev_body :: audit_body
  ev_evidence_digest :: string

text \<open>The ledger with the state of its sink and the heap of all handle objects.\<close>

record 's ledger =
  lg_sink :: "'s"
  lg_token :: nat
  lg_open :: "(string \<times> nat) list"
  lg_heap :: "audit_handle list"

definition ledger_new :: "'s audit_sink \<Rightarrow> bool \<Rightarrow> 's \<Rightarrow> nat \<Rightarrow> audit_handle list \<Rightarrow> (mut_error, 's ledger) result" where
  "ledger_new sk allow_non_durable st token heap =
     (if \<not> sk_durable sk \<and> \<not> allow_non_durable then Inl audit_unwritable
      else Inr \<lparr>lg_sink = st, lg_token = token, lg_open = [], lg_heap = heap\<rparr>)"

definition open_attempts :: "'s ledger \<Rightarrow> nat" where
  "open_attempts l = length (lg_open l)"

text \<open>The checks of \<open>begin\<close> before the record.\<close>

definition admit_intent :: "mutation_intent \<Rightarrow> (mut_error, unit) result" where
  "admit_intent i =
     (if mi_approval_required i \<and> (case mi_approval i of None \<Rightarrow> True | Some a \<Rightarrow> \<not> approval_usable (ap_state a))
      then Inl (audit_error APPROVAL_MISSING)
      else if mi_approval_required i \<and> (case mi_approval i of None \<Rightarrow> False | Some a \<Rightarrow> ap_bound_digest a \<noteq> mi_operation_digest i)
      then Inl (audit_error APPROVAL_DIGEST_MISMATCH)
      else if mi_policy_decision i = DENY then Inl audit_unwritable
      else if \<not> snapshot_ready (mi_capability i) then Inl (audit_error WRITE_CAPABILITY_NOT_READY)
      else if mi_idempotency_status i \<noteq> NEW then Inl (audit_error IDEMPOTENT_REPLAY)
      else Inr ())"

definition write_ahead_entries :: "string \<Rightarrow> moment \<Rightarrow> audit_body" where
  "write_ahead_entries aid now =
     [(''audit_id'', JStr aid), (''recorded_at'', JStr (iso_text (instant now))),
      (''stage'', JStr (stage_value WRITE_AHEAD_AUDIT)), (''outcome'', JStr (outcome_value PENDING))]"

definition write_ahead_body :: "(string \<Rightarrow> string) \<Rightarrow> mutation_intent \<Rightarrow> string \<Rightarrow> moment \<Rightarrow> (mut_error, string \<times> audit_body) result" where
  "write_ahead_body sha i aid now =
     bind_r (mutation_intent_canonical i) (\<lambda>kvs.
     bind_r (mut_hash sha (JObj (kvs @ write_ahead_entries aid now))) (\<lambda>dg.
     Inr (dg, kvs @ write_ahead_entries aid now @ [(''record_digest'', JStr dg)])))"

text \<open>
  \<open>begin\<close>; \<open>hex\<close> is the text of the fresh \<open>uuid4\<close> and \<open>now\<close> what the clock says. The value is the address of
  the new handle.
\<close>

definition ledger_begin ::
  "(string \<Rightarrow> string) \<Rightarrow> 's audit_sink \<Rightarrow> string \<Rightarrow> moment \<Rightarrow> mutation_intent \<Rightarrow> 's ledger \<Rightarrow> 's ledger \<times> (mut_error, nat) result" where
  "ledger_begin sha sk hex now i l =
     (case admit_intent i of Inl e \<Rightarrow> (l, Inl e) | Inr _ \<Rightarrow>
      let aid = ''mut-'' @ hex
      in if \<not> aware now then (l, Inl audit_unwritable)
         else case write_ahead_body sha i aid now of Inl e \<Rightarrow> (l, Inl e) | Inr (dg, body) \<Rightarrow>
              (case sk_append sk aid body (lg_sink l) of
                 (st, Inl (AuditWriteError r g)) \<Rightarrow> (l\<lparr>lg_sink := st\<rparr>, Inl (AuditWriteError r g))
               | (st, Inl e) \<Rightarrow> (l\<lparr>lg_sink := st\<rparr>, Inl audit_unwritable)
               | (st, Inr _) \<Rightarrow>
                   if sk_exists sk aid st \<noteq> Inr True then (l\<lparr>lg_sink := st\<rparr>, Inl audit_unwritable)
                   else let h = \<lparr>ah_audit_id = aid, ah_record_digest = dg, ah_intent = i, ah_recorded_at = now,
                                 ah_ledger_token = lg_token l, ah_finalized = False\<rparr>
                        in (l\<lparr>lg_sink := st, lg_open := AList.update aid (length (lg_heap l)) (lg_open l), lg_heap := lg_heap l @ [h]\<rparr>,
                            Inr (length (lg_heap l)))))"

text \<open>\<open>bool(stored)\<close> of a loaded value\<close>

fun json_truthy :: "json \<Rightarrow> bool" where
  "json_truthy JNull = False"
| "json_truthy (JBool b) = b"
| "json_truthy (JInt i) = (i \<noteq> 0)"
| "json_truthy (JFloat r) = (r \<noteq> 0)"
| "json_truthy (JStr s) = (s \<noteq> [])"
| "json_truthy (JList xs) = (xs \<noteq> [])"
| "json_truthy (JObj kvs) = (kvs \<noteq> [])"

text \<open>\<open>not stored or stored.get("record_digest") != digest\<close>\<close>

definition check_stored :: "string \<Rightarrow> json option \<Rightarrow> (mut_error, unit) result" where
  "check_stored dg v =
     (case v of
        None \<Rightarrow> Inl audit_unwritable
      | Some w \<Rightarrow>
          if \<not> json_truthy w then Inl audit_unwritable
          else (case w of
                  JObj kvs \<Rightarrow> if map_of kvs ''record_digest'' \<noteq> Some (JStr dg) then Inl audit_unwritable else Inr ()
                | _ \<Rightarrow> Inl (Other_exception ''AttributeError'')))"

definition evidence_entries :: "audit_handle \<Rightarrow> audit_body \<Rightarrow> audit_body \<Rightarrow> moment \<Rightarrow> audit_body" where
  "evidence_entries h ic oc now =
     [(''schema'', JStr ''v2.phase3.mutation-evidence.1''), (''audit_id'', JStr (ah_audit_id h)),
      (''intent_digest'', JStr (ah_record_digest h)), (''intent'', JObj ic), (''observation'', JObj oc),
      (''recorded_at'', JStr (iso_text (instant (ah_recorded_at h)))), (''finalized_at'', JStr (iso_text (instant now)))]"

definition evidence_body ::
  "(string \<Rightarrow> string) \<Rightarrow> audit_handle \<Rightarrow> provider_observation \<Rightarrow> moment \<Rightarrow> (mut_error, string \<times> audit_body) result" where
  "evidence_body sha h ob now =
     bind_r (mutation_intent_canonical (ah_intent h)) (\<lambda>ic.
     bind_r (observation_canonical ob) (\<lambda>oc.
     bind_r (mut_hash sha (JObj (evidence_entries h ic oc now))) (\<lambda>dg.
     Inr (dg, evidence_entries h ic oc now @ [(''evidence_digest'', JStr dg)]))))"

definition handle_closable :: "'s ledger \<Rightarrow> nat \<Rightarrow> bool" where
  "handle_closable l a \<longleftrightarrow>
     a < length (lg_heap l) \<and> ah_ledger_token (lg_heap l ! a) = lg_token l \<and> \<not> ah_finalized (lg_heap l ! a) \<and>
     map_of (lg_open l) (ah_audit_id (lg_heap l ! a)) = Some a"

definition ledger_finalize ::
  "(string \<Rightarrow> string) \<Rightarrow> 's audit_sink \<Rightarrow> nat \<Rightarrow> provider_observation \<Rightarrow> moment \<Rightarrow> 's ledger
    \<Rightarrow> 's ledger \<times> (mut_error, mutation_evidence) result" where
  "ledger_finalize sha sk a ob now l =
     (let h = lg_heap l ! a
      in if \<not> handle_closable l a then (l, Inl audit_unwritable)
         else if instant (po_started_at ob) < instant (ah_recorded_at h) then (l, Inl audit_unwritable)
         else case sk_read sk (ah_audit_id h) (lg_sink l) of
                Inl (AuditWriteError r g) \<Rightarrow> (l, Inl (AuditWriteError r g))
              | Inl e \<Rightarrow> (l, Inl audit_unwritable)
              | Inr stored \<Rightarrow>
                  (case check_stored (ah_record_digest h) stored of Inl e \<Rightarrow> (l, Inl e) | Inr _ \<Rightarrow>
                   case evidence_body sha h ob now of Inl e \<Rightarrow> (l, Inl e) | Inr (dg, body) \<Rightarrow>
                   let l' = l\<lparr>lg_heap := (lg_heap l)[a := h\<lparr>ah_finalized := True\<rparr>], lg_open := AList.delete (ah_audit_id h) (lg_open l)\<rparr>
                   in case observation_evidence_class ob of Inl e \<Rightarrow> (l', Inl e) | Inr ec \<Rightarrow>
                      (l', Inr \<lparr>ev_schema = ''v2.phase3.mutation-evidence.1'', ev_audit_id = ah_audit_id h,
                                ev_intent_digest = ah_record_digest h, ev_evidence_class = ec, ev_outcome = po_outcome ob,
                                ev_verification = po_verification ob, ev_attempts = po_attempts ob,
                                ev_recorded_at = ah_recorded_at h, ev_finalized_at = now, ev_body = body, ev_evidence_digest = dg\<rparr>)))"

definition has_write_ahead_record :: "'s audit_sink \<Rightarrow> string \<Rightarrow> 's ledger \<Rightarrow> bool" where
  "has_write_ahead_record sk aid l \<longleftrightarrow> sk_exists sk aid (lg_sink l) = Inr True"

definition audit_metric_labels ::
  "string \<Rightarrow> evidence_class \<Rightarrow> mut_stage \<Rightarrow> mutation_reason option \<Rightarrow> (mut_error, (string \<times> string) list) result" where
  "audit_metric_labels op ec stage rsn =
     bind_r (require_pattern re_operation op) (\<lambda>t. Inr
       [(''operation'', t), (''outcome'', evidence_value ec), (''stage'', stage_value stage),
        (''reason'', case rsn of None \<Rightarrow> ''NONE'' | Some r \<Rightarrow> reason_value r)])"

end
