(* ===== verification/Audit_Ledger.thy ===== *)
theory Audit_Ledger
  imports Mutation_Audit
begin

section \<open>The audit ledger is write-ahead, honest and closes once\<close>

text \<open>
  What the ledger of v2/mutation\_audit.py promises: the exact condition under which \<open>begin\<close> issues a
  handle, over any sink; that a handle is closed at most once, whatever is forged or changed around it;
  what evidence means; and, over an append-only sink, that an open attempt can always be closed. The laws
  of an append-only sink are a locale, interpreted for both sinks of the module.
\<close>

subsection \<open>The write-ahead record\<close>

definition intent_admissible :: "mutation_intent \<Rightarrow> bool" where
  "intent_admissible i \<longleftrightarrow>
     mi_policy_decision i \<noteq> DENY \<and> cs_state (mi_capability i) = READY \<and> mi_idempotency_status i = NEW \<and>
     (mi_policy_decision i = APPROVAL_REQUIRED \<longrightarrow>
       (\<exists>a. mi_approval i = Some a \<and> ap_state a = AP_PENDING \<and> ap_bound_digest a = mi_operation_digest i))"

lemma admit_intent_iff: "admit_intent i = Inr () \<longleftrightarrow> intent_admissible i"
  by (auto simp: admit_intent_def intent_admissible_def mi_approval_required_def approval_usable_def snapshot_ready_def split: option.splits)

lemma entries_valid:
  "json_validate (JObj (intent_entries i ps))" "json_validate (JObj (write_ahead_entries aid now))"
  "json_validate (JObj (observation_entries ob ec refs))"
  "json_validate (JObj ic) \<Longrightarrow> json_validate (JObj oc) \<Longrightarrow> json_validate (JObj (evidence_entries h ic oc now))"
  by (auto simp: intent_entries_def write_ahead_entries_def observation_entries_def evidence_entries_def opt_entry_def
      snapshot_canonical_def approval_reference_canonical_def split: option.splits)

lemma entries_distinct:
  "distinct (map fst (intent_entries i ps @ write_ahead_entries aid now @ [(''record_digest'', v)]))"
  by (auto simp: intent_entries_def write_ahead_entries_def opt_entry_def split: option.splits)

lemma write_ahead_valid: "json_validate (JObj (intent_entries i ps @ write_ahead_entries aid now))"
  using entries_valid(1) [of i ps] entries_valid(2) [of aid now] by (simp add: ball_Un)

lemma write_ahead_body_Inr:
  "write_ahead_body sha i aid now = Inr (dg, body) \<longleftrightarrow>
   (\<exists>ps. require_preconditions (mi_preconditions i) = Inr ps \<and>
     dg = sha (dumps (JObj (intent_entries i ps @ write_ahead_entries aid now))) \<and>
     body = intent_entries i ps @ write_ahead_entries aid now @ [(''record_digest'', JStr dg)])"
  by (auto simp: write_ahead_body_def mutation_intent_canonical_def bind_r_Inr_iff mut_hash_Inr write_ahead_valid
      simp del: json_validate.simps dumps.simps)

lemma write_ahead_body_keys:
  assumes "write_ahead_body sha i aid now = Inr (dg, body)"
  shows "distinct (map fst body)" "map_of body ''record_digest'' = Some (JStr dg)"
    "\<exists>ps. require_preconditions (mi_preconditions i) = Inr ps"
proof -
  from assms obtain ps where b: "body = intent_entries i ps @ write_ahead_entries aid now @ [(''record_digest'', JStr dg)]"
    and ps: "require_preconditions (mi_preconditions i) = Inr ps" by (auto simp: write_ahead_body_Inr)
  then show d: "distinct (map fst body)" using entries_distinct by blast
  show "map_of body ''record_digest'' = Some (JStr dg)" using b by (subst map_of_eq_Some_iff [OF d]) simp
  show "\<exists>ps. require_preconditions (mi_preconditions i) = Inr ps" using ps by blast
qed

lemma ledger_begin_iff:
  "ledger_begin sha sk hex now i l = (l', Inr a) \<longleftrightarrow>
   (\<exists>dg body st. intent_admissible i \<and> aware now \<and> write_ahead_body sha i (''mut-'' @ hex) now = Inr (dg, body) \<and>
     sk_append sk (''mut-'' @ hex) body (lg_sink l) = (st, Inr ()) \<and> sk_exists sk (''mut-'' @ hex) st = Inr True \<and>
     a = length (lg_heap l) \<and>
     l' = l\<lparr>lg_sink := st, lg_open := AList.update (''mut-'' @ hex) a (lg_open l),
            lg_heap := lg_heap l @ [\<lparr>ah_audit_id = ''mut-'' @ hex, ah_record_digest = dg, ah_intent = i, ah_recorded_at = now,
                                   ah_ledger_token = lg_token l, ah_finalized = False\<rparr>]\<rparr>)"
  unfolding ledger_begin_def admit_intent_iff [symmetric]
  by (auto simp: Let_def split: sum.splits mut_error.splits prod.splits)

subsection \<open>Closing\<close>

lemma ledger_finalize_iff:
  "ledger_finalize sha sk a ob now l = (l', Inr ev) \<longleftrightarrow>
   (let h = lg_heap l ! a in
    \<exists>stored dg body ec. handle_closable l a \<and> instant (ah_recorded_at h) \<le> instant (po_started_at ob) \<and>
     sk_read sk (ah_audit_id h) (lg_sink l) = Inr stored \<and> check_stored (ah_record_digest h) stored = Inr () \<and>
     evidence_body sha h ob now = Inr (dg, body) \<and> observation_evidence_class ob = Inr ec \<and>
     l' = l\<lparr>lg_heap := (lg_heap l)[a := h\<lparr>ah_finalized := True\<rparr>], lg_open := AList.delete (ah_audit_id h) (lg_open l)\<rparr> \<and>
     ev = \<lparr>ev_schema = ''v2.phase3.mutation-evidence.1'', ev_audit_id = ah_audit_id h,
           ev_intent_digest = ah_record_digest h, ev_evidence_class = ec, ev_outcome = po_outcome ob,
           ev_verification = po_verification ob, ev_attempts = po_attempts ob,
           ev_recorded_at = ah_recorded_at h, ev_finalized_at = now, ev_body = body, ev_evidence_digest = dg\<rparr>)"
  by (auto simp: ledger_finalize_def Let_def not_less split: sum.splits mut_error.splits prod.splits)

lemma ledger_finalize_frame:
  "lg_sink (fst (ledger_finalize sha sk a ob now l)) = lg_sink l"
  "lg_token (fst (ledger_finalize sha sk a ob now l)) = lg_token l"
  "length (lg_heap (fst (ledger_finalize sha sk a ob now l))) = length (lg_heap l)"
  "b \<noteq> a \<Longrightarrow> lg_heap (fst (ledger_finalize sha sk a ob now l)) ! b = lg_heap l ! b"
  by (auto simp: ledger_finalize_def Let_def split: sum.splits mut_error.splits prod.splits)

lemma ledger_finalize_keeps_final:
  "ah_finalized (lg_heap l ! b) \<Longrightarrow> ah_finalized (lg_heap (fst (ledger_finalize sha sk a ob now l)) ! b)"
proof (cases "b = a")
  case True
  assume "ah_finalized (lg_heap l ! b)"
  with True have "\<not> handle_closable l a" by (simp add: handle_closable_def)
  with \<open>ah_finalized (lg_heap l ! b)\<close> show ?thesis by (simp add: ledger_finalize_def Let_def)
qed (simp add: ledger_finalize_frame)

lemma ledger_begin_frame:
  "lg_token (fst (ledger_begin sha sk hex now i l)) = lg_token l"
  "\<exists>hs. lg_heap (fst (ledger_begin sha sk hex now i l)) = lg_heap l @ hs"
  by (auto simp: ledger_begin_def Let_def split: sum.splits mut_error.splits prod.splits)

text \<open>
  What may happen around the ledger: attempts begin and end, other code makes handle objects of any
  content, and the stored records are changed from outside.
\<close>

datatype 's ledger_op =
  LG_begin string moment mutation_intent
| LG_finalize nat provider_observation moment
| LG_forge audit_handle
| LG_tamper "'s \<Rightarrow> 's"

fun ledger_step :: "(string \<Rightarrow> string) \<Rightarrow> 's audit_sink \<Rightarrow> 's ledger \<Rightarrow> 's ledger_op \<Rightarrow> 's ledger" where
  "ledger_step sha sk l (LG_begin hex now i) = fst (ledger_begin sha sk hex now i l)"
| "ledger_step sha sk l (LG_finalize a ob now) = fst (ledger_finalize sha sk a ob now l)"
| "ledger_step sha sk l (LG_forge h) = l\<lparr>lg_heap := lg_heap l @ [h]\<rparr>"
| "ledger_step sha sk l (LG_tamper f) = l\<lparr>lg_sink := f (lg_sink l)\<rparr>"

fun closes :: "(string \<Rightarrow> string) \<Rightarrow> 's audit_sink \<Rightarrow> nat \<Rightarrow> 's ledger \<Rightarrow> 's ledger_op \<Rightarrow> bool" where
  "closes sha sk a l (LG_finalize b ob now) \<longleftrightarrow> b = a \<and> \<not> isl (snd (ledger_finalize sha sk b ob now l))"
| "closes sha sk a l _ \<longleftrightarrow> False"

definition closed :: "nat \<Rightarrow> 's ledger \<Rightarrow> bool" where
  "closed a l \<longleftrightarrow> a < length (lg_heap l) \<and> ah_finalized (lg_heap l ! a)"

lemma closed_step: "closed a l \<Longrightarrow> closed a (ledger_step sha sk l x)"
proof (cases x)
  case (LG_begin hex now i)
  assume "closed a l"
  moreover obtain hs where "lg_heap (fst (ledger_begin sha sk hex now i l)) = lg_heap l @ hs" using ledger_begin_frame(2) by blast
  ultimately show ?thesis using LG_begin by (simp add: closed_def nth_append)
qed (simp_all add: closed_def nth_append ledger_finalize_frame(3) ledger_finalize_keeps_final)

lemma finalize_closes: "ledger_finalize sha sk a ob now l = (l', Inr ev) \<Longrightarrow> \<not> closed a l \<and> closed a l'"
  by (auto simp: ledger_finalize_iff closed_def handle_closable_def Let_def)

lemma closesD:
  assumes "closes sha sk a l x"
  shows "\<not> closed a l \<and> closed a (ledger_step sha sk l x)"
proof -
  from assms obtain ob now where x: "x = LG_finalize a ob now" by (cases x) auto
  with assms obtain l' ev where "ledger_finalize sha sk a ob now l = (l', Inr ev)"
    by (cases "ledger_finalize sha sk a ob now l"; cases "snd (ledger_finalize sha sk a ob now l)") auto
  with x finalize_closes show ?thesis by fastforce
qed

interpretation lgu: single_use "ledger_step sha sk" "\<lambda>_. True" "closes sha sk a" "closed a" "\<lambda>_. False" for sha sk a
  by unfold_locales (auto simp: closesD closed_step)

lemma check_stored_Inr:
  "check_stored dg v = Inr () \<longleftrightarrow> (\<exists>kvs. v = Some (JObj kvs) \<and> map_of kvs ''record_digest'' = Some (JStr dg))"
  by (auto simp: check_stored_def split: option.splits json.splits if_splits)

lemma observation_newD:
  assumes "provider_observation_new raw = Inr ob"
  shows "ob = raw" "po_outcome ob \<noteq> PENDING" "instant (po_started_at ob) \<le> instant (po_finished_at ob)"
    "po_outcome ob = COMMITTED \<Longrightarrow> po_verification ob = VERIFIED" "po_outcome ob = DENIED \<Longrightarrow> po_attempts ob = 0"
    "\<exists>refs. require_artifact_refs (po_artifact_refs ob) = Inr refs"
  using assms by (auto simp: provider_observation_new_def bind_r_Inr_iff proves_commit_def split: if_splits)

lemma evidence_class_outcome:
  "evidence_class_for out = Inr ec \<longleftrightarrow>
   (out, ec) \<in> {(COMMITTED, EV_SUCCESS), (FAILED_CLEAN, EV_FAILED), (DENIED, EV_BLOCKED), (AMBIGUOUS, EV_INDETERMINATE)}"
  by (cases out) (auto simp: evidence_class_for_def OUTCOME_TO_EVIDENCE_def)

text \<open>
  C17. Evidence is honest and there is one piece of it per attempt: over any sink, whatever handles are
  forged and records changed, a handle yields evidence at most once; evidence of a validated observation
  says SUCCESS only for a committed outcome with a verified read-back, BLOCKED only without an attempt, and
  it is given only while a record with the digest of the handle is stored, for a call that did not start
  before that record.
\<close>

theorem audit_evidence_honest:
  assumes "provider_observation_new raw = Inr ob"
    and "ledger_finalize sha sk a ob now l = (l', Inr ev)"
  shows "(mutation_confirmed (ev_evidence_class ev) \<longleftrightarrow> po_outcome ob = COMMITTED) \<and>
    (mutation_confirmed (ev_evidence_class ev) \<longrightarrow> po_verification ob = VERIFIED) \<and>
    (ev_evidence_class ev = EV_BLOCKED \<longrightarrow> po_attempts ob = 0) \<and>
    (\<exists>kvs. sk_read sk (ev_audit_id ev) (lg_sink l) = Inr (Some (JObj kvs)) \<and>
       map_of kvs ''record_digest'' = Some (JStr (ev_intent_digest ev))) \<and>
    instant (ev_recorded_at ev) \<le> instant (po_started_at ob) \<and>
    spend_count (ledger_step sha sk) (closes sha sk a) l' xs = 0"
proof -
  note f = assms(2) [unfolded ledger_finalize_iff Let_def]
  note ob = observation_newD [OF assms(1)]
  from f obtain ec where ec: "ev_evidence_class ev = ec" "evidence_class_for (po_outcome ob) = Inr ec"
    by (auto simp: observation_evidence_class_def)
  have "closed a l'" using finalize_closes [OF assms(2)] by simp
  then have "spend_count (ledger_step sha sk) (closes sha sk a) l' xs = 0" by (intro lgu.spent_count_0) simp_all
  with f ec ob show ?thesis by (auto simp: mutation_confirmed_def evidence_class_outcome check_stored_Inr)
qed

subsection \<open>Append-only sinks\<close>

text \<open>The steps that change no record from outside, and among them those that do not end one attempt.\<close>

fun untampered :: "'s ledger_op \<Rightarrow> bool" where
  "untampered (LG_tamper f) = False"
| "untampered _ = True"

fun leaves_open :: "nat \<Rightarrow> 's ledger_op \<Rightarrow> bool" where
  "leaves_open a (LG_finalize b ob now) = (b \<noteq> a)"
| "leaves_open a (LG_tamper f) = False"
| "leaves_open a _ = True"

locale append_only_sink =
  fixes sk :: "'s audit_sink"
  assumes append_fresh: "sk_append sk i body s = (s', Inr ()) \<Longrightarrow> sk_read sk i s = Inr None"
    and append_reads: "sk_append sk i body s = (s', Inr ()) \<Longrightarrow> distinct (map fst body) \<Longrightarrow> map_of body k = Some (JStr v) \<Longrightarrow>
      \<exists>kvs. sk_read sk i s' = Inr (Some (JObj kvs)) \<and> map_of kvs k = Some (JStr v)"
    and append_keeps: "sk_append sk i body s = (s', r) \<Longrightarrow> sk_read sk j s = Inr (Some w) \<Longrightarrow> sk_read sk j s' = Inr (Some w)"
begin

text \<open>Every open attempt has its handle in the heap and its record in the sink.\<close>

definition ledger_ok :: "'s ledger \<Rightarrow> bool" where
  "ledger_ok l \<longleftrightarrow>
     (\<forall>aid a. map_of (lg_open l) aid = Some a \<longrightarrow>
        a < length (lg_heap l) \<and> ah_audit_id (lg_heap l ! a) = aid \<and>
        (\<exists>ps. require_preconditions (mi_preconditions (ah_intent (lg_heap l ! a))) = Inr ps) \<and>
        (\<exists>kvs. sk_read sk aid (lg_sink l) = Inr (Some (JObj kvs)) \<and>
           map_of kvs ''record_digest'' = Some (JStr (ah_record_digest (lg_heap l ! a)))))"

lemma ledger_ok_sink:
  assumes "ledger_ok l" "sk_append sk i body (lg_sink l) = (st, r)"
  shows "ledger_ok (l\<lparr>lg_sink := st\<rparr>)"
  using assms append_keeps [OF assms(2)] unfolding ledger_ok_def by fastforce

lemma ledger_ok_issue:
  assumes ok: "ledger_ok l" and ap: "sk_append sk aid body (lg_sink l) = (st, Inr ())"
    and body: "distinct (map fst body)" "map_of body ''record_digest'' = Some (JStr (ah_record_digest h))" and h: "ah_audit_id h = aid"
    and ps: "require_preconditions (mi_preconditions (ah_intent h)) = Inr ps"
  shows "ledger_ok (l\<lparr>lg_sink := st, lg_open := AList.update aid (length (lg_heap l)) (lg_open l), lg_heap := lg_heap l @ [h]\<rparr>)"
  unfolding ledger_ok_def
proof (intro allI impI)
  fix i b
  let ?l = "l\<lparr>lg_sink := st, lg_open := AList.update aid (length (lg_heap l)) (lg_open l), lg_heap := lg_heap l @ [h]\<rparr>"
  assume o: "map_of (lg_open ?l) i = Some b"
  show "b < length (lg_heap ?l) \<and> ah_audit_id (lg_heap ?l ! b) = i \<and>
    (\<exists>ps. require_preconditions (mi_preconditions (ah_intent (lg_heap ?l ! b))) = Inr ps) \<and>
    (\<exists>kvs. sk_read sk i (lg_sink ?l) = Inr (Some (JObj kvs)) \<and>
      map_of kvs ''record_digest'' = Some (JStr (ah_record_digest (lg_heap ?l ! b))))"
  proof (cases "i = aid")
    case True
    with o have "b = length (lg_heap l)" by (simp add: update_conv')
    with True append_reads [OF ap body] h ps show ?thesis by simp
  next
    case False
    with o have "map_of (lg_open l) i = Some b" by (simp add: update_conv')
    with ok obtain kvs where b: "b < length (lg_heap l)" "ah_audit_id (lg_heap l ! b) = i"
      "\<exists>ps. require_preconditions (mi_preconditions (ah_intent (lg_heap l ! b))) = Inr ps"
      "sk_read sk i (lg_sink l) = Inr (Some (JObj kvs))"
      "map_of kvs ''record_digest'' = Some (JStr (ah_record_digest (lg_heap l ! b)))" unfolding ledger_ok_def by blast
    with append_keeps [OF ap b(4)] show ?thesis by (simp add: nth_append)
  qed
qed

lemma ledger_ok_begin:
  assumes "ledger_ok l"
  shows "ledger_ok (fst (ledger_begin sha sk hex now i l))"
proof (cases "snd (ledger_begin sha sk hex now i l)")
  case (Inl e)
  then have "(\<exists>body st r. sk_append sk (''mut-'' @ hex) body (lg_sink l) = (st, r) \<and> fst (ledger_begin sha sk hex now i l) = l\<lparr>lg_sink := st\<rparr>) \<or>
      fst (ledger_begin sha sk hex now i l) = l"
    by (auto simp: ledger_begin_def Let_def split: sum.splits mut_error.splits prod.splits if_splits)
  with assms ledger_ok_sink show ?thesis by fastforce
next
  case (Inr a)
  then obtain l' where l': "ledger_begin sha sk hex now i l = (l', Inr a)" by (metis prod.collapse)
  then obtain dg body st where b: "write_ahead_body sha i (''mut-'' @ hex) now = Inr (dg, body)"
    and ap: "sk_append sk (''mut-'' @ hex) body (lg_sink l) = (st, Inr ())" and a: "a = length (lg_heap l)"
    and e: "l' = l\<lparr>lg_sink := st, lg_open := AList.update (''mut-'' @ hex) a (lg_open l),
            lg_heap := lg_heap l @ [\<lparr>ah_audit_id = ''mut-'' @ hex, ah_record_digest = dg, ah_intent = i, ah_recorded_at = now,
                                   ah_ledger_token = lg_token l, ah_finalized = False\<rparr>]\<rparr>"
    unfolding ledger_begin_iff by blast
  obtain ps where ps: "require_preconditions (mi_preconditions i) = Inr ps" using write_ahead_body_keys(3) [OF b] by blast
  have "ledger_ok l'" unfolding e a
    by (rule ledger_ok_issue [OF assms ap write_ahead_body_keys(1) [OF b], where ps = ps]) (use write_ahead_body_keys(2) [OF b] ps in simp_all)
  then show ?thesis using l' by simp
qed

lemma ledger_ok_finalize:
  assumes "ledger_ok l"
  shows "ledger_ok (fst (ledger_finalize sha sk a ob now l))"
proof -
  let ?h = "lg_heap l ! a"
  let ?hs = "(lg_heap l)[a := ?h\<lparr>ah_finalized := True\<rparr>]"
  let ?l = "l\<lparr>lg_heap := ?hs, lg_open := AList.delete (ah_audit_id ?h) (lg_open l)\<rparr>"
  have "?hs ! b = lg_heap l ! b \<or> ?hs ! b = (lg_heap l ! b)\<lparr>ah_finalized := True\<rparr>" for b
    by (cases "a < length (lg_heap l)"; cases "b = a") (simp_all add: list_update_beyond)
  then have "ah_audit_id (?hs ! b) = ah_audit_id (lg_heap l ! b)" "ah_record_digest (?hs ! b) = ah_record_digest (lg_heap l ! b)"
    "ah_intent (?hs ! b) = ah_intent (lg_heap l ! b)" for b by (metis audit_handle.select_convs audit_handle.surjective audit_handle.update_convs(6))+
  then have "ledger_ok ?l" using assms by (auto simp: ledger_ok_def delete_conv')
  moreover have "fst (ledger_finalize sha sk a ob now l) \<in> {l, ?l}"
    by (auto simp: ledger_finalize_def Let_def split: sum.splits mut_error.splits prod.splits)
  ultimately show ?thesis using assms by auto
qed

lemma ledger_ok_step: "ledger_ok l \<Longrightarrow> untampered x \<Longrightarrow> ledger_ok (ledger_step sha sk l x)"
proof (cases x)
  case (LG_forge h)
  assume "ledger_ok l"
  then show ?thesis using LG_forge by (fastforce simp: ledger_ok_def nth_append)
qed (simp_all add: ledger_ok_begin ledger_ok_finalize)

lemma ledger_ok_run: "ledger_ok l \<Longrightarrow> list_all untampered xs \<Longrightarrow> ledger_ok (run_ops (ledger_step sha sk) l xs)"
  by (induction xs arbitrary: l) (simp_all add: ledger_ok_step)

lemma closable_begin:
  assumes ok: "ledger_ok l" and c: "handle_closable l a"
  shows "handle_closable (fst (ledger_begin sha sk hex now i l)) a \<and>
    lg_heap (fst (ledger_begin sha sk hex now i l)) ! a = lg_heap l ! a"
proof (cases "snd (ledger_begin sha sk hex now i l)")
  case (Inl e)
  then have "lg_heap (fst (ledger_begin sha sk hex now i l)) = lg_heap l \<and> lg_open (fst (ledger_begin sha sk hex now i l)) = lg_open l"
    by (auto simp: ledger_begin_def Let_def split: sum.splits mut_error.splits prod.splits if_splits)
  with c show ?thesis by (simp add: handle_closable_def ledger_begin_frame(1))
next
  case (Inr b)
  then obtain l' where l': "ledger_begin sha sk hex now i l = (l', Inr b)" by (metis prod.collapse)
  then obtain body st where ap: "sk_append sk (''mut-'' @ hex) body (lg_sink l) = (st, Inr ())"
    unfolding ledger_begin_iff by blast
  have "ah_audit_id (lg_heap l ! a) \<noteq> ''mut-'' @ hex"
  proof
    assume "ah_audit_id (lg_heap l ! a) = ''mut-'' @ hex"
    with ok c obtain kvs where "sk_read sk (''mut-'' @ hex) (lg_sink l) = Inr (Some (JObj kvs))"
      unfolding ledger_ok_def handle_closable_def by metis
    with append_fresh [OF ap] show False by simp
  qed
  then have "handle_closable l' a \<and> lg_heap l' ! a = lg_heap l ! a"
    using l' c by (auto simp: ledger_begin_iff handle_closable_def nth_append update_conv')
  then show ?thesis using l' by simp
qed

lemma closable_finalize:
  assumes c: "handle_closable l a" and ba: "b \<noteq> a"
  shows "handle_closable (fst (ledger_finalize sha sk b ob now l)) a \<and>
    lg_heap (fst (ledger_finalize sha sk b ob now l)) ! a = lg_heap l ! a"
proof (cases "handle_closable l b")
  case True
  let ?h = "lg_heap l ! b"
  let ?l = "l\<lparr>lg_heap := (lg_heap l)[b := ?h\<lparr>ah_finalized := True\<rparr>], lg_open := AList.delete (ah_audit_id ?h) (lg_open l)\<rparr>"
  have "ah_audit_id (lg_heap l ! a) \<noteq> ah_audit_id ?h" using True c ba by (auto simp: handle_closable_def)
  then have "handle_closable ?l a \<and> lg_heap ?l ! a = lg_heap l ! a" using c ba by (simp add: handle_closable_def delete_conv')
  moreover have "fst (ledger_finalize sha sk b ob now l) \<in> {l, ?l}"
    by (auto simp: ledger_finalize_def Let_def split: sum.splits mut_error.splits prod.splits)
  ultimately show ?thesis using c by auto
next
  case False
  then show ?thesis using c by (simp add: ledger_finalize_def Let_def)
qed

lemma closable_step:
  assumes "ledger_ok l" "handle_closable l a" "leaves_open a x"
  shows "ledger_ok (ledger_step sha sk l x) \<and> handle_closable (ledger_step sha sk l x) a \<and> lg_heap (ledger_step sha sk l x) ! a = lg_heap l ! a"
proof (cases x)
  case (LG_forge h)
  with assms show ?thesis using ledger_ok_step [of l x sha] by (auto simp: handle_closable_def nth_append)
qed (use assms ledger_ok_begin closable_begin ledger_ok_finalize closable_finalize in auto)

lemma closable_run:
  "ledger_ok l \<Longrightarrow> handle_closable l a \<Longrightarrow> list_all (leaves_open a) xs \<Longrightarrow>
   ledger_ok (run_ops (ledger_step sha sk) l xs) \<and> handle_closable (run_ops (ledger_step sha sk) l xs) a \<and>
   lg_heap (run_ops (ledger_step sha sk) l xs) ! a = lg_heap l ! a"
proof (induction xs arbitrary: l)
  case (Cons x xs)
  then show ?case using closable_step [of l a x sha] by simp
qed simp

lemma closable_closes:
  assumes ok: "ledger_ok l" and c: "handle_closable l a" and ob: "provider_observation_new raw = Inr ob"
    and t: "instant (ah_recorded_at (lg_heap l ! a)) \<le> instant (po_started_at ob)"
  shows "\<exists>l' ev. ledger_finalize sha sk a ob now l = (l', Inr ev)"
proof -
  note o = observation_newD [OF ob]
  let ?h = "lg_heap l ! a"
  obtain refs where refs: "require_artifact_refs (po_artifact_refs ob) = Inr refs" using o(6) by blast
  obtain ec where ec: "evidence_class_for (po_outcome ob) = Inr ec" using o(2) by (cases "po_outcome ob") (auto simp: evidence_class_outcome)
  from ok c obtain kvs ps where r: "sk_read sk (ah_audit_id ?h) (lg_sink l) = Inr (Some (JObj kvs))"
    "map_of kvs ''record_digest'' = Some (JStr (ah_record_digest ?h))" "require_preconditions (mi_preconditions (ah_intent ?h)) = Inr ps"
    unfolding ledger_ok_def handle_closable_def by metis
  have "\<exists>dg body. evidence_body sha ?h ob now = Inr (dg, body)"
    using r(3) refs ec entries_valid(1,3) entries_valid(4) [OF entries_valid(1,3)]
    by (simp add: evidence_body_def mutation_intent_canonical_def observation_canonical_def observation_evidence_class_def mut_hash_def
        canonical_hash_def canonical_json_text_def del: json_validate.simps dumps.simps)
  with c t r(1,2) ec show ?thesis unfolding ledger_finalize_iff Let_def check_stored_Inr observation_evidence_class_def by blast
qed

text \<open>An attempt that was begun can be ended, whatever happens in between but ending it or changing the records.\<close>

lemma attempt_closes:
  assumes ok: "ledger_ok l" and b: "ledger_begin sha sk hex now i l = (l1, Inr a)" and xs: "list_all (leaves_open a) xs"
    and ob: "provider_observation_new raw = Inr ob" "instant now \<le> instant (po_started_at ob)"
  shows "\<exists>l2 ev. ledger_finalize sha sk a ob now' (run_ops (ledger_step sha sk) l1 xs) = (l2, Inr ev)"
proof -
  have "ledger_ok l1" using ledger_ok_begin [OF ok, of sha hex now i] b by simp
  moreover have h: "handle_closable l1 a" "ah_recorded_at (lg_heap l1 ! a) = now"
    using b by (auto simp: ledger_begin_iff handle_closable_def update_conv')
  ultimately show ?thesis using closable_run [of l1 a xs sha] xs ob by (intro closable_closes) simp_all
qed

end

subsection \<open>The two sinks are append-only\<close>

interpretation memory_sink: append_only_sink in_memory_sink
proof unfold_locales
  show "sk_read in_memory_sink i s = Inr None" if "sk_append in_memory_sink i body s = (s', Inr ())" for i body s s'
    using that by (auto simp: in_memory_sink_def memory_append_def memory_read_def split: if_splits)
  show "\<exists>kvs. sk_read in_memory_sink i s' = Inr (Some (JObj kvs)) \<and> map_of kvs k = Some (JStr v)"
    if "sk_append in_memory_sink i body s = (s', Inr ())" "map_of body k = Some (JStr v)" for i body s s' k v
    using that by (auto simp: in_memory_sink_def memory_append_def memory_read_def update_conv' split: if_splits)
  show "sk_read in_memory_sink j s' = Inr (Some w)"
    if "sk_append in_memory_sink i body s = (s', r)" "sk_read in_memory_sink j s = Inr (Some w)" for i body s s' r j w
    using that by (auto simp: in_memory_sink_def memory_append_def memory_read_def update_conv' split: if_splits)
qed

lemma file_append_Inr:
  "file_append i body s = (s', Inr ()) \<longleftrightarrow>
   (\<exists>path. path_for i = Inr path \<and> map_of (fs_files s) path = None \<and> json_validate (JObj body) \<and> next_fault s = No_fault \<and>
     s' = s\<lparr>fs_faults := tl (fs_faults s), fs_files := AList.update path (Json_text (canon (JObj body))) (fs_files s)\<rparr>)"
  by (auto simp: file_append_def Let_def split: sum.splits os_fault.splits)

lemma file_append_keeps:
  "file_append i body s = (s', r) \<Longrightarrow> map_of (fs_files s) path = Some f \<Longrightarrow> map_of (fs_files s') path = Some f"
  by (auto simp: file_append_def Let_def update_conv' split: sum.splits os_fault.splits if_splits)

lemma file_read_Some:
  "file_read i s = Inr (Some v) \<longleftrightarrow> (\<exists>path. path_for i = Inr path \<and> map_of (fs_files s) path = Some (Json_text v))"
  by (auto simp: file_read_def split: sum.splits option.splits audit_file.splits)

interpretation files: append_only_sink file_audit_sink
proof unfold_locales
  show "sk_read file_audit_sink i s = Inr None" if "sk_append file_audit_sink i body s = (s', Inr ())" for i body s s'
    using that by (auto simp: file_audit_sink_def file_append_Inr file_read_def)
  show "\<exists>kvs. sk_read file_audit_sink i s' = Inr (Some (JObj kvs)) \<and> map_of kvs k = Some (JStr v)"
    if "sk_append file_audit_sink i body s = (s', Inr ())" "distinct (map fst body)" "map_of body k = Some (JStr v)" for i body s s' k v
    using that by (auto simp: file_audit_sink_def file_append_Inr file_read_Some update_conv' map_of_canon)
  show "sk_read file_audit_sink j s' = Inr (Some w)"
    if "sk_append file_audit_sink i body s = (s', r)" "sk_read file_audit_sink j s = Inr (Some w)" for i body s s' r j w
    using that file_append_keeps by (auto simp: file_audit_sink_def file_read_Some)
qed



subsection \<open>A concrete attempt\<close>

definition sample_audit_intent :: mutation_intent where
  "sample_audit_intent = \<lparr>mi_principal = ''p'', mi_operation = ''github.create_branch'', mi_repository = ''o/r'',
     mi_operation_digest = sample_key, mi_policy_decision = ALLOW,
     mi_capability = \<lparr>cs_capability_id = CAP_BRANCH, cs_state = READY, cs_snapshot_hash = sample_key, cs_policy_version = ''v1''\<rparr>,
     mi_idempotency_key = sample_key, mi_idempotency_status = NEW, mi_approval = None, mi_preconditions = [],
     mi_registry_snapshot_hash = None\<rparr>"

definition sample_time :: moment where "sample_time = \<lparr>instant = 0, aware = True\<rparr>"

definition sample_observation :: provider_observation where
  "sample_observation = \<lparr>po_outcome = COMMITTED, po_verification = VERIFIED, po_attempts = 1, po_started_at = sample_time,
     po_finished_at = sample_time, po_status_class = None, po_reason = None, po_result_digest = None, po_artifact_refs = []\<rparr>"

definition sample_ledger :: "file_sink ledger" where
  "sample_ledger = \<lparr>lg_sink = \<lparr>fs_files = [], fs_faults = []\<rparr>, lg_token = 0, lg_open = [], lg_heap = []\<rparr>"

lemma sample_ledger_new: "ledger_new file_audit_sink False \<lparr>fs_files = [], fs_faults = []\<rparr> 0 [] = Inr sample_ledger"
  by (simp add: ledger_new_def file_audit_sink_def sample_ledger_def)

lemma sample_observation_new: "provider_observation_new sample_observation = Inr sample_observation"
  by (simp add: provider_observation_new_def sample_observation_def sample_time_def require_status_class_def require_optional_pattern_def
      require_artifact_refs_def proves_commit_def)

lemma sample_path: "path_for ''mut-0'' = Inr ''mut-0.json''"
  by code_simp

lemma sample_begins: "\<exists>l1. ledger_begin (\<lambda>_. []) file_audit_sink ''0'' sample_time sample_audit_intent sample_ledger = (l1, Inr 0)"
proof -
  have "intent_admissible sample_audit_intent" by (simp add: intent_admissible_def sample_audit_intent_def)
  moreover have "write_ahead_body (\<lambda>_. []) sample_audit_intent ''mut-0'' sample_time =
      Inr ([], intent_entries sample_audit_intent [] @ write_ahead_entries ''mut-0'' sample_time @ [(''record_digest'', JStr [])])"
    by (auto simp: write_ahead_body_Inr require_preconditions_def sample_audit_intent_def)
  moreover have "json_validate (JObj (intent_entries sample_audit_intent [] @ write_ahead_entries ''mut-0'' sample_time @ [(''record_digest'', JStr [])]))"
    using write_ahead_valid [of sample_audit_intent "[]" "''mut-0''" sample_time] by (simp add: ball_Un)
  ultimately show ?thesis
    using sample_path by (auto simp: ledger_begin_iff sample_time_def sample_ledger_def file_audit_sink_def file_append_Inr next_fault_def
        file_exists_def update_conv' simp del: json_validate.simps canon.simps)
qed


theorem audit_evidence_honest_witness:
  "\<exists>l l' ev. ledger_finalize (\<lambda>_. []) file_audit_sink 0 sample_observation sample_time l = (l', Inr ev) \<and>
    mutation_confirmed (ev_evidence_class ev) \<and>
    spend_count (ledger_step (\<lambda>_. []) file_audit_sink) (closes (\<lambda>_. []) file_audit_sink 0) l' [LG_finalize 0 sample_observation sample_time] = 0"
proof -
  obtain l1 where b: "ledger_begin (\<lambda>_. []) file_audit_sink ''0'' sample_time sample_audit_intent sample_ledger = (l1, Inr 0)"
    using sample_begins by blast
  have "files.ledger_ok sample_ledger" by (simp add: files.ledger_ok_def sample_ledger_def)
  then obtain l2 ev where f: "ledger_finalize (\<lambda>_. []) file_audit_sink 0 sample_observation sample_time l1 = (l2, Inr ev)"
    using files.attempt_closes [OF _ b _ sample_observation_new, of "[]" sample_time] by (auto simp: sample_observation_def)
  have o: "po_outcome sample_observation = COMMITTED" by (simp add: sample_observation_def)
  show ?thesis
    using audit_evidence_honest [OF sample_observation_new f, of "[LG_finalize 0 sample_observation sample_time]"] f unfolding o by blast
qed

subsection \<open>Two surprises\<close>

text \<open>A clean failure needs no read-back at all: unverifiable evidence may say FAILED and allow a new attempt.\<close>

lemma unverifiable_may_fail:
  "\<exists>ob. provider_observation_new ob = Inr ob \<and> po_verification ob = UNVERIFIABLE \<and> observation_evidence_class ob = Inr EV_FAILED \<and>
    evidence_allows_new_attempt EV_FAILED"
proof (intro exI conjI)
  let ?ob = "sample_observation\<lparr>po_outcome := FAILED_CLEAN, po_verification := UNVERIFIABLE\<rparr>"
  show "provider_observation_new ?ob = Inr ?ob"
    by (simp add: provider_observation_new_def sample_observation_def sample_time_def require_status_class_def require_optional_pattern_def
        require_artifact_refs_def)
qed (simp_all add: observation_evidence_class_def evidence_class_outcome evidence_allows_new_attempt_def)

lemma takeWhile_all: "list_all p xs \<Longrightarrow> takeWhile p xs = xs"
  by (induction xs) simp_all

lemma has_run_all: "list_all p s \<Longrightarrow> n \<le> length s \<Longrightarrow> has_run p n s"
  by (cases s) (simp_all add: takeWhile_all)

text \<open>The scan runs before the pattern: a repository that matches the pattern is refused when it is long.\<close>

lemma long_repository_refused:
  "re_repository (replicate 39 (CHR ''a'') @ ''/'' @ replicate 40 (CHR ''b'')) \<and>
   require_pattern re_repository (replicate 39 (CHR ''a'') @ ''/'' @ replicate 40 (CHR ''b'')) = Inl redaction_error"
proof
  let ?s = "replicate 39 (CHR ''a'') @ ''/'' @ replicate 40 (CHR ''b'')"
  have ab: "ascii_alnum (CHR ''a'')" "ascii_alnum (CHR ''b'')" by code_simp+
  have "takeWhile (\<lambda>c. c \<noteq> CHR ''/'') ?s = replicate 39 (CHR ''a'')" "dropWhile (\<lambda>c. c \<noteq> CHR ''/'') ?s = ''/'' @ replicate 40 (CHR ''b'')"
    by (subst takeWhile_append2, auto) (subst dropWhile_append2, auto)
  then show "re_repository ?s" using ab by (simp add: re_repository_def repo_part_def list_all_length Let_def)
  have "list_all opaque_char ?s" using ab by (simp add: opaque_char_def list_all_iff)
  moreover have "length ?s = 80" by simp
  ultimately have "has_run opaque_char 80 ?s" by (intro has_run_all) simp_all
  then show "require_pattern re_repository ?s = Inl redaction_error"
    by (auto simp: require_pattern_def require_safe_text_def looks_secret_bearing_def)
qed

end
