(* ===== verification/Github_Mutations.thy ===== *)
theory Github_Mutations
  imports Github_Registry Audit_Ledger
begin

section \<open>The GitHub mutation executor (v2/github\_mutations.py)\<close>

text \<open>
  \<open>GitHubMutationExecutor.execute\<close> between its three awaits: the preflight up to the re-read of the precondition, the
  write-ahead record up to the provider write, the write up to the read-back, and the shaping of the result. Each part
  runs without interruption over the shared stores; what the provider answers, what the clocks say and what the
  credential broker answers are inputs of a part. A part ends in a result, an exception or the next await. The
  shaped result of a mutation is represented by its JSON text, as in the idempotency store.
\<close>

subsection \<open>Requests, responses, results\<close>

record mutation_request =
  mq_principal :: string
  mq_tool_id :: string
  mq_arguments :: "(string \<times> json) list"
  mq_approval_id :: string
  mq_attempt_token :: "string option"

record provider_response =
  rs_status_code :: int
  rs_payload :: "(string \<times> json) list"

datatype transport_result = Responded provider_response | ProviderTransportError | Transport_raises string

definition status_class :: "int \<Rightarrow> string" where
  "status_class code = int_text (max 1 (min 5 (code div 100))) @ ''xx''"

record mutation_result =
  mr_schema :: string
  mr_tool_id :: string
  mr_repository :: string
  mr_outcome :: mutation_outcome
  mr_verification :: verification_state
  mr_evidence_class :: evidence_class
  mr_idempotency_status :: idempotency_status
  mr_operation_digest :: string
  mr_idempotency_key :: string
  mr_audit_id :: "string option"
  mr_evidence_digest :: "string option"
  mr_data :: string
  mr_stages :: "mut_stage list"
  mr_provider_writes :: nat

paragraph \<open>The bounded adapter\<close>

definition relative_path_ok :: "string \<Rightarrow> bool" where
  "relative_path_ok p \<longleftrightarrow>
     starts_with ''/repos/'' p \<and> \<not> substr ''://'' p \<and> \<not> substr ''..'' p \<and> backslash \<notin> set p \<and> code_points p \<le> 512 \<and>
     list_all (\<lambda>c. (32 :: nat) \<le> of_char c \<and> of_char c \<le> (126 :: nat)) p"

text \<open>
  What the HTTP library does with a request: a transport failure, an exception outside its hierarchy, or a response with the
  length of its content and the value \<open>json.loads\<close> reads from it, if it reads one.
\<close>

datatype net_result = Net_error | Net_raises string | Net_response int nat "json option"

definition httpx_request :: "nat \<Rightarrow> string \<Rightarrow> net_result \<Rightarrow> transport_result" where
  "httpx_request max_bytes path net =
     (if \<not> relative_path_ok path then ProviderTransportError
      else case net of
             Net_error \<Rightarrow> ProviderTransportError
           | Net_raises n \<Rightarrow> Transport_raises n
           | Net_response code bytes parsed \<Rightarrow>
               Responded \<lparr>rs_status_code = code,
                 rs_payload = (if bytes > max_bytes then [] else case parsed of Some (JObj kvs) \<Rightarrow> kvs | _ \<Rightarrow> [])\<rparr>)"

subsection \<open>Configuration and shared state\<close>

record write_readiness =
  wr_state :: capability_state
  wr_reason :: "mutation_reason option"

definition readiness_ready :: "write_readiness \<Rightarrow> bool" where
  "readiness_ready r \<longleftrightarrow> wr_state r = READY \<and> wr_reason r = None"

text \<open>The answers of a write capability broker at one moment.\<close>

record write_broker =
  wb_readiness :: "string \<Rightarrow> write_readiness option"
  wb_authorize :: "string \<Rightarrow> string \<Rightarrow> (mut_error, string) result"

definition broker_status_of :: "write_broker \<Rightarrow> broker_status" where
  "broker_status_of b i = map_option (\<lambda>r. \<lparr>st_capability_id = i, st_provider = ''github'', st_state = wr_state r, st_version = 1\<rparr>) (wb_readiness b i)"

record 's mutation_executor =
  mx_sha :: "string \<Rightarrow> string"
  mx_registry :: tool_registry
  mx_rules :: policy_rules
  mx_scope :: "string list"
  mx_sink :: "'s audit_sink"
  mx_policy_version :: string

record 's mx_state =
  xs_approvals :: ma_store
  xs_idem :: idem_store
  xs_ledger :: "'s ledger"

paragraph \<open>Repository scope (v2/github\_direct.py)\<close>

definition normalize_repository_part :: "string \<Rightarrow> (mut_error, string) result" where
  "normalize_repository_part v =
     (let c = strip v
      in if \<not> repo_part c then Inl (Other_exception ''GitHubDirectDenied'')
         else if list_ex (\<lambda>x. x \<in> set c) (''*?[]/'' @ [backslash]) then Inl (Other_exception ''GitHubDirectDenied'')
         else if c = ''.'' \<or> c = ''..'' then Inl (Other_exception ''GitHubDirectDenied'')
         else Inr (lower_text c))"

definition repository_ref :: "string \<Rightarrow> string \<Rightarrow> (mut_error, string) result" where
  "repository_ref owner repo =
     bind_r (normalize_repository_part owner) (\<lambda>a. bind_r (normalize_repository_part repo) (\<lambda>b. Inr (a @ ''/'' @ b)))"

definition scope_allows :: "string list \<Rightarrow> string \<Rightarrow> string \<Rightarrow> (mut_error, bool) result" where
  "scope_allows scope owner repo = bind_r (repository_ref owner repo) (\<lambda>r. Inr (r \<in> set scope))"

definition owner_of :: "string \<Rightarrow> string" where
  "owner_of r = takeWhile (\<lambda>c. c \<noteq> CHR ''/'') r"

definition repo_of :: "string \<Rightarrow> string" where
  "repo_of r = tl (dropWhile (\<lambda>c. c \<noteq> CHR ''/'') r)"

subsection \<open>Helpers of the stages\<close>

definition text_arg :: "(string \<times> json) list \<Rightarrow> string \<Rightarrow> string" where
  "text_arg args k = (case map_of args k of Some (JStr s) \<Rightarrow> s | _ \<Rightarrow> [])"

definition is_branch :: "mutation_contract \<Rightarrow> bool" where
  "is_branch c \<longleftrightarrow> mc_tool_id c = CREATE_BRANCH_TOOL_ID"

definition expected_sha :: "mutation_contract \<Rightarrow> (string \<times> json) list \<Rightarrow> string" where
  "expected_sha c args = text_arg args (if is_branch c then ''base_sha'' else ''expected_head_sha'')"

definition mx_descriptor :: "'s mutation_executor \<Rightarrow> mutation_contract \<Rightarrow> string \<Rightarrow> (string \<times> json) list \<Rightarrow> (mut_error, op_descriptor) result" where
  "mx_descriptor e c repo args =
     bind_r (preconditions_new
       (if is_branch c then \<lparr>base_sha = Some (expected_sha c args), expected_head_sha = None, required_checks_policy = None\<rparr>
        else \<lparr>base_sha = None, expected_head_sha = Some (expected_sha c args), required_checks_policy = None\<rparr>)) (\<lambda>pre.
     bind_r (capability_snapshot_hash (mx_sha e) (mx_registry e)) (\<lambda>snap.
     descriptor_new \<lparr>od_operation = mc_tool_id c, od_capability = mc_write_capability c, od_repository = repo,
       od_arguments = filter (\<lambda>(k, v). k \<noteq> ''repository'') args, od_preconditions = pre,
       od_policy_version = mx_policy_version e, od_registry_snapshot_hash = snap\<rparr>))"

definition mx_target :: "mutation_contract \<Rightarrow> (string \<times> json) list \<Rightarrow> string" where
  "mx_target c args = text_arg args (if is_branch c then ''branch'' else ''head'')"

definition observed_preconditions :: "mutation_contract \<Rightarrow> (string \<times> json) list \<Rightarrow> (string \<times> string) list" where
  "observed_preconditions c args = [(if is_branch c then ''base_sha'' else ''expected_head_sha'', expected_sha c args)]"

definition write_body :: "mutation_contract \<Rightarrow> (string \<times> json) list \<Rightarrow> (string \<times> json) list" where
  "write_body c args =
     (if is_branch c then [(''ref'', arg_of args ''ref''), (''sha'', arg_of args ''base_sha'')]
      else [(''title'', arg_of args ''title''), (''head'', arg_of args ''head''), (''base'', arg_of args ''base''), (''draft'', arg_of args ''draft'')] @
           (if json_truthy (arg_of args ''body'') then [(''body'', arg_of args ''body'')] else []))"

text \<open>\<open>template.format(...)\<close> for the fields of the templates\<close>

function fill :: "(string \<times> string) list \<Rightarrow> string \<Rightarrow> string" where
  "fill env [] = []"
| "fill env (c # cs) =
     (if c = CHR ''{''
      then (case map_of env (takeWhile (\<lambda>d. d \<noteq> CHR ''}'') cs) of None \<Rightarrow> [] | Some v \<Rightarrow> v) @ fill env (tl (dropWhile (\<lambda>d. d \<noteq> CHR ''}'') cs))
      else c # fill env cs)"
  by pat_completeness auto
termination fill
proof (relation "measure (\<lambda>(env, s). length s)")
  fix env :: "(string \<times> string) list" and c :: char and cs :: string
  have "length (dropWhile (\<lambda>d. d \<noteq> CHR ''}'') cs) \<le> length cs" by (rule length_dropWhile_le)
  then show "((env, tl (dropWhile (\<lambda>d. d \<noteq> CHR ''}'') cs)), env, c # cs) \<in> measure (\<lambda>(env, s). length s)" by simp
qed simp_all

definition endpoint :: "string \<Rightarrow> string \<Rightarrow> (string \<times> string) list \<Rightarrow> string" where
  "endpoint template repo env = fill ([(''owner'', owner_of repo), (''repo'', repo_of repo)] @ env) template"

definition revalidate_path :: "mutation_contract \<Rightarrow> string \<Rightarrow> (string \<times> json) list \<Rightarrow> string" where
  "revalidate_path c repo args =
     (if is_branch c then endpoint ''/repos/{owner}/{repo}/git/commits/{sha}'' repo [(''sha'', expected_sha c args)]
      else endpoint ''/repos/{owner}/{repo}/git/ref/heads/{branch}'' repo [(''branch'', text_arg args ''head'')])"

definition object_sha :: "(string \<times> json) list \<Rightarrow> json" where
  "object_sha payload = (case map_of payload ''object'' of Some (JObj kvs) \<Rightarrow> arg_of kvs ''sha'' | _ \<Rightarrow> JNull)"

definition extract_sha :: "mutation_contract \<Rightarrow> (string \<times> json) list \<Rightarrow> json" where
  "extract_sha c payload = (if is_branch c then arg_of payload ''sha'' else object_sha payload)"

text \<open>The outcome of \<open>_revalidate\<close>: \<open>Inr\<close> when the observed SHA is the expected one.\<close>

definition mx_revalidate :: "mutation_contract \<Rightarrow> (string \<times> json) list \<Rightarrow> transport_result \<Rightarrow> (mut_error, unit) result" where
  "mx_revalidate c args resp =
     (case resp of
        ProviderTransportError \<Rightarrow> Inl (MutationIndeterminateError RECONCILIATION_REQUIRED PRECONDITION_REVALIDATION)
      | Transport_raises n \<Rightarrow> Inl (Other_exception n)
      | Responded r \<Rightarrow>
          if rs_status_code r \<noteq> 200 then Inl (ConcurrencyDriftError PRECONDITION_DRIFT PRECONDITION_REVALIDATION)
          else if extract_sha c (rs_payload r) \<noteq> JStr (expected_sha c args) then Inl (ConcurrencyDriftError PRECONDITION_DRIFT PRECONDITION_REVALIDATION)
          else Inr ())"

text \<open>\<open>==\<close> on JSON scalars: numbers and booleans compare by value.\<close>

fun json_number :: "json \<Rightarrow> rat option" where
  "json_number (JBool b) = Some (if b then 1 else 0)"
| "json_number (JInt i) = Some (of_int i)"
| "json_number (JFloat r) = Some r"
| "json_number _ = None"

definition py_eq :: "json \<Rightarrow> json \<Rightarrow> bool" where
  "py_eq a b \<longleftrightarrow> (case (json_number a, json_number b) of (Some x, Some y) \<Rightarrow> x = y | _ \<Rightarrow> a = b)"

definition created_number :: "(string \<times> json) list \<Rightarrow> int option" where
  "created_number created = (case map_of created ''number'' of Some (JInt n) \<Rightarrow> if n < 1 then None else Some n | _ \<Rightarrow> None)"

text \<open>The path of the read-back, \<open>None\<close> when the created object has no number.\<close>

definition read_back_path :: "mutation_contract \<Rightarrow> string \<Rightarrow> (string \<times> json) list \<Rightarrow> (string \<times> json) list \<Rightarrow> string option" where
  "read_back_path c repo args created =
     (if is_branch c then Some (endpoint (rb_endpoint_template (mc_read_back c)) repo [(''branch'', text_arg args ''branch'')])
      else map_option (\<lambda>n. endpoint (rb_endpoint_template (mc_read_back c)) repo [(''number'', int_text n)]) (created_number created))"

definition observed_fields :: "mutation_contract \<Rightarrow> (string \<times> json) list \<Rightarrow> (string \<times> json) list" where
  "observed_fields c payload =
     (if is_branch c then [(''ref'', arg_of payload ''ref''), (''sha'', object_sha payload)]
      else [(''number'', arg_of payload ''number''),
            (''head_sha'', case map_of payload ''head'' of Some (JObj kvs) \<Rightarrow> arg_of kvs ''sha'' | _ \<Rightarrow> JNull),
            (''state'', arg_of payload ''state'')])"

definition expected_fields :: "mutation_contract \<Rightarrow> (string \<times> json) list \<Rightarrow> (string \<times> json) list \<Rightarrow> (string \<times> json) list" where
  "expected_fields c args created =
     (if is_branch c then [(''ref'', arg_of args ''ref''), (''sha'', arg_of args ''base_sha'')]
      else [(''number'', arg_of created ''number''), (''head_sha'', arg_of args ''expected_head_sha''), (''state'', JStr ''open'')])"

fun compare_fields :: "(string \<times> json) list \<Rightarrow> (string \<times> json) list \<Rightarrow> string list \<Rightarrow> verification_state" where
  "compare_fields obs expd [] = VERIFIED"
| "compare_fields obs expd (f # fs) =
     (if arg_of obs f = JNull then UNVERIFIABLE
      else if \<not> py_eq (arg_of obs f) (arg_of expd f) then MISMATCH
      else compare_fields obs expd fs)"

definition mx_read_back ::
  "mutation_contract \<Rightarrow> (string \<times> json) list \<Rightarrow> (string \<times> json) list \<Rightarrow> transport_result
    \<Rightarrow> (mut_error, verification_state \<times> (string \<times> json) list) result" where
  "mx_read_back c args created resp =
     (case resp of
        ProviderTransportError \<Rightarrow> Inr (UNVERIFIABLE, [])
      | Transport_raises n \<Rightarrow> Inl (Other_exception n)
      | Responded r \<Rightarrow>
          if rs_status_code r \<noteq> 200 \<or> rs_payload r = [] then Inr (UNVERIFIABLE, [])
          else (let obs = observed_fields c (rs_payload r);
                    v = compare_fields obs (expected_fields c args created) (rb_verified_fields (mc_read_back c))
                in Inr (v, if v = VERIFIED then obs else [])))"

definition shape_value :: "json \<Rightarrow> json option" where
  "shape_value v =
     (case v of
        JBool b \<Rightarrow> Some v
      | JInt i \<Rightarrow> Some v
      | JStr s \<Rightarrow> if code_points s > 256 \<or> looks_secret_bearing s then None else Some v
      | _ \<Rightarrow> None)"

definition ref_url :: "(string \<times> json) list \<Rightarrow> json" where
  "ref_url payload = (case map_of payload ''url'' of Some (JStr s) \<Rightarrow> JStr s | _ \<Rightarrow> JNull)"

definition mx_shape :: "mutation_contract \<Rightarrow> (string \<times> json) list \<Rightarrow> (string \<times> json) list \<Rightarrow> (string \<times> json) list" where
  "mx_shape c obs payload =
     concat (map (\<lambda>name.
       let raw = (if name = ''url'' then (if json_truthy (arg_of payload ''html_url'') then arg_of payload ''html_url'' else ref_url payload)
                  else case map_of obs name of Some v \<Rightarrow> v | None \<Rightarrow> arg_of payload name)
       in case shape_value raw of None \<Rightarrow> [] | Some v \<Rightarrow> [(name, v)]) (mc_result_fields c))"

fun stage_index :: "mut_stage \<Rightarrow> mut_stage list \<Rightarrow> int" where
  "stage_index st [] = 0"
| "stage_index st (x # xs) = (if x = st then 0 else 1 + stage_index st xs)"

fun stage_order_ok :: "int \<Rightarrow> mut_stage list \<Rightarrow> bool" where
  "stage_order_ok i [] = True"
| "stage_order_ok i (st # sts) = (i < stage_index st MUTATION_STAGE_ORDER \<and> stage_order_ok (stage_index st MUTATION_STAGE_ORDER) sts)"

text \<open>The reason of an exception, as the idempotency store records it.\<close>

definition idem_reason :: "mutation_reason \<Rightarrow> reason_code" where
  "idem_reason r =
     (if r = OPERATION_IN_PROGRESS then reason_code.OPERATION_IN_PROGRESS
      else if r = RECONCILIATION_REQUIRED then reason_code.RECONCILIATION_REQUIRED
      else if r = IDEMPOTENT_REPLAY then reason_code.IDEMPOTENT_REPLAY
      else if r = INVALID_ARGUMENTS then reason_code.INVALID_ARGUMENTS
      else OTHER_REASON (reason_value r))"

fun error_reason :: "mut_error \<Rightarrow> reason_code" where
  "error_reason (MutationDenied r g) = idem_reason r"
| "error_reason (MutationScopeError r g) = idem_reason r"
| "error_reason (WriteCapabilityError r g) = idem_reason r"
| "error_reason (ApprovalError r g) = idem_reason r"
| "error_reason (DigestMismatchError r g) = idem_reason r"
| "error_reason (ConcurrencyDriftError r g) = idem_reason r"
| "error_reason (AuditWriteError r g) = idem_reason r"
| "error_reason (Store_error (IdempotencyConflictError r d)) = r"
| "error_reason (Store_error (MutationDeniedError r g d)) = r"
| "error_reason (MutationIndeterminateError r g) = idem_reason r"
| "error_reason (Other_exception n) = OTHER_REASON n"

subsection \<open>The parts of \<open>execute\<close>\<close>

text \<open>What an execution carries across an await.\<close>

record mx_ctx =
  cx_request :: mutation_request
  cx_contract :: mutation_contract
  cx_arguments :: "(string \<times> json) list"
  cx_repository :: string
  cx_descriptor :: op_descriptor
  cx_digest :: string
  cx_key :: string
  cx_status :: idempotency_status
  cx_stages :: "mut_stage list"
  cx_handle :: nat
  cx_started_at :: moment
  cx_writes :: nat
  cx_created :: provider_response

datatype mx_outcome =
  Returned mutation_result
| Raised mut_error
| Await_revalidate mx_ctx
| Await_post mx_ctx
| Await_read_back mx_ctx

definition no_response :: provider_response where
  "no_response = \<lparr>rs_status_code = 0, rs_payload = []\<rparr>"

definition replayed_result :: "mutation_contract \<Rightarrow> string \<Rightarrow> idem_decision \<Rightarrow> string \<Rightarrow> string \<Rightarrow> mut_stage list \<Rightarrow> mutation_result" where
  "replayed_result c repo d dg key stages =
     (let r = decided_record d
      in \<lparr>mr_schema = ''v2.phase3.mutation-result.1'', mr_tool_id = mc_tool_id c, mr_repository = repo, mr_outcome = outcome r,
          mr_verification = NOT_ATTEMPTED, mr_evidence_class = (if outcome r = COMMITTED then EV_SUCCESS else EV_BLOCKED),
          mr_idempotency_status = idem_status d, mr_operation_digest = dg, mr_idempotency_key = key, mr_audit_id = None,
          mr_evidence_digest = None, mr_data = (case rec_result r of None \<Rightarrow> ''{}'' | Some t \<Rightarrow> t), mr_stages = stages, mr_provider_writes = 0\<rparr>)"

text \<open>Stages 1 to 4: registry, scope, policy and credential.\<close>

definition mx_admit ::
  "'s mutation_executor \<Rightarrow> write_broker \<Rightarrow> mutation_request \<Rightarrow> (mut_error, mutation_contract \<times> (string \<times> json) list \<times> string) result" where
  "mx_admit e br q =
     bind_r (get_mutation_contract (mq_tool_id q)) (\<lambda>c.
     bind_r (normalize_arguments (mc_tool_id c) (mq_arguments q)) (\<lambda>args.
     let repo = text_arg args ''repository'' in
     bind_r (scope_allows (mx_scope e) (owner_of repo) (repo_of repo)) (\<lambda>ok.
     if \<not> ok then Inl (MutationScopeError REPOSITORY_OUT_OF_SCOPE SCOPE) else
     let ev = evaluate \<lparr>en_registry = mx_registry e, en_rules = mx_rules e, en_broker = Some (broker_status_of br)\<rparr> (mc_tool_id c) in
     if pe_decision ev \<noteq> APPROVAL_REQUIRED
     then Inl (MutationDenied (if pe_decision ev = ALLOW then MUTATION_NOT_REGISTERED else DESTRUCTIVE_OPERATION_FORBIDDEN) POLICY)
     else
     let cap = write_capability_value (mc_write_capability c) in
     case wb_readiness br cap of
       None \<Rightarrow> Inl (WriteCapabilityError WRITE_CAPABILITY_NOT_READY CREDENTIAL)
     | Some rd \<Rightarrow>
         if \<not> readiness_ready rd
         then Inl (WriteCapabilityError (case wr_reason rd of None \<Rightarrow> WRITE_CAPABILITY_NOT_READY | Some r \<Rightarrow> r) CREDENTIAL)
         else bind_r (wb_authorize br cap repo) (\<lambda>_. Inr (c, args, repo)))))"

text \<open>The preflight; \<open>t1\<close> and \<open>t2\<close> are the times the approval and the claim are made.\<close>

definition mx_preflight ::
  "'s mutation_executor \<Rightarrow> write_broker \<Rightarrow> utc \<Rightarrow> utc \<Rightarrow> mutation_request \<Rightarrow> 's mx_state \<Rightarrow> 's mx_state \<times> mx_outcome" where
  "mx_preflight e br t1 t2 q s =
     (case mx_admit e br q of Inl err \<Rightarrow> (s, Raised err) | Inr (c, args, repo) \<Rightarrow>
      case mx_descriptor e c repo args of Inl err \<Rightarrow> (s, Raised err) | Inr d \<Rightarrow>
      case compute_operation_digest (mx_sha e) d of Inl err \<Rightarrow> (s, Raised err) | Inr dg \<Rightarrow>
      if mq_approval_id q = [] then (s, Raised (ApprovalError APPROVAL_MISSING APPROVAL)) else
      case ma_verify_and_consume (mx_sha e) (mq_approval_id q) d (mq_principal q) t1 (xs_approvals s) of
        (aps, Inl err) \<Rightarrow> (s\<lparr>xs_approvals := aps\<rparr>, Raised err)
      | (aps, Inr ar) \<Rightarrow>
          let s1 = s\<lparr>xs_approvals := aps\<rparr>;
              stages = [SCOPE, REGISTRY, POLICY, CREDENTIAL, APPROVAL, IDEMPOTENCY]
          in case compute_idempotency_key (mx_sha e) (mq_principal q) (mc_write_capability c) repo (mc_tool_id c) dg (mq_attempt_token q) of
               Inl err \<Rightarrow> (s1, Raised err)
             | Inr key \<Rightarrow>
                 (case idem_begin key (mq_principal q) repo (mc_tool_id c) dg (mx_target c args) t2 (xs_idem s1) of
                    (ids, Inl err) \<Rightarrow> (s1\<lparr>xs_idem := ids\<rparr>, Raised (Store_error err))
                  | (ids, Inr dec) \<Rightarrow>
                      let s2 = s1\<lparr>xs_idem := ids\<rparr>
                      in if \<not> executes_provider_call dec then (s2, Returned (replayed_result c repo dec dg key stages))
                         else (s2, Await_revalidate
                           \<lparr>cx_request = q, cx_contract = c, cx_arguments = args, cx_repository = repo, cx_descriptor = d, cx_digest = dg,
                            cx_key = key, cx_status = idem_status dec, cx_stages = stages @ [PRECONDITION_REVALIDATION],
                            cx_handle = 0, cx_started_at = \<lparr>instant = 0, aware = True\<rparr>, cx_writes = 0, cx_created = no_response\<rparr>)))"

text \<open>Resolving the key and raising; an exception of the store takes over.\<close>

definition resolve_raise ::
  "(idem_store \<Rightarrow> idem_store \<times> (mutation_error, idem_record) result) \<Rightarrow> mut_error \<Rightarrow> 's mx_state \<Rightarrow> 's mx_state \<times> mx_outcome" where
  "resolve_raise f err s =
     (case f (xs_idem s) of (ids, Inl x) \<Rightarrow> (s\<lparr>xs_idem := ids\<rparr>, Raised (Store_error x)) | (ids, Inr _) \<Rightarrow> (s\<lparr>xs_idem := ids\<rparr>, Raised err))"

definition mx_intent :: "'s mutation_executor \<Rightarrow> mx_ctx \<Rightarrow> (mut_error, mutation_intent) result" where
  "mx_intent e cx =
     bind_r (capability_snapshot_hash (mx_sha e) (mx_registry e)) (\<lambda>snap.
     bind_r (capability_snapshot_new \<lparr>cs_capability_id = mc_write_capability (cx_contract cx), cs_state = READY, cs_snapshot_hash = snap,
                                     cs_policy_version = mx_policy_version e\<rparr>) (\<lambda>cs.
     bind_r (approval_reference_new \<lparr>ap_approval_id = mq_approval_id (cx_request cx), ap_state = AP_PENDING, ap_bound_digest = cx_digest cx\<rparr>) (\<lambda>ap.
     mutation_intent_new \<lparr>mi_principal = mq_principal (cx_request cx), mi_operation = mc_tool_id (cx_contract cx),
       mi_repository = cx_repository cx, mi_operation_digest = cx_digest cx, mi_policy_decision = APPROVAL_REQUIRED, mi_capability = cs,
       mi_idempotency_key = cx_key cx, mi_idempotency_status = cx_status cx, mi_approval = Some ap,
       mi_preconditions = observed_preconditions (cx_contract cx) (cx_arguments cx), mi_registry_snapshot_hash = Some snap\<rparr>)))"

text \<open>
  From the re-read to the provider write: \<open>t1\<close> is the time of a resolution, \<open>hex\<close> and \<open>now\<close> are the identifier
  and the clock of the ledger, \<open>start\<close> the time the call starts.
\<close>

definition mx_after_revalidate ::
  "'s mutation_executor \<Rightarrow> utc \<Rightarrow> string \<Rightarrow> moment \<Rightarrow> moment \<Rightarrow> transport_result \<Rightarrow> mx_ctx \<Rightarrow> 's mx_state \<Rightarrow> 's mx_state \<times> mx_outcome" where
  "mx_after_revalidate e t1 hex now start resp cx s =
     (case mx_revalidate (cx_contract cx) (cx_arguments cx) resp of
        Inl (MutationIndeterminateError r g) \<Rightarrow> resolve_raise (idem_mark_ambiguous (cx_key cx) t1) (MutationIndeterminateError r g) s
      | Inl (Other_exception n) \<Rightarrow> (s, Raised (Other_exception n))
      | Inl err \<Rightarrow> resolve_raise (idem_fail_clean (cx_key cx) (error_reason err) t1) err s
      | Inr _ \<Rightarrow>
          (case mx_intent e cx of Inl err \<Rightarrow> (s, Raised err) | Inr i \<Rightarrow>
           case ledger_begin (mx_sha e) (mx_sink e) hex now i (xs_ledger s) of
             (lg, Inl err) \<Rightarrow>
               let s1 = s\<lparr>xs_ledger := lg\<rparr>
               in if is_mutation_denied err then resolve_raise (idem_fail_clean (cx_key cx) (error_reason err) t1) err s1 else (s1, Raised err)
           | (lg, Inr a) \<Rightarrow>
               (s\<lparr>xs_ledger := lg\<rparr>,
                Await_post (cx\<lparr>cx_handle := a, cx_started_at := start, cx_writes := 1,
                              cx_stages := cx_stages cx @ [WRITE_AHEAD_AUDIT, PROVIDER_CALL]\<rparr>))))"

definition mx_observation ::
  "mutation_outcome \<Rightarrow> verification_state \<Rightarrow> mx_ctx \<Rightarrow> moment \<Rightarrow> string option \<Rightarrow> mutation_reason option \<Rightarrow> provider_observation" where
  "mx_observation out v cx fin sc rsn =
     \<lparr>po_outcome = out, po_verification = v, po_attempts = int (cx_writes cx), po_started_at = cx_started_at cx, po_finished_at = fin,
      po_status_class = sc, po_reason = rsn, po_result_digest = None, po_artifact_refs = []\<rparr>"

text \<open>Building the observation and closing the attempt; both may raise.\<close>

definition mx_finalize ::
  "'s mutation_executor \<Rightarrow> moment \<Rightarrow> provider_observation \<Rightarrow> mx_ctx \<Rightarrow> 's mx_state \<Rightarrow> 's mx_state \<times> (mut_error, mutation_evidence) result" where
  "mx_finalize e now ob cx s =
     (case provider_observation_new ob of Inl err \<Rightarrow> (s, Inl err) | Inr ob' \<Rightarrow>
      case ledger_finalize (mx_sha e) (mx_sink e) (cx_handle cx) ob' now (xs_ledger s) of (lg, r) \<Rightarrow> (s\<lparr>xs_ledger := lg\<rparr>, r))"

definition mx_finish_ambiguous ::
  "'s mutation_executor \<Rightarrow> utc \<Rightarrow> moment \<Rightarrow> moment \<Rightarrow> verification_state \<Rightarrow> string option \<Rightarrow> mut_stage \<Rightarrow> mx_ctx \<Rightarrow> 's mx_state
    \<Rightarrow> 's mx_state \<times> mx_outcome" where
  "mx_finish_ambiguous e t1 fin now v sc stage cx s =
     (case mx_finalize e now (mx_observation AMBIGUOUS v cx fin sc (Some RECONCILIATION_REQUIRED)) cx s of
        (s1, Inl err) \<Rightarrow> (s1, Raised err)
      | (s1, Inr _) \<Rightarrow> resolve_raise (idem_mark_ambiguous (cx_key cx) t1) (MutationIndeterminateError RECONCILIATION_REQUIRED stage) s1)"

text \<open>From the provider write to the read-back, or to its end: \<open>_read_back\<close> may end before its request.\<close>

definition mx_after_post ::
  "'s mutation_executor \<Rightarrow> utc \<Rightarrow> moment \<Rightarrow> moment \<Rightarrow> transport_result \<Rightarrow> mx_ctx \<Rightarrow> 's mx_state \<Rightarrow> 's mx_state \<times> mx_outcome" where
  "mx_after_post e t1 fin now resp cx s =
     (case resp of
        ProviderTransportError \<Rightarrow> mx_finish_ambiguous e t1 fin now UNVERIFIABLE None PROVIDER_CALL cx s
      | Transport_raises n \<Rightarrow> (s, Raised (Other_exception n))
      | Responded r \<Rightarrow>
          (case classify_status (cx_contract cx) (rs_status_code r) of
             FAILED_CLEAN \<Rightarrow>
               let rsn = (if rs_status_code r = 422 then REF_ALREADY_EXISTS else WRITE_CAPABILITY_NOT_READY)
               in (case mx_finalize e now (mx_observation FAILED_CLEAN NOT_ATTEMPTED cx fin (Some (status_class (rs_status_code r))) (Some rsn)) cx s of
                     (s1, Inl err) \<Rightarrow> (s1, Raised err)
                   | (s1, Inr _) \<Rightarrow> resolve_raise (idem_fail_clean (cx_key cx) (idem_reason rsn) t1) (MutationDenied rsn PROVIDER_CALL) s1)
           | COMMITTED \<Rightarrow>
               let cx' = cx\<lparr>cx_created := r, cx_stages := cx_stages cx @ [READ_BACK]\<rparr>
               in if read_back_path (cx_contract cx) (cx_repository cx) (cx_arguments cx) (rs_payload r) = None
                  then mx_finish_ambiguous e t1 fin now UNVERIFIABLE (Some (status_class (rs_status_code r))) READ_BACK cx' s
                  else (s, Await_read_back cx')
           | _ \<Rightarrow> mx_finish_ambiguous e t1 fin now UNVERIFIABLE (Some (status_class (rs_status_code r))) PROVIDER_CALL cx s))"

definition mx_after_read_back ::
  "'s mutation_executor \<Rightarrow> utc \<Rightarrow> moment \<Rightarrow> moment \<Rightarrow> transport_result \<Rightarrow> mx_ctx \<Rightarrow> 's mx_state \<Rightarrow> 's mx_state \<times> mx_outcome" where
  "mx_after_read_back e t1 fin now resp cx s =
     (let sc = Some (status_class (rs_status_code (cx_created cx)))
      in case mx_read_back (cx_contract cx) (cx_arguments cx) (rs_payload (cx_created cx)) resp of
           Inl err \<Rightarrow> (s, Raised err)
         | Inr (v, obs) \<Rightarrow>
             if v \<noteq> VERIFIED then mx_finish_ambiguous e t1 fin now v sc READ_BACK cx s
             else (let stages = cx_stages cx @ [RESULT_SHAPING];
                       data = dumps (JObj (mx_shape (cx_contract cx) obs (rs_payload (cx_created cx))))
                   in case mx_finalize e now (mx_observation COMMITTED VERIFIED cx fin sc None) cx s of
                        (s1, Inl err) \<Rightarrow> (s1, Raised err)
                      | (s1, Inr ev) \<Rightarrow>
                          (case idem_commit (cx_key cx) data t1 (xs_idem s1) of
                             (ids, Inl x) \<Rightarrow> (s1\<lparr>xs_idem := ids\<rparr>, Raised (Store_error x))
                           | (ids, Inr _) \<Rightarrow>
                               if \<not> stage_order_ok (- 1) stages then (s1\<lparr>xs_idem := ids\<rparr>, Raised (MutationDenied RECONCILIATION_REQUIRED RESULT_SHAPING))
                               else (s1\<lparr>xs_idem := ids\<rparr>, Returned
                                 \<lparr>mr_schema = ''v2.phase3.mutation-result.1'', mr_tool_id = mc_tool_id (cx_contract cx), mr_repository = cx_repository cx,
                                  mr_outcome = COMMITTED, mr_verification = VERIFIED, mr_evidence_class = EV_SUCCESS,
                                  mr_idempotency_status = cx_status cx, mr_operation_digest = cx_digest cx, mr_idempotency_key = cx_key cx,
                                  mr_audit_id = Some (ev_audit_id ev), mr_evidence_digest = Some (ev_evidence_digest ev), mr_data = data,
                                  mr_stages = stages, mr_provider_writes = cx_writes cx\<rparr>))))"

definition reconcile_result :: "string \<Rightarrow> string \<Rightarrow> string \<Rightarrow> string \<Rightarrow> (string \<times> string) list" where
  "reconcile_result repo tool_id key dg =
     [(''action'', ''RECONCILIATION_REQUIRED''), (''idempotency_key'', key), (''operation'', tool_id), (''operation_digest'', dg), (''repository'', repo)]"

end
