(* ===== verification/Mutation_System.thy ===== *)
theory Mutation_System
  imports Github_Mutations
begin

section \<open>Concurrent mutations over the shared stores\<close>

text \<open>
  Any number of calls of \<open>GitHubMutationExecutor.execute\<close> interleave at their awaits over one approval store, one
  idempotency store and one audit ledger, while other code uses these stores too. A task is a call at one of its
  awaits; a label says which task runs next and what the provider, the clocks and the broker answer, or what other
  code does to a store. An ended task remembers whether its write was made and how it was answered.
\<close>

datatype mx_fate = No_write | Write_rejected mx_ctx | Write_possible mx_ctx

datatype mx_task =
  T_new mutation_request
| T_revalidate mx_ctx
| T_post mx_ctx
| T_read_back mx_ctx
| T_ended mx_fate mx_outcome

record 's mx_system =
  sy_state :: "'s mx_state"
  sy_tasks :: "mx_task list"

datatype 's mx_label =
  X_request mutation_request
| X_start nat write_broker utc utc
| X_revalidated nat utc string moment moment transport_result
| X_posted nat utc moment moment transport_result
| X_read nat utc moment moment transport_result
| X_approvals ma_op
| X_idem idem_op
| X_ledger "'s ledger_op"

fun next_task :: "mx_fate \<Rightarrow> mx_outcome \<Rightarrow> mx_task" where
  "next_task f (Await_revalidate cx) = T_revalidate cx"
| "next_task f (Await_post cx) = T_post cx"
| "next_task f (Await_read_back cx) = T_read_back cx"
| "next_task f out = T_ended f out"

definition rejected_cleanly :: "mx_ctx \<Rightarrow> transport_result \<Rightarrow> bool" where
  "rejected_cleanly cx resp \<longleftrightarrow> (case resp of Responded r \<Rightarrow> classify_status (cx_contract cx) (rs_status_code r) = FAILED_CLEAN | _ \<Rightarrow> False)"

fun task_step :: "'s mutation_executor \<Rightarrow> 's mx_label \<Rightarrow> 's mx_state \<Rightarrow> mx_task \<Rightarrow> 's mx_state \<times> mx_task" where
  "task_step e (X_start i br t1 t2) s (T_new q) = apsnd (next_task No_write) (mx_preflight e br t1 t2 q s)"
| "task_step e (X_revalidated i t1 hex now start resp) s (T_revalidate cx) =
     apsnd (next_task No_write) (mx_after_revalidate e t1 hex now start resp cx s)"
| "task_step e (X_posted i t1 fin now resp) s (T_post cx) =
     apsnd (next_task (if rejected_cleanly cx resp then Write_rejected cx else Write_possible cx)) (mx_after_post e t1 fin now resp cx s)"
| "task_step e (X_read i t1 fin now resp) s (T_read_back cx) =
     apsnd (next_task (Write_possible cx)) (mx_after_read_back e t1 fin now resp cx s)"
| "task_step e x s t = (s, t)"

fun label_task :: "'s mx_label \<Rightarrow> nat option" where
  "label_task (X_start i br t1 t2) = Some i"
| "label_task (X_revalidated i t1 hex now start resp) = Some i"
| "label_task (X_posted i t1 fin now resp) = Some i"
| "label_task (X_read i t1 fin now resp) = Some i"
| "label_task x = None"

fun env_step :: "'s mutation_executor \<Rightarrow> 's mx_state \<Rightarrow> 's mx_label \<Rightarrow> 's mx_state" where
  "env_step e s (X_approvals x) = s\<lparr>xs_approvals := ma_step (mx_sha e) (xs_approvals s) x\<rparr>"
| "env_step e s (X_idem x) = s\<lparr>xs_idem := idem_step (xs_idem s) x\<rparr>"
| "env_step e s (X_ledger x) = s\<lparr>xs_ledger := ledger_step (mx_sha e) (mx_sink e) (xs_ledger s) x\<rparr>"
| "env_step e s x = s"

fun requested :: "'s mx_label \<Rightarrow> mx_task list" where
  "requested (X_request q) = [T_new q]"
| "requested x = []"

definition mx_step :: "'s mutation_executor \<Rightarrow> 's mx_system \<Rightarrow> 's mx_label \<Rightarrow> 's mx_system" where
  "mx_step e sys x =
     (case label_task x of
        None \<Rightarrow> \<lparr>sy_state = env_step e (sy_state sys) x, sy_tasks = sy_tasks sys @ requested x\<rparr>
      | Some i \<Rightarrow>
          if i < length (sy_tasks sys)
          then (case task_step e x (sy_state sys) (sy_tasks sys ! i) of (s, t) \<Rightarrow> \<lparr>sy_state = s, sy_tasks = (sy_tasks sys)[i := t]\<rparr>)
          else sys)"

definition mx_init :: "'s mx_state \<Rightarrow> 's mx_system" where
  "mx_init s = \<lparr>sy_state = s, sy_tasks = []\<rparr>"

subsection \<open>Frames\<close>

text \<open>A state change under which consumed approvals stay as they are.\<close>

definition keeps_consumed :: "ma_store \<Rightarrow> ma_store \<Rightarrow> bool" where
  "keeps_consumed a a' \<longleftrightarrow> (\<forall>i r. map_of a i = Some r \<and> ar_state r = AP_CONSUMED \<longrightarrow> map_of a' i = Some r)"

lemma keeps_consumed_refl [simp]: "keeps_consumed a a"
  by (simp add: keeps_consumed_def)

lemma keeps_consumed_consume: "keeps_consumed a (fst (ma_verify_and_consume sha j d p t a))"
  by (auto simp: keeps_consumed_def ma_verify_and_consume_def update_conv' Let_def split: sum.splits option.splits)

lemma keeps_consumed_step: "keeps_consumed a (ma_step sha a x)"
proof (cases x)
  case (MA_purge t)
  then show ?thesis by (auto simp: keeps_consumed_def map_of_purge ma_lapse_def)
qed (auto simp: keeps_consumed_consume, auto simp: keeps_consumed_def ma_issue_def ma_revoke_def update_conv' split: option.splits)

lemma keeps_spent: "keeps_consumed a a' \<Longrightarrow> ma_spent i a \<Longrightarrow> ma_spent i a'"
  by (auto simp: keeps_consumed_def ma_spent_def)

lemma resolve_raise_frame [simp]:
  "xs_approvals (fst (resolve_raise f err s)) = xs_approvals s"
  "xs_ledger (fst (resolve_raise f err s)) = xs_ledger s"
  "xs_idem (fst (resolve_raise f err s)) = fst (f (xs_idem s))"
  "\<exists>x. snd (resolve_raise f err s) = Raised x"
  by (auto simp: resolve_raise_def split: sum.splits prod.splits)

lemma mx_finalize_frame [simp]:
  "xs_approvals (fst (mx_finalize e now ob cx s)) = xs_approvals s"
  "xs_idem (fst (mx_finalize e now ob cx s)) = xs_idem s"
  by (auto simp: mx_finalize_def split: sum.splits prod.splits)

lemma mx_finalizeD:
  assumes "mx_finalize e now ob cx s = (s', r)"
  shows "xs_approvals s' = xs_approvals s" "xs_idem s' = xs_idem s"
  using mx_finalize_frame [of e now ob cx s] assms by simp_all

lemma preflight_frame [simp]: "xs_ledger (fst (mx_preflight e br t1 t2 q s)) = xs_ledger s"
  by (auto simp: mx_preflight_def Let_def split: sum.splits prod.splits)

lemma preflight_consumed: "keeps_consumed (xs_approvals s) (xs_approvals (fst (mx_preflight e br t1 t2 q s)))"
proof (cases "mx_admit e br q")
  case (Inr v)
  obtain c args repo where v: "v = (c, args, repo)" by (cases v)
  show ?thesis
  proof (cases "mx_descriptor e c repo args")
    case d: (Inr d)
    note c = keeps_consumed_consume [of "xs_approvals s" "mx_sha e" "mq_approval_id q" d "mq_principal q" t1]
    from Inr v d c show ?thesis
      by (auto simp: mx_preflight_def Let_def split: sum.splits prod.splits)
  qed (simp add: mx_preflight_def Inr v)
qed (simp add: mx_preflight_def)

lemma preflight_idem:
  "xs_idem (fst (mx_preflight e br t1 t2 q s)) = xs_idem s \<or>
   (\<exists>key p rp op dg tg. xs_idem (fst (mx_preflight e br t1 t2 q s)) = fst (idem_begin key p rp op dg tg t2 (xs_idem s)))"
  by (auto simp: mx_preflight_def Let_def split: sum.splits prod.splits) (metis fst_conv)+

lemma preflight_Await:
  assumes "mx_preflight e br t1 t2 q s = (s', Await_revalidate cx)"
  shows "cx_request cx = q" "mx_admit e br q = Inr (cx_contract cx, cx_arguments cx, cx_repository cx)"
    "mx_descriptor e (cx_contract cx) (cx_repository cx) (cx_arguments cx) = Inr (cx_descriptor cx)"
    "compute_operation_digest (mx_sha e) (cx_descriptor cx) = Inr (cx_digest cx)"
    "\<exists>ar. ma_verify_and_consume (mx_sha e) (mq_approval_id q) (cx_descriptor cx) (mq_principal q) t1 (xs_approvals s) = (xs_approvals s', Inr ar)"
    "compute_idempotency_key (mx_sha e) (mq_principal q) (mc_write_capability (cx_contract cx)) (cx_repository cx)
       (mc_tool_id (cx_contract cx)) (cx_digest cx) (mq_attempt_token q) = Inr (cx_key cx)"
    "cx_stages cx = [SCOPE, REGISTRY, POLICY, CREDENTIAL, APPROVAL, IDEMPOTENCY, PRECONDITION_REVALIDATION]"
    "\<exists>d. idem_begin (cx_key cx) (mq_principal q) (cx_repository cx) (mc_tool_id (cx_contract cx)) (cx_digest cx)
       (mx_target (cx_contract cx) (cx_arguments cx)) t2 (xs_idem s) = (xs_idem s', Inr d) \<and> executes_provider_call d \<and> cx_status cx = idem_status d"
  using assms by (auto simp: mx_preflight_def Let_def split: sum.splits prod.splits if_splits)

lemma preflight_out: "\<exists>x. snd (mx_preflight e br t1 t2 q s) \<in> {Raised x} \<union> range Returned \<union> range Await_revalidate"
  by (auto simp: mx_preflight_def Let_def split: sum.splits prod.splits)

paragraph \<open>The later parts\<close>

lemma finish_ambiguous_frame [simp]:
  "xs_approvals (fst (mx_finish_ambiguous e t1 fin now v sc stage cx s)) = xs_approvals s"
  "xs_idem (fst (mx_finish_ambiguous e t1 fin now v sc stage cx s)) \<in> {xs_idem s, fst (idem_mark_ambiguous (cx_key cx) t1 (xs_idem s))}"
  "\<exists>x. snd (mx_finish_ambiguous e t1 fin now v sc stage cx s) = Raised x"
  by (auto simp: mx_finish_ambiguous_def dest: mx_finalizeD split: sum.splits prod.splits)

lemma raised_only [simp]:
  "snd (resolve_raise f err s) \<noteq> Await_read_back cx'" "snd (mx_finish_ambiguous e t1 fin now v sc stage cx s) \<noteq> Await_read_back cx'"
  "resolve_raise f err s \<noteq> (s', Returned r)" "mx_finish_ambiguous e t1 fin now v sc stage cx s \<noteq> (s', Returned r)"
proof -
  obtain x y where "snd (resolve_raise f err s) = Raised x" "snd (mx_finish_ambiguous e t1 fin now v sc stage cx s) = Raised y"
    using resolve_raise_frame(4) finish_ambiguous_frame(3) by metis
  then show "snd (resolve_raise f err s) \<noteq> Await_read_back cx'" "snd (mx_finish_ambiguous e t1 fin now v sc stage cx s) \<noteq> Await_read_back cx'"
    "resolve_raise f err s \<noteq> (s', Returned r)" "mx_finish_ambiguous e t1 fin now v sc stage cx s \<noteq> (s', Returned r)" by auto
qed

lemma after_revalidate_frame [simp]:
  "xs_approvals (fst (mx_after_revalidate e t1 hex now start resp cx s)) = xs_approvals s"
  by (auto simp: mx_after_revalidate_def Let_def split: sum.splits prod.splits mut_error.splits)

lemma after_revalidate_cases:
  obtains (failed) x where "snd (mx_after_revalidate e t1 hex now start resp cx s) = Raised x"
    "xs_idem (fst (mx_after_revalidate e t1 hex now start resp cx s)) \<in>
       {xs_idem s, fst (idem_mark_ambiguous (cx_key cx) t1 (xs_idem s))} \<union> range (\<lambda>rsn. fst (idem_fail_clean (cx_key cx) rsn t1 (xs_idem s)))"
  | (post) i lg a where "mx_revalidate (cx_contract cx) (cx_arguments cx) resp = Inr ()" "mx_intent e cx = Inr i"
    "ledger_begin (mx_sha e) (mx_sink e) hex now i (xs_ledger s) = (lg, Inr a)"
    "mx_after_revalidate e t1 hex now start resp cx s =
       (s\<lparr>xs_ledger := lg\<rparr>, Await_post (cx\<lparr>cx_handle := a, cx_started_at := start, cx_writes := 1,
          cx_stages := cx_stages cx @ [WRITE_AHEAD_AUDIT, PROVIDER_CALL]\<rparr>))"
proof (cases "mx_revalidate (cx_contract cx) (cx_arguments cx) resp")
  case (Inl err)
  have "\<exists>x. snd (mx_after_revalidate e t1 hex now start resp cx s) = Raised x"
    by (cases err) (simp_all add: mx_after_revalidate_def Inl)
  then obtain x where "snd (mx_after_revalidate e t1 hex now start resp cx s) = Raised x" by blast
  moreover have "xs_idem (fst (mx_after_revalidate e t1 hex now start resp cx s)) \<in>
       {xs_idem s, fst (idem_mark_ambiguous (cx_key cx) t1 (xs_idem s))} \<union> range (\<lambda>rsn. fst (idem_fail_clean (cx_key cx) rsn t1 (xs_idem s)))"
    by (cases err) (auto simp: mx_after_revalidate_def Inl)
  ultimately show ?thesis by (rule failed)
next
  case ok: (Inr u)
  show ?thesis
  proof (cases "mx_intent e cx")
    case (Inl err)
    with ok show ?thesis by (intro failed [of err]) (simp_all add: mx_after_revalidate_def)
  next
    case i: (Inr i)
    obtain lg r where b: "ledger_begin (mx_sha e) (mx_sink e) hex now i (xs_ledger s) = (lg, r)" by force
    show ?thesis
    proof (cases r)
      case (Inr a)
      with ok i b show ?thesis by (intro post [of i lg a]) (simp_all add: mx_after_revalidate_def)
    next
      case (Inl err)
      have "\<exists>x. snd (mx_after_revalidate e t1 hex now start resp cx s) = Raised x"
        using ok i b Inl by (simp add: mx_after_revalidate_def Let_def)
      then obtain x where "snd (mx_after_revalidate e t1 hex now start resp cx s) = Raised x" by blast
      with ok i b Inl show ?thesis by (intro failed [of x]) (auto simp: mx_after_revalidate_def Let_def)
    qed
  qed
qed

lemma after_post_frame [simp]: "xs_approvals (fst (mx_after_post e t1 fin now resp cx s)) = xs_approvals s"
  by (auto simp: mx_after_post_def Let_def dest: mx_finalizeD split: transport_result.splits mutation_outcome.splits sum.splits prod.splits)

definition write_settled :: "mx_ctx \<Rightarrow> transport_result \<Rightarrow> utc \<Rightarrow> idem_store \<Rightarrow> idem_store \<Rightarrow> bool" where
  "write_settled cx resp t1 ids ids' \<longleftrightarrow>
     ids' = ids \<or> ids' = fst (idem_mark_ambiguous (cx_key cx) t1 ids) \<or>
     rejected_cleanly cx resp \<and> (\<exists>rsn. ids' = fst (idem_fail_clean (cx_key cx) rsn t1 ids))"

lemma write_settled_same [simp]: "write_settled cx resp t1 ids ids"
  by (simp add: write_settled_def)

lemma write_settled_ambiguous:
  "write_settled cx resp t1 (xs_idem s) (xs_idem (fst (mx_finish_ambiguous e t1 fin now v sc stage (cx\<lparr>cx_created := r, cx_stages := st\<rparr>) s)))"
  "write_settled cx resp t1 (xs_idem s) (xs_idem (fst (mx_finish_ambiguous e t1 fin now v sc stage cx s)))"
  using finish_ambiguous_frame(2) [of e t1 fin now v sc stage "cx\<lparr>cx_created := r, cx_stages := st\<rparr>" s]
    finish_ambiguous_frame(2) [of e t1 fin now v sc stage cx s]
  by (auto simp: write_settled_def)

lemma after_post_ended:
  assumes "\<nexists>cx'. snd (mx_after_post e t1 fin now resp cx s) = Await_read_back cx'"
  shows "(\<exists>x. snd (mx_after_post e t1 fin now resp cx s) = Raised x) \<and>
    write_settled cx resp t1 (xs_idem s) (xs_idem (fst (mx_after_post e t1 fin now resp cx s)))"
proof (cases resp)
  case (Responded r)
  note d = mx_after_post_def Responded Let_def
  show ?thesis
  proof (cases "classify_status (cx_contract cx) (rs_status_code r) = FAILED_CLEAN")
    case True
    let ?rsn = "if rs_status_code r = 422 then REF_ALREADY_EXISTS else WRITE_CAPABILITY_NOT_READY"
    obtain s1 res where f: "mx_finalize e now (mx_observation FAILED_CLEAN NOT_ATTEMPTED cx fin (Some (status_class (rs_status_code r))) (Some ?rsn)) cx s
        = (s1, res)" by force
    with True show ?thesis
      by (cases res) (auto simp: d rejected_cleanly_def write_settled_def mx_finalizeD [OF f])
  next
    case False
    with assms show ?thesis
      by (cases "classify_status (cx_contract cx) (rs_status_code r)") (simp_all add: d write_settled_ambiguous split: if_splits)
  qed
qed (simp_all add: mx_after_post_def write_settled_ambiguous)

lemma after_post_read_back:
  assumes "snd (mx_after_post e t1 fin now resp cx s) = Await_read_back cx'"
  obtains r where "resp = Responded r" "classify_status (cx_contract cx) (rs_status_code r) = COMMITTED" "\<not> rejected_cleanly cx resp"
    "cx' = cx\<lparr>cx_created := r, cx_stages := cx_stages cx @ [READ_BACK]\<rparr>" "fst (mx_after_post e t1 fin now resp cx s) = s"
proof (cases resp)
  case (Responded r)
  note d = mx_after_post_def Responded Let_def
  have c: "classify_status (cx_contract cx) (rs_status_code r) = COMMITTED"
  proof (rule ccontr)
    assume "classify_status (cx_contract cx) (rs_status_code r) \<noteq> COMMITTED"
    with assms show False by (auto simp: d split: mutation_outcome.splits sum.splits prod.splits)
  qed
  show ?thesis
  proof (cases "read_back_path (cx_contract cx) (cx_repository cx) (cx_arguments cx) (rs_payload r) = None")
    case True
    with assms c show ?thesis by (simp add: d)
  next
    case False
    with assms c Responded show ?thesis by (intro that [of r]) (auto simp: d rejected_cleanly_def)
  qed
qed (use assms in \<open>simp_all add: mx_after_post_def\<close>)

lemma after_read_back_frame [simp]: "xs_approvals (fst (mx_after_read_back e t1 fin now resp cx s)) = xs_approvals s"
  by (auto simp: mx_after_read_back_def Let_def dest: mx_finalizeD split: sum.splits prod.splits)

lemma after_read_back_idem:
  "xs_idem (fst (mx_after_read_back e t1 fin now resp cx s)) \<in>
     {xs_idem s, fst (idem_mark_ambiguous (cx_key cx) t1 (xs_idem s))} \<union> range (\<lambda>data. fst (idem_commit (cx_key cx) data t1 (xs_idem s)))"
proof (cases "mx_read_back (cx_contract cx) (cx_arguments cx) (rs_payload (cx_created cx)) resp")
  case (Inr vo)
  obtain v obs where vo: "vo = (v, obs)" by (cases vo)
  show ?thesis
  proof (cases "v = VERIFIED")
    case False
    then show ?thesis
      using finish_ambiguous_frame(2) [of e t1 fin now v "Some (status_class (rs_status_code (cx_created cx)))" READ_BACK cx s]
      by (auto simp: mx_after_read_back_def Let_def Inr vo)
  next
    case True
    obtain s1 res where f: "mx_finalize e now (mx_observation COMMITTED VERIFIED cx fin (Some (status_class (rs_status_code (cx_created cx)))) None) cx s = (s1, res)"
      by force
    then show ?thesis
      using True mx_finalizeD [OF f]
      by (cases res) (auto simp: mx_after_read_back_def Let_def Inr vo image_iff split: sum.splits prod.splits, (metis fst_conv)+)
  qed
qed (simp add: mx_after_read_back_def)

lemma after_read_back_out: "\<exists>x r. snd (mx_after_read_back e t1 fin now resp cx s) \<in> {Raised x, Returned r}"
  using finish_ambiguous_frame(3) [of e t1 fin now _ "Some (status_class (rs_status_code (cx_created cx)))" READ_BACK cx s]
  by (fastforce simp: mx_after_read_back_def Let_def split: sum.splits prod.splits)

subsection \<open>What every execution carries\<close>

definition approval_bound :: "ma_store \<Rightarrow> mx_ctx \<Rightarrow> bool" where
  "approval_bound a cx \<longleftrightarrow>
     (\<exists>r. map_of a (mq_approval_id (cx_request cx)) = Some r \<and> ar_state r = AP_CONSUMED \<and> ar_operation_digest r = cx_digest cx \<and>
        ar_principal r = mq_principal (cx_request cx) \<and> ar_repository r = cx_repository cx \<and> ar_operation r = mc_tool_id (cx_contract cx))"

definition ctx_ok :: "'s mutation_executor \<Rightarrow> ma_store \<Rightarrow> mx_ctx \<Rightarrow> bool" where
  "ctx_ok e a cx \<longleftrightarrow>
     (\<exists>br. mx_admit e br (cx_request cx) = Inr (cx_contract cx, cx_arguments cx, cx_repository cx)) \<and>
     mx_descriptor e (cx_contract cx) (cx_repository cx) (cx_arguments cx) = Inr (cx_descriptor cx) \<and>
     compute_operation_digest (mx_sha e) (cx_descriptor cx) = Inr (cx_digest cx) \<and> approval_bound a cx"

definition walked :: "nat \<Rightarrow> mx_ctx \<Rightarrow> bool" where
  "walked n cx \<longleftrightarrow> cx_stages cx = take n MUTATION_STAGE_ORDER"

fun task_ok :: "'s mutation_executor \<Rightarrow> ma_store \<Rightarrow> mx_task \<Rightarrow> bool" where
  "task_ok e a (T_revalidate cx) \<longleftrightarrow> ctx_ok e a cx \<and> walked 7 cx"
| "task_ok e a (T_post cx) \<longleftrightarrow> ctx_ok e a cx \<and> walked 9 cx \<and> cx_writes cx = 1"
| "task_ok e a (T_read_back cx) \<longleftrightarrow> ctx_ok e a cx \<and> walked 10 cx \<and> cx_writes cx = 1"
| "task_ok e a t \<longleftrightarrow> True"

definition sys_ok :: "'s mutation_executor \<Rightarrow> 's mx_system \<Rightarrow> bool" where
  "sys_ok e sys \<longleftrightarrow> list_all (task_ok e (xs_approvals (sy_state sys))) (sy_tasks sys)"

lemma approval_bound_keeps: "keeps_consumed a a' \<Longrightarrow> approval_bound a cx \<Longrightarrow> approval_bound a' cx"
  by (auto simp: keeps_consumed_def approval_bound_def)

lemma task_ok_keeps: "keeps_consumed a a' \<Longrightarrow> task_ok e a t \<Longrightarrow> task_ok e a' t"
  by (cases t) (auto simp: ctx_ok_def approval_bound_keeps)

lemma descriptor_of:
  assumes "mx_descriptor e c repo args = Inr d"
  shows "od_repository d = repo" "od_operation d = mc_tool_id c"
  using assms by (auto simp: mx_descriptor_def descriptor_new_def bind_r_Inr_iff split: if_splits)

lemma preflight_ctx_ok:
  assumes "mx_preflight e br t1 t2 q s = (s', Await_revalidate cx)"
  shows "ctx_ok e (xs_approvals s') cx"
proof -
  note p = preflight_Await [OF assms]
  from p(5) obtain ar where c: "ma_verify_and_consume (mx_sha e) (mq_approval_id q) (cx_descriptor cx) (mq_principal q) t1 (xs_approvals s)
      = (xs_approvals s', Inr ar)" by blast
  then have "approval_bound (xs_approvals s') cx"
    using p(4) descriptor_of [OF p(3)] by (auto simp: ma_consume_iff ma_consumable_def approval_bound_def update_conv' p(1))
  with p(1-4) show ?thesis by (auto simp: ctx_ok_def)
qed

lemma ctx_ok_update [simp]:
  "ctx_ok e a (cx\<lparr>cx_handle := h, cx_started_at := st, cx_writes := w, cx_stages := sg\<rparr>) = ctx_ok e a cx"
  "ctx_ok e a (cx\<lparr>cx_created := r, cx_stages := sg\<rparr>) = ctx_ok e a cx"
  by (simp_all add: ctx_ok_def approval_bound_def)

lemma task_step_consumed: "keeps_consumed (xs_approvals s) (xs_approvals (fst (task_step e x s t)))"
  by (cases "(e, x, s, t)" rule: task_step.cases) (simp_all add: preflight_consumed)

lemma preflight_task_ok: "task_ok e (xs_approvals (fst (mx_preflight e br t1 t2 q s))) (next_task f (snd (mx_preflight e br t1 t2 q s)))"
proof (cases "snd (mx_preflight e br t1 t2 q s)")
  case (Await_revalidate cx)
  then have p: "mx_preflight e br t1 t2 q s = (fst (mx_preflight e br t1 t2 q s), Await_revalidate cx)" by (simp add: prod_eq_iff)
  from preflight_ctx_ok [OF p] preflight_Await(7) [OF p] Await_revalidate show ?thesis by (simp add: walked_def MUTATION_STAGE_ORDER_def)
qed (use preflight_out [of e br t1 t2 q s] in auto)

lemma revalidate_task_ok:
  assumes "task_ok e (xs_approvals s) (T_revalidate cx)"
  shows "task_ok e (xs_approvals s) (next_task f (snd (mx_after_revalidate e t1 hex now start resp cx s)))"
  using assms by (cases rule: after_revalidate_cases [of e t1 hex now start resp cx s]) (simp_all add: walked_def MUTATION_STAGE_ORDER_def)

lemma post_task_ok:
  assumes "task_ok e (xs_approvals s) (T_post cx)"
  shows "task_ok e (xs_approvals s) (next_task f (snd (mx_after_post e t1 fin now resp cx s)))"
proof (cases "\<exists>cx'. snd (mx_after_post e t1 fin now resp cx s) = Await_read_back cx'")
  case True
  then obtain cx' where cx': "snd (mx_after_post e t1 fin now resp cx s) = Await_read_back cx'" ..
  obtain r where "cx' = cx\<lparr>cx_created := r, cx_stages := cx_stages cx @ [READ_BACK]\<rparr>" using cx' by (rule after_post_read_back)
  with assms cx' show ?thesis by (simp add: walked_def MUTATION_STAGE_ORDER_def)
next
  case False
  with after_post_ended [of e t1 fin now resp cx s] show ?thesis by auto
qed

lemma read_back_task_ok: "task_ok e a (next_task f (snd (mx_after_read_back e t1 fin now resp cx s)))"
  using after_read_back_out [of e t1 fin now resp cx s] by auto

lemma task_step_ok: "task_ok e (xs_approvals s) t \<Longrightarrow> task_ok e (xs_approvals (fst (task_step e x s t))) (snd (task_step e x s t))"
  by (cases "(e, x, s, t)" rule: task_step.cases)
    (simp_all add: preflight_task_ok read_back_task_ok revalidate_task_ok post_task_ok del: task_ok.simps(1,2))

lemma env_step_consumed: "keeps_consumed (xs_approvals s) (xs_approvals (env_step e s x))"
  by (cases x) (simp_all add: keeps_consumed_step)

lemma sys_ok_step: "sys_ok e sys \<Longrightarrow> sys_ok e (mx_step e sys x)"
proof (cases "label_task x")
  case None
  assume ok: "sys_ok e sys"
  have "list_all (task_ok e a) (requested x)" for a by (cases x) simp_all
  with ok None show ?thesis
    by (auto simp: sys_ok_def mx_step_def list_all_iff intro: task_ok_keeps [OF env_step_consumed])
next
  case (Some i)
  assume ok: "sys_ok e sys"
  show ?thesis
  proof (cases "i < length (sy_tasks sys)")
    case True
    let ?r = "task_step e x (sy_state sys) (sy_tasks sys ! i)"
    have "task_ok e (xs_approvals (fst ?r)) t" if "t \<in> set (sy_tasks sys)" for t
      using ok that by (auto simp: sys_ok_def list_all_iff intro: task_ok_keeps [OF task_step_consumed])
    moreover have "task_ok e (xs_approvals (fst ?r)) (snd ?r)"
      using ok True by (intro task_step_ok) (simp add: sys_ok_def list_all_iff)
    ultimately show ?thesis using Some True set_update_subset_insert [of "sy_tasks sys" i "snd ?r"]
      by (auto simp: mx_step_def sys_ok_def list_all_iff split: prod.splits)
  qed (simp add: mx_step_def Some ok)
qed

interpretation mxs: op_machine "mx_step e" "sys_ok e" for e
  by unfold_locales (rule sys_ok_step)

lemma sys_ok_run: "sys_ok e (run_ops (mx_step e) (mx_init s) xs)"
  by (rule mxs.run_inv) (simp add: sys_ok_def mx_init_def)

subsection \<open>Authorisation of a write\<close>

lemma intent_of:
  assumes "mx_intent e cx = Inr i"
  shows "mi_operation_digest i = cx_digest cx" "mi_idempotency_key i = cx_key cx" "mi_repository i = cx_repository cx"
    "mi_operation i = mc_tool_id (cx_contract cx)"
  using assms by (auto simp: mx_intent_def mutation_intent_new_def bind_r_Inr_iff split: if_splits)

lemma admitD:
  assumes "mx_admit e br q = Inr (c, args, repo)"
  shows "get_mutation_contract (mq_tool_id q) = Inr c" "normalize_arguments (mc_tool_id c) (mq_arguments q) = Inr args"
    "repo = text_arg args ''repository''" "scope_allows (mx_scope e) (owner_of repo) (repo_of repo) = Inr True"
    "pe_decision (evaluate \<lparr>en_registry = mx_registry e, en_rules = mx_rules e, en_broker = Some (broker_status_of br)\<rparr> (mc_tool_id c)) = APPROVAL_REQUIRED"
    "\<exists>rd. wb_readiness br (write_capability_value (mc_write_capability c)) = Some rd \<and> readiness_ready rd"
    "\<exists>m. wb_authorize br (write_capability_value (mc_write_capability c)) repo = Inr m"
  using assms by (auto simp: mx_admit_def bind_r_Inr_iff Let_def split: if_splits option.splits)

lemma revalidated_iff:
  "mx_revalidate c args resp = Inr () \<longleftrightarrow>
   (\<exists>r. resp = Responded r \<and> rs_status_code r = 200 \<and> extract_sha c (rs_payload r) = JStr (expected_sha c args))"
  by (auto simp: mx_revalidate_def split: transport_result.splits)

text \<open>The write-ahead record of a context in a ledger: an open handle on a stored record of its digest and key.\<close>

definition recorded_ahead :: "'s mutation_executor \<Rightarrow> 's ledger \<Rightarrow> mx_ctx \<Rightarrow> bool" where
  "recorded_ahead e l cx \<longleftrightarrow>
     cx_handle cx < length (lg_heap l) \<and>
     (let h = lg_heap l ! cx_handle cx
      in \<not> ah_finalized h \<and> map_of (lg_open l) (ah_audit_id h) = Some (cx_handle cx) \<and>
         sk_exists (mx_sink e) (ah_audit_id h) (lg_sink l) = Inr True \<and>
         mi_operation_digest (ah_intent h) = cx_digest cx \<and> mi_idempotency_key (ah_intent h) = cx_key cx)"

lemma task_changed:
  assumes "i < length (sy_tasks (mx_step e sys x))"
  obtains (same) "i < length (sy_tasks sys)" "sy_tasks (mx_step e sys x) ! i = sy_tasks sys ! i"
  | (requested) q where "x = X_request q" "i = length (sy_tasks sys)" "sy_tasks (mx_step e sys x) ! i = T_new q"
  | (moved) "label_task x = Some i" "i < length (sy_tasks sys)"
    "mx_step e sys x = \<lparr>sy_state = fst (task_step e x (sy_state sys) (sy_tasks sys ! i)),
       sy_tasks = (sy_tasks sys)[i := snd (task_step e x (sy_state sys) (sy_tasks sys ! i))]\<rparr>"
proof (cases "label_task x")
  case None
  show ?thesis
  proof (cases "i < length (sy_tasks sys)")
    case True
    with None show ?thesis by (intro same) (simp_all add: mx_step_def nth_append)
  next
    case False
    with None assms obtain q where "x = X_request q" by (cases x) (simp_all add: mx_step_def)
    with False assms show ?thesis by (intro requested [of q]) (auto simp: mx_step_def nth_append less_Suc_eq)
  qed
next
  case (Some j)
  show ?thesis
  proof (cases "j = i \<and> j < length (sy_tasks sys)")
    case True
    with Some show ?thesis by (intro moved) (simp_all add: mx_step_def split: prod.splits)
  next
    case False
    with Some assms show ?thesis by (intro same) (auto simp: mx_step_def split: prod.splits if_splits)
  qed
qed

lemma next_task_iff [simp]:
  "next_task f out = T_revalidate cx \<longleftrightarrow> out = Await_revalidate cx"
  "next_task f out = T_post cx \<longleftrightarrow> out = Await_post cx"
  "next_task f out = T_read_back cx \<longleftrightarrow> out = Await_read_back cx"
  "next_task f out \<noteq> T_new q"
  by (cases out; simp)+

lemma no_post:
  "snd (mx_preflight e br t1 t2 q s) \<noteq> Await_post c" "snd (mx_after_read_back e t1 fin now resp cx s) \<noteq> Await_post c"
  "snd (mx_after_post e t1 fin now resp cx s) \<noteq> Await_post c"
  using preflight_out [of e br t1 t2 q s] after_read_back_out [of e t1 fin now resp cx s] after_post_ended [of e t1 fin now resp cx s]
  by auto

lemma step_to_post:
  assumes "task_step e x s t = (s', T_post cx)" "t \<noteq> T_post cx"
  obtains i t1 hex now start resp cx0 where "x = X_revalidated i t1 hex now start resp" "t = T_revalidate cx0"
    "mx_after_revalidate e t1 hex now start resp cx0 s = (s', Await_post cx)"
  using assms that
  by (cases "(e, x, s, t)" rule: task_step.cases) (auto simp: prod_eq_iff no_post)

lemma recorded_after_begin:
  assumes "mx_intent e cx = Inr j" "ledger_begin (mx_sha e) (mx_sink e) hex now j l = (lg, Inr a)"
  shows "recorded_ahead e lg (cx\<lparr>cx_handle := a, cx_started_at := start, cx_writes := w, cx_stages := sg\<rparr>)"
  using assms(2) intent_of [OF assms(1)] by (auto simp: ledger_begin_iff recorded_ahead_def Let_def update_conv')


subsection \<open>Tokens held by tasks\<close>

text \<open>
  A token that a start takes from a store and a task holds from then on: a part of a task may give it up, but only
  a part that runs while the token is in the store can take it, and the store has one of it. The law \<open>credit\<close>
  says so in one inequality: what tasks hold never exceeds what the store says is spent.
\<close>

lemma filter_update: "i < length ts \<Longrightarrow> length (filter P (ts[i := t])) + of_bool (P (ts ! i)) = length (filter P ts) + of_bool (P t)"
proof (induction ts arbitrary: i)
  case (Cons a ts)
  show ?case
  proof (cases i)
    case (Suc j)
    with Cons.prems Cons.IH [of j] show ?thesis by simp
  qed simp
qed simp

locale grant_token =
  fixes e :: "'s mutation_executor"
    and inv :: "'s mx_state \<Rightarrow> bool"
    and spent :: "'s mx_state \<Rightarrow> bool"
    and holds :: "mx_task \<Rightarrow> bool"
    and frees :: "'s mx_label \<Rightarrow> bool"
  assumes new: "\<not> holds (T_new q)"
    and inv_task: "inv s \<Longrightarrow> inv (fst (task_step e x s t))"
    and inv_env: "inv s \<Longrightarrow> inv (env_step e s x)"
    and credit: "inv s \<Longrightarrow> of_bool (holds (snd (task_step e x s t))) + of_bool (spent s)
                   \<le> of_bool (holds t) + (of_bool (spent (fst (task_step e x s t))) :: nat)"
    and env: "inv s \<Longrightarrow> spent s \<Longrightarrow> \<not> frees x \<Longrightarrow> spent (env_step e s x)"
begin

definition covered :: "'s mx_system \<Rightarrow> bool" where
  "covered sys \<longleftrightarrow> inv (sy_state sys) \<and> length (filter holds (sy_tasks sys)) \<le> of_bool (spent (sy_state sys))"

lemma covered_step:
  assumes "covered sys" "\<not> frees x"
  shows "covered (mx_step e sys x)"
proof (cases "label_task x")
  case None
  have "filter holds (requested x) = []" by (cases x) (simp_all add: new)
  moreover have "of_bool (spent (sy_state sys)) \<le> (of_bool (spent (env_step e (sy_state sys) x)) :: nat)"
    using env [of "sy_state sys" x] assms by (auto simp: covered_def)
  ultimately show ?thesis using assms inv_env [of "sy_state sys" x] None
    by (auto simp: covered_def mx_step_def simp del: of_bool_less_eq_iff)
next
  case (Some i)
  show ?thesis
  proof (cases "i < length (sy_tasks sys)")
    case True
    obtain s' t' where st: "task_step e x (sy_state sys) (sy_tasks sys ! i) = (s', t')" by force
    with assms have "inv s'" using inv_task [of "sy_state sys" x "sy_tasks sys ! i"] by (simp add: covered_def)
    moreover have "length (filter holds ((sy_tasks sys)[i := t'])) \<le> of_bool (spent s')"
      using filter_update [OF True, of holds t'] credit [of "sy_state sys" x "sy_tasks sys ! i"] assms(1) st
      by (simp add: covered_def)
    ultimately show ?thesis using Some True st by (simp add: mx_step_def covered_def)
  qed (use Some assms in \<open>simp add: mx_step_def\<close>)
qed

lemma covered_run: "covered sys \<Longrightarrow> \<forall>x \<in> set xs. \<not> frees x \<Longrightarrow> covered (run_ops (mx_step e) sys xs)"
  by (induction xs arbitrary: sys) (auto intro: covered_step)

lemma held_at_most_once:
  assumes "inv s" "\<forall>x \<in> set xs. \<not> frees x"
  shows "length (filter holds (sy_tasks (run_ops (mx_step e) (mx_init s) xs))) \<le> 1"
proof -
  have "covered (mx_init s)" using assms(1) by (simp add: covered_def mx_init_def)
  from covered_run [OF this assms(2)] show ?thesis by (auto simp: covered_def intro: order_trans)
qed

end

paragraph \<open>The approval of a request\<close>

fun wrote :: "(mx_ctx \<Rightarrow> bool) \<Rightarrow> mx_task \<Rightarrow> bool" where
  "wrote P (T_post cx) \<longleftrightarrow> P cx"
| "wrote P (T_read_back cx) \<longleftrightarrow> P cx"
| "wrote P (T_ended (Write_rejected cx) out) \<longleftrightarrow> P cx"
| "wrote P (T_ended (Write_possible cx) out) \<longleftrightarrow> P cx"
| "wrote P t \<longleftrightarrow> False"

fun may_have_written :: "(mx_ctx \<Rightarrow> bool) \<Rightarrow> mx_task \<Rightarrow> bool" where
  "may_have_written P (T_post cx) \<longleftrightarrow> P cx"
| "may_have_written P (T_read_back cx) \<longleftrightarrow> P cx"
| "may_have_written P (T_ended (Write_possible cx) out) \<longleftrightarrow> P cx"
| "may_have_written P t \<longleftrightarrow> False"

fun about_to_write :: "(mx_ctx \<Rightarrow> bool) \<Rightarrow> mx_task \<Rightarrow> bool" where
  "about_to_write P (T_revalidate cx) \<longleftrightarrow> P cx"
| "about_to_write P t \<longleftrightarrow> False"

definition under_approval :: "string \<Rightarrow> mx_ctx \<Rightarrow> bool" where
  "under_approval a cx \<longleftrightarrow> mq_approval_id (cx_request cx) = a"

definition under_key :: "string \<Rightarrow> mx_ctx \<Rightarrow> bool" where
  "under_key k cx \<longleftrightarrow> cx_key cx = k"

text \<open>Predicates of a context that the later parts of an execution do not change.\<close>

definition ctx_fixed :: "(mx_ctx \<Rightarrow> bool) \<Rightarrow> bool" where
  "ctx_fixed P \<longleftrightarrow> (\<forall>cx h st w sg. P (cx\<lparr>cx_handle := h, cx_started_at := st, cx_writes := w, cx_stages := sg\<rparr>) = P cx) \<and>
     (\<forall>cx r sg. P (cx\<lparr>cx_created := r, cx_stages := sg\<rparr>) = P cx)"

lemma ctx_fixed_samples [simp]: "ctx_fixed (under_approval a)" "ctx_fixed (under_key k)"
  by (simp_all add: ctx_fixed_def under_approval_def under_key_def)

lemma preflight_tokens:
  "\<not> wrote P (next_task No_write (snd (mx_preflight e br t1 t2 q s)))"
  "\<not> may_have_written P (next_task No_write (snd (mx_preflight e br t1 t2 q s)))"
  "about_to_write P (next_task No_write (snd (mx_preflight e br t1 t2 q s))) \<longleftrightarrow>
     (\<exists>cx. snd (mx_preflight e br t1 t2 q s) = Await_revalidate cx \<and> P cx)"
  using preflight_out [of e br t1 t2 q s] by auto

lemma revalidate_tokens:
  assumes "ctx_fixed P"
  shows "\<not> about_to_write P (next_task f (snd (mx_after_revalidate e t1 hex now start resp cx s)))"
    "wrote P (next_task No_write (snd (mx_after_revalidate e t1 hex now start resp cx s))) \<Longrightarrow> P cx"
    "may_have_written P (next_task No_write (snd (mx_after_revalidate e t1 hex now start resp cx s))) \<Longrightarrow> P cx"
  using assms by (cases rule: after_revalidate_cases [of e t1 hex now start resp cx s]; simp add: ctx_fixed_def)+

lemma post_tokens:
  assumes "ctx_fixed P"
  shows "\<not> about_to_write P (next_task f (snd (mx_after_post e t1 fin now resp cx s)))"
    "wrote P (next_task (if b then Write_rejected cx else Write_possible cx) (snd (mx_after_post e t1 fin now resp cx s))) \<Longrightarrow> P cx"
    "may_have_written P (next_task (if b then Write_rejected cx else Write_possible cx) (snd (mx_after_post e t1 fin now resp cx s))) \<Longrightarrow> P cx"
    "\<not> may_have_written P (next_task (Write_rejected cx) (snd (mx_after_post e t1 fin now resp cx s))) \<or> \<not> rejected_cleanly cx resp"
proof -
  let ?out = "snd (mx_after_post e t1 fin now resp cx s)"
  have "(\<exists>x. ?out = Raised x) \<or> (\<exists>r. \<not> rejected_cleanly cx resp \<and> ?out = Await_read_back (cx\<lparr>cx_created := r, cx_stages := cx_stages cx @ [READ_BACK]\<rparr>))"
    using after_post_ended [of e t1 fin now resp cx s] after_post_read_back [of e t1 fin now resp cx s] by metis
  then show "\<not> about_to_write P (next_task f ?out)" "wrote P (next_task (if b then Write_rejected cx else Write_possible cx) ?out) \<Longrightarrow> P cx"
    "may_have_written P (next_task (if b then Write_rejected cx else Write_possible cx) ?out) \<Longrightarrow> P cx"
    "\<not> may_have_written P (next_task (Write_rejected cx) ?out) \<or> \<not> rejected_cleanly cx resp"
    using assms by (auto simp: ctx_fixed_def split: if_splits)
qed

lemma read_tokens:
  "\<not> about_to_write P (next_task f (snd (mx_after_read_back e t1 fin now resp cx s)))"
  "wrote P (next_task (Write_possible cx) (snd (mx_after_read_back e t1 fin now resp cx s))) \<longleftrightarrow> P cx"
  "may_have_written P (next_task (Write_possible cx) (snd (mx_after_read_back e t1 fin now resp cx s))) \<longleftrightarrow> P cx"
  using after_read_back_out [of e t1 fin now resp cx s] by auto

lemma approval_granted:
  assumes "snd (mx_preflight e br t1 t2 q s) = Await_revalidate cx" "under_approval a cx"
  shows "\<not> ma_spent a (xs_approvals s) \<and> ma_spent a (xs_approvals (fst (mx_preflight e br t1 t2 q s)))"
proof -
  have p: "mx_preflight e br t1 t2 q s = (fst (mx_preflight e br t1 t2 q s), Await_revalidate cx)" using assms(1) by (simp add: prod_eq_iff)
  from preflight_Await(1,5) [OF p] ma_consume_spends assms(2) show ?thesis by (fastforce simp: under_approval_def)
qed

interpretation gta: grant_token e "\<lambda>_. True" "\<lambda>s. ma_spent a (xs_approvals s)"
  "\<lambda>t. wrote (under_approval a) t \<or> about_to_write (under_approval a) t" "\<lambda>_. False" for e a
proof
  fix s x t
  let ?h = "\<lambda>t. wrote (under_approval a) t \<or> about_to_write (under_approval a) t"
  have "ma_spent a (xs_approvals s) \<Longrightarrow> ma_spent a (xs_approvals (fst (task_step e x s t)))"
    using task_step_consumed keeps_spent by blast
  moreover have "?h (snd (task_step e x s t)) \<Longrightarrow>
      ?h t \<or> \<not> ma_spent a (xs_approvals s) \<and> ma_spent a (xs_approvals (fst (task_step e x s t)))"
    by (cases "(e, x, s, t)" rule: task_step.cases)
      (auto simp: preflight_tokens approval_granted revalidate_tokens post_tokens read_tokens dest: revalidate_tokens(2) [rotated] post_tokens(2) [rotated])
  ultimately show "of_bool (?h (snd (task_step e x s t))) + of_bool (ma_spent a (xs_approvals s))
      \<le> of_bool (?h t) + (of_bool (ma_spent a (xs_approvals (fst (task_step e x s t)))) :: nat)" by auto
qed (auto intro: keeps_spent [OF env_step_consumed])

paragraph \<open>The idempotency key\<close>

text \<open>What a part of an execution does to the idempotency store.\<close>

lemma task_step_idem:
  obtains (other) x' where "xs_idem (fst (task_step e x s t)) = xs_idem s \<or> xs_idem (fst (task_step e x s t)) = idem_step (xs_idem s) x' \<and> (\<forall>k. \<not> reopens k x')"
  | (clean) cx rsn t1 where "xs_idem (fst (task_step e x s t)) = idem_step (xs_idem s) (Fail_clean (cx_key cx) rsn t1)"
      "t = T_revalidate cx \<and> (\<exists>err. snd (task_step e x s t) = T_ended No_write (Raised err)) \<or>
       t = T_post cx \<and> (\<exists>err. snd (task_step e x s t) = T_ended (Write_rejected cx) (Raised err))"
proof (cases "(e, x, s, t)" rule: task_step.cases)
  case (1 e' i br t1 t2 s' q)
  from preflight_idem [of e br t1 t2 q s] show ?thesis
  proof (elim disjE exE)
    fix key p rp op dg tg
    assume "xs_idem (fst (mx_preflight e br t1 t2 q s)) = fst (idem_begin key p rp op dg tg t2 (xs_idem s))"
    with 1 show ?thesis by (intro other [of "Begin key p rp op dg tg t2"]) simp
  qed (use 1 other in auto)
next
  case (2 e' i t1 hex now start resp s' cx)
  show ?thesis
  proof (cases rule: after_revalidate_cases [of e t1 hex now start resp cx s])
    case (failed err)
    with 2 show ?thesis
      using other [of "Mark_ambiguous (cx_key cx) t1"] clean [of cx _ t1] by (auto simp: failed(1))
  qed (use 2 other in auto)
next
  case (3 e' i t1 fin now resp s' cx)
  show ?thesis
  proof (cases "\<exists>cx'. snd (mx_after_post e t1 fin now resp cx s) = Await_read_back cx'")
    case True
    with 3 after_post_read_back [of e t1 fin now resp cx s] other show ?thesis by (metis apsnd_conv fst_conv prod.collapse Pair_inject task_step.simps(3))
  next
    case False
    with after_post_ended [of e t1 fin now resp cx s] 3 show ?thesis
      using other [of "Mark_ambiguous (cx_key cx) t1"] clean [of cx _ t1] by (auto simp: write_settled_def)
  qed
next
  case (4 e' i t1 fin now resp s' cx)
  with after_read_back_idem [of e t1 fin now resp cx s] show ?thesis
    using other [of "Mark_ambiguous (cx_key cx) t1"] other [of "Commit (cx_key cx) _ t1"] by auto
qed (use other in auto)

lemma key_granted:
  assumes "idem_inv (xs_idem s)" "snd (mx_preflight e br t1 t2 q s) = Await_revalidate cx" "under_key k cx"
  shows "\<not> call_spent k (xs_idem s) \<and> call_spent k (xs_idem (fst (mx_preflight e br t1 t2 q s)))"
proof -
  have p: "mx_preflight e br t1 t2 q s = (fst (mx_preflight e br t1 t2 q s), Await_revalidate cx)" using assms(2) by (simp add: prod_eq_iff)
  let ?b = "Begin k (mq_principal q) (cx_repository cx) (mc_tool_id (cx_contract cx)) (cx_digest cx) (mx_target (cx_contract cx) (cx_arguments cx)) t2"
  from preflight_Await(8) [OF p] assms(3) have b: "issues_call k (xs_idem s) ?b"
    "xs_idem (fst (mx_preflight e br t1 t2 q s)) = idem_step (xs_idem s) ?b"
    by (auto simp: under_key_def)
  from idu.spends_fresh [OF assms(1) b(1)] idu.spends_spent [OF assms(1) b(1)] b(2) show ?thesis by simp
qed

fun reopens_key :: "string \<Rightarrow> 's mx_label \<Rightarrow> bool" where
  "reopens_key k (X_idem x) \<longleftrightarrow> reopens k x"
| "reopens_key k _ \<longleftrightarrow> False"

lemma task_step_idem_inv: "idem_inv (xs_idem s) \<Longrightarrow> idem_inv (xs_idem (fst (task_step e x s t)))"
  by (cases rule: task_step_idem [of e x s t]) (auto simp del: idem_step.simps intro: idem_inv_step)

lemma key_token_step:
  assumes "idem_inv (xs_idem s)"
  shows "may_have_written (under_key k) (snd (task_step e x s t)) \<or> about_to_write (under_key k) (snd (task_step e x s t)) \<Longrightarrow>
    may_have_written (under_key k) t \<or> about_to_write (under_key k) t \<or>
    \<not> call_spent k (xs_idem s) \<and> call_spent k (xs_idem (fst (task_step e x s t)))"
  using assms
  by (cases "(e, x, s, t)" rule: task_step.cases)
    (auto simp: preflight_tokens key_granted revalidate_tokens post_tokens read_tokens dest: revalidate_tokens(3) [rotated] post_tokens(3) [rotated])

lemma key_kept_step:
  assumes "idem_inv (xs_idem s)" "call_spent k (xs_idem s)"
  shows "call_spent k (xs_idem (fst (task_step e x s t))) \<or>
    (may_have_written (under_key k) t \<or> about_to_write (under_key k) t) \<and>
    \<not> may_have_written (under_key k) (snd (task_step e x s t)) \<and> \<not> about_to_write (under_key k) (snd (task_step e x s t))"
proof (cases rule: task_step_idem [of e x s t])
  case (other x')
  with assms idu.spent_stays [of "xs_idem s" k x'] show ?thesis by auto
next
  case (clean cx rsn t1)
  show ?thesis
  proof (cases "cx_key cx = k")
    case False
    with assms have "call_spent k (idem_step (xs_idem s) (Fail_clean (cx_key cx) rsn t1))" by (intro idu.spent_stays) simp_all
    with clean(1) show ?thesis by simp
  qed (use clean(2) in \<open>auto simp: under_key_def\<close>)
qed

interpretation gtk: grant_token e "\<lambda>s :: 's mx_state. idem_inv (xs_idem s)" "\<lambda>s. call_spent k (xs_idem s)"
  "\<lambda>t. may_have_written (under_key k) t \<or> about_to_write (under_key k) t" "reopens_key k" for e :: "'s mutation_executor" and k
proof
  fix s :: "'s mx_state" and x :: "'s mx_label" and t
  let ?h = "\<lambda>t. may_have_written (under_key k) t \<or> about_to_write (under_key k) t"
  assume inv: "idem_inv (xs_idem s)"
  then show "idem_inv (xs_idem (fst (task_step e x s t)))" by (rule task_step_idem_inv)
  from inv show "idem_inv (xs_idem (env_step e s x))" by (cases x) (auto intro: idem_inv_step)
  show "of_bool (?h (snd (task_step e x s t))) + of_bool (call_spent k (xs_idem s))
      \<le> of_bool (?h t) + (of_bool (call_spent k (xs_idem (fst (task_step e x s t)))) :: nat)"
    using key_token_step [OF inv, of k e x t] key_kept_step [OF inv, of k e x t] by auto
  assume "call_spent k (xs_idem s)" "\<not> reopens_key k x"
  with inv show "call_spent k (xs_idem (env_step e s x))" by (cases x) (auto intro: idu.spent_stays)
qed simp

lemma filter_length_mono: "(\<And>x. P x \<Longrightarrow> Q x) \<Longrightarrow> length (filter P xs) \<le> length (filter Q xs)"
  by (induction xs) auto

text \<open>For the registered contracts a clean rejection is one of four statuses.\<close>

lemma clean_statuses:
  assumes "get_mutation_contract i = Inr c"
  shows "classify_status c n = FAILED_CLEAN \<longleftrightarrow> n \<in> {401, 403, 404, 422}"
  using get_mutation_contract_cases [OF assms]
  by (auto simp: classify_status_def create_branch_contract_def create_pr_contract_def)


subsection \<open>What a result means\<close>

lemma begin_replays:
  assumes "idem_begin k p rp op dg tg t s = (s', Inr d)" "\<not> executes_provider_call d"
  shows "s' = s" "map_of (records s) k = Some (decided_record d)"
    "(idem_status d, outcome (decided_record d)) \<in> {(REPLAYED, COMMITTED), (IN_PROGRESS, PENDING)}"
proof -
  have c: "claim k p rp op dg tg t u \<noteq> (s', Inr d)" for u
    using claim_issues [of k p rp op dg tg t u d] assms(2) by (auto simp: executes_provider_call_def)
  from assms(1) c obtain ex where ex: "map_of (records s) k = Some ex" "decide_existing ex t s = (s', Inr (Some d))"
    by (auto simp: idem_begin_def split: sum.splits option.splits prod.splits)
  then have "s' = s \<and> decided_record d = ex \<and> (idem_status d, outcome (decided_record d)) \<in> {(REPLAYED, COMMITTED), (IN_PROGRESS, PENDING)}"
    by (auto simp: decide_existing_def split: mutation_outcome.splits if_splits)
  with ex show "s' = s" "map_of (records s) k = Some (decided_record d)"
    "(idem_status d, outcome (decided_record d)) \<in> {(REPLAYED, COMMITTED), (IN_PROGRESS, PENDING)}" by auto
qed

lemma preflight_Returned:
  assumes "mx_preflight e br t1 t2 q s = (s', Returned r)"
  shows "mr_provider_writes r = 0"
    "\<exists>rc. map_of (records (xs_idem s)) (mr_idempotency_key r) = Some rc \<and> mr_outcome r = outcome rc \<and> outcome rc \<in> {COMMITTED, PENDING} \<and>
       mr_data r = (case rec_result rc of None \<Rightarrow> ''{}'' | Some d \<Rightarrow> d)"
    "xs_idem s' = xs_idem s"
proof -
  from assms obtain c args repo d dg key ids dec stages where b:
    "idem_begin key (mq_principal q) repo (mc_tool_id c) dg (mx_target c args) t2 (xs_idem s) = (ids, Inr dec)" "\<not> executes_provider_call dec"
    "r = replayed_result c repo dec dg key stages" "xs_idem s' = ids"
    by (auto simp: mx_preflight_def Let_def split: sum.splits prod.splits if_splits)
  from begin_replays [OF b(1,2)] b(3,4) show "mr_provider_writes r = 0"
    "\<exists>rc. map_of (records (xs_idem s)) (mr_idempotency_key r) = Some rc \<and> mr_outcome r = outcome rc \<and> outcome rc \<in> {COMMITTED, PENDING} \<and>
       mr_data r = (case rec_result rc of None \<Rightarrow> ''{}'' | Some d \<Rightarrow> d)" "xs_idem s' = xs_idem s"
    by (auto simp: replayed_result_def Let_def)
qed

lemma compare_fields_VERIFIED:
  "compare_fields obs expd fs = VERIFIED \<longleftrightarrow> (\<forall>f \<in> set fs. arg_of obs f \<noteq> JNull \<and> py_eq (arg_of obs f) (arg_of expd f))"
  by (induction fs) auto

definition read_back_verified :: "mx_ctx \<Rightarrow> transport_result \<Rightarrow> bool" where
  "read_back_verified cx resp \<longleftrightarrow>
     (\<exists>rb. resp = Responded rb \<and> rs_status_code rb = 200 \<and>
        (\<forall>f \<in> set (rb_verified_fields (mc_read_back (cx_contract cx))).
           let o1 = arg_of (observed_fields (cx_contract cx) (rs_payload rb)) f;
               o2 = arg_of (expected_fields (cx_contract cx) (cx_arguments cx) (rs_payload (cx_created cx))) f
           in o1 \<noteq> JNull \<and> py_eq o1 o2))"

lemma read_back_VERIFIED:
  "mx_read_back (cx_contract cx) (cx_arguments cx) (rs_payload (cx_created cx)) resp = Inr (VERIFIED, obs) \<Longrightarrow> read_back_verified cx resp"
  by (auto simp: mx_read_back_def read_back_verified_def Let_def compare_fields_VERIFIED split: transport_result.splits if_splits)

lemma read_back_Returned:
  assumes "mx_after_read_back e t1 fin now resp cx s = (s', Returned r)"
  obtains rc where "read_back_verified cx resp" "\<not> closed (cx_handle cx) (xs_ledger s)" "closed (cx_handle cx) (xs_ledger s')"
    "map_of (records (xs_idem s')) (cx_key cx) = Some rc" "outcome rc = COMMITTED" "rec_result rc = Some (mr_data r)"
    "mr_outcome r = COMMITTED" "mr_idempotency_key r = cx_key cx" "mr_stages r = cx_stages cx @ [RESULT_SHAPING]" "mr_provider_writes r = cx_writes cx"
proof -
  let ?ob = "mx_observation COMMITTED VERIFIED cx fin (Some (status_class (rs_status_code (cx_created cx)))) None"
  let ?out = "mx_after_read_back e t1 fin now resp cx s"
  from assms obtain v obs where rb: "mx_read_back (cx_contract cx) (cx_arguments cx) (rs_payload (cx_created cx)) resp = Inr (v, obs)"
    by (auto simp: mx_after_read_back_def Let_def split: sum.splits)
  with assms have v: "v = VERIFIED" by (auto simp: mx_after_read_back_def Let_def split: if_splits)
  from assms rb v obtain s1 ev ids rc where fz: "mx_finalize e now ?ob cx s = (s1, Inr ev)"
    and cm: "idem_commit (cx_key cx) (mr_data r) t1 (xs_idem s1) = (ids, Inr rc)" and s': "s' = s1\<lparr>xs_idem := ids\<rparr>"
    and r: "mr_outcome r = COMMITTED" "mr_idempotency_key r = cx_key cx" "mr_stages r = cx_stages cx @ [RESULT_SHAPING]" "mr_provider_writes r = cx_writes cx"
    by (auto simp: mx_after_read_back_def Let_def split: if_splits sum.splits prod.splits)
  from fz obtain ob' where lf: "ledger_finalize (mx_sha e) (mx_sink e) (cx_handle cx) ob' now (xs_ledger s) = (xs_ledger s1, Inr ev)"
    by (auto simp: mx_finalize_def split: sum.splits prod.splits)
  from finalize_closes [OF lf] have "\<not> closed (cx_handle cx) (xs_ledger s)" "closed (cx_handle cx) (xs_ledger s')" by (simp_all add: s')
  moreover have "map_of (records ids) (cx_key cx) = Some rc" "outcome rc = COMMITTED" "rec_result rc = Some (mr_data r)"
    using cm by (auto simp: idem_commit_def idem_resolve_def Let_def split: option.splits if_splits)
  ultimately show ?thesis using that [OF read_back_VERIFIED] rb v r s' by auto
qed

lemma no_return:
  "snd (mx_after_revalidate e t1 hex now start resp cx s) \<noteq> Returned r" "snd (mx_after_post e t1 fin now resp cx s) \<noteq> Returned r"
  using after_post_ended [of e t1 fin now resp cx s]
  by (cases rule: after_revalidate_cases [of e t1 hex now start resp cx s]; auto)+

lemma next_task_ended: "next_task f out = T_ended g (Returned r) \<longleftrightarrow> g = f \<and> out = Returned r"
  by (cases out) auto

lemma step_to_return:
  assumes "task_step e x s t = (s', T_ended f (Returned r))" "t \<noteq> T_ended f (Returned r)"
  obtains (replay) i br t1 t2 q where "x = X_start i br t1 t2" "t = T_new q" "f = No_write" "mx_preflight e br t1 t2 q s = (s', Returned r)"
  | (fresh) i t1 fin now resp cx where "x = X_read i t1 fin now resp" "t = T_read_back cx" "f = Write_possible cx"
      "mx_after_read_back e t1 fin now resp cx s = (s', Returned r)"
  using assms
  by (cases "(e, x, s, t)" rule: task_step.cases) (auto simp: prod_eq_iff next_task_ended no_return split: if_splits)


subsection \<open>A concrete run\<close>

lemmas text_eval = less_eq_char_def graphic_def strip_graphic lower_text_kept lead_space_graphic ascii_alnum_def ascii_lower_def backslash_def
  starts_with_def ends_with_def hex_lower_def

definition sample_sha40 :: string where
  "sample_sha40 = replicate 40 (CHR ''b'')"

definition sample_executor :: "file_sink mutation_executor" where
  "sample_executor = \<lparr>mx_sha = (\<lambda>_. sample_key), mx_registry = build_github_mutation_registry READY READY READY,
     mx_rules = github_mutation_policy_rules, mx_scope = [''o/r''], mx_sink = file_audit_sink, mx_policy_version = ''p1''\<rparr>"

definition sample_broker :: write_broker where
  "sample_broker = \<lparr>wb_readiness = (\<lambda>_. Some \<lparr>wr_state = READY, wr_reason = None\<rparr>), wb_authorize = (\<lambda>_ _. Inr ''t'')\<rparr>"

definition sample_mutation :: mutation_request where
  "sample_mutation = \<lparr>mq_principal = ''alice'', mq_tool_id = ''github.create_branch'',
     mq_arguments = [(''owner'', JStr ''o''), (''repo'', JStr ''r''), (''branch'', JStr ''topic''), (''base_sha'', JStr sample_sha40)],
     mq_approval_id = ''ap1'', mq_attempt_token = None\<rparr>"

definition sample_approvals :: ma_store where
  "sample_approvals = [(''ap1'', \<lparr>ar_approval_id = ''ap1'', ar_principal = ''alice'', ar_approver = ''bob'', ar_operation_digest = sample_key,
     ar_repository = ''o/r'', ar_operation = ''github.create_branch'', ar_nonce = ''n'', ar_expires_at = \<lparr>instant = 1000, aware = True\<rparr>,
     ar_trust_context = ''t'', ar_state = AP_PENDING, ar_consumed_at = None\<rparr>)]"

definition sample_state :: "file_sink mx_state" where
  "sample_state = \<lparr>xs_approvals = sample_approvals, xs_idem = \<lparr>lease_seconds = 120, records = [], leases = []\<rparr>,
     xs_ledger = sample_ledger\<rparr>"

definition sample_revalidated :: "file_sink mx_label" where
  "sample_revalidated = X_revalidated 0 3 ''0'' sample_time sample_time
     (Responded \<lparr>rs_status_code = 200, rs_payload = [(''sha'', JStr sample_sha40)]\<rparr>)"

definition sample_posted :: "file_sink mx_label" where
  "sample_posted = X_posted 0 4 sample_time sample_time (Responded \<lparr>rs_status_code = 201, rs_payload = []\<rparr>)"

definition sample_read :: "file_sink mx_label" where
  "sample_read = X_read 0 5 sample_time sample_time
     (Responded \<lparr>rs_status_code = 200, rs_payload = [(''ref'', JStr ''refs/heads/topic''), (''object'', JObj [(''sha'', JStr sample_sha40)])]\<rparr>)"

definition sample_args :: "(string \<times> json) list" where
  "sample_args = [(''base_sha'', JStr sample_sha40), (''branch'', JStr ''topic''), (''ref'', JStr ''refs/heads/topic''), (''repository'', JStr ''o/r'')]"

definition sample_descriptor :: op_descriptor where
  "sample_descriptor = \<lparr>od_operation = ''github.create_branch'', od_capability = CAP_BRANCH, od_repository = ''o/r'',
     od_arguments = [(''base_sha'', JStr sample_sha40), (''branch'', JStr ''topic''), (''ref'', JStr ''refs/heads/topic'')],
     od_preconditions = \<lparr>base_sha = Some sample_sha40, expected_head_sha = None, required_checks_policy = None\<rparr>,
     od_policy_version = ''p1'', od_registry_snapshot_hash = sample_key\<rparr>"

definition sample_ctx :: mx_ctx where
  "sample_ctx = \<lparr>cx_request = sample_mutation, cx_contract = create_branch_contract, cx_arguments = sample_args, cx_repository = ''o/r'',
     cx_descriptor = sample_descriptor, cx_digest = sample_key, cx_key = sample_key, cx_status = NEW,
     cx_stages = [SCOPE, REGISTRY, POLICY, CREDENTIAL, APPROVAL, IDEMPOTENCY, PRECONDITION_REVALIDATION],
     cx_handle = 0, cx_started_at = \<lparr>instant = 0, aware = True\<rparr>, cx_writes = 0, cx_created = no_response\<rparr>"

paragraph \<open>Admission\<close>

lemma sample_ids:
  "normalize_identifier ''github.create_branch'' f = Inr ''github.create_branch''"
  "normalize_identifier ''github.api'' f = Inr ''github.api''"
  "normalize_identifier ''github.branch.create'' f = Inr ''github.branch.create''"
  by (simp_all add: normalize_identifier_def text_eval WILDCARD_TOKENS_def re_identifier_def id_segment_def seg_char_def del: lower_text.simps)

lemmas sample_config = sample_executor_def build_github_mutation_registry_def mutation_contracts_def create_branch_contract_def create_pr_contract_def
  mutation_definition_def CREATE_BRANCH_TOOL_ID_def CREATE_PR_TOOL_ID_def github_mutation_policy_rules_def

lemma sample_contract: "get_mutation_contract ''github.create_branch'' = Inr create_branch_contract" "mc_tool_id create_branch_contract = ''github.create_branch''"
  "mc_write_capability create_branch_contract = CAP_BRANCH" "is_branch create_branch_contract"
  by (simp_all add: get_mutation_contract_def mutation_contracts_def text_eval CREATE_BRANCH_TOOL_ID_def create_branch_contract_def is_branch_def del: lower_text.simps)

lemma sample_hex: "length sample_sha40 = 40" "list_all hex_lower sample_sha40" "length sample_key = 64" "list_all hex_lower sample_key"
  by (simp_all add: sample_sha40_def sample_key_def list_all_iff text_eval)

lemma sample_branch: "branch_name_ok ''topic''"
  by (simp add: branch_name_ok_def text_eval BRANCH_TOKENS_def del: lower_text.simps)

lemma sample_normalized: "normalize_arguments ''github.create_branch'' (mq_arguments sample_mutation) = Inr sample_args"
  by (simp add: normalize_arguments_def CREATE_BRANCH_TOOL_ID_def normalize_create_branch_arguments_def reject_unknown_keys_def
      create_branch_input_schema_def object_schema_def repository_properties_def sha_property_def text_property_def schema_properties_def schema_required_def
      validate_repository_def re_repo_segment_def validate_branch_name_def validate_sha_def arg_of_def sample_mutation_def sample_args_def
      sample_hex sample_branch text_eval)

lemma sample_scope: "scope_allows [''o/r''] (owner_of ''o/r'') (repo_of ''o/r'') = Inr True"
  by (simp add: scope_allows_def owner_of_def repo_of_def repository_ref_def normalize_repository_part_def text_eval repo_part_def Let_def del: lower_text.simps)

lemma sample_evaluated:
  "pe_decision (evaluate \<lparr>en_registry = mx_registry sample_executor, en_rules = mx_rules sample_executor,
     en_broker = Some (broker_status_of sample_broker)\<rparr> ''github.create_branch'') = APPROVAL_REQUIRED"
  by (simp add: sample_config evaluate_def tr_get_def sample_ids evaluate_tool_def td_is_destructive_def cr_get_def state_ready_def
      credential_denial_def broker_status_of_def sample_broker_def rule_evaluation_def rules_get_def evaluation_def Let_def)

lemma sample_admitted: "mx_admit sample_executor sample_broker sample_mutation = Inr (create_branch_contract, sample_args, ''o/r'')"
proof -
  have "text_arg sample_args ''repository'' = ''o/r''" "mx_scope sample_executor = [''o/r'']" "mq_tool_id sample_mutation = ''github.create_branch''"
    by (simp_all add: text_arg_def sample_args_def sample_executor_def sample_mutation_def)
  then show ?thesis
    by (simp add: mx_admit_def sample_contract sample_normalized sample_scope sample_evaluated, simp add: sample_broker_def readiness_ready_def)
qed

lemma sample_snapshot: "capability_snapshot_hash (mx_sha sample_executor) (mx_registry sample_executor) = Inr sample_key"
proof -
  have "json_validate (snapshot_payload (mx_registry sample_executor))"
    by (simp add: sample_config snapshot_payload_def cr_canonical_def cr_ordered_def tr_ordered_def capability_canonical_def tool_canonical_def
        retry_policy_canonical_def resource_key_canonical_def create_branch_input_schema_def create_branch_output_schema_def
        create_pr_input_schema_def create_pr_output_schema_def result_schema_def object_schema_def repository_properties_def sha_property_def
        text_property_def enum_property_def Let_def)
  then show ?thesis by (simp add: capability_snapshot_hash_def mut_hash_Inr) (simp add: sample_executor_def)
qed

lemma sample_described: "mx_descriptor sample_executor create_branch_contract ''o/r'' sample_args = Inr sample_descriptor"
proof -
  have "mx_policy_version sample_executor = ''p1''" by (simp add: sample_executor_def)
  then show ?thesis
    by (simp add: mx_descriptor_def sample_snapshot sample_contract preconditions_new_def when_some_def expected_sha_def text_arg_def sample_args_def
        descriptor_new_def md_require_operation_def md_require_sha_def md_require_identifier_def lift_store_def sample_repository sample_digest
        canonical_arguments_def canonical_json_text_def sample_descriptor_def sample_hex text_eval)
qed

lemma sample_digested: "compute_operation_digest (mx_sha sample_executor) sample_descriptor = Inr sample_key"
  by (simp add: compute_operation_digest_def mut_hash_Inr)
    (simp add: sample_executor_def descriptor_canonical_def preconditions_canonical_def opt_entry_def sample_descriptor_def)

lemma sample_keyed: "compute_idempotency_key (mx_sha sample_executor) ''alice'' CAP_BRANCH ''o/r'' ''github.create_branch'' sample_key None = Inr sample_key"
  by (simp add: compute_idempotency_key_def lift_store_def sample_repository sample_digest mut_hash_Inr opt_entry_def) (simp add: sample_executor_def)

lemma sample_started:
  "\<exists>s1. mx_preflight sample_executor sample_broker 1 2 sample_mutation sample_state = (s1, Await_revalidate sample_ctx) \<and> xs_ledger s1 = sample_ledger \<and>
     (\<exists>rc. map_of (records (xs_idem s1)) sample_key = Some rc \<and> outcome rc = PENDING)"
proof -
  have q: "mq_principal sample_mutation = ''alice''" "mq_approval_id sample_mutation = ''ap1''" "mq_attempt_token sample_mutation = None"
    by (simp_all add: sample_mutation_def)
  have "od_repository sample_descriptor = ''o/r''" "od_operation sample_descriptor = ''github.create_branch''"
    by (simp_all add: sample_descriptor_def)
  then have "\<exists>aps ar. ma_verify_and_consume (mx_sha sample_executor) ''ap1'' sample_descriptor ''alice'' 1 sample_approvals = (aps, Inr ar)"
    unfolding ma_consume_iff by (simp add: ma_consumable_def sample_digested sample_approvals_def requires_distinct_approver_def ends_with_def)
  then obtain aps ar where c: "ma_verify_and_consume (mx_sha sample_executor) ''ap1'' sample_descriptor ''alice'' 1 sample_approvals = (aps, Inr ar)"
    by blast
  obtain ids d where b: "idem_begin sample_key ''alice'' ''o/r'' ''github.create_branch'' sample_key (mx_target create_branch_contract sample_args) 2
      \<lparr>lease_seconds = 120, records = [], leases = []\<rparr> = (ids, Inr d)" "idem_status d = NEW" "map_of (records ids) sample_key = Some (decided_record d)"
    "outcome (decided_record d) = PENDING"
    by (simp add: idem_eval sample_digest sample_repository put_record_def)
  then show ?thesis
    by (simp add: mx_preflight_def sample_admitted sample_described sample_digested q sample_keyed sample_contract c sample_state_def executes_provider_call_def
        Let_def sample_ctx_def)
qed

paragraph \<open>The write-ahead record\<close>

lemma short_no_run: "length s < n \<Longrightarrow> \<not> has_run p n s"
proof (induction s)
  case (Cons c cs)
  have "length (takeWhile p (c # cs)) \<le> length (c # cs)" by (rule length_takeWhile_le)
  with Cons show ?case by fastforce
qed simp

lemma substr_chars: "substr w s \<Longrightarrow> set w \<subseteq> set s"
proof (induction w s rule: substr.induct)
  case (2 w c cs)
  then show ?case by (metis substr.simps(2) set_subset_Cons set_take_subset subset_trans)
qed simp

lemma safe_replicate:
  assumes "0 < n" "n < 80" "c = CHR ''a'' \<or> c = CHR ''b''"
  shows "require_safe_text MAX_STRING_LENGTH (replicate n c) = Inr (replicate n c)"
proof -
  have l: "lower_text (replicate n c) = replicate n c" using assms by (intro lower_text_kept) (auto simp: list_all_iff text_eval)
  have "\<not> substr m (replicate n c)" if "m \<in> set SECRET_MARKERS" for m
    using substr_chars [of m "replicate n c"] that assms by (auto simp: SECRET_MARKERS_def)
  then have "\<not> looks_secret_bearing (replicate n c)"
    using assms by (auto simp: looks_secret_bearing_def l list_ex_iff short_no_run)
  moreover have "code_points (replicate n c) \<le> MAX_STRING_LENGTH"
    using length_filter_le [of "\<lambda>c. of_char c div (64 :: nat) \<noteq> 2" "replicate n c"] assms(2) by (simp add: code_points_def MAX_STRING_LENGTH_def)
  ultimately show ?thesis using assms by (auto simp: require_safe_text_def list_ex_iff)
qed

lemma sample_safe:
  "require_safe_text MAX_STRING_LENGTH sample_key = Inr sample_key" "require_safe_text MAX_STRING_LENGTH sample_sha40 = Inr sample_sha40"
  by (simp_all add: sample_key_def sample_sha40_def safe_replicate)

lemma sample_safe_texts:
  "require_safe_text MAX_STRING_LENGTH ''alice'' = Inr ''alice''" "require_safe_text MAX_STRING_LENGTH ''o/r'' = Inr ''o/r''"
  "require_safe_text MAX_STRING_LENGTH ''p1'' = Inr ''p1''" "require_safe_text MAX_STRING_LENGTH ''ap1'' = Inr ''ap1''"
  "require_safe_text MAX_STRING_LENGTH ''github.create_branch'' = Inr ''github.create_branch''"
  by (simp_all add: require_safe_text_def looks_secret_bearing_def SECRET_MARKERS_def MAX_STRING_LENGTH_def code_points_def text_eval short_no_run
      del: lower_text.simps has_run.simps)

lemma sample_patterns:
  "require_pattern (re_hex 64) sample_key = Inr sample_key" "require_pattern (re_hex 40) sample_sha40 = Inr sample_sha40"
  "require_pattern re_opaque_id ''alice'' = Inr ''alice''" "require_pattern re_opaque_id ''p1'' = Inr ''p1''"
  "require_pattern re_opaque_id ''ap1'' = Inr ''ap1''" "require_pattern re_repository ''o/r'' = Inr ''o/r''"
  "require_pattern re_operation ''github.create_branch'' = Inr ''github.create_branch''"
  by (simp_all add: require_pattern_def sample_safe sample_safe_texts re_dollar_def re_hex_def sample_hex re_opaque_id_def re_repository_def
      re_operation_def repo_part_def text_eval Let_def)

definition sample_intent :: mutation_intent where
  "sample_intent = \<lparr>mi_principal = ''alice'', mi_operation = ''github.create_branch'', mi_repository = ''o/r'', mi_operation_digest = sample_key,
     mi_policy_decision = APPROVAL_REQUIRED,
     mi_capability = \<lparr>cs_capability_id = CAP_BRANCH, cs_state = READY, cs_snapshot_hash = sample_key, cs_policy_version = ''p1''\<rparr>,
     mi_idempotency_key = sample_key, mi_idempotency_status = NEW,
     mi_approval = Some \<lparr>ap_approval_id = ''ap1'', ap_state = AP_PENDING, ap_bound_digest = sample_key\<rparr>,
     mi_preconditions = [(''base_sha'', sample_sha40)], mi_registry_snapshot_hash = Some sample_key\<rparr>"

lemma sample_preconditions: "require_preconditions [(''base_sha'', sample_sha40)] = Inr [(''base_sha'', sample_sha40)]"
  by (simp add: require_preconditions_def PRECONDITION_KEYS_def sample_patterns)

lemma sample_intended: "mx_intent sample_executor sample_ctx = Inr sample_intent"
proof -
  have "mx_policy_version sample_executor = ''p1''" by (simp add: sample_executor_def)
  then show ?thesis
    by (simp add: mx_intent_def sample_snapshot capability_snapshot_new_def approval_reference_new_def mutation_intent_new_def sample_patterns
        sample_ctx_def sample_contract sample_mutation_def observed_preconditions_def expected_sha_def text_arg_def sample_args_def
        require_optional_pattern_def sample_preconditions sample_intent_def)
qed

lemma sample_recorded:
  "\<exists>lg. ledger_begin (mx_sha sample_executor) (mx_sink sample_executor) ''0'' sample_time sample_intent sample_ledger = (lg, Inr 0)"
proof -
  have e: "mx_sha sample_executor = (\<lambda>_. sample_key)" "mx_sink sample_executor = file_audit_sink" by (simp_all add: sample_executor_def)
  let ?body = "intent_entries sample_intent [(''base_sha'', sample_sha40)] @ write_ahead_entries ''mut-0'' sample_time @ [(''record_digest'', JStr sample_key)]"
  have "intent_admissible sample_intent" by (simp add: intent_admissible_def sample_intent_def)
  moreover have "write_ahead_body (\<lambda>_. sample_key) sample_intent ''mut-0'' sample_time = Inr (sample_key, ?body)"
    by (simp add: write_ahead_body_Inr sample_preconditions sample_intent_def [THEN arg_cong [where f = mi_preconditions]])
  moreover have "json_validate (JObj ?body)"
    using write_ahead_valid [of sample_intent "[(''base_sha'', sample_sha40)]" "''mut-0''" sample_time] by (simp add: ball_Un)
  ultimately show ?thesis
    using sample_path by (auto simp: ledger_begin_iff e sample_time_def sample_ledger_def file_audit_sink_def file_append_Inr next_fault_def
        file_exists_def update_conv' simp del: json_validate.simps canon.simps)
qed

paragraph \<open>The run\<close>

definition sample_post_ctx :: mx_ctx where
  "sample_post_ctx = sample_ctx\<lparr>cx_handle := 0, cx_started_at := sample_time, cx_writes := 1,
     cx_stages := cx_stages sample_ctx @ [WRITE_AHEAD_AUDIT, PROVIDER_CALL]\<rparr>"

definition sample_read_ctx :: mx_ctx where
  "sample_read_ctx = sample_post_ctx\<lparr>cx_created := \<lparr>rs_status_code = 201, rs_payload = []\<rparr>, cx_stages := cx_stages sample_post_ctx @ [READ_BACK]\<rparr>"

definition sample_before_post :: "file_sink mx_system" where
  "sample_before_post = run_ops (mx_step sample_executor) (mx_init sample_state) [X_request sample_mutation, X_start 0 sample_broker 1 2]"

definition sample_before_read :: "file_sink mx_system" where
  "sample_before_read = run_ops (mx_step sample_executor) (mx_init sample_state)
     [X_request sample_mutation, X_start 0 sample_broker 1 2, sample_revalidated, sample_posted]"

lemma sample_waits:
  obtains s1 rc where "sample_before_post = \<lparr>sy_state = s1, sy_tasks = [T_revalidate sample_ctx]\<rparr>" "xs_ledger s1 = sample_ledger"
    "map_of (records (xs_idem s1)) sample_key = Some rc" "outcome rc = PENDING"
  using sample_started by (auto simp: sample_before_post_def mx_step_def mx_init_def)

lemma sample_writes:
  obtains s2 rc where "mx_step sample_executor sample_before_post sample_revalidated = \<lparr>sy_state = s2, sy_tasks = [T_post sample_post_ctx]\<rparr>"
    "ledger_begin (mx_sha sample_executor) file_audit_sink ''0'' sample_time sample_intent sample_ledger = (xs_ledger s2, Inr 0)"
    "map_of (records (xs_idem s2)) sample_key = Some rc" "outcome rc = PENDING"
proof -
  obtain s1 rc where s1: "sample_before_post = \<lparr>sy_state = s1, sy_tasks = [T_revalidate sample_ctx]\<rparr>" "xs_ledger s1 = sample_ledger"
    "map_of (records (xs_idem s1)) sample_key = Some rc" "outcome rc = PENDING" by (rule sample_waits)
  obtain lg where lg: "ledger_begin (mx_sha sample_executor) (mx_sink sample_executor) ''0'' sample_time sample_intent sample_ledger = (lg, Inr 0)"
    using sample_recorded by blast
  have "mx_revalidate create_branch_contract sample_args (Responded \<lparr>rs_status_code = 200, rs_payload = [(''sha'', JStr sample_sha40)]\<rparr>) = Inr ()"
    by (simp add: mx_revalidate_def extract_sha_def sample_contract arg_of_def expected_sha_def text_arg_def sample_args_def)
  moreover have "cx_contract sample_ctx = create_branch_contract" "cx_arguments sample_ctx = sample_args" by (simp_all add: sample_ctx_def)
  ultimately have "mx_after_revalidate sample_executor 3 ''0'' sample_time sample_time
      (Responded \<lparr>rs_status_code = 200, rs_payload = [(''sha'', JStr sample_sha40)]\<rparr>) sample_ctx s1 = (s1\<lparr>xs_ledger := lg\<rparr>, Await_post sample_post_ctx)"
    by (simp add: mx_after_revalidate_def sample_intended s1(2) lg sample_post_ctx_def)
  then have "mx_step sample_executor sample_before_post sample_revalidated = \<lparr>sy_state = s1\<lparr>xs_ledger := lg\<rparr>, sy_tasks = [T_post sample_post_ctx]\<rparr>"
    by (simp add: mx_step_def s1(1) sample_revalidated_def)
  moreover have "mx_sink sample_executor = file_audit_sink" by (simp add: sample_executor_def)
  ultimately show ?thesis using that [of "s1\<lparr>xs_ledger := lg\<rparr>" rc] lg s1(3,4) by simp
qed

lemma sample_reads:
  obtains s2 rc where "sample_before_read = \<lparr>sy_state = s2, sy_tasks = [T_read_back sample_read_ctx]\<rparr>"
    "ledger_begin (mx_sha sample_executor) file_audit_sink ''0'' sample_time sample_intent sample_ledger = (xs_ledger s2, Inr 0)"
    "map_of (records (xs_idem s2)) sample_key = Some rc" "outcome rc = PENDING"
proof -
  obtain s2 rc where s2: "mx_step sample_executor sample_before_post sample_revalidated = \<lparr>sy_state = s2, sy_tasks = [T_post sample_post_ctx]\<rparr>"
    "ledger_begin (mx_sha sample_executor) file_audit_sink ''0'' sample_time sample_intent sample_ledger = (xs_ledger s2, Inr 0)"
    "map_of (records (xs_idem s2)) sample_key = Some rc" "outcome rc = PENDING" by (rule sample_writes)
  have c: "cx_contract sample_post_ctx = create_branch_contract" by (simp add: sample_post_ctx_def sample_ctx_def)
  have "mx_after_post sample_executor 4 sample_time sample_time (Responded \<lparr>rs_status_code = 201, rs_payload = []\<rparr>) sample_post_ctx s2
      = (s2, Await_read_back sample_read_ctx)"
    by (simp add: mx_after_post_def c classify_status_def read_back_path_def sample_contract sample_read_ctx_def Let_def) (simp add: create_branch_contract_def)
  then have "sample_before_read = \<lparr>sy_state = s2, sy_tasks = [T_read_back sample_read_ctx]\<rparr>"
    using s2(1) by (simp add: sample_before_read_def sample_before_post_def sample_posted_def mx_step_def [of _ "\<lparr>sy_state = s2, sy_tasks = [T_post sample_post_ctx]\<rparr>"])
  with s2 that show ?thesis by blast
qed

lemma sample_returns: "\<exists>r. sy_tasks (mx_step sample_executor sample_before_read sample_read) = [T_ended (Write_possible sample_read_ctx) (Returned r)]"
proof -
  obtain s2 rc where s2: "sample_before_read = \<lparr>sy_state = s2, sy_tasks = [T_read_back sample_read_ctx]\<rparr>"
    "ledger_begin (mx_sha sample_executor) file_audit_sink ''0'' sample_time sample_intent sample_ledger = (xs_ledger s2, Inr 0)"
    "map_of (records (xs_idem s2)) sample_key = Some rc" "outcome rc = PENDING" by (rule sample_reads)
  have c: "cx_contract sample_read_ctx = create_branch_contract" "cx_arguments sample_read_ctx = sample_args" "cx_key sample_read_ctx = sample_key"
    "cx_handle sample_read_ctx = 0" "cx_created sample_read_ctx = \<lparr>rs_status_code = 201, rs_payload = []\<rparr>"
    "cx_stages sample_read_ctx @ [RESULT_SHAPING] = MUTATION_STAGE_ORDER" "cx_writes sample_read_ctx = 1" "cx_started_at sample_read_ctx = sample_time"
    by (simp_all add: sample_read_ctx_def sample_post_ctx_def sample_ctx_def MUTATION_STAGE_ORDER_def)
  let ?resp = "Responded \<lparr>rs_status_code = 200, rs_payload = [(''ref'', JStr ''refs/heads/topic''), (''object'', JObj [(''sha'', JStr sample_sha40)])]\<rparr>"
  have "rb_verified_fields (mc_read_back create_branch_contract) = [''ref'', ''sha'']" by (simp add: create_branch_contract_def)
  then obtain obs where rb: "mx_read_back create_branch_contract sample_args [] ?resp = Inr (VERIFIED, obs)"
    by (simp add: mx_read_back_def observed_fields_def expected_fields_def sample_contract arg_of_def object_sha_def py_eq_def sample_args_def Let_def)
  let ?ob = "mx_observation COMMITTED VERIFIED sample_read_ctx sample_time (Some (status_class 201)) None"
  have sc: "status_class 201 = ''2xx''" by (simp add: status_class_def int_text_def nat_text.simps digit_def char_of_def bit_0)
  have safe: "require_safe_text 8 ''2xx'' = Inr ''2xx''"
    by (simp add: require_safe_text_def looks_secret_bearing_def SECRET_MARKERS_def code_points_def text_eval short_no_run del: lower_text.simps has_run.simps)
  have ob: "provider_observation_new ?ob = Inr ?ob"
    by (simp add: safe provider_observation_new_def mx_observation_def sc c sample_time_def require_status_class_def require_optional_pattern_def
        require_artifact_refs_def proves_commit_def)
  have "files.ledger_ok sample_ledger" by (simp add: files.ledger_ok_def sample_ledger_def)
  moreover have "instant sample_time \<le> instant (po_started_at ?ob)" by (simp add: mx_observation_def c)
  ultimately have "\<exists>lg ev. ledger_finalize (mx_sha sample_executor) file_audit_sink 0 ?ob sample_time (xs_ledger s2) = (lg, Inr ev)"
    using files.attempt_closes [OF _ s2(2), of "[]" ?ob ?ob sample_time] ob by simp
  then obtain lg ev where f: "ledger_finalize (mx_sha sample_executor) file_audit_sink 0 ?ob sample_time (xs_ledger s2) = (lg, Inr ev)" by blast
  have "stage_order_ok (- 1) MUTATION_STAGE_ORDER" by (simp add: MUTATION_STAGE_ORDER_def)
  moreover have "mx_sink sample_executor = file_audit_sink" by (simp add: sample_executor_def)
  ultimately obtain s3 r where "mx_after_read_back sample_executor 5 sample_time sample_time ?resp sample_read_ctx s2 = (s3, Returned r)"
    using rb ob f s2(3,4)
    by (simp add: mx_after_read_back_def c mx_finalize_def idem_commit_def idem_resolve_def Let_def del: stage_order_ok.simps)
  then show ?thesis by (simp add: mx_step_def s2(1) sample_read_def)
qed




end
