(* ===== verification/Governance_Policy.thy ===== *)
theory Governance_Policy
  imports Mutation_Audit
begin

section \<open>The governance policy (policy.py)\<close>

text \<open>
  Loading a policy document, the class of an action, the decision and its signature. \<open>str\<close> of a JSON value that is
  not a text, \<open>json.loads\<close>, the file of the configured path, SHA-256, HMAC and the secrets are parameters.
\<close>

datatype decision_type = D_ALLOW | D_DENY | D_REQUIRE_APPROVAL

datatype action_class = CLASS_NONE | CLASS_WRITE | CLASS_DELETE | CLASS_ADMIN

datatype trust_label = TRUSTED_POLICY | USER_INSTRUCTION | AGENT_PROPOSAL | TOOL_RESULT | UNTRUSTED_CONTENT | UNKNOWN_TRUST

fun decision_value :: "decision_type \<Rightarrow> string" where
  "decision_value D_ALLOW = ''ALLOW''"
| "decision_value D_DENY = ''DENY''"
| "decision_value D_REQUIRE_APPROVAL = ''REQUIRE_APPROVAL''"

fun action_class_value :: "action_class \<Rightarrow> string" where
  "action_class_value CLASS_NONE = ''none''"
| "action_class_value CLASS_WRITE = ''write''"
| "action_class_value CLASS_DELETE = ''delete''"
| "action_class_value CLASS_ADMIN = ''admin''"

fun trust_value :: "trust_label \<Rightarrow> string" where
  "trust_value TRUSTED_POLICY = ''trusted_policy''"
| "trust_value USER_INSTRUCTION = ''user_instruction''"
| "trust_value AGENT_PROPOSAL = ''agent_proposal''"
| "trust_value TOOL_RESULT = ''tool_result''"
| "trust_value UNTRUSTED_CONTENT = ''untrusted_content''"
| "trust_value UNKNOWN_TRUST = ''unknown''"

record policy_input =
  pi_action :: string
  pi_origin_type :: "string option"
  pi_project_key :: "string option"
  pi_resource :: "string option"
  pi_trust_label :: trust_label
  pi_mutation_class :: action_class
  pi_principal :: "string option"
  pi_delegation_chain :: "string list"

record policy_outcome =
  pd_decision :: decision_type
  pd_reason :: string
  pd_effective_policy :: "(string \<times> json) list"
  pd_approval_required :: bool

datatype gov_error = PolicyError string | PolicyConfigError string

subsection \<open>Documents\<close>

record gov_policy =
  gp_name :: string
  gp_version :: string
  gp_read_only :: "string list"
  gp_mutating :: "string list"
  gp_deny :: "string list"
  gp_require :: "string list"
  gp_unknown :: decision_type

definition fold_text :: "string \<Rightarrow> string" where
  "fold_text s = lower_text (strip s)"

definition string_item :: "string \<Rightarrow> json \<Rightarrow> (gov_error, string) result" where
  "string_item field v =
     (case v of
        JStr s \<Rightarrow> if strip s = [] then Inl (PolicyError field) else Inr (fold_text s)
      | _ \<Rightarrow> Inl (PolicyError field))"

definition string_list :: "string \<Rightarrow> json \<Rightarrow> (gov_error, string list) result" where
  "string_list field v =
     (case v of JNull \<Rightarrow> Inr [] | JList xs \<Rightarrow> traverse (string_item field) xs | _ \<Rightarrow> Inl (PolicyError field))"

text \<open>\<open>document.get(k)\<close> and \<open>str(document.get(k) or default)\<close>\<close>

definition doc_get :: "(string \<times> json) list \<Rightarrow> string \<Rightarrow> json" where
  "doc_get doc k = (case map_of doc k of None \<Rightarrow> JNull | Some v \<Rightarrow> v)"

definition doc_text :: "(json \<Rightarrow> string) \<Rightarrow> (string \<times> json) list \<Rightarrow> string \<Rightarrow> string \<Rightarrow> string" where
  "doc_text str_of doc k dflt =
     (let v = doc_get doc k in if \<not> json_truthy v then dflt else case v of JStr s \<Rightarrow> s | _ \<Rightarrow> str_of v)"

definition decision_of :: "string \<Rightarrow> decision_type option" where
  "decision_of t = find (\<lambda>d. decision_value d = t) [D_ALLOW, D_DENY, D_REQUIRE_APPROVAL]"

definition validate_policy_document :: "(json \<Rightarrow> string) \<Rightarrow> json \<Rightarrow> (gov_error, gov_policy) result" where
  "validate_policy_document str_of document =
     (case document of
        JObj doc \<Rightarrow>
          bind_r (string_list ''read_only_actions'' (doc_get doc ''read_only_actions'')) (\<lambda>ro.
          bind_r (string_list ''mutating_actions'' (doc_get doc ''mutating_actions'')) (\<lambda>mu.
          bind_r (string_list ''deny_actions'' (doc_get doc ''deny_actions'')) (\<lambda>de.
          bind_r (string_list ''require_approval_actions'' (doc_get doc ''require_approval_actions'')) (\<lambda>ra.
          case decision_of (upper_text (strip (doc_text str_of doc ''unknown_action_decision'' ''DENY''))) of
            None \<Rightarrow> Inl (PolicyError ''unknown_action_decision'')
          | Some un \<Rightarrow>
              if set ro \<inter> set mu \<noteq> {} then Inl (PolicyError ''overlap'')
              else if ro = [] \<and> mu = [] \<and> un \<noteq> D_DENY then Inl (PolicyConfigError ''empty policy'')
              else Inr \<lparr>gp_name = doc_text str_of doc ''name'' ''unnamed'', gp_version = doc_text str_of doc ''version'' ''0'',
                        gp_read_only = ro, gp_mutating = mu, gp_deny = de, gp_require = ra, gp_unknown = un\<rparr>))))
      | _ \<Rightarrow> Inl (PolicyError ''document''))"

definition policy_json :: "gov_policy \<Rightarrow> json" where
  "policy_json p = JObj
     [(''name'', JStr (gp_name p)), (''version'', JStr (gp_version p)),
      (''read_only_actions'', JList (map JStr (gp_read_only p))), (''mutating_actions'', JList (map JStr (gp_mutating p))),
      (''deny_actions'', JList (map JStr (gp_deny p))), (''require_approval_actions'', JList (map JStr (gp_require p))),
      (''unknown_action_decision'', JStr (decision_value (gp_unknown p)))]"

definition policy_hash :: "(string \<Rightarrow> string) \<Rightarrow> gov_policy \<Rightarrow> string" where
  "policy_hash sha p = sha (dumps (policy_json p))"

definition BUILTIN_SAFE_POLICY :: gov_policy where
  "BUILTIN_SAFE_POLICY =
     \<lparr>gp_name = ''builtin-safe'', gp_version = ''0.9.0'',
      gp_read_only =
        [''read'', ''status'', ''health'', ''list'', ''manifest'', ''readiness'', ''capabilities'', ''agent-card'', ''hermes_health'',
         ''hermes_readiness'', ''hermes_status'', ''hermes_wait'', ''hermes_recent_runs'', ''hermes_capabilities'', ''hermes_agent_card'',
         ''hermes_policy_evaluate'', ''hermes_approval_status'', ''hermes_result_manifest'', ''hermes_plan'', ''hermes_checkpoint_status'',
         ''hermes_saga_status'', ''hermes_lock_status'', ''hermes_quota_status'', ''hermes_prompt'', ''hermes_submit''],
      gp_mutating =
        [''hermes_stop'', ''hermes_approval_create'', ''hermes_approval_respond'', ''hermes_execute_approved_plan'',
         ''hermes_checkpoint_create'', ''hermes_continue'', ''hermes_saga_start'', ''hermes_saga_compensate'', ''hermes_lock_acquire'',
         ''hermes_lock_release''],
      gp_deny = [], gp_require = [], gp_unknown = D_DENY\<rparr>"

subsection \<open>Loading\<close>

record loaded_policy =
  lp_policy :: "gov_policy option"
  lp_source :: string
  lp_valid :: bool
  lp_policy_hash :: "string option"
  lp_security_mode :: string

definition lp_require :: "loaded_policy \<Rightarrow> (gov_error, gov_policy) result" where
  "lp_require l = (case lp_policy l of Some p \<Rightarrow> if lp_valid l then Inr p else Inl (PolicyError ''not loaded'') | None \<Rightarrow> Inl (PolicyError ''not loaded''))"

type_synonym environ = "string \<Rightarrow> string option"

definition security_mode :: "environ \<Rightarrow> string" where
  "security_mode env =
     (let m = fold_text (case env ''BRIDGE_SECURITY_MODE'' of None \<Rightarrow> ''production'' | Some t \<Rightarrow> t) in if m = [] then ''production'' else m)"

definition is_strict_mode :: "environ \<Rightarrow> bool" where
  "is_strict_mode env \<longleftrightarrow> security_mode env \<notin> {''development'', ''dev'', ''test''}"

text \<open>What \<open>open\<close> and \<open>json.load\<close> make of the configured path.\<close>

datatype policy_file = File_missing | File_unreadable | File_json json

record policy_world =
  pw_str :: "json \<Rightarrow> string"
  pw_loads :: "string \<Rightarrow> json option"
  pw_sha :: "string \<Rightarrow> string"
  pw_file :: "string \<Rightarrow> policy_file"

definition invalid_policy :: "string \<Rightarrow> environ \<Rightarrow> loaded_policy" where
  "invalid_policy source env =
     \<lparr>lp_policy = None, lp_source = source, lp_valid = False, lp_policy_hash = None, lp_security_mode = security_mode env\<rparr>"

definition valid_policy :: "policy_world \<Rightarrow> string \<Rightarrow> environ \<Rightarrow> gov_policy \<Rightarrow> loaded_policy" where
  "valid_policy w source env p =
     \<lparr>lp_policy = Some p, lp_source = source, lp_valid = True, lp_policy_hash = Some (policy_hash (pw_sha w) p), lp_security_mode = security_mode env\<rparr>"

definition from_document :: "policy_world \<Rightarrow> string \<Rightarrow> environ \<Rightarrow> json \<Rightarrow> loaded_policy" where
  "from_document w source env doc =
     (case validate_policy_document (pw_str w) doc of Inl e \<Rightarrow> invalid_policy source env | Inr p \<Rightarrow> valid_policy w source env p)"

definition configured :: "environ \<Rightarrow> string \<Rightarrow> string option" where
  "configured env k = (case env k of Some t \<Rightarrow> if strip t = [] then None else Some t | None \<Rightarrow> None)"

definition load_policy :: "policy_world \<Rightarrow> environ \<Rightarrow> loaded_policy" where
  "load_policy w env =
     (case configured env ''BRIDGE_POLICY_JSON'' of
        Some inline \<Rightarrow> (case pw_loads w inline of None \<Rightarrow> invalid_policy ''inline'' env | Some doc \<Rightarrow> from_document w ''inline'' env doc)
      | None \<Rightarrow>
          (case configured env ''BRIDGE_POLICY_PATH'' of
             Some path \<Rightarrow> (case pw_file w path of File_json doc \<Rightarrow> from_document w ''file'' env doc | _ \<Rightarrow> invalid_policy ''file'' env)
           | None \<Rightarrow> valid_policy w ''builtin'' env BUILTIN_SAFE_POLICY))"

text \<open>The cached policy of the process.\<close>

definition get_active_policy :: "bool \<Rightarrow> loaded_policy \<Rightarrow> loaded_policy option \<Rightarrow> loaded_policy option \<times> loaded_policy" where
  "get_active_policy refresh fresh cached =
     (if refresh then (Some fresh, fresh) else case cached of None \<Rightarrow> (Some fresh, fresh) | Some l \<Rightarrow> (cached, l))"

subsection \<open>Decisions\<close>

definition classify_action :: "string \<Rightarrow> gov_policy \<Rightarrow> action_class option" where
  "classify_action action p =
     (let a = fold_text action
      in if a = [] then None else if a \<in> set (gp_read_only p) then Some CLASS_NONE
         else if a \<in> set (gp_mutating p) then Some CLASS_WRITE else None)"

definition trust_risk :: "trust_label \<Rightarrow> string" where
  "trust_risk t =
     (if t \<in> {TRUSTED_POLICY, USER_INSTRUCTION} then ''low'' else if t = AGENT_PROPOSAL then ''medium''
      else if t = TOOL_RESULT then ''low'' else if t = UNTRUSTED_CONTENT then ''high'' else ''unknown'')"

definition mutates :: "action_class \<Rightarrow> bool" where
  "mutates c \<longleftrightarrow> c \<in> {CLASS_WRITE, CLASS_DELETE, CLASS_ADMIN}"

definition effective_class :: "action_class option \<Rightarrow> action_class \<Rightarrow> action_class" where
  "effective_class declared caller =
     (case declared of None \<Rightarrow> caller | Some d \<Rightarrow> if d = CLASS_NONE \<and> mutates caller then caller else d)"

definition decided :: "decision_type \<Rightarrow> string \<Rightarrow> (string \<times> json) list \<Rightarrow> policy_outcome" where
  "decided d rsn eff = \<lparr>pd_decision = d, pd_reason = rsn, pd_effective_policy = eff, pd_approval_required = (d = D_REQUIRE_APPROVAL)\<rparr>"

definition evaluate_active :: "string \<Rightarrow> string option \<Rightarrow> gov_policy \<Rightarrow> policy_input \<Rightarrow> policy_outcome" where
  "evaluate_active source ph p i =
     (let base = [(''source'', JStr source), (''policy_name'', JStr (gp_name p)), (''policy_hash'', case ph of None \<Rightarrow> JNull | Some h \<Rightarrow> JStr h)];
          action = strip (pi_action i);
          a = lower_text action;
          declared = classify_action action p;
          cls = effective_class declared (pi_mutation_class i);
          eff = base @ [(''trust_risk'', JStr (trust_risk (pi_trust_label i))), (''action'', JStr action),
                        (''declared_class'', JStr (case declared of None \<Rightarrow> ''unknown'' | Some d \<Rightarrow> action_class_value d)),
                        (''mutation_class'', JStr (action_class_value cls))]
      in if action = [] then decided D_DENY ''missing action'' base
         else if a \<in> set (gp_deny p) then decided D_DENY ''deny_actions'' eff
         else if a \<in> set (gp_require p) then decided D_REQUIRE_APPROVAL ''require_approval_actions'' eff
         else if declared = None then decided (gp_unknown p) ''unknown action for active policy'' eff
         else if mutates cls then decided D_REQUIRE_APPROVAL (''mutation class '' @ action_class_value cls @ '' requires approval'') eff
         else if trust_risk (pi_trust_label i) = ''high'' then decided D_REQUIRE_APPROVAL ''high-risk trust label'' eff
         else decided D_ALLOW ''read-only action allowed by policy'' eff)"

text \<open>\<open>evaluate_policy\<close>, on the active policy or on an explicit document\<close>

definition evaluate_policy :: "policy_world \<Rightarrow> loaded_policy \<Rightarrow> json option \<Rightarrow> policy_input \<Rightarrow> (gov_error, policy_outcome) result" where
  "evaluate_policy w active document i =
     (case document of
        None \<Rightarrow> bind_r (lp_require active) (\<lambda>p. Inr (evaluate_active (lp_source active) (lp_policy_hash active) p i))
      | Some doc \<Rightarrow> bind_r (validate_policy_document (pw_str w) doc)
          (\<lambda>p. Inr (evaluate_active ''explicit'' (Some (policy_hash (pw_sha w) p)) p i)))"

definition opt_json :: "string option \<Rightarrow> json" where
  "opt_json v = (case v of None \<Rightarrow> JNull | Some s \<Rightarrow> JStr s)"

definition deterministic_policy_signature ::
  "(string \<Rightarrow> string) \<Rightarrow> (string \<Rightarrow> string \<Rightarrow> string) \<Rightarrow> (string \<Rightarrow> string option) \<Rightarrow> policy_input \<Rightarrow> policy_outcome \<Rightarrow> string" where
  "deterministic_policy_signature sha hmac read_secret i r =
     (let text = dumps (JObj
            [(''action'', JStr (pi_action i)), (''origin_type'', opt_json (pi_origin_type i)), (''project_key'', opt_json (pi_project_key i)),
             (''resource'', opt_json (pi_resource i)), (''trust_label'', JStr (trust_value (pi_trust_label i))),
             (''mutation_class'', JStr (action_class_value (pi_mutation_class i))), (''principal'', opt_json (pi_principal i)),
             (''delegation_chain'', JList (map JStr (pi_delegation_chain i))), (''decision'', JStr (decision_value (pd_decision r))),
             (''reason'', JStr (pd_reason r))]);
          usable = (\<lambda>n. case read_secret n of Some s \<Rightarrow> if s = [] then None else Some s | None \<Rightarrow> None)
      in case (case usable ''HERMES_BRIDGE_POLICY_SECRET'' of Some s \<Rightarrow> Some s | None \<Rightarrow> usable ''HERMES_BRIDGE_HMAC_SECRET'') of
           None \<Rightarrow> ''unsigned:'' @ sha text
         | Some s \<Rightarrow> hmac s text)"

subsection \<open>Texts\<close>

lemma lstrip_lead: "lstrip s = [] \<or> lead_space (lstrip s) = 0"
proof (induction s rule: lstrip.induct)
  case (1 s)
  then show ?case by (cases "s = [] \<or> lead_space s = 0") (auto simp: lstrip.simps [of s])
qed

lemma rstrip_trail: "rstrip s = [] \<or> trail_space (rstrip s) = 0"
proof (induction s rule: rstrip.induct)
  case (1 s)
  then show ?case by (cases "s = [] \<or> trail_space s = 0") (auto simp: rstrip.simps [of s])
qed

lemma rstrip_take: "\<exists>n. rstrip s = take n s"
proof (induction s rule: rstrip.induct)
  case (1 s)
  show ?case
  proof (cases "s = [] \<or> trail_space s = 0")
    case True
    then have "rstrip s = take (length s) s" by (subst rstrip.simps) auto
    then show ?thesis ..
  next
    case False
    with 1 obtain n where "rstrip (take (length s - trail_space s) s) = take n (take (length s - trail_space s) s)" by blast
    with False show ?thesis by (subst rstrip.simps) auto
  qed
qed

lemma lead_space_take: "lead_space s = 0 \<Longrightarrow> lead_space (take n s) = 0"
proof -
  assume z: "lead_space s = 0"
  have "find (\<lambda>w. take (length w) s = w) space_texts = None"
  proof (rule ccontr)
    assume "find (\<lambda>w. take (length w) s = w) space_texts \<noteq> None"
    then obtain w where w: "find (\<lambda>w. take (length w) s = w) space_texts = Some w" by blast
    then have "w \<in> set space_texts" by (auto simp: find_Some_iff)
    with z w space_not_graphic [of w] show False by (simp add: lead_space_def)
  qed
  then have none: "\<forall>w \<in> set space_texts. take (length w) s \<noteq> w" by (auto simp: find_None_iff)
  have "take (length w) (take n s) \<noteq> w" if "w \<in> set space_texts" for w
  proof
    assume e: "take (length w) (take n s) = w"
    then have "length w \<le> n" by (metis length_take min.bounded_iff take_take nle_le)
    with e none that show False by (simp add: min_absorb1)
  qed
  then have "find (\<lambda>w. take (length w) (take n s) = w) space_texts = None" by (simp add: find_None_iff del: take_take)
  then show ?thesis by (simp add: lead_space_def del: take_take)
qed

lemma strip_idem [simp]: "strip (strip s) = strip s"
proof (cases "strip s = []")
  case False
  obtain n where n: "strip s = take n (lstrip s)" using rstrip_take by (auto simp: strip_def)
  with False lstrip_lead [of s] have "lead_space (strip s) = 0" by (auto intro: lead_space_take)
  moreover have "trail_space (strip s) = 0" using False rstrip_trail [of "lstrip s"] by (simp add: strip_def)
  ultimately show ?thesis using False by (simp add: strip_def [of "strip s"] lstrip.simps [of "strip s"] rstrip.simps [of "strip s"])
qed (simp add: strip_def lstrip.simps [of "[]"] rstrip.simps [of "[]"])

lemma lower_text_Nil [simp]: "lower_text s = [] \<longleftrightarrow> s = []"
  by (cases s) auto

lemma fold_text_simps [simp]: "fold_text (strip s) = fold_text s" "fold_text s = [] \<longleftrightarrow> strip s = []"
  by (simp_all add: fold_text_def)

subsection \<open>Documents are disjoint\<close>

lemma validated_disjoint: "validate_policy_document f doc = Inr p \<Longrightarrow> set (gp_read_only p) \<inter> set (gp_mutating p) = {}"
proof (cases doc)
  case (JObj d)
  assume v: "validate_policy_document f doc = Inr p"
  show ?thesis
  proof (cases "decision_of (upper_text (strip (doc_text f d ''unknown_action_decision'' ''DENY'')))")
    case (Some un)
    with v JObj show ?thesis by (auto simp: validate_policy_document_def bind_r_Inr_iff split: if_splits)
  qed (use v JObj in \<open>auto simp: validate_policy_document_def bind_r_Inr_iff\<close>)
qed (auto simp: validate_policy_document_def)

lemma builtin_disjoint: "set (gp_read_only BUILTIN_SAFE_POLICY) \<inter> set (gp_mutating BUILTIN_SAFE_POLICY) = {}"
  by (simp add: BUILTIN_SAFE_POLICY_def)

text \<open>The configured document of an environment: none configured, unusable, or read.\<close>

definition configured_document :: "policy_world \<Rightarrow> environ \<Rightarrow> json option option" where
  "configured_document w env =
     (case configured env ''BRIDGE_POLICY_JSON'' of
        Some t \<Rightarrow> Some (pw_loads w t)
      | None \<Rightarrow> map_option (\<lambda>path. case pw_file w path of File_json doc \<Rightarrow> Some doc | _ \<Rightarrow> None) (configured env ''BRIDGE_POLICY_PATH''))"

lemma load_policy_require:
  "lp_require (load_policy w env) = Inr p \<longleftrightarrow>
   (case configured_document w env of
      None \<Rightarrow> p = BUILTIN_SAFE_POLICY
    | Some None \<Rightarrow> False
    | Some (Some doc) \<Rightarrow> validate_policy_document (pw_str w) doc = Inr p)"
  by (auto simp: load_policy_def configured_document_def lp_require_def valid_policy_def invalid_policy_def from_document_def
      split: option.splits policy_file.splits sum.splits)

lemma unusable_document:
  assumes "\<And>p. \<not> (case c of None \<Rightarrow> p = BUILTIN_SAFE_POLICY | Some None \<Rightarrow> False | Some (Some doc) \<Rightarrow> v doc = Inr p)"
  shows "\<exists>d. c = Some d \<and> (d = None \<or> isl (v (the d)))"
proof (cases c)
  case (Some d)
  show ?thesis
  proof (cases d)
    case (Some doc)
    with assms \<open>c = Some d\<close> have "isl (v doc)" by (cases "v doc") auto
    with Some \<open>c = Some d\<close> show ?thesis by simp
  qed (simp add: Some)
qed (use assms [of BUILTIN_SAFE_POLICY] in simp)

subsection \<open>The decision\<close>

fun severity :: "decision_type \<Rightarrow> nat" where
  "severity D_ALLOW = 0"
| "severity D_REQUIRE_APPROVAL = 1"
| "severity D_DENY = 2"

lemma evaluate_active_decision:
  "pd_decision (evaluate_active src ph p i) =
     (let a = fold_text (pi_action i) in
      if a = [] \<or> a \<in> set (gp_deny p) then D_DENY
      else if a \<in> set (gp_require p) then D_REQUIRE_APPROVAL
      else if a \<notin> set (gp_read_only p) \<union> set (gp_mutating p) then gp_unknown p
      else if a \<notin> set (gp_read_only p) \<or> pi_mutation_class i \<noteq> CLASS_NONE \<or> pi_trust_label i = UNTRUSTED_CONTENT then D_REQUIRE_APPROVAL
      else D_ALLOW)"
  by (cases "pi_mutation_class i"; cases "pi_trust_label i")
    (auto simp: evaluate_active_def Let_def decided_def classify_action_def effective_class_def mutates_def trust_risk_def fold_text_def)

lemma active_allows:
  assumes "set (gp_read_only p) \<inter> set (gp_mutating p) = {}"
  shows "pd_decision (evaluate_active src ph p i) = D_ALLOW \<longleftrightarrow>
    fold_text (pi_action i) \<noteq> [] \<and> fold_text (pi_action i) \<notin> set (gp_deny p) \<union> set (gp_require p) \<union> set (gp_mutating p) \<and>
    (if fold_text (pi_action i) \<in> set (gp_read_only p)
     then pi_mutation_class i = CLASS_NONE \<and> pi_trust_label i \<noteq> UNTRUSTED_CONTENT else gp_unknown p = D_ALLOW)"
proof -
  define a where "a = fold_text (pi_action i)"
  have "a \<in> set (gp_read_only p) \<Longrightarrow> a \<notin> set (gp_mutating p)" using assms by blast
  then show ?thesis
    unfolding evaluate_active_decision Let_def a_def [symmetric] by (simp del: fold_text_simps)
qed

lemma severity_active:
  "severity (pd_decision (evaluate_active src ph p (i\<lparr>pi_mutation_class := CLASS_NONE, pi_trust_label := TRUSTED_POLICY\<rparr>)))
   \<le> severity (pd_decision (evaluate_active src' ph' p i))"
  by (simp add: evaluate_active_decision Let_def del: fold_text_simps)

text \<open>
  C36. Governance fails closed: whatever the environment, a configured document that cannot be read or is not a valid
  policy makes every evaluation raise, and no configuration means the built-in policy. Otherwise one policy decides, whose
  read-only and mutating actions are disjoint: an action is allowed only if it is listed read-only, not denied or referred,
  called without a mutation and not driven by untrusted content, or if it is not listed and the policy allows
  unlisted actions; declaring a mutation or a lesser trust never makes the decision weaker; and approval is
  asked for exactly when the decision says so.
\<close>

theorem governance_fail_closed:
  "case evaluate_policy w (load_policy w env) None i of
     Inl e \<Rightarrow> (\<exists>d. configured_document w env = Some d \<and> (d = None \<or> isl (validate_policy_document (pw_str w) (the d))))
   | Inr r \<Rightarrow>
       (\<exists>p. lp_policy (load_policy w env) = Some p \<and> set (gp_read_only p) \<inter> set (gp_mutating p) = {} \<and>
          (configured_document w env = None \<and> p = BUILTIN_SAFE_POLICY \<or>
           (\<exists>doc. configured_document w env = Some (Some doc) \<and> validate_policy_document (pw_str w) doc = Inr p)) \<and>
          (pd_decision r = D_ALLOW \<longleftrightarrow>
             fold_text (pi_action i) \<noteq> [] \<and> fold_text (pi_action i) \<notin> set (gp_deny p) \<union> set (gp_require p) \<union> set (gp_mutating p) \<and>
             (if fold_text (pi_action i) \<in> set (gp_read_only p)
              then pi_mutation_class i = CLASS_NONE \<and> pi_trust_label i \<noteq> UNTRUSTED_CONTENT else gp_unknown p = D_ALLOW)) \<and>
          severity (pd_decision (evaluate_active src ph p (i\<lparr>pi_mutation_class := CLASS_NONE, pi_trust_label := TRUSTED_POLICY\<rparr>)))
            \<le> severity (pd_decision r) \<and>
          (pd_approval_required r \<longleftrightarrow> pd_decision r = D_REQUIRE_APPROVAL))"
proof (cases "lp_require (load_policy w env)")
  case (Inl e)
  then have "\<And>p. lp_require (load_policy w env) \<noteq> Inr p" by simp
  then have "\<exists>d. configured_document w env = Some d \<and> (d = None \<or> isl (validate_policy_document (pw_str w) (the d)))"
    unfolding load_policy_require by (rule unusable_document)
  with Inl show ?thesis by (simp add: evaluate_policy_def)
next
  case (Inr p)
  let ?r = "evaluate_active (lp_source (load_policy w env)) (lp_policy_hash (load_policy w env)) p i"
  have p: "lp_policy (load_policy w env) = Some p" using Inr by (auto simp: lp_require_def split: option.splits if_splits)
  have c: "configured_document w env = None \<and> p = BUILTIN_SAFE_POLICY \<or>
      (\<exists>doc. configured_document w env = Some (Some doc) \<and> validate_policy_document (pw_str w) doc = Inr p)"
    using Inr unfolding load_policy_require by (auto split: option.splits)
  then have d: "set (gp_read_only p) \<inter> set (gp_mutating p) = {}" using validated_disjoint builtin_disjoint by blast
  have r: "pd_approval_required ?r \<longleftrightarrow> pd_decision ?r = D_REQUIRE_APPROVAL"
    by (simp add: evaluate_active_def decided_def Let_def)
  have e: "evaluate_policy w (load_policy w env) None i = Inr ?r" by (simp add: evaluate_policy_def Inr)
  show ?thesis unfolding e sum.case
    by (intro exI [of _ p] conjI p c d r active_allows [OF d] severity_active)
qed

subsection \<open>The built-in policy\<close>

lemmas literal_eval = fold_text_def less_eq_char_def graphic_def strip_graphic lower_text_kept

lemma string_list_kept: "list_all (\<lambda>s. s \<noteq> [] \<and> fold_text s = s) xs \<Longrightarrow> string_list f (JList (map JStr xs)) = Inr xs"
  by (induction xs) (auto simp: string_list_def string_item_def simp flip: fold_text_simps(2))

lemma builtin_normal:
  "list_all (\<lambda>s. s \<noteq> [] \<and> fold_text s = s) (gp_read_only BUILTIN_SAFE_POLICY)"
  "list_all (\<lambda>s. s \<noteq> [] \<and> fold_text s = s) (gp_mutating BUILTIN_SAFE_POLICY)"
  by (simp_all add: BUILTIN_SAFE_POLICY_def literal_eval del: lower_text.simps fold_text_simps)

lemma decision_of_value [simp]: "decision_of (upper_text (strip (decision_value d))) = Some d"
  by (cases d) (simp_all add: literal_eval decision_of_def upper_text_kept del: upper_text.simps)

text \<open>A normal policy is the validation of its own document; \<open>load_policy\<close> validates the built-in one.\<close>

lemma policy_json_normal:
  assumes "\<And>xs. xs \<in> {gp_read_only p, gp_mutating p, gp_deny p, gp_require p} \<Longrightarrow> list_all (\<lambda>s. s \<noteq> [] \<and> fold_text s = s) xs"
    and "gp_name p \<noteq> []" "gp_version p \<noteq> []" "set (gp_read_only p) \<inter> set (gp_mutating p) = {}"
    and "gp_read_only p \<noteq> []"
  shows "validate_policy_document f (policy_json p) = Inr p"
proof -
  have s: "string_list k (JList (map JStr xs)) = Inr xs" if "xs \<in> {gp_read_only p, gp_mutating p, gp_deny p, gp_require p}" for k xs
    using assms(1) [OF that] by (rule string_list_kept)
  have "decision_value (gp_unknown p) \<noteq> []" by (cases "gp_unknown p") auto
  then show ?thesis using assms(2-)
    by (simp add: validate_policy_document_def policy_json_def doc_get_def doc_text_def s)
qed

lemma builtin_valid: "validate_policy_document f (policy_json BUILTIN_SAFE_POLICY) = Inr BUILTIN_SAFE_POLICY"
proof (rule policy_json_normal)
  show "list_all (\<lambda>s. s \<noteq> [] \<and> fold_text s = s) xs" if "xs \<in> {gp_read_only BUILTIN_SAFE_POLICY, gp_mutating BUILTIN_SAFE_POLICY,
      gp_deny BUILTIN_SAFE_POLICY, gp_require BUILTIN_SAFE_POLICY}" for xs
  proof -
    have "gp_deny BUILTIN_SAFE_POLICY = []" "gp_require BUILTIN_SAFE_POLICY = []" by (simp_all add: BUILTIN_SAFE_POLICY_def)
    with that builtin_normal show ?thesis by auto
  qed
qed (simp_all add: builtin_disjoint, simp_all add: BUILTIN_SAFE_POLICY_def)

text \<open>
  What the comments leave open: the built-in policy runs a prompt without approval, and under a policy that allows
  unlisted actions an unlisted action is allowed whatever mutation the caller declares.
\<close>

lemma builtin_allows_submit:
  "pi_action i = ''hermes_submit'' \<Longrightarrow> pi_mutation_class i = CLASS_NONE \<Longrightarrow> pi_trust_label i \<noteq> UNTRUSTED_CONTENT \<Longrightarrow>
   pd_decision (evaluate_active src ph BUILTIN_SAFE_POLICY i) = D_ALLOW"
  by (simp add: evaluate_active_decision Let_def literal_eval BUILTIN_SAFE_POLICY_def del: lower_text.simps fold_text_simps)

lemma unlisted_mutation_allowed:
  assumes "gp_unknown p = D_ALLOW" "fold_text (pi_action i) \<noteq> []"
    and "fold_text (pi_action i) \<notin> set (gp_deny p) \<union> set (gp_require p) \<union> set (gp_read_only p) \<union> set (gp_mutating p)"
  shows "pd_decision (evaluate_active src ph p (i\<lparr>pi_mutation_class := CLASS_ADMIN, pi_trust_label := UNTRUSTED_CONTENT\<rparr>)) = D_ALLOW"
  using assms by (simp add: evaluate_active_decision Let_def del: fold_text_simps)

end
