(* ===== verification/Run_Tracker.thy ===== *)
theory Run_Tracker
  imports Locks Run_Registry Py_Text "HOL-Library.AList"
begin

section \<open>Run states, SQLite retries and recovery (resilience/events.py, retry.py, recovery.py)\<close>

text \<open>
  The tracker that decides whether an observed run event is news, the bounded retry of a contended database
  operation, and the report made of the state file after a restart. Metrics are left out.
\<close>

text \<open>\<open>s[:n]\<close> on a UTF-8 text\<close>

fun take_points :: "nat \<Rightarrow> string \<Rightarrow> string" where
  "take_points n [] = []"
| "take_points n (c # cs) =
     (if of_char c div (64 :: nat) = 2 then c # take_points n cs
      else case n of 0 \<Rightarrow> [] | Suc m \<Rightarrow> c # take_points m cs)"

subsection \<open>The tracker\<close>

definition RUN_ORDER :: "(string \<times> nat) list" where
  "RUN_ORDER = [(''unknown'', 0), (''queued'', 1), (''running'', 2), (''completed'', 3), (''failed'', 3), (''cancelled'', 3)]"

definition run_rank :: "string \<Rightarrow> nat" where
  "run_rank s = (case map_of RUN_ORDER s of None \<Rightarrow> 0 | Some n \<Rightarrow> n)"

definition TERMINAL_STATES :: "string list" where
  "TERMINAL_STATES = [''completed'', ''failed'', ''cancelled'']"

record run_state =
  rs_status :: string
  rs_sequence :: int
  rs_terminal_applied :: bool
  rs_duplicates :: nat
  rs_out_of_order :: nat
  rs_sources :: "string list"

definition run_state_new :: run_state where
  "run_state_new = \<lparr>rs_status = ''unknown'', rs_sequence = -1, rs_terminal_applied = False, rs_duplicates = 0,
     rs_out_of_order = 0, rs_sources = []\<rparr>"

datatype observe_reason = Duplicate | Terminal_lock | Out_of_order | Regression | Applied

record run_observation =
  ob_status :: string
  ob_sequence :: int
  ob_source :: string
  ob_applied :: bool
  ob_reason :: observe_reason

datatype tracker_error = TerminalStateError

type_synonym run_tracker = "(string \<times> run_state) list"

definition normal_status :: "string \<Rightarrow> string" where
  "normal_status txt =
     (let t = lower_text (strip (if txt = [] then ''unknown'' else txt))
      in if map_of RUN_ORDER t = None then ''unknown'' else t)"

definition origin_text :: "string \<Rightarrow> string" where
  "origin_text source = take_points 16 (lower_text (strip (if source = [] then ''unknown'' else source)))"

definition observed :: "run_state \<Rightarrow> string \<Rightarrow> observe_reason \<Rightarrow> run_observation" where
  "observed st origin rsn = \<lparr>ob_status = rs_status st, ob_sequence = rs_sequence st, ob_source = origin, ob_applied = (rsn = Applied), ob_reason = rsn\<rparr>"

text \<open>The body of \<open>observe\<close> on the state of one run.\<close>

definition observe_state :: "string \<Rightarrow> int option \<Rightarrow> string \<Rightarrow> run_state \<Rightarrow> run_state \<times> (tracker_error, run_observation) result" where
  "observe_state normalized sequence origin st0 =
     (let st = st0\<lparr>rs_sources := List.insert origin (rs_sources st0)\<rparr>;
          sq = (case sequence of None \<Rightarrow> rs_sequence st + 1 | Some n \<Rightarrow> n);
          duplicate = st\<lparr>rs_duplicates := rs_duplicates st + 1\<rparr>;
          late = st\<lparr>rs_out_of_order := rs_out_of_order st + 1\<rparr>
      in if rs_terminal_applied st then
           if normalized = rs_status st then (duplicate, Inr (observed duplicate origin Duplicate))
           else if normalized \<in> set TERMINAL_STATES then (st, Inl TerminalStateError)
           else (late, Inr (observed late origin Terminal_lock))
         else if sequence \<noteq> None \<and> sq \<le> rs_sequence st then
           if normalized = rs_status st then (duplicate, Inr (observed duplicate origin Duplicate))
           else (late, Inr (observed late origin Out_of_order))
         else if run_rank normalized < run_rank (rs_status st) then (late, Inr (observed late origin Regression))
         else if normalized = rs_status st \<and> normalized \<notin> set TERMINAL_STATES then
           let st' = duplicate\<lparr>rs_sequence := max (rs_sequence st) sq\<rparr> in (st', Inr (observed st' origin Duplicate))
         else
           let st' = st\<lparr>rs_status := normalized, rs_sequence := max (rs_sequence st) sq,
                        rs_terminal_applied := (normalized \<in> set TERMINAL_STATES)\<rparr>
           in (st', Inr (observed st' origin Applied)))"

definition run_state_of :: "run_tracker \<Rightarrow> string \<Rightarrow> run_state" where
  "run_state_of t k = (case map_of t k of None \<Rightarrow> run_state_new | Some st \<Rightarrow> st)"

definition tracker_observe ::
  "string \<Rightarrow> string \<Rightarrow> int option \<Rightarrow> string \<Rightarrow> run_tracker \<Rightarrow> run_tracker \<times> (tracker_error, run_observation) result" where
  "tracker_observe run_id txt sequence source t =
     (case observe_state (normal_status txt) sequence (origin_text source) (run_state_of t run_id) of
        (st, r) \<Rightarrow> (AList.update run_id st t, r))"

definition tracker_status :: "run_tracker \<Rightarrow> string \<Rightarrow> string" where
  "tracker_status t k = (case map_of t k of None \<Rightarrow> ''unknown'' | Some st \<Rightarrow> rs_status st)"

definition tracker_is_terminal :: "run_tracker \<Rightarrow> string \<Rightarrow> bool" where
  "tracker_is_terminal t k = (case map_of t k of None \<Rightarrow> False | Some st \<Rightarrow> rs_terminal_applied st)"

definition tracker_stats :: "run_tracker \<Rightarrow> string \<Rightarrow> string \<times> nat \<times> nat \<times> string list" where
  "tracker_stats t k =
     (case map_of t k of
        None \<Rightarrow> (''unknown'', 0, 0, [])
      | Some st \<Rightarrow> (rs_status st, rs_duplicates st, rs_out_of_order st, sort (rs_sources st)))"

definition tracker_forget :: "string \<Rightarrow> run_tracker \<Rightarrow> run_tracker" where
  "tracker_forget k t = AList.delete k t"

definition tracker_size :: "run_tracker \<Rightarrow> nat" where
  "tracker_size t = length t"

subsection \<open>The tracker as a machine\<close>

datatype tracker_op = Track_observe string string "int option" string | Track_forget string

fun track_step :: "run_tracker \<Rightarrow> tracker_op \<Rightarrow> run_tracker" where
  "track_step t (Track_observe k s n src) = fst (tracker_observe k s n src t)"
| "track_step t (Track_forget k) = tracker_forget k t"

text \<open>The statuses that are applied to a run over a sequence of calls.\<close>

fun applied_by :: "string \<Rightarrow> run_tracker \<Rightarrow> tracker_op \<Rightarrow> string list" where
  "applied_by k t (Track_observe j s n src) =
     (case snd (tracker_observe j s n src t) of Inr r \<Rightarrow> if j = k \<and> ob_applied r then [ob_status r] else [] | Inl e \<Rightarrow> [])"
| "applied_by k t (Track_forget j) = []"

fun applied_log :: "string \<Rightarrow> run_tracker \<Rightarrow> tracker_op list \<Rightarrow> string list" where
  "applied_log k t [] = []"
| "applied_log k t (x # xs) = applied_by k t x @ applied_log k (track_step t x) xs"

definition run_state_ok :: "run_state \<Rightarrow> bool" where
  "run_state_ok st \<longleftrightarrow>
     rs_status st \<in> fst ` set RUN_ORDER \<and> (rs_terminal_applied st \<longleftrightarrow> rs_status st \<in> set TERMINAL_STATES) \<and>
     -1 \<le> rs_sequence st \<and> distinct (rs_sources st)"

definition tracker_ok :: "run_tracker \<Rightarrow> bool" where
  "tracker_ok t \<longleftrightarrow> distinct (map fst t) \<and> (\<forall>k st. map_of t k = Some st \<longrightarrow> run_state_ok st)"

lemma rank_cases: "s \<in> fst ` set RUN_ORDER \<longleftrightarrow> s \<in> {''unknown'', ''queued'', ''running''} \<or> s \<in> set TERMINAL_STATES"
  by (auto simp: RUN_ORDER_def TERMINAL_STATES_def)

lemma rank_terminal: "s \<in> fst ` set RUN_ORDER \<Longrightarrow> s \<in> set TERMINAL_STATES \<longleftrightarrow> run_rank s = 3"
  unfolding rank_cases by (auto simp: RUN_ORDER_def TERMINAL_STATES_def run_rank_def)

lemma rank_values:
  "run_rank ''unknown'' = 0" "run_rank ''queued'' = 1" "run_rank ''running'' = 2"
  by (simp_all add: RUN_ORDER_def run_rank_def)

lemma rank_inj:
  assumes "s \<in> fst ` set RUN_ORDER" "t \<in> fst ` set RUN_ORDER" "run_rank s = run_rank t"
  shows "s = t \<or> run_rank t = 3"
proof (cases "t \<in> set TERMINAL_STATES \<or> s \<in> set TERMINAL_STATES")
  case False
  with assms(1,2) have "s \<in> {''unknown'', ''queued'', ''running''}" "t \<in> {''unknown'', ''queued'', ''running''}"
    by (simp_all only: rank_cases) blast+
  with assms(3) show ?thesis by (elim insertE emptyE) (simp_all only: rank_values, simp_all)
qed (use assms in \<open>metis rank_terminal\<close>)

lemma rank_le_3: "run_rank s \<le> 3"
  by (simp add: run_rank_def RUN_ORDER_def)

lemma normal_status_known [simp]: "normal_status s \<in> fst ` set RUN_ORDER"
proof (cases "map_of RUN_ORDER (lower_text (strip (if s = [] then ''unknown'' else s)))")
  case None
  then show ?thesis by (simp add: normal_status_def Let_def) (simp add: RUN_ORDER_def)
next
  case (Some n)
  then have "lower_text (strip (if s = [] then ''unknown'' else s)) \<in> fst ` set RUN_ORDER" by (metis map_of_SomeD fst_conv image_eqI)
  with Some show ?thesis by (simp add: normal_status_def Let_def)
qed

lemma run_state_new_ok [simp]: "run_state_ok run_state_new"
  by (simp add: run_state_ok_def run_state_new_def RUN_ORDER_def TERMINAL_STATES_def)

text \<open>One observation: what it applies outranks what was known, and nothing else changes the status.\<close>

lemma observe_state_ok:
  assumes "run_state_ok st" "n \<in> fst ` set RUN_ORDER"
  shows "run_state_ok (fst (observe_state n q src st))"
  using assms by (auto simp: observe_state_def run_state_ok_def Let_def split: if_splits)

lemma observe_state_applied:
  assumes "run_state_ok st" "n \<in> fst ` set RUN_ORDER" "snd (observe_state n q src st) = Inr r" "ob_applied r"
  shows "ob_status r = n \<and> rs_status (fst (observe_state n q src st)) = n \<and> run_rank (rs_status st) < run_rank n"
proof -
  have "ob_status r = n \<and> rs_status (fst (observe_state n q src st)) = n \<and> \<not> rs_terminal_applied st \<and>
      \<not> run_rank n < run_rank (rs_status st) \<and> \<not> (n = rs_status st \<and> n \<notin> set TERMINAL_STATES)"
    using assms(3,4) by (auto simp: observe_state_def observed_def Let_def split: if_splits)
  moreover from this assms(1) have "rs_status st \<notin> set TERMINAL_STATES" "rs_status st \<in> fst ` set RUN_ORDER"
    by (simp_all add: run_state_ok_def)
  moreover from this have "run_rank (rs_status st) \<noteq> 3" by (simp add: rank_terminal)
  ultimately show ?thesis using rank_inj [OF assms(2), of "rs_status st"] by (metis linorder_neqE_nat)
qed

lemma observe_state_kept:
  "rs_status (fst (observe_state n q src st)) = rs_status st \<or> (\<exists>r. snd (observe_state n q src st) = Inr r \<and> ob_applied r)"
  by (auto simp: observe_state_def observed_def Let_def)

lemma observe_state_sequence: "rs_sequence st \<le> rs_sequence (fst (observe_state n q src st))"
  by (auto simp: observe_state_def Let_def)

subsection \<open>Sequences of calls\<close>

lemma run_state_of_observe:
  "run_state_of (fst (tracker_observe j s n src t)) k =
     (if k = j then fst (observe_state (normal_status s) n (origin_text src) (run_state_of t k)) else run_state_of t k)"
  by (simp add: run_state_of_def tracker_observe_def update_conv split: prod.splits)

lemma snd_tracker_observe [simp]:
  "snd (tracker_observe j s n src t) = snd (observe_state (normal_status s) n (origin_text src) (run_state_of t j))"
  by (simp add: tracker_observe_def split: prod.splits)

lemma run_state_of_ok: "tracker_ok t \<Longrightarrow> run_state_ok (run_state_of t k)"
  by (auto simp: run_state_of_def tracker_ok_def split: option.splits)

lemma tracker_ok_update: "tracker_ok t \<Longrightarrow> run_state_ok st \<Longrightarrow> tracker_ok (AList.update k st t)"
  by (simp add: tracker_ok_def distinct_update update_conv)

lemma tracker_ok_delete: "tracker_ok t \<Longrightarrow> tracker_ok (AList.delete k t)"
  by (simp add: tracker_ok_def distinct_delete delete_conv)

interpretation trm: op_machine track_step tracker_ok
proof
  fix t x assume ok: "tracker_ok t"
  show "tracker_ok (track_step t x)"
  proof (cases x)
    case (Track_observe k s n src)
    have "run_state_ok (fst (observe_state (normal_status s) n (origin_text src) (run_state_of t k)))"
      using ok by (intro observe_state_ok run_state_of_ok) auto
    then have "tracker_ok (AList.update k (fst (observe_state (normal_status s) n (origin_text src) (run_state_of t k))) t)"
      using ok by (rule tracker_ok_update [rotated])
    then show ?thesis by (simp add: Track_observe tracker_observe_def case_prod_unfold)
  qed (use ok in \<open>simp add: tracker_forget_def tracker_ok_delete\<close>)
qed

lemma tracker_status_eq: "tracker_status t k = rs_status (run_state_of t k)"
  by (simp add: tracker_status_def run_state_of_def run_state_new_def split: option.splits)

lemma tracker_terminal_eq: "tracker_ok t \<Longrightarrow> tracker_is_terminal t k \<longleftrightarrow> tracker_status t k \<in> set TERMINAL_STATES"
  by (auto simp: tracker_status_def tracker_is_terminal_def tracker_ok_def run_state_ok_def TERMINAL_STATES_def split: option.splits)

text \<open>One call, unless it forgets the run: it applies nothing and keeps the status, or applies a status of a higher rank.\<close>

lemma track_step_cases:
  assumes "tracker_ok t" "x \<noteq> Track_forget k"
  obtains (kept) "applied_by k t x = []" "tracker_status (track_step t x) k = tracker_status t k"
    | (applied) s where "applied_by k t x = [s]" "tracker_status (track_step t x) k = s" "run_rank (tracker_status t k) < run_rank s"
proof (cases x)
  case (Track_observe j s n src)
  let ?o = "observe_state (normal_status s) n (origin_text src) (run_state_of t j)"
  note ok = run_state_of_ok [OF assms(1), of j]
  show thesis
  proof (cases "j = k \<and> (\<exists>r. snd ?o = Inr r \<and> ob_applied r)")
    case True
    then obtain r where r: "j = k" "snd ?o = Inr r" "ob_applied r" by blast
    from observe_state_applied [OF ok _ r(2,3)] r show thesis
      by (intro applied [of "normal_status s"]) (auto simp: Track_observe tracker_status_eq run_state_of_observe)
  next
    case False
    then have "applied_by k t x = []" by (auto simp: Track_observe split: sum.splits)
    moreover have "tracker_status (track_step t x) k = tracker_status t k"
      using False observe_state_kept [of "normal_status s" n "origin_text src" "run_state_of t j"]
      by (auto simp: Track_observe tracker_status_eq run_state_of_observe)
    ultimately show thesis by (rule kept)
  qed
next
  case (Track_forget j)
  with assms(2) show thesis
    by (intro kept) (simp_all add: tracker_forget_def tracker_status_def delete_conv)
qed

lemma track_step_sequence: "x \<noteq> Track_forget k \<Longrightarrow> rs_sequence (run_state_of t k) \<le> rs_sequence (run_state_of (track_step t x) k)"
proof (cases x)
  case (Track_observe j s n src)
  then show ?thesis by (simp add: run_state_of_observe observe_state_sequence)
qed (auto simp: tracker_forget_def run_state_of_def delete_conv)

lemma applied_log_rising:
  assumes "tracker_ok t" "\<forall>x \<in> set xs. x \<noteq> Track_forget k"
  shows "sorted_wrt (<) (run_rank (tracker_status t k) # map run_rank (applied_log k t xs)) \<and>
    tracker_status (run_ops track_step t xs) k = last (tracker_status t k # applied_log k t xs) \<and>
    rs_sequence (run_state_of t k) \<le> rs_sequence (run_state_of (run_ops track_step t xs) k)"
  using assms
proof (induction xs arbitrary: t)
  case (Cons x xs)
  then have x: "x \<noteq> Track_forget k" by simp
  note IH = Cons.IH [OF trm.step_inv [OF Cons.prems(1)], of x]
  have "rs_sequence (run_state_of t k) \<le> rs_sequence (run_state_of (track_step t x) k)" using x by (rule track_step_sequence)
  with Cons.prems IH show ?case
    by (cases rule: track_step_cases [OF Cons.prems(1) x]) force+
qed simp

lemma rising_length: "sorted_wrt (<) (a # ns) \<Longrightarrow> \<forall>n \<in> set ns. n \<le> b \<Longrightarrow> a + length ns \<le> b \<or> ns = []" for a b :: nat
proof (induction ns arbitrary: a)
  case (Cons n ns)
  then have "n + length ns \<le> b \<or> ns = []" by simp
  with Cons.prems show ?case by auto
qed simp

lemma rising_butlast: "sorted_wrt (<) ns \<Longrightarrow> n \<in> set (butlast ns) \<Longrightarrow> n < last ns" for n :: nat
proof (induction ns)
  case (Cons m ns)
  then show ?case by (cases "ns = []") auto
qed simp

lemma terminal_rank: "s \<in> set TERMINAL_STATES \<Longrightarrow> run_rank s = 3"
  using rank_terminal [of s] rank_cases [of s] by simp

text \<open>
  C39. Whatever was observed before, over any calls that do not forget a run: the statuses applied to it rise strictly, so
  at most three are applied; a terminal status is the last one, so it is applied once and never undone, by
  whichever of the event stream and polling it comes; the status reported at the end is the last one applied; and
  the sequence number never falls.
\<close>

theorem run_tracker_rising:
  fixes k :: string and xs before :: "tracker_op list"
  assumes "\<forall>x \<in> set xs. x \<noteq> Track_forget k"
  defines "t \<equiv> run_ops track_step [] before"
  shows "sorted_wrt (<) (map run_rank (tracker_status t k # applied_log k t xs)) \<and>
    length (applied_log k t xs) \<le> 3 \<and>
    (\<forall>s \<in> set (butlast (tracker_status t k # applied_log k t xs)). s \<notin> set TERMINAL_STATES) \<and>
    tracker_status (run_ops track_step t xs) k = last (tracker_status t k # applied_log k t xs) \<and>
    (tracker_is_terminal (run_ops track_step t xs) k \<longleftrightarrow> tracker_status (run_ops track_step t xs) k \<in> set TERMINAL_STATES) \<and>
    rs_sequence (run_state_of t k) \<le> rs_sequence (run_state_of (run_ops track_step t xs) k)"
proof -
  have ok: "tracker_ok t" unfolding t_def by (rule trm.run_inv) (simp add: tracker_ok_def)
  note rise = applied_log_rising [OF ok assms(1)]
  let ?l = "tracker_status t k # applied_log k t xs"
  have "run_rank (tracker_status t k) + length (map run_rank (applied_log k t xs)) \<le> 3 \<or> map run_rank (applied_log k t xs) = []"
    using rise by (intro rising_length) (auto simp: rank_le_3)
  then have "length (applied_log k t xs) \<le> 3" by auto
  moreover have "s \<notin> set TERMINAL_STATES" if "s \<in> set (butlast ?l)" for s
  proof
    assume "s \<in> set TERMINAL_STATES"
    moreover have "run_rank s < last (map run_rank ?l)"
      using rise that by (intro rising_butlast) (auto simp flip: map_butlast)
    moreover have "last (map run_rank ?l) \<le> 3" by (simp add: last_map rank_le_3 del: list.map)
    ultimately show False by (simp add: terminal_rank)
  qed
  ultimately show ?thesis
    using rise tracker_terminal_eq [OF trm.run_inv [OF ok], of xs k] by simp
qed

lemma status_literals: "normal_status ''queued'' = ''queued''" "normal_status ''completed'' = ''completed''" "normal_status ''running'' = ''running''"
  by (simp_all add: normal_status_def RUN_ORDER_def less_eq_char_def graphic_def strip_graphic lower_text_kept del: lower_text.simps)

theorem run_tracker_rising_witness:
  "let t = run_ops track_step [] [Track_observe ''r1'' ''queued'' (Some 4) ''sse''];
       xs = [Track_observe ''r1'' ''completed'' (Some 9) ''sse'', Track_observe ''r1'' ''running'' None ''poll'']
   in applied_log ''r1'' t xs = [''completed''] \<and> length (applied_log ''r1'' t xs) \<le> 3 \<and>
      tracker_status (run_ops track_step t xs) ''r1'' = ''completed''"
proof -
  let ?t = "run_ops track_step [] [Track_observe ''r1'' ''queued'' (Some 4) ''sse'']"
  let ?xs = "[Track_observe ''r1'' ''completed'' (Some 9) ''sse'', Track_observe ''r1'' ''running'' None ''poll'']"
  have "applied_log ''r1'' ?t ?xs = [''completed'']"
    by (simp add: run_state_of_observe run_state_of_def [of "[]"] run_state_new_def status_literals observe_state_def observed_def
        TERMINAL_STATES_def run_rank_def RUN_ORDER_def)
  with run_tracker_rising [of ?xs "''r1''" "[Track_observe ''r1'' ''queued'' (Some 4) ''sse'']"] show ?thesis
    by (simp del: applied_log.simps run_ops_Cons)
qed

subsection \<open>Recovery after a restart\<close>

definition state_fingerprint :: "(string \<Rightarrow> string) \<Rightarrow> string \<Rightarrow> string" where
  "state_fingerprint sha v = (if v = [] then ''none'' else take 12 (sha v))"

definition NON_TERMINAL_STATUSES :: "string list" where
  "NON_TERMINAL_STATUSES = [''queued'', ''running'', ''unknown'']"

record recovery_report =
  rp_schema_version :: int
  rp_recoverable_runs :: nat
  rp_terminal_runs :: nat
  rp_locks_reaped :: nat
  rp_inflight_cleared :: nat
  rp_runs :: "(string \<times> string \<times> string) list"

text \<open>The state file: a table that does not exist is \<open>None\<close>. The gauges are those of the metrics registry.\<close>

record state_file =
  sf_migrations :: "int list option"
  sf_runs :: "run_row table option"
  sf_locks :: "resource_lock table option"

definition recovered_status :: "run_row \<Rightarrow> string" where
  "recovered_status r = lower_text (if last_status r = [] then ''unknown'' else last_status r)"

fun report_runs :: "(string \<Rightarrow> string) \<Rightarrow> run_row list \<Rightarrow> recovery_report \<Rightarrow> recovery_report" where
  "report_runs sha [] rep = rep"
| "report_runs sha (r # rs) rep =
     report_runs sha rs
       (if recovered_status r \<in> set NON_TERMINAL_STATUSES
        then rep\<lparr>rp_recoverable_runs := rp_recoverable_runs rep + 1,
                 rp_runs := rp_runs rep @ [(state_fingerprint sha (client_request_id r), state_fingerprint sha (run_execution_id r), recovered_status r)]\<rparr>
        else rep\<lparr>rp_terminal_runs := rp_terminal_runs rep + 1\<rparr>)"

definition reset_inflight_gauges :: "(string \<times> real) list \<Rightarrow> (string \<times> real) list \<times> nat" where
  "reset_inflight_gauges gauges = (map (\<lambda>(k, v). (k, 0)) gauges, length (filter (\<lambda>(k, v). v \<noteq> 0) gauges))"

definition recover_state ::
  "(string \<Rightarrow> string) \<Rightarrow> utc \<Rightarrow> bool \<Rightarrow> int \<Rightarrow> (string \<times> real) list \<Rightarrow> state_file
    \<Rightarrow> state_file \<times> (string \<times> real) list \<times> recovery_report" where
  "recover_state sha now reap limit gauges f =
     (let bounded = max 1 (min 5000 limit);
          version = (case sf_migrations f of None \<Rightarrow> 0 | Some [] \<Rightarrow> 0 | Some (v # vs) \<Rightarrow> Max (set (v # vs)));
          rows = (case sf_runs f of None \<Rightarrow> [] | Some t \<Rightarrow> take (nat bounded) (sort_key (\<lambda>r. - updated_at r) t));
          rep = report_runs sha rows \<lparr>rp_schema_version = version, rp_recoverable_runs = 0, rp_terminal_runs = 0, rp_locks_reaped = 0,
                  rp_inflight_cleared = 0, rp_runs = []\<rparr>;
          (f', reaped) = (case sf_locks f of
              Some t \<Rightarrow> if reap then (f\<lparr>sf_locks := Some (tbl_update (lapsed now) (\<lambda>r. r\<lparr>status := LOCK_EXPIRED\<rparr>) t)\<rparr>,
                          length (tbl_select (lapsed now) t)) else (f, 0)
            | None \<Rightarrow> (f, 0));
          (gauges', cleared) = reset_inflight_gauges gauges
      in (f', gauges', rep\<lparr>rp_locks_reaped := reaped, rp_inflight_cleared := cleared\<rparr>))"

definition lookup_execution :: "state_file \<Rightarrow> string \<Rightarrow> (string \<times> string \<times> string) option" where
  "lookup_execution f k =
     (case sf_runs f of
        None \<Rightarrow> None
      | Some t \<Rightarrow> map_option (\<lambda>r. (run_execution_id r, (case session_id r of None \<Rightarrow> [] | Some s \<Rightarrow> s), last_status r)) (tbl_get client_request_id k t))"

lemma report_runs_eq:
  "report_runs sha rs rep =
     rep\<lparr>rp_recoverable_runs := rp_recoverable_runs rep + length (filter (\<lambda>r. recovered_status r \<in> set NON_TERMINAL_STATUSES) rs),
         rp_terminal_runs := rp_terminal_runs rep + length (filter (\<lambda>r. recovered_status r \<notin> set NON_TERMINAL_STATUSES) rs),
         rp_runs := rp_runs rep @ map (\<lambda>r. (state_fingerprint sha (client_request_id r), state_fingerprint sha (run_execution_id r), recovered_status r))
           (filter (\<lambda>r. recovered_status r \<in> set NON_TERMINAL_STATUSES) rs)\<rparr>"
  by (induction rs arbitrary: rep) simp_all

text \<open>
  Recovery keeps the runs, so that a run is found again under its request id; afterwards no lock is both active
  and lapsed, a lock that had not lapsed is unchanged, and every examined run is counted once.
\<close>

lemma recover_state_exact:
  assumes "recover_state sha now True limit gauges f = (f', gauges', rep)" "sf_locks f = Some locks" "sf_runs f = Some runs"
  shows "sf_runs f' = sf_runs f" "lookup_execution f' k = lookup_execution f k"
    "\<exists>locks'. sf_locks f' = Some locks' \<and> list_all (\<lambda>r. \<not> lapsed now r) locks' \<and>
       list_all2 (\<lambda>r r'. if lapsed now r then r' = r\<lparr>status := LOCK_EXPIRED\<rparr> else r' = r) locks locks'"
    "rp_recoverable_runs rep + rp_terminal_runs rep = min (nat (max 1 (min 5000 limit))) (length runs)"
    "length (rp_runs rep) = rp_recoverable_runs rep" "\<forall>(g, v) \<in> set gauges'. v = 0"
proof -
  have f': "f' = f\<lparr>sf_locks := Some (tbl_update (lapsed now) (\<lambda>r. r\<lparr>status := LOCK_EXPIRED\<rparr>) locks)\<rparr>"
    and g: "gauges' = fst (reset_inflight_gauges gauges)"
    using assms by (auto simp: recover_state_def Let_def split: prod.splits)
  show "sf_runs f' = sf_runs f" "lookup_execution f' k = lookup_execution f k" by (simp_all add: f' lookup_execution_def)
  have "list_all (\<lambda>r. \<not> lapsed now r) (tbl_update (lapsed now) (\<lambda>r. r\<lparr>status := LOCK_EXPIRED\<rparr>) locks)"
    by (induction locks) (simp_all add: lapsed_def)
  moreover have "list_all2 (\<lambda>r r'. if lapsed now r then r' = r\<lparr>status := LOCK_EXPIRED\<rparr> else r' = r) locks
      (tbl_update (lapsed now) (\<lambda>r. r\<lparr>status := LOCK_EXPIRED\<rparr>) locks)"
    by (induction locks) simp_all
  ultimately show "\<exists>locks'. sf_locks f' = Some locks' \<and> list_all (\<lambda>r. \<not> lapsed now r) locks' \<and>
       list_all2 (\<lambda>r r'. if lapsed now r then r' = r\<lparr>status := LOCK_EXPIRED\<rparr> else r' = r) locks locks'"
    by (simp add: f')
  let ?rows = "take (nat (max 1 (min 5000 limit))) (sort_key (\<lambda>r. - updated_at r) runs)"
  have rep: "rp_recoverable_runs rep = length (filter (\<lambda>r. recovered_status r \<in> set NON_TERMINAL_STATUSES) ?rows)"
      "rp_terminal_runs rep = length (filter (\<lambda>r. recovered_status r \<notin> set NON_TERMINAL_STATUSES) ?rows)"
      "length (rp_runs rep) = length (filter (\<lambda>r. recovered_status r \<in> set NON_TERMINAL_STATUSES) ?rows)"
    using assms by (auto simp: recover_state_def Let_def report_runs_eq split: prod.splits)
  have "rp_recoverable_runs rep + rp_terminal_runs rep = length ?rows"
    unfolding rep by (rule sum_length_filter_compl)
  then show "rp_recoverable_runs rep + rp_terminal_runs rep = min (nat (max 1 (min 5000 limit))) (length runs)"
    by (simp add: min.commute)
  show "length (rp_runs rep) = rp_recoverable_runs rep" by (simp only: rep)
  show "\<forall>(g, v) \<in> set gauges'. v = 0" by (auto simp: g reset_inflight_gauges_def)
qed

text \<open>A run that waits for an approval, which the client counts as not terminal, is reported terminal after a restart.\<close>

lemma waiting_run_reported_terminal:
  "last_status r = ''waiting_for_approval'' \<Longrightarrow> recovered_status r \<notin> set NON_TERMINAL_STATUSES"
  by (simp add: recovered_status_def NON_TERMINAL_STATUSES_def less_eq_char_def lower_text_kept del: lower_text.simps)

end
