(* ===== verification/Upstream_Http.thy ===== *)
theory Upstream_Http
  imports Circuit Json Run_Tracker
begin

section \<open>Requests to the Hermes service (resilience/backoff.py, http_retry.py, http_circuit.py, client.py)\<close>

text \<open>
  The request path of the client: which requests may be repeated, how long to wait before repeating one, and the
  circuit breaker of a class of requests. A call runs alone: between its awaits no other call moves its breaker. The
  network is a function from the requests sent so far to the answer to the last one, so that any behaviour of the
  service is covered. Floating point results are the exact ones put through \<open>fl\<close>, of which nothing is assumed.
  Metrics and logs are left out.
\<close>

subsection \<open>Back-off\<close>

record backoff_policy =
  bo_base_seconds :: real
  bo_multiplier :: real
  bo_max_seconds :: real
  bo_max_attempts :: int
  bo_jitter_ratio :: real

datatype api_error =
  Api_timed_out | Api_unreachable | Api_circuit_open | Api_retry_exhausted
| Api_http int string | Api_non_json | Api_non_object | Api_invalid_identifier string | Api_empty_prompt | Api_long_prompt
| Api_agent_too_long | Api_too_many_subagents | Api_subagent_too_long | Api_wait_not_finite | Api_no_session_id
| Api_session_rejected | Api_session_not_found string | Api_invalid_history

text \<open>The exceptions: \<open>HermesAPIError\<close>, the built-in ones, a cancellation, and whatever else the transport lets through.\<close>

datatype client_error = HermesAPIError api_error | Py_ValueError | Py_TypeError | Py_OverflowError | Py_CancelledError | Transport_other

definition MAX_SLEEP_SECONDS :: real where "MAX_SLEEP_SECONDS = 300"

definition MAX_RETRY_AFTER_SECONDS :: real where "MAX_RETRY_AFTER_SECONDS = 300"

definition backoff_policy_new :: "backoff_policy \<Rightarrow> (client_error, backoff_policy) result" where
  "backoff_policy_new p =
     (if bo_base_seconds p \<le> 0 then Inl Py_ValueError
      else if bo_multiplier p < 1 then Inl Py_ValueError
      else if bo_max_seconds p \<le> 0 \<or> bo_max_seconds p > MAX_SLEEP_SECONDS then Inl Py_ValueError
      else if bo_max_attempts p < 1 \<or> bo_max_attempts p > 20 then Inl Py_ValueError
      else if \<not> (0 \<le> bo_jitter_ratio p \<and> bo_jitter_ratio p \<le> 1) then Inl Py_ValueError
      else Inr p)"

definition base_delay :: "(real \<Rightarrow> real) \<Rightarrow> backoff_policy \<Rightarrow> int \<Rightarrow> (client_error, real) result" where
  "base_delay fl p attempt =
     (if attempt < 1 then Inl Py_ValueError
      else Inr (min (min (fl (bo_base_seconds p * fl (bo_multiplier p ^ nat (attempt - 1)))) (bo_max_seconds p)) MAX_SLEEP_SECONDS))"

definition delay :: "(real \<Rightarrow> real) \<Rightarrow> backoff_policy \<Rightarrow> int \<Rightarrow> real option \<Rightarrow> real option \<Rightarrow> (client_error, real) result" where
  "delay fl p attempt draw retry_after =
     bind_r (base_delay fl p attempt) (\<lambda>b0.
       let b1 = (case draw of Some u \<Rightarrow> if bo_jitter_ratio p \<noteq> 0 then fl (b0 - fl (fl (b0 * bo_jitter_ratio p) * u)) else b0 | None \<Rightarrow> b0);
           b2 = max 0 b1;
           b3 = (case retry_after of Some r \<Rightarrow> if r \<ge> 0 then max b2 (min r MAX_RETRY_AFTER_SECONDS) else b2 | None \<Rightarrow> b2)
       in Inr (min b3 MAX_SLEEP_SECONDS))"

definition schedule :: "(real \<Rightarrow> real) \<Rightarrow> backoff_policy \<Rightarrow> (int \<Rightarrow> real option) \<Rightarrow> (client_error, real list) result" where
  "schedule fl p draws = traverse (\<lambda>i. delay fl p i (draws i) None) [1..bo_max_attempts p]"

text \<open>\<open>float(int(text))\<close>: the largest integers have no floating point value.\<close>

definition float_of_int :: "(real \<Rightarrow> real) \<Rightarrow> int \<Rightarrow> (client_error, real) result" where
  "float_of_int fl n = (if \<bar>n\<bar> \<ge> 2 ^ 1024 - 2 ^ 970 then Inl Py_OverflowError else Inr (fl (of_int n)))"

text \<open>
  The rest of the world: \<open>int(text)\<close> and \<open>parsedate_to_datetime\<close> (a date without zone is read as UTC), the wall clock,
  the breakers' clock, the random draws and the network.
\<close>

record http_request =
  rq_method :: string
  rq_path :: string
  rq_json :: "json option"

record http_response =
  hr_status_code :: int
  hr_json :: "json option"
  hr_reason_phrase :: string
  hr_retry_after :: "string option"

text \<open>A request is answered, fails, or the task is cancelled while it waits for the answer.\<close>

datatype http_answer = Answer http_response | Answer_timeout | Answer_request_error | Answer_cancelled | Answer_other

record http_world =
  hw_fl :: "real \<Rightarrow> real"
  hw_int :: "string \<Rightarrow> int option"
  hw_date :: "string \<Rightarrow> utc option"
  hw_now :: utc
  hw_clock :: "nat \<Rightarrow> real"
  hw_draws :: "(nat \<Rightarrow> real) option"
  hw_net :: "http_request list \<Rightarrow> http_answer"

definition parse_retry_after :: "http_world \<Rightarrow> string option \<Rightarrow> (client_error, real option) result" where
  "parse_retry_after w v =
     (case v of
        None \<Rightarrow> Inr None
      | Some raw \<Rightarrow>
          let text = strip raw
          in if text = [] then Inr None
             else bind_r (case hw_int w text of
                    Some n \<Rightarrow> bind_r (float_of_int (hw_fl w) n) (\<lambda>r. Inr (Some r))
                  | None \<Rightarrow> Inr (map_option (\<lambda>t. hw_fl w (of_int (t - hw_now w) / 1000000)) (hw_date w text)))
               (\<lambda>sec. Inr (case sec of
                  None \<Rightarrow> None
                | Some s \<Rightarrow> if s < 0 \<or> s > MAX_RETRY_AFTER_SECONDS then None else Some s)))"

subsection \<open>What may be repeated\<close>

definition run_status_path :: "string \<Rightarrow> bool" where
  "run_status_path p \<longleftrightarrow> take 9 p = ''/v1/runs/'' \<and> re_ident ''._:-'' 127 (drop 9 p)"

definition session_messages_path :: "string \<Rightarrow> bool" where
  "session_messages_path p \<longleftrightarrow>
     take 14 p = ''/api/sessions/'' \<and> drop (length p - 9) p = ''/messages'' \<and> re_ident ''._:-'' 127 (drop 14 (take (length p - 9) p))"

datatype retry_target = Target_health | Target_runs | Target_sessions

fun endpoint_class :: "retry_target \<Rightarrow> string" where
  "endpoint_class Target_health = ''health''"
| "endpoint_class Target_runs = ''runs''"
| "endpoint_class Target_sessions = ''sessions''"

definition classify_retry_target :: "string \<Rightarrow> string \<Rightarrow> retry_target option" where
  "classify_retry_target method path =
     (if upper_text method \<noteq> ''GET'' then None
      else let p = takeWhile (\<lambda>c. c \<noteq> CHR ''?'') path
        in if p = ''/health'' \<or> p = ''/health/detailed'' then Some Target_health
           else if run_status_path p then Some Target_runs
           else if session_messages_path p then Some Target_sessions
           else None)"

definition is_transient_status :: "int \<Rightarrow> bool" where
  "is_transient_status c \<longleftrightarrow> c \<in> {429, 500, 502, 503, 504}"

record client_settings =
  st_model :: string
  st_run_poll_interval_seconds :: real
  st_run_default_wait_seconds :: real
  st_run_max_wait_seconds :: real
  st_progress_interval_seconds :: real
  st_retry_enabled :: bool
  st_retry_max_attempts :: int
  st_retry_base_seconds :: real
  st_retry_max_seconds :: real
  st_retry_jitter_ratio :: real
  st_circuit_enabled :: bool
  st_circuit_config :: circuit_config

definition retry_policy_from_settings :: "client_settings \<Rightarrow> (client_error, bool \<times> backoff_policy) result" where
  "retry_policy_from_settings st =
     bind_r (backoff_policy_new \<lparr>bo_base_seconds = st_retry_base_seconds st, bo_multiplier = 2, bo_max_seconds = st_retry_max_seconds st,
               bo_max_attempts = st_retry_max_attempts st, bo_jitter_ratio = st_retry_jitter_ratio st\<rparr>)
       (\<lambda>b. Inr (st_retry_enabled st, b))"

definition retry_max_attempts :: "bool \<times> backoff_policy \<Rightarrow> int" where
  "retry_max_attempts pol = (if fst pol then bo_max_attempts (snd pol) else 1)"

definition circuit_policy_from_settings :: "client_settings \<Rightarrow> (client_error, bool \<times> circuit_config) result" where
  "circuit_policy_from_settings st =
     (case circuit_config_new (st_circuit_config st) of Inl e \<Rightarrow> Inl Py_ValueError | Inr c \<Rightarrow> Inr (st_circuit_enabled st, c))"

definition circuit_target :: "string \<Rightarrow> string \<Rightarrow> string option" where
  "circuit_target method path =
     (case classify_retry_target method path of
        None \<Rightarrow> None
      | Some t \<Rightarrow> if endpoint_class t \<in> {''health'', ''runs'', ''sessions''} then Some (endpoint_class t) else None)"

text \<open>A \<open>HermesAPIError\<close> counts against the breaker when its cause is an \<open>httpx.RequestError\<close>, timeouts included.\<close>

definition is_circuit_failure_error :: "api_error \<Rightarrow> bool" where
  "is_circuit_failure_error e \<longleftrightarrow> e \<in> {Api_timed_out, Api_unreachable}"

definition is_circuit_failure_response :: "http_response \<Rightarrow> bool" where
  "is_circuit_failure_response r \<longleftrightarrow> is_transient_status (hr_status_code r)"

subsection \<open>Sending\<close>

record client_state =
  cs_sent :: "http_request list"
  cs_breakers :: breaker_registry
  cs_ticks :: nat
  cs_drawn :: nat
  cs_slept :: "real list"

definition pause :: "http_world \<Rightarrow> backoff_policy \<Rightarrow> int \<Rightarrow> real option \<Rightarrow> client_state \<Rightarrow> client_state \<times> (client_error, unit) result" where
  "pause w p attempt retry_after s =
     (let draw = map_option (\<lambda>d. d (cs_drawn s)) (hw_draws w);
          s1 = (if draw \<noteq> None \<and> bo_jitter_ratio p \<noteq> 0 then s\<lparr>cs_drawn := cs_drawn s + 1\<rparr> else s)
      in case delay (hw_fl w) p attempt draw retry_after of
           Inl e \<Rightarrow> (s1, Inl e)
         | Inr d \<Rightarrow> (s1\<lparr>cs_slept := cs_slept s1 @ [d]\<rparr>, Inr ()))"

text \<open>The \<open>for\<close> loop of \<open>_send_with_retry\<close> over the attempts that are left.\<close>

fun attempt_loop ::
  "http_world \<Rightarrow> backoff_policy \<Rightarrow> bool \<Rightarrow> int \<Rightarrow> http_request \<Rightarrow> int list \<Rightarrow> client_state \<Rightarrow> client_state \<times> (client_error, http_response) result" where
  "attempt_loop w p safe attempts rq [] s = (s, Inl (HermesAPIError Api_retry_exhausted))"
| "attempt_loop w p safe attempts rq (a # as) s =
     (let s1 = s\<lparr>cs_sent := cs_sent s @ [rq]\<rparr>
      in case hw_net w (cs_sent s1) of
           Answer_other \<Rightarrow> (s1, Inl Transport_other)
         | Answer_cancelled \<Rightarrow> (s1, Inl Py_CancelledError)
         | Answer_timeout \<Rightarrow>
             if safe \<and> a < attempts then bind_s (pause w p a None s1) (\<lambda>s2 _. attempt_loop w p safe attempts rq as s2)
             else (s1, Inl (HermesAPIError Api_timed_out))
         | Answer_request_error \<Rightarrow>
             if safe \<and> a < attempts then bind_s (pause w p a None s1) (\<lambda>s2 _. attempt_loop w p safe attempts rq as s2)
             else (s1, Inl (HermesAPIError Api_unreachable))
         | Answer r \<Rightarrow>
             if safe \<and> a < attempts \<and> is_transient_status (hr_status_code r)
             then (case parse_retry_after w (hr_retry_after r) of
                     Inl e \<Rightarrow> (s1, Inl e)
                   | Inr ra \<Rightarrow> bind_s (pause w p a ra s1) (\<lambda>s2 _. attempt_loop w p safe attempts rq as s2))
             else (s1, Inr r))"

definition send_with_retry :: "http_world \<Rightarrow> client_settings \<Rightarrow> http_request \<Rightarrow> client_state \<Rightarrow> client_state \<times> (client_error, http_response) result" where
  "send_with_retry w st rq s =
     (let safe = classify_retry_target (rq_method rq) (rq_path rq) \<noteq> None
      in case retry_policy_from_settings st of
           Inl e \<Rightarrow> (s, Inl e)
         | Inr pol \<Rightarrow>
             let attempts = (if safe then retry_max_attempts pol else 1)
             in attempt_loop w (snd pol) safe attempts rq [1..attempts] s)"

definition tick :: "http_world \<Rightarrow> client_state \<Rightarrow> real" where
  "tick w s = hw_clock w (cs_ticks s)"

definition on_breaker :: "string \<Rightarrow> breaker \<Rightarrow> client_state \<Rightarrow> client_state" where
  "on_breaker key b s = s\<lparr>cs_breakers := AList.update key b (cs_breakers s), cs_ticks := cs_ticks s + 1\<rparr>"

definition breaker_of :: "string \<Rightarrow> circuit_config \<Rightarrow> client_state \<Rightarrow> breaker" where
  "breaker_of name c s = snd (get_breaker name (Some c) (cs_breakers s))"

definition send :: "http_world \<Rightarrow> client_settings \<Rightarrow> http_request \<Rightarrow> client_state \<Rightarrow> client_state \<times> (client_error, http_response) result" where
  "send w st rq s =
     (case circuit_policy_from_settings st of
        Inl e \<Rightarrow> (s, Inl e)
      | Inr (enabled, c) \<Rightarrow>
          case circuit_target (rq_method rq) (rq_path rq) of
            None \<Rightarrow> send_with_retry w st rq s
          | Some name \<Rightarrow>
              if \<not> enabled then send_with_retry w st rq s
              else let key = breaker_key name
                in case acquire (tick w s) (breaker_of name c s) of
                     (b, Inl e) \<Rightarrow> (on_breaker key b s, Inl (HermesAPIError Api_circuit_open))
                   | (b, Inr _) \<Rightarrow>
                       case send_with_retry w st rq (on_breaker key b s) of
                         (s1, Inl (HermesAPIError e)) \<Rightarrow>
                           (on_breaker key ((if is_circuit_failure_error e then record_failure else record_success) (tick w s1) (breaker_of name c s1)) s1,
                            Inl (HermesAPIError e))
                       | (s1, Inl e) \<Rightarrow> (s1, Inl e)
                       | (s1, Inr r) \<Rightarrow>
                           (on_breaker key ((if is_circuit_failure_response r then record_failure else record_success) (tick w s1) (breaker_of name c s1)) s1,
                            Inr r))"

subsection \<open>Delays are bounded\<close>

lemma delay_bounds: "delay fl p a u ra = Inr d \<Longrightarrow> 0 \<le> d \<and> d \<le> MAX_SLEEP_SECONDS"
  by (auto simp: delay_def bind_r_Inr_iff Let_def MAX_SLEEP_SECONDS_def MAX_RETRY_AFTER_SECONDS_def split: option.splits if_splits)

lemma delay_total: "1 \<le> a \<Longrightarrow> \<exists>d. delay fl p a u ra = Inr d"
  by (simp add: delay_def base_delay_def Let_def)

lemma backoff_policy_new_Inr:
  "backoff_policy_new p = Inr q \<Longrightarrow> q = p \<and> 1 \<le> bo_max_attempts p \<and> bo_max_attempts p \<le> 20"
  by (auto simp: backoff_policy_new_def split: if_splits)

lemma retry_policy_Inr:
  assumes "retry_policy_from_settings st = Inr pol"
  shows "1 \<le> retry_max_attempts pol" "retry_max_attempts pol \<le> 20"
    "retry_max_attempts pol = (if st_retry_enabled st then st_retry_max_attempts st else 1)"
  using assms by (auto simp: retry_policy_from_settings_def bind_r_Inr_iff retry_max_attempts_def dest!: backoff_policy_new_Inr)

text \<open>One pause.\<close>

lemma pause_spec:
  assumes "1 \<le> a"
  obtains d where "snd (pause w p a ra s) = Inr ()" "0 \<le> d" "d \<le> MAX_SLEEP_SECONDS"
    "cs_sent (fst (pause w p a ra s)) = cs_sent s" "cs_breakers (fst (pause w p a ra s)) = cs_breakers s"
    "cs_ticks (fst (pause w p a ra s)) = cs_ticks s" "cs_slept (fst (pause w p a ra s)) = cs_slept s @ [d]"
proof -
  obtain d where "delay (hw_fl w) p a (map_option (\<lambda>d. d (cs_drawn s)) (hw_draws w)) ra = Inr d" using delay_total [OF assms] by blast
  with that [of d] delay_bounds show thesis by (auto simp: pause_def Let_def)
qed

text \<open>How a call ends on the answer to its last request; reading the header of a transient answer may overflow.\<close>

fun ends_with :: "http_answer \<Rightarrow> (client_error, http_response) result \<Rightarrow> bool" where
  "ends_with (Answer r) x = (x = Inr r \<or> (is_transient_status (hr_status_code r) \<and> x = Inl Py_OverflowError))"
| "ends_with Answer_timeout x = (x = Inl (HermesAPIError Api_timed_out))"
| "ends_with Answer_request_error x = (x = Inl (HermesAPIError Api_unreachable))"
| "ends_with Answer_cancelled x = (x = Inl Py_CancelledError)"
| "ends_with Answer_other x = (x = Inl Transport_other)"

text \<open>What a loop over some attempts does to the requests, the pauses and the breakers.\<close>

definition attempts_made :: "http_world \<Rightarrow> http_request \<Rightarrow> nat \<Rightarrow> client_state \<Rightarrow> client_state \<times> (client_error, http_response) result \<Rightarrow> bool" where
  "attempts_made w rq m s out \<longleftrightarrow>
     (\<exists>n ds. cs_sent (fst out) = cs_sent s @ replicate (Suc n) rq \<and> Suc n \<le> m \<and> cs_slept (fst out) = cs_slept s @ ds \<and> length ds = n \<and>
        list_all (\<lambda>d. 0 \<le> d \<and> d \<le> MAX_SLEEP_SECONDS) ds) \<and>
     cs_breakers (fst out) = cs_breakers s \<and> cs_ticks (fst out) = cs_ticks s \<and>
     ends_with (hw_net w (cs_sent (fst out))) (snd out)"

lemma parse_retry_after_error: "parse_retry_after w v = Inl e \<Longrightarrow> e = Py_OverflowError"
  by (auto simp: parse_retry_after_def bind_r_Inl_iff float_of_int_def Let_def split: option.splits if_splits)

lemma attempts_made_again:
  assumes p: "pause w p a ra (s\<lparr>cs_sent := cs_sent s @ [rq]\<rparr>) = (s2, Inr u)" and a: "1 \<le> a" and m: "attempts_made w rq m s2 out"
  shows "attempts_made w rq (Suc m) s out"
proof -
  from pause_spec [OF a, of w p ra "s\<lparr>cs_sent := cs_sent s @ [rq]\<rparr>"] p obtain d where
    d: "0 \<le> d" "d \<le> MAX_SLEEP_SECONDS" "cs_sent s2 = cs_sent s @ [rq]" "cs_breakers s2 = cs_breakers s" "cs_ticks s2 = cs_ticks s"
      "cs_slept s2 = cs_slept s @ [d]" by auto
  from m obtain n ds where n: "cs_sent (fst out) = cs_sent s2 @ replicate (Suc n) rq" "Suc n \<le> m" "cs_slept (fst out) = cs_slept s2 @ ds"
      "length ds = n" "list_all (\<lambda>d. 0 \<le> d \<and> d \<le> MAX_SLEEP_SECONDS) ds" unfolding attempts_made_def by blast
  have "cs_sent (fst out) = cs_sent s @ replicate (Suc (Suc n)) rq" "Suc (Suc n) \<le> Suc m" "cs_slept (fst out) = cs_slept s @ (d # ds)"
      "length (d # ds) = Suc n" "list_all (\<lambda>d. 0 \<le> d \<and> d \<le> MAX_SLEEP_SECONDS) (d # ds)"
    using n d by simp_all
  with m d(4,5) show ?thesis unfolding attempts_made_def by metis
qed

lemma attempts_made_end:
  assumes "fst out = s\<lparr>cs_sent := cs_sent s @ [rq]\<rparr>" "m \<ge> 1"
    and "ends_with (hw_net w (cs_sent s @ [rq])) (snd out)"
  shows "attempts_made w rq m s out"
  unfolding attempts_made_def assms(1) using assms(2,3) by (auto intro!: exI [of _ "0::nat"])

lemma attempt_loop_spec:
  assumes "as = [k..N]" "1 \<le> k" "k \<le> N"
  shows "attempts_made w rq (length as) s (attempt_loop w p safe N rq as s)"
  using assms
proof (induction as arbitrary: k s)
  case (Cons a as)
  from Cons.prems have a: "a = k" "as = [k+1..N]" by (simp_all add: upto.simps [of k N])
  let ?s1 = "s\<lparr>cs_sent := cs_sent s @ [rq]\<rparr>"
  have again: "attempts_made w rq (length (a # as)) s (bind_s (pause w p a ra ?s1) (\<lambda>s2 _. attempt_loop w p safe N rq as s2))"
    if "a < N" for ra
  proof -
    have "1 \<le> a" using a Cons.prems by simp
    obtain s2 u where p: "pause w p a ra ?s1 = (s2, Inr u)" using pause_spec [OF \<open>1 \<le> a\<close>, of w p ra ?s1] by (metis prod.collapse)
    have "attempts_made w rq (length as) s2 (attempt_loop w p safe N rq as s2)"
      using Cons.IH [OF a(2)] that a Cons.prems by simp
    with p \<open>1 \<le> a\<close> show ?thesis by (simp add: attempts_made_again)
  qed
  show ?case
  proof (cases "hw_net w (cs_sent s @ [rq])")
    case (Answer r)
    show ?thesis
    proof (cases "safe \<and> a < N \<and> is_transient_status (hr_status_code r)")
      case True
      show ?thesis
      proof (cases "parse_retry_after w (hr_retry_after r)")
        case (Inl e)
        with True Answer parse_retry_after_error [OF Inl] show ?thesis by (intro attempts_made_end) auto
      next
        case (Inr ra)
        with True Answer again show ?thesis by simp
      qed
    qed (use Answer in \<open>auto intro!: attempts_made_end\<close>)
  next
    case Answer_timeout
    with again [of None] show ?thesis by (cases "safe \<and> a < N") (auto intro!: attempts_made_end)
  next
    case Answer_request_error
    with again [of None] show ?thesis by (cases "safe \<and> a < N") (auto intro!: attempts_made_end)
  next
    case Answer_cancelled
    then show ?thesis by (auto intro!: attempts_made_end)
  next
    case Answer_other
    then show ?thesis by (auto intro!: attempts_made_end)
  qed
qed (use upto_Nil in simp)

subsection \<open>A call of the client\<close>

definition allowed_attempts :: "client_settings \<Rightarrow> http_request \<Rightarrow> int" where
  "allowed_attempts st rq =
     (if classify_retry_target (rq_method rq) (rq_path rq) \<noteq> None \<and> st_retry_enabled st then st_retry_max_attempts st else 1)"

lemma send_with_retry_spec:
  assumes "retry_policy_from_settings st = Inr pol"
  shows "attempts_made w rq (nat (allowed_attempts st rq)) s (send_with_retry w st rq s)" "allowed_attempts st rq \<le> 20"
proof -
  let ?safe = "classify_retry_target (rq_method rq) (rq_path rq) \<noteq> None"
  let ?n = "if ?safe then retry_max_attempts pol else 1"
  have n: "1 \<le> ?n" "?n \<le> 20" "?n = allowed_attempts st rq" using retry_policy_Inr [OF assms] by (auto simp: allowed_attempts_def)
  have "attempts_made w rq (length [1..?n]) s (attempt_loop w (snd pol) ?safe ?n rq [1..?n] s)"
    using n by (intro attempt_loop_spec) auto
  then show "attempts_made w rq (nat (allowed_attempts st rq)) s (send_with_retry w st rq s)"
    using n(3) assms by (simp add: send_with_retry_def Let_def)
  show "allowed_attempts st rq \<le> 20" using n by simp
qed

lemma on_breaker_simps [simp]:
  "cs_sent (on_breaker k b s) = cs_sent s" "cs_slept (on_breaker k b s) = cs_slept s"
  "cs_breakers (on_breaker k b s) = AList.update k b (cs_breakers s)" "cs_ticks (on_breaker k b s) = Suc (cs_ticks s)"
  by (simp_all add: on_breaker_def)

text \<open>The requests and pauses of \<open>send\<close> are those of \<open>send_with_retry\<close>, unless the circuit refuses the call.\<close>

lemma send_cases:
  assumes "circuit_policy_from_settings st = Inr (enabled, c)"
  obtains (refused) name where "circuit_target (rq_method rq) (rq_path rq) = Some name" "enabled"
      "snd (send w st rq s) = Inl (HermesAPIError Api_circuit_open)" "cs_sent (fst (send w st rq s)) = cs_sent s" "cs_slept (fst (send w st rq s)) = cs_slept s"
    | (plain) "send w st rq s = send_with_retry w st rq s" "circuit_target (rq_method rq) (rq_path rq) = None \<or> \<not> enabled"
    | (guarded) name b where "circuit_target (rq_method rq) (rq_path rq) = Some name" "enabled"
      "acquire (tick w s) (breaker_of name c s) = (b, Inr ())"
      "snd (send w st rq s) = snd (send_with_retry w st rq (on_breaker (breaker_key name) b s))"
      "cs_sent (fst (send w st rq s)) = cs_sent (fst (send_with_retry w st rq (on_breaker (breaker_key name) b s)))"
      "cs_slept (fst (send w st rq s)) = cs_slept (fst (send_with_retry w st rq (on_breaker (breaker_key name) b s)))"
proof (cases "circuit_target (rq_method rq) (rq_path rq)")
  case None
  with assms plain show thesis by (simp add: send_def)
next
  case (Some name)
  show thesis
  proof (cases enabled)
    case False
    with assms Some plain show thesis by (simp add: send_def)
  next
    case True
    obtain b x where b: "acquire (tick w s) (breaker_of name c s) = (b, x)" by (cases "acquire (tick w s) (breaker_of name c s)")
    show thesis
    proof (cases x)
      case (Inl e)
      with assms Some True b show thesis by (intro refused) (simp_all add: send_def Let_def)
    next
      case (Inr u)
      obtain s1 y where y: "send_with_retry w st rq (on_breaker (breaker_key name) b s) = (s1, y)"
        by (cases "send_with_retry w st rq (on_breaker (breaker_key name) b s)")
      from assms Some True b Inr y show thesis
        by (intro guarded [of name b]) (simp_all add: send_def Let_def split: sum.splits client_error.splits)
    qed
  qed
qed


definition sample_settings :: client_settings where
  "sample_settings = \<lparr>st_model = ''hermes-agent'', st_run_poll_interval_seconds = 1, st_run_default_wait_seconds = 45,
     st_run_max_wait_seconds = 7200, st_progress_interval_seconds = 15, st_retry_enabled = True, st_retry_max_attempts = 3,
     st_retry_base_seconds = 1 / 2, st_retry_max_seconds = 10, st_retry_jitter_ratio = 1 / 10, st_circuit_enabled = False,
     st_circuit_config = circuit_config_default\<rparr>"

text \<open>A service that is unavailable once.\<close>

definition sample_world :: http_world where
  "sample_world = \<lparr>hw_fl = id, hw_int = (\<lambda>_. None), hw_date = (\<lambda>_. None), hw_now = 0, hw_clock = (\<lambda>n. real n), hw_draws = None,
     hw_net = (\<lambda>rqs. Answer \<lparr>hr_status_code = if length rqs = 1 then 503 else 200, hr_json = Some (JObj []), hr_reason_phrase = ''OK'',
       hr_retry_after = None\<rparr>)\<rparr>"

definition idle_client :: client_state where
  "idle_client = \<lparr>cs_sent = [], cs_breakers = [], cs_ticks = 0, cs_drawn = 0, cs_slept = []\<rparr>"

definition health_request :: http_request where
  "health_request = \<lparr>rq_method = ''GET'', rq_path = ''/health'', rq_json = None\<rparr>"

lemma sample_settings_valid:
  "\<exists>pol. retry_policy_from_settings sample_settings = Inr pol"
  "circuit_policy_from_settings sample_settings = Inr (False, circuit_config_default)"
  by (auto simp: retry_policy_from_settings_def backoff_policy_new_def sample_settings_def MAX_SLEEP_SECONDS_def circuit_policy_from_settings_def
      circuit_config_new_def circuit_config_default_def)


subsection \<open>Open and jammed circuits\<close>

lemma open_circuit_sends_nothing:
  assumes "circuit_policy_from_settings st = Inr (True, c)" "circuit_target (rq_method rq) (rq_path rq) = Some name"
    and "cb_state (breaker_of name c s) = OPEN"
    and "tick w s - cb_opened_at (breaker_of name c s) < recovery_seconds (cb_config (breaker_of name c s))"
  shows "snd (send w st rq s) = Inl (HermesAPIError Api_circuit_open) \<and> cs_sent (fst (send w st rq s)) = cs_sent s"
proof -
  obtain b e where "acquire (tick w s) (breaker_of name c s) = (b, Inl e)"
    using circuit_open_rejects(1) [OF assms(3,4)] by (metis prod.collapse)
  with assms(1,2) show ?thesis by (simp add: send_def Let_def)
qed

text \<open>
  A half-open breaker whose probes are all outstanding refuses every call, at any time. A call that ends in an exception
  other than \<open>HermesAPIError\<close> never settles its probe, so it jams the circuit until the process restarts.
\<close>

definition jammed :: "string \<Rightarrow> client_state \<Rightarrow> bool" where
  "jammed key s \<longleftrightarrow>
     (case map_of (cs_breakers s) key of
        None \<Rightarrow> False
      | Some b \<Rightarrow> cb_state b = HALF_OPEN \<and> cb_half_open_calls b \<ge> half_open_max_calls (cb_config b))"

lemma jammed_acquire:
  assumes "jammed (breaker_key name) s"
  shows "\<exists>b e. acquire t (breaker_of name c s) = (b, Inl e) \<and> cb_state b = HALF_OPEN \<and> cb_half_open_calls b \<ge> half_open_max_calls (cb_config b)"
  using assms by (auto simp: jammed_def breaker_of_def get_breaker_def Let_def acquire_def maybe_half_open_def split: option.splits)

lemma jammed_refuses:
  assumes "circuit_policy_from_settings st = Inr (True, c)" "circuit_target (rq_method rq) (rq_path rq) = Some name" "jammed (breaker_key name) s"
  shows "snd (send w st rq s) = Inl (HermesAPIError Api_circuit_open) \<and> cs_sent (fst (send w st rq s)) = cs_sent s \<and>
    jammed (breaker_key name) (fst (send w st rq s))"
proof -
  obtain b e where "acquire (tick w s) (breaker_of name c s) = (b, Inl e)" "cb_state b = HALF_OPEN" "cb_half_open_calls b \<ge> half_open_max_calls (cb_config b)"
    using jammed_acquire [OF assms(3)] by blast
  with assms(1,2) show ?thesis by (simp add: send_def Let_def jammed_def update_conv)
qed

lemma lost_probe_jams:
  assumes st: "retry_policy_from_settings st = Inr pol" "circuit_policy_from_settings st = Inr (True, c)"
    and rq: "circuit_target (rq_method rq) (rq_path rq) = Some name"
    and b: "cb_state (breaker_of name c s) = OPEN" "half_open_max_calls (cb_config (breaker_of name c s)) = 1"
      "tick w s - cb_opened_at (breaker_of name c s) \<ge> recovery_seconds (cb_config (breaker_of name c s))"
    and cancelled: "hw_net w (cs_sent s @ [rq]) = Answer_cancelled"
  shows "snd (send w st rq s) = Inl Py_CancelledError \<and> jammed (breaker_key name) (fst (send w st rq s))"
proof -
  obtain b' where a: "acquire (tick w s) (breaker_of name c s) = (b', Inr ())" "cb_state b' = HALF_OPEN" "cb_half_open_calls b' = 1"
      "half_open_max_calls (cb_config b') = 1"
    using b by (simp add: acquire_def maybe_half_open_def transition_def Let_def)
  let ?s = "on_breaker (breaker_key name) b' s"
  have "1 \<le> retry_max_attempts pol" by (rule retry_policy_Inr [OF st(1)])
  then have up: "[1..retry_max_attempts pol] = 1 # [2..retry_max_attempts pol]" by (simp add: upto.simps [of 1])
  have "send_with_retry w st rq ?s = (?s\<lparr>cs_sent := cs_sent s @ [rq]\<rparr>, Inl Py_CancelledError)"
    using st(1) cancelled up by (simp add: send_with_retry_def Let_def)
  with st(2) rq a have "send w st rq s = (?s\<lparr>cs_sent := cs_sent s @ [rq]\<rparr>, Inl Py_CancelledError)" by (simp add: send_def Let_def)
  with a(2-4) show ?thesis by (simp add: jammed_def update_conv)
qed

text \<open>A header with an integer beyond the range of a float is not refused: the conversion raises, and the call with it.\<close>

lemma retry_after_overflow:
  "strip t \<noteq> [] \<Longrightarrow> hw_int w (strip t) = Some n \<Longrightarrow> 2 ^ 1024 \<le> n \<Longrightarrow> parse_retry_after w (Some t) = Inl Py_OverflowError"
  by (simp add: parse_retry_after_def float_of_int_def Let_def)

end
