(* ===== verification/Sqlite_Retry.thy ===== *)
theory Sqlite_Retry
  imports Upstream_Http
begin

section \<open>Retries of contended database operations (resilience/retry.py)\<close>

text \<open>The operation is any function on a state that returns a value or raises; the state keeps what a failed call has changed.\<close>

datatype db_error = OperationalError string | Other_error string

definition TRANSIENT_MARKERS :: "string list" where
  "TRANSIENT_MARKERS = [''database is locked'', ''database table is locked'', ''busy'']"

fun is_transient_sqlite_error :: "db_error \<Rightarrow> bool" where
  "is_transient_sqlite_error (OperationalError msg) = list_ex (\<lambda>m. substr m (lower_text msg)) TRANSIENT_MARKERS"
| "is_transient_sqlite_error (Other_error msg) = False"

definition default_retry_policy :: backoff_policy where
  "default_retry_policy = \<lparr>bo_base_seconds = 1 / 100, bo_multiplier = 2, bo_max_seconds = 1 / 2, bo_max_attempts = 5, bo_jitter_ratio = 1 / 4\<rparr>"

datatype retry_error = Raised db_error | RetryExhaustedError | Bad_delay

type_synonym ('s, 'a) db_operation = "'s \<Rightarrow> 's \<times> (db_error, 'a) result"

fun retry_loop ::
  "(real \<Rightarrow> real) \<Rightarrow> backoff_policy \<Rightarrow> (int \<Rightarrow> real option) \<Rightarrow> ('s, 'a) db_operation \<Rightarrow> int list \<Rightarrow> 's \<times> real list
    \<Rightarrow> ('s \<times> real list) \<times> (retry_error, 'a) result" where
  "retry_loop fl p draws op [] s = (s, Inl RetryExhaustedError)"
| "retry_loop fl p draws op (a # as) (s, slept) =
     (case op s of
        (s', Inr v) \<Rightarrow> ((s', slept), Inr v)
      | (s', Inl e) \<Rightarrow>
          if \<not> is_transient_sqlite_error e then ((s', slept), Inl (Raised e))
          else if a \<ge> bo_max_attempts p then ((s', slept), Inl RetryExhaustedError)
          else case delay fl p a (draws a) None of
                 Inl _ \<Rightarrow> ((s', slept), Inl Bad_delay)
               | Inr d \<Rightarrow> retry_loop fl p draws op as (s', slept @ [d]))"

definition run_with_retry ::
  "(real \<Rightarrow> real) \<Rightarrow> backoff_policy \<Rightarrow> (int \<Rightarrow> real option) \<Rightarrow> ('s, 'a) db_operation \<Rightarrow> 's \<Rightarrow> ('s \<times> real list) \<times> (retry_error, 'a) result" where
  "run_with_retry fl p draws op s = retry_loop fl p draws op [1..bo_max_attempts p] (s, [])"

text \<open>The state before call \<open>n\<close>, and whether that call meets contention.\<close>

definition after_calls :: "('s, 'a) db_operation \<Rightarrow> nat \<Rightarrow> 's \<Rightarrow> 's" where
  "after_calls op n s = ((\<lambda>s. fst (op s)) ^^ n) s"

definition contended :: "('s, 'a) db_operation \<Rightarrow> 's \<Rightarrow> bool" where
  "contended op s \<longleftrightarrow> (case snd (op s) of Inl e \<Rightarrow> is_transient_sqlite_error e | Inr v \<Rightarrow> False)"

lemma after_calls_0 [simp]: "after_calls op 0 s = s"
  and after_calls_Suc: "after_calls op (Suc n) s = after_calls op n (fst (op s))"
  by (simp_all add: after_calls_def funpow_Suc_right del: funpow.simps(2))

text \<open>The outcome of the first call that meets no contention, or of the last one.\<close>

definition settled_as :: "('s, 'a) db_operation \<Rightarrow> 's \<Rightarrow> (retry_error, 'a) result" where
  "settled_as op s = (case snd (op s) of Inr v \<Rightarrow> Inr v | Inl e \<Rightarrow> if is_transient_sqlite_error e then Inl RetryExhaustedError else Inl (Raised e))"

lemma retry_loop_spec:
  assumes "as = [k..bo_max_attempts p]" "1 \<le> k" "k \<le> bo_max_attempts p"
  shows "\<exists>n ds. Suc n \<le> length as \<and> (\<forall>i < n. contended op (after_calls op i s)) \<and>
    (contended op (after_calls op n s) \<longrightarrow> Suc n = length as) \<and> length ds = n \<and> list_all (\<lambda>d. 0 \<le> d \<and> d \<le> MAX_SLEEP_SECONDS) ds \<and>
    retry_loop fl p draws op as (s, slept) = ((after_calls op (Suc n) s, slept @ ds), settled_as op (after_calls op n s))"
  using assms
proof (induction as arbitrary: k s slept)
  case (Cons a as)
  from Cons.prems have a: "a = k" "as = [k+1..bo_max_attempts p]" by (simp_all add: upto.simps [of k])
  obtain s' x where x: "op s = (s', x)" by (cases "op s")
  show ?case
  proof (cases "contended op s \<and> a < bo_max_attempts p")
    case True
    then obtain e where e: "x = Inl e" "is_transient_sqlite_error e" by (auto simp: contended_def x split: sum.splits)
    obtain d where d: "delay fl p a (draws a) None = Inr d" using delay_total [of a fl p "draws a" None] a Cons.prems by auto
    from Cons.IH [OF a(2), of s' "slept @ [d]"] True a Cons.prems obtain n ds where
      IH: "Suc n \<le> length as" "\<forall>i < n. contended op (after_calls op i s')" "contended op (after_calls op n s') \<longrightarrow> Suc n = length as"
        "length ds = n" "list_all (\<lambda>d. 0 \<le> d \<and> d \<le> MAX_SLEEP_SECONDS) ds"
        "retry_loop fl p draws op as (s', slept @ [d]) = ((after_calls op (Suc n) s', (slept @ [d]) @ ds), settled_as op (after_calls op n s'))"
      by auto
    have "\<forall>i < Suc n. contended op (after_calls op i s)" using IH(2) True by (auto simp: less_Suc_eq_0_disj after_calls_Suc x)
    with IH delay_bounds [OF d] x e d True show ?thesis
      by (intro exI [of _ "Suc n"] exI [of _ "d # ds"]) (simp add: after_calls_Suc)
  next
    case False
    have "as = []" if "contended op s" using that False a Cons.prems by simp
    with False x show ?thesis
      by (intro exI [of _ 0] exI [of _ "[]"]) (auto simp: contended_def settled_as_def after_calls_Suc split: sum.splits)
  qed
qed simp

text \<open>
  C40. A contended operation is retried exactly as long as it meets contention: for some call \<open>n\<close> within the configured
  number of attempts all earlier calls met contention, the operation is not called again after it, and its outcome
  is the outcome of the whole: its value, its own error, or \<open>RetryExhaustedError\<close> when it was the last attempt and
  contended too. Pauses are made between calls only and are bounded.
\<close>

theorem sqlite_retry_exact:
  assumes "backoff_policy_new p = Inr p"
  shows "\<exists>n ds. int (Suc n) \<le> bo_max_attempts p \<and> (\<forall>i \<in> {..<n}. contended op (after_calls op i s)) \<and>
    (if contended op (after_calls op n s) then int (Suc n) = bo_max_attempts p else True) \<and>
    length ds = n \<and> list_all (\<lambda>d. 0 \<le> d \<and> d \<le> MAX_SLEEP_SECONDS) ds \<and>
    run_with_retry fl p draws op s = ((after_calls op (Suc n) s, ds), settled_as op (after_calls op n s))"
proof -
  have p: "1 \<le> bo_max_attempts p" using backoff_policy_new_Inr [OF assms] by simp
  obtain n ds where "Suc n \<le> length [1..bo_max_attempts p]" "\<forall>i < n. contended op (after_calls op i s)"
    "contended op (after_calls op n s) \<longrightarrow> Suc n = length [1..bo_max_attempts p]" "length ds = n" "list_all (\<lambda>d. 0 \<le> d \<and> d \<le> MAX_SLEEP_SECONDS) ds"
    "retry_loop fl p draws op [1..bo_max_attempts p] (s, []) = ((after_calls op (Suc n) s, [] @ ds), settled_as op (after_calls op n s))"
    using retry_loop_spec [OF refl order.refl p, of op s fl draws "[]"] by blast
  with p show ?thesis by (intro exI [of _ n] exI [of _ ds]) (auto simp: run_with_retry_def)
qed

text \<open>An operation that is locked out twice.\<close>

definition busy_twice :: "(nat, nat) db_operation" where
  "busy_twice n = (Suc n, if n < 2 then Inl (OperationalError ''database is locked'') else Inr n)"

theorem sqlite_retry_exact_witness:
  "\<exists>n ds. int (Suc n) \<le> 5 \<and> length ds = n \<and> (\<forall>i \<in> {..<n}. contended busy_twice (after_calls busy_twice i 0)) \<and>
     run_with_retry id default_retry_policy (\<lambda>_. None) busy_twice 0 = ((after_calls busy_twice (Suc n) 0, ds), settled_as busy_twice (after_calls busy_twice n 0))"
proof -
  have "backoff_policy_new default_retry_policy = Inr default_retry_policy"
    by (simp add: backoff_policy_new_def default_retry_policy_def MAX_SLEEP_SECONDS_def)
  from sqlite_retry_exact [OF this, of busy_twice 0 id "\<lambda>_. None"] show ?thesis
    by (simp only: default_retry_policy_def backoff_policy.simps) blast
qed

end
