(* ===== verification/Hermes_Client.thy ===== *)
theory Hermes_Client
  imports Upstream_Http Mutation_Audit
begin

section \<open>The Hermes client (client_base.py, client.py)\<close>

text \<open>
  Sessions, runs and the waiting loop of the client, on top of \<open>send\<close>. The text Python's \<open>str\<close> makes of a JSON value
  that is not a text, the random session suffixes and the clock of the event loop are parameters; the clock may
  depend on the pauses made so far. Waiting on the event stream is left out, so a wait is one without a progress
  callback.
\<close>

record client_env =
  ce_http :: http_world
  ce_str :: "json \<Rightarrow> string"
  ce_uuid :: "nat \<Rightarrow> string"
  ce_strict_json :: bool
  ce_time :: "nat \<Rightarrow> real list \<Rightarrow> real"

datatype hermes_status = QUEUED | STARTED | RUNNING | STOPPING | WAITING_FOR_APPROVAL | COMPLETED | FAILED | CANCELLED | UNKNOWN

definition hermes_status_values :: "(string \<times> hermes_status) list" where
  "hermes_status_values = [(''queued'', QUEUED), (''started'', STARTED), (''running'', RUNNING), (''stopping'', STOPPING),
     (''waiting_for_approval'', WAITING_FOR_APPROVAL), (''completed'', COMPLETED), (''failed'', FAILED), (''cancelled'', CANCELLED), (''unknown'', UNKNOWN)]"

definition hermes_terminal :: "hermes_status \<Rightarrow> bool" where
  "hermes_terminal st \<longleftrightarrow> st \<in> {COMPLETED, FAILED, CANCELLED}"

record prompt_result =
  pr_session_id :: "string option"
  pr_execution_id :: string
  pr_status :: hermes_status
  pr_output :: "string option"
  pr_error :: "string option"
  pr_agent :: "string option"
  pr_subagents :: "string list"
  pr_metadata :: "(string \<times> json) list"

subsection \<open>Answers\<close>

definition obj_get :: "(string \<times> json) list \<Rightarrow> string \<Rightarrow> json" where
  "obj_get kvs k = (case map_of kvs k of None \<Rightarrow> JNull | Some v \<Rightarrow> v)"

definition json_or :: "json \<Rightarrow> json \<Rightarrow> json" where
  "json_or a b = (if json_truthy a then a else b)"

definition str_json :: "client_env \<Rightarrow> json \<Rightarrow> string" where
  "str_json e v = (case v of JStr s \<Rightarrow> s | _ \<Rightarrow> ce_str e v)"

definition error_detail :: "http_response \<Rightarrow> string" where
  "error_detail r =
     (case hr_json r of
        None \<Rightarrow> if hr_reason_phrase r = [] then ''non-JSON error response'' else hr_reason_phrase r
      | Some (JObj kvs) \<Rightarrow>
          (case obj_get kvs ''error'' of
             JObj err \<Rightarrow> (case obj_get err ''message'' of JStr m \<Rightarrow> if strip m = [] then ''unexpected error response'' else take_points 500 (strip m)
                          | _ \<Rightarrow> ''unexpected error response'')
           | JStr m \<Rightarrow> if strip m = [] then ''unexpected error response'' else take_points 500 (strip m)
           | _ \<Rightarrow> ''unexpected error response'')
      | Some _ \<Rightarrow> ''unexpected error response'')"

definition decode :: "int list \<Rightarrow> http_response \<Rightarrow> (client_error, (string \<times> json) list) result" where
  "decode expected r =
     (if hr_status_code r \<notin> set expected then Inl (HermesAPIError (Api_http (hr_status_code r) (error_detail r)))
      else case hr_json r of
             None \<Rightarrow> Inl (HermesAPIError Api_non_json)
           | Some (JObj kvs) \<Rightarrow> Inr kvs
           | Some _ \<Rightarrow> Inl (HermesAPIError Api_non_object))"

definition validate_identifier :: "string \<Rightarrow> string \<Rightarrow> (client_error, unit) result" where
  "validate_identifier v label = (if re_ident ''._:-'' 127 v then Inr () else Inl (HermesAPIError (Api_invalid_identifier label)))"

definition status_aliases :: "(string \<times> hermes_status) list" where
  "status_aliases = [(''created'', QUEUED), (''pending'', QUEUED), (''in_progress'', RUNNING), (''stopped'', CANCELLED)]"

definition normalize_status :: "client_env \<Rightarrow> json \<Rightarrow> hermes_status" where
  "normalize_status e raw =
     (let v = lower_text (if json_truthy raw then str_json e raw else ''unknown'')
      in case map_of status_aliases v of Some st \<Rightarrow> st | None \<Rightarrow> (case map_of hermes_status_values v of Some st \<Rightarrow> st | None \<Rightarrow> UNKNOWN))"

text \<open>The characters of a text, which is what \<open>list(text)\<close> gives.\<close>

lemma length_dropWhile_less [termination_simp]: "length (dropWhile P xs) < Suc (length xs)"
  by (simp add: length_dropWhile_le less_Suc_eq_le)

fun points :: "string \<Rightarrow> string list" where
  "points [] = []"
| "points (c # cs) =
     (c # takeWhile (\<lambda>d. of_char d div (64 :: nat) = 2) cs) # points (dropWhile (\<lambda>d. of_char d div (64 :: nat) = 2) cs)"

definition as_texts :: "json list \<Rightarrow> (client_error, string list) result" where
  "as_texts = traverse (\<lambda>v. case v of JStr s \<Rightarrow> Inr s | _ \<Rightarrow> Inl Py_ValueError)"

definition text_field :: "json \<Rightarrow> string option \<Rightarrow> (client_error, string option) result" where
  "text_field v fallback = (if \<not> json_truthy v then Inr fallback else case v of JStr s \<Rightarrow> Inr (Some s) | _ \<Rightarrow> Inl Py_ValueError)"

definition subagents_field :: "json \<Rightarrow> string list \<Rightarrow> (client_error, string list) result" where
  "subagents_field v fallback =
     (if \<not> json_truthy v then Inr fallback
      else case v of
             JList xs \<Rightarrow> as_texts xs
           | JStr s \<Rightarrow> Inr (points s)
           | JObj kvs \<Rightarrow> Inr (map fst kvs)
           | _ \<Rightarrow> Inl Py_TypeError)"

definition RESULT_KEYS :: "string list" where
  "RESULT_KEYS = [''run_id'', ''id'', ''session_id'', ''status'', ''output'', ''response'', ''error'', ''agent'', ''subagents'']"

definition normalize ::
  "client_env \<Rightarrow> (string \<times> json) list \<Rightarrow> string \<Rightarrow> string option \<Rightarrow> string option \<Rightarrow> string list \<Rightarrow> (client_error, prompt_result) result" where
  "normalize e data exec_id fallback_session agent subagents =
     (let err0 = obj_get data ''error'';
          err = (case err0 of JObj kvs \<Rightarrow> json_or (obj_get kvs ''message'') (JStr (ce_str e err0)) | _ \<Rightarrow> err0);
          out = json_or (obj_get data ''output'') (obj_get data ''response'')
      in bind_r (subagents_field (obj_get data ''subagents'') subagents) (\<lambda>subs.
         bind_r (text_field (obj_get data ''session_id'') fallback_session) (\<lambda>sess.
         bind_r (text_field (obj_get data ''agent'') agent) (\<lambda>ag.
         Inr \<lparr>pr_session_id = sess, pr_execution_id = exec_id, pr_status = normalize_status e (obj_get data ''status''),
              pr_output = (case out of JNull \<Rightarrow> None | JStr s \<Rightarrow> Some s | _ \<Rightarrow> Some (ce_str e out)),
              pr_error = (if json_truthy err then Some (str_json e err) else None),
              pr_agent = ag, pr_subagents = subs, pr_metadata = filter (\<lambda>(k, v). k \<notin> set RESULT_KEYS) data\<rparr>))))"

subsection \<open>Sessions and runs\<close>

definition MAX_PROMPT_CHARS :: nat where "MAX_PROMPT_CHARS = 200000"

definition MAX_AGENT_HINT_CHARS :: nat where "MAX_AGENT_HINT_CHARS = 128"

definition MAX_SUBAGENTS :: nat where "MAX_SUBAGENTS = 16"

datatype orchestration_mode = ORCH_AUTO | ORCH_EXPLICIT | ORCH_SINGLE | ORCH_PARALLEL | ORCH_PIPELINE | ORCH_REVIEW

fun join_with :: "string \<Rightarrow> string list \<Rightarrow> string" where
  "join_with sep [] = []"
| "join_with sep [x] = x"
| "join_with sep (x # y # xs) = x @ sep @ join_with sep (y # xs)"

definition single_quote :: string where "single_quote = [CHR 0x27]"

definition instructions ::
  "bool \<Rightarrow> string option \<Rightarrow> string list option \<Rightarrow> orchestration_mode \<Rightarrow> (client_error, string option) result" where
  "instructions strict agent subagents mode =
     (if (case agent of None \<Rightarrow> False | Some a \<Rightarrow> code_points a > MAX_AGENT_HINT_CHARS) then Inl (HermesAPIError Api_agent_too_long)
      else if (case subagents of None \<Rightarrow> False | Some xs \<Rightarrow> length xs > MAX_SUBAGENTS) then Inl (HermesAPIError Api_too_many_subagents)
      else if (case subagents of None \<Rightarrow> False | Some xs \<Rightarrow> list_ex (\<lambda>n. code_points n > MAX_AGENT_HINT_CHARS) xs) then Inl (HermesAPIError Api_subagent_too_long)
      else
        let parts =
          (case agent of None \<Rightarrow> [] | Some a \<Rightarrow> if a = [] then [] else
             [''Use the Hermes agent/profile '' @ single_quote @ a @ single_quote @ '' as the primary agent.'']) @
          (case subagents of None \<Rightarrow> [] | Some xs \<Rightarrow> if xs = [] then [] else
             [''Use these subagents when appropriate: '' @ join_with '', '' (map (\<lambda>n. single_quote @ n @ single_quote) xs) @ ''.'']) @
          (if mode = ORCH_EXPLICIT then [''Follow the requested agent assignment explicitly and report which agents were used.''] else []) @
          (if strict then [''Return exactly the JSON shape requested by the user prompt, preserving the exact key names requested. Emit only that JSON: no prose, no explanation, no code fence and no wrapper object.''] else [])
        in Inr (if parts = [] then None else Some (join_with '' '' parts)))"

definition line_breaks :: "string list" where
  "line_breaks = map (map char_of) [[0x0A], [0x0D], [0x0B], [0x0C], [0x1C], [0x1D], [0x1E], [0xC2, 0x85], [0xE2, 0x80, 0xA8], [0xE2, 0x80, 0xA9 :: nat]]"

fun first_line :: "string \<Rightarrow> string" where
  "first_line [] = []"
| "first_line (c # cs) = (if list_ex (\<lambda>b. take (length b) (c # cs) = b) line_breaks then [] else c # first_line cs)"

definition session_title :: "string \<Rightarrow> string \<Rightarrow> string" where
  "session_title hex prompt =
     (let suffix = '' [mcp-'' @ take 12 hex @ '']'';
          line = strip (first_line prompt)
      in take_points (80 - code_points suffix) (if line = [] then ''MCP delegated task'' else line) @ suffix)"

definition is_duplicate_session_title :: "http_response \<Rightarrow> bool" where
  "is_duplicate_session_title r \<longleftrightarrow> hr_status_code r = 400 \<and> substr ''title already in use'' (lower_text (error_detail r))"

definition sessions_request :: "client_env \<Rightarrow> client_settings \<Rightarrow> string \<Rightarrow> client_state \<Rightarrow> http_request" where
  "sessions_request e st prompt s =
     \<lparr>rq_method = ''POST'', rq_path = ''/api/sessions'',
      rq_json = Some (JObj [(''title'', JStr (session_title (ce_uuid e (length (cs_sent s))) prompt)), (''model'', JStr (st_model st))])\<rparr>"

text \<open>The session id in the answer to a creation.\<close>

definition created_session :: "http_response \<Rightarrow> (client_error, string) result" where
  "created_session r =
     bind_r (decode [201] r) (\<lambda>data.
       case obj_get data ''session'' of
         JObj kvs \<Rightarrow> (case obj_get kvs ''id'' of
             JStr i \<Rightarrow> bind_r (validate_identifier i ''session_id'') (\<lambda>_. Inr i)
           | _ \<Rightarrow> Inl (HermesAPIError Api_no_session_id))
       | _ \<Rightarrow> Inl (HermesAPIError Api_no_session_id))"

text \<open>The loop of \<open>_create_session\<close>. An answer that is neither 201 nor a duplicate title makes \<open>_decode\<close> raise.\<close>

fun create_session_loop :: "client_env \<Rightarrow> client_settings \<Rightarrow> string \<Rightarrow> nat \<Rightarrow> client_state \<Rightarrow> client_state \<times> (client_error, string) result" where
  "create_session_loop e st prompt 0 s = (s, Inl (HermesAPIError Api_session_rejected))"
| "create_session_loop e st prompt (Suc n) s =
     bind_s (send (ce_http e) st (sessions_request e st prompt s) s) (\<lambda>s1 r.
       if hr_status_code r = 201 then (s1, created_session r)
       else if is_duplicate_session_title r then create_session_loop e st prompt n s1
       else (case decode [201] r of Inl err \<Rightarrow> (s1, Inl err) | Inr _ \<Rightarrow> create_session_loop e st prompt n s1))"

definition SESSION_CREATE_ATTEMPTS :: nat where "SESSION_CREATE_ATTEMPTS = 3"

text \<open>The messages that are kept; a role that cannot be hashed makes the set test raise.\<close>

definition history_item :: "json \<Rightarrow> (client_error, json list) result" where
  "history_item m =
     (case m of
        JObj kvs \<Rightarrow>
          (case obj_get kvs ''role'' of
             JStr role \<Rightarrow>
               (case obj_get kvs ''content'' of
                  JStr content \<Rightarrow> Inr (if role \<in> {''system'', ''user'', ''assistant''} then [JObj [(''role'', JStr role), (''content'', JStr content)]] else [])
                | _ \<Rightarrow> Inr [])
           | JList xs \<Rightarrow> Inl Py_TypeError
           | JObj xs \<Rightarrow> Inl Py_TypeError
           | _ \<Rightarrow> Inr [])
      | _ \<Rightarrow> Inr [])"

definition history_of :: "json list \<Rightarrow> (client_error, json list) result" where
  "history_of msgs = bind_r (traverse history_item msgs) (\<lambda>xss. Inr (concat xss))"

definition get_request :: "string \<Rightarrow> http_request" where
  "get_request path = \<lparr>rq_method = ''GET'', rq_path = path, rq_json = None\<rparr>"

definition load_session_history ::
  "client_env \<Rightarrow> client_settings \<Rightarrow> string \<Rightarrow> client_state \<Rightarrow> client_state \<times> (client_error, string \<times> json list) result" where
  "load_session_history e st sid s =
     bind_s (send (ce_http e) st (get_request (''/api/sessions/'' @ sid @ ''/messages'')) s) (\<lambda>s1 r.
       (s1, if hr_status_code r = 404 then Inl (HermesAPIError (Api_session_not_found sid))
            else bind_r (decode [200] r) (\<lambda>data.
              let resolved = (case obj_get data ''session_id'' of JStr t \<Rightarrow> if t = [] then sid else t | _ \<Rightarrow> sid)
              in bind_r (validate_identifier resolved ''session_id'') (\<lambda>_.
                   case obj_get data ''data'' of JList msgs \<Rightarrow> bind_r (history_of msgs) (\<lambda>h. Inr (resolved, h)) | _ \<Rightarrow> Inl (HermesAPIError Api_invalid_history)))))"

definition prepare_session ::
  "client_env \<Rightarrow> client_settings \<Rightarrow> string \<Rightarrow> string option \<Rightarrow> client_state \<Rightarrow> client_state \<times> (client_error, string \<times> json list) result" where
  "prepare_session e st prompt sid s =
     (case sid of
        None \<Rightarrow> bind_s (create_session_loop e st prompt SESSION_CREATE_ATTEMPTS s) (\<lambda>s1 i. (s1, Inr (i, [])))
      | Some i \<Rightarrow> (case validate_identifier i ''session_id'' of Inl err \<Rightarrow> (s, Inl err) | Inr _ \<Rightarrow> load_session_history e st i s))"

definition run_request :: "client_settings \<Rightarrow> string \<Rightarrow> string \<Rightarrow> json list \<Rightarrow> string option \<Rightarrow> http_request" where
  "run_request st prompt sid history instr =
     \<lparr>rq_method = ''POST'', rq_path = ''/v1/runs'',
      rq_json = Some (JObj ([(''input'', JStr prompt), (''model'', JStr (st_model st)), (''session_id'', JStr sid)] @
        (if history = [] then [] else [(''conversation_history'', JList history)]) @
        (case instr of None \<Rightarrow> [] | Some t \<Rightarrow> [(''instructions'', JStr t)])))\<rparr>"

definition accepted_run ::
  "client_env \<Rightarrow> string \<Rightarrow> string option \<Rightarrow> string list \<Rightarrow> http_response \<Rightarrow> (client_error, prompt_result) result" where
  "accepted_run e sid agent subagents r =
     bind_r (decode [200, 201, 202] r) (\<lambda>data.
       let x = json_or (obj_get data ''run_id'') (json_or (obj_get data ''id'') (JStr []));
           i = str_json e x
       in bind_r (validate_identifier i ''execution_id'') (\<lambda>_. normalize e data i (Some sid) agent subagents))"

definition create_run ::
  "client_env \<Rightarrow> client_settings \<Rightarrow> string \<Rightarrow> string option \<Rightarrow> string option \<Rightarrow> string list option \<Rightarrow> orchestration_mode \<Rightarrow> client_state
    \<Rightarrow> client_state \<times> (client_error, prompt_result) result" where
  "create_run e st raw sid agent subagents mode s =
     (let prompt = strip raw
      in if prompt = [] then (s, Inl (HermesAPIError Api_empty_prompt))
         else if code_points prompt > MAX_PROMPT_CHARS then (s, Inl (HermesAPIError Api_long_prompt))
         else case instructions (ce_strict_json e) agent subagents mode of
                Inl err \<Rightarrow> (s, Inl err)
              | Inr instr \<Rightarrow>
                  bind_s (prepare_session e st prompt sid s) (\<lambda>s1 (i, history).
                  bind_s (send (ce_http e) st (run_request st prompt i history instr) s1) (\<lambda>s2 r.
                    (s2, accepted_run e i agent (case subagents of None \<Rightarrow> [] | Some xs \<Rightarrow> xs) r))))"

definition get_run ::
  "client_env \<Rightarrow> client_settings \<Rightarrow> string \<Rightarrow> string option \<Rightarrow> string option \<Rightarrow> string list \<Rightarrow> client_state \<Rightarrow> client_state \<times> (client_error, prompt_result) result" where
  "get_run e st i fallback agent subagents s =
     (case validate_identifier i ''execution_id'' of
        Inl err \<Rightarrow> (s, Inl err)
      | Inr _ \<Rightarrow> bind_s (send (ce_http e) st (get_request (''/v1/runs/'' @ i)) s) (\<lambda>s1 r.
          (s1, bind_r (decode [200] r) (\<lambda>data. normalize e data i fallback agent subagents))))"

definition stop_run :: "client_env \<Rightarrow> client_settings \<Rightarrow> string \<Rightarrow> client_state \<Rightarrow> client_state \<times> (client_error, prompt_result) result" where
  "stop_run e st i s =
     (case validate_identifier i ''execution_id'' of
        Inl err \<Rightarrow> (s, Inl err)
      | Inr _ \<Rightarrow> bind_s (send (ce_http e) st \<lparr>rq_method = ''POST'', rq_path = ''/v1/runs/'' @ i @ ''/stop'', rq_json = None\<rparr> s) (\<lambda>s1 r.
          (s1, bind_r (decode [200, 202] r) (\<lambda>data. normalize e data i None None []))))"

definition health :: "client_env \<Rightarrow> client_settings \<Rightarrow> bool \<Rightarrow> client_state \<Rightarrow> client_state \<times> (client_error, (string \<times> json) list) result" where
  "health e st detailed s =
     bind_s (send (ce_http e) st (get_request (if detailed then ''/health/detailed'' else ''/health'')) s) (\<lambda>s1 r. (s1, decode [200] r))"

subsection \<open>Waiting\<close>

definition elapse :: "client_state \<Rightarrow> client_state" where
  "elapse s = s\<lparr>cs_ticks := cs_ticks s + 1\<rparr>"

definition loop_time :: "client_env \<Rightarrow> client_state \<Rightarrow> real" where
  "loop_time e s = ce_time e (cs_ticks s) (cs_slept s)"

definition sleep_for :: "real \<Rightarrow> client_state \<Rightarrow> client_state" where
  "sleep_for d s = s\<lparr>cs_slept := cs_slept s @ [d]\<rparr>"

datatype wait_value = Finite_wait real | Not_finite

definition bounded_wait :: "client_settings \<Rightarrow> wait_value option \<Rightarrow> (client_error, real) result" where
  "bounded_wait st v =
     (case v of
        None \<Rightarrow> Inr (min (st_run_default_wait_seconds st) (st_run_max_wait_seconds st))
      | Some Not_finite \<Rightarrow> Inl (HermesAPIError Api_wait_not_finite)
      | Some (Finite_wait d) \<Rightarrow> Inr (min (max 0 d) (st_run_max_wait_seconds st)))"

text \<open>The loop of \<open>_wait_for_run_polling\<close> without a callback; \<open>None\<close> when the fuel runs out.\<close>

fun poll_loop ::
  "client_env \<Rightarrow> client_settings \<Rightarrow> string \<Rightarrow> string option \<Rightarrow> string option \<Rightarrow> string list \<Rightarrow> nat \<Rightarrow> real \<Rightarrow> prompt_result \<Rightarrow> client_state
    \<Rightarrow> (client_state \<times> (client_error, prompt_result) result) option" where
  "poll_loop e st i fb ag subs 0 deadline latest s = None"
| "poll_loop e st i fb ag subs (Suc n) deadline latest s =
     (if hermes_terminal (pr_status latest) then Some (s, Inr latest)
      else let remaining = deadline - loop_time e s
        in if remaining \<le> 0 then Some (elapse (elapse s), Inr latest)
           else case get_run e st i fb ag subs (sleep_for (min (st_run_poll_interval_seconds st) remaining) (elapse s)) of
                  (s1, Inl err) \<Rightarrow> Some (s1, Inl err)
                | (s1, Inr r) \<Rightarrow> poll_loop e st i fb ag subs n deadline r (elapse s1))"

definition wait_for_run_polling ::
  "client_env \<Rightarrow> client_settings \<Rightarrow> string \<Rightarrow> string option \<Rightarrow> string option \<Rightarrow> string list \<Rightarrow> nat \<Rightarrow> real \<Rightarrow> client_state
    \<Rightarrow> (client_state \<times> (client_error, prompt_result) result) option" where
  "wait_for_run_polling e st i fb ag subs fuel max_wait s =
     (let s1 = elapse s; deadline = loop_time e s1 + max_wait; s2 = elapse (elapse s1)
      in case get_run e st i fb ag subs s2 of
           (s3, Inl err) \<Rightarrow> Some (s3, Inl err)
         | (s3, Inr r) \<Rightarrow> poll_loop e st i fb ag subs fuel deadline r s3)"

definition wait_for_run ::
  "client_env \<Rightarrow> client_settings \<Rightarrow> string \<Rightarrow> string option \<Rightarrow> string option \<Rightarrow> string list \<Rightarrow> nat \<Rightarrow> real \<Rightarrow> client_state
    \<Rightarrow> (client_state \<times> (client_error, prompt_result) result) option" where
  "wait_for_run e st i fb ag subs fuel max_wait s =
     (case validate_identifier i ''execution_id'' of
        Inl err \<Rightarrow> Some (s, Inl err)
      | Inr _ \<Rightarrow> if max_wait \<le> 0 then Some (get_run e st i fb ag subs s) else wait_for_run_polling e st i fb ag subs fuel max_wait s)"

text \<open>\<open>submit_prompt\<close>: a cancelled wait may ask Hermes to stop the run; only a \<open>HermesAPIError\<close> of that request is swallowed.\<close>

definition submit_prompt ::
  "client_env \<Rightarrow> client_settings \<Rightarrow> nat \<Rightarrow> string \<Rightarrow> string option \<Rightarrow> string option \<Rightarrow> string list option \<Rightarrow> orchestration_mode \<Rightarrow> wait_value option \<Rightarrow> bool
    \<Rightarrow> client_state \<Rightarrow> (client_state \<times> (client_error, prompt_result) result) option" where
  "submit_prompt e st fuel raw sid agent subagents mode wait stop_on_cancel s =
     (case bounded_wait st wait of
        Inl err \<Rightarrow> Some (s, Inl err)
      | Inr max_wait \<Rightarrow>
          case create_run e st raw sid agent subagents mode s of
            (s1, Inl err) \<Rightarrow> Some (s1, Inl err)
          | (s1, Inr res) \<Rightarrow>
              if hermes_terminal (pr_status res) \<or> max_wait = 0 then Some (s1, Inr res)
              else case wait_for_run e st (pr_execution_id res) (pr_session_id res) agent (case subagents of None \<Rightarrow> [] | Some xs \<Rightarrow> xs) fuel max_wait s1 of
                     None \<Rightarrow> None
                   | Some (s2, r) \<Rightarrow>
                       if r = Inl Py_CancelledError \<and> stop_on_cancel
                       then (case stop_run e st (pr_execution_id res) s2 of
                               (s3, Inl (HermesAPIError _)) \<Rightarrow> Some (s3, r)
                             | (s3, Inl err) \<Rightarrow> Some (s3, Inl err)
                             | (s3, Inr _) \<Rightarrow> Some (s3, r))
                       else Some (s2, r))"

subsection \<open>What a call leaves behind\<close>

definition valid_settings :: "client_settings \<Rightarrow> bool" where
  "valid_settings st \<longleftrightarrow> \<not> isl (retry_policy_from_settings st) \<and> \<not> isl (circuit_policy_from_settings st) \<and> 0 < st_run_poll_interval_seconds st"

lemma valid_settingsE:
  assumes "valid_settings st"
  obtains pol en c where "retry_policy_from_settings st = Inr pol" "circuit_policy_from_settings st = Inr (en, c)"
  using assms by (cases "retry_policy_from_settings st"; cases "circuit_policy_from_settings st") (auto simp: valid_settings_def)

lemma send_ticks:
  assumes "valid_settings st"
  shows "cs_ticks s \<le> cs_ticks (fst (send w st rq s))"
proof -
  obtain pol where pol: "retry_policy_from_settings st = Inr pol" using assms by (rule valid_settingsE)
  have t: "cs_ticks (fst (send_with_retry w st rq s)) = cs_ticks s" for s
    using send_with_retry_spec(1) [OF pol, of w rq s] by (simp add: attempts_made_def)
  have le: "cs_ticks s \<le> cs_ticks s1" if "send_with_retry w st rq (on_breaker k b s) = (s1, x)" for k b s1 x
    using t [of "on_breaker k b s"] that by simp
  show ?thesis
    by (auto simp: send_def Let_def t split: sum.splits option.splits prod.splits client_error.splits dest!: le)
qed

lemma send_trace:
  assumes "valid_settings st"
  obtains n ds where "cs_sent (fst (send w st rq s)) = cs_sent s @ replicate n rq" "cs_slept (fst (send w st rq s)) = cs_slept s @ ds"
    "list_all (\<lambda>d. 0 \<le> d) ds" "cs_ticks s \<le> cs_ticks (fst (send w st rq s))"
    "classify_retry_target (rq_method rq) (rq_path rq) = None \<Longrightarrow> n = 1" "\<And>r. snd (send w st rq s) = Inr r \<Longrightarrow> 1 \<le> n"
proof -
  obtain pol en c where st: "retry_policy_from_settings st = Inr pol" "circuit_policy_from_settings st = Inr (en, c)"
    using assms by (rule valid_settingsE)
  note t = send_ticks [OF assms, of s w rq]
  show thesis
  proof (cases rule: send_cases [OF st(2), of rq w s, case_names refused plain guarded])
    case (refused name)
    with t that [of 0 "[]"] show thesis by (auto simp: circuit_target_def split: option.splits)
  next
    case plain
    from send_with_retry_spec(1) [OF st(1), of w rq s] obtain n ds where
      n: "cs_sent (fst (send_with_retry w st rq s)) = cs_sent s @ replicate (Suc n) rq" "Suc n \<le> nat (allowed_attempts st rq)"
        "cs_slept (fst (send_with_retry w st rq s)) = cs_slept s @ ds" "list_all (\<lambda>d. 0 \<le> d \<and> d \<le> MAX_SLEEP_SECONDS) ds"
      unfolding attempts_made_def by blast
    have "list_all (\<lambda>d. 0 \<le> d) ds" using n(4) by (simp add: list_all_iff)
    with n t plain(1) show thesis by (intro that [of "Suc n" ds]) (auto simp: allowed_attempts_def)
  next
    case (guarded name b)
    from send_with_retry_spec(1) [OF st(1), of w rq "on_breaker (breaker_key name) b s"] obtain n ds where
      n: "cs_sent (fst (send_with_retry w st rq (on_breaker (breaker_key name) b s))) = cs_sent s @ replicate (Suc n) rq"
        "cs_slept (fst (send_with_retry w st rq (on_breaker (breaker_key name) b s))) = cs_slept s @ ds" "list_all (\<lambda>d. 0 \<le> d \<and> d \<le> MAX_SLEEP_SECONDS) ds"
      unfolding attempts_made_def by auto
    have "list_all (\<lambda>d. 0 \<le> d) ds" using n(3) by (simp add: list_all_iff)
    with n t guarded show thesis by (intro that [of "Suc n" ds]) (auto simp: circuit_target_def split: option.splits)
  qed
qed

text \<open>A call that only appends requests and pauses.\<close>

definition extends :: "client_state \<Rightarrow> client_state \<Rightarrow> bool" where
  "extends s s' \<longleftrightarrow> (\<exists>rqs ds. cs_sent s' = cs_sent s @ rqs \<and> cs_slept s' = cs_slept s @ ds \<and> list_all (\<lambda>d. 0 \<le> d) ds \<and> cs_ticks s \<le> cs_ticks s')"

definition run_posts :: "client_state \<Rightarrow> nat" where
  "run_posts s = length (filter (\<lambda>rq. rq_method rq = ''POST'' \<and> rq_path rq = ''/v1/runs'') (cs_sent s))"

lemma extends_refl [simp]: "extends s s"
  by (simp add: extends_def)

lemma extends_trans: "extends s1 s2 \<Longrightarrow> extends s2 s3 \<Longrightarrow> extends s1 s3"
  unfolding extends_def by (metis append.assoc list_all_append order.trans)

lemma extends_elapse [simp]: "extends s (elapse s)"
  by (simp add: extends_def elapse_def)

lemma run_posts_elapse [simp]: "run_posts (elapse s) = run_posts s"
  by (simp add: run_posts_def elapse_def)

lemma extends_posts: "extends s s' \<Longrightarrow> run_posts s \<le> run_posts s'"
  by (auto simp: extends_def run_posts_def)

lemma post_not_retried: "classify_retry_target ''POST'' path = None"
  by (simp add: classify_retry_target_def upper_text_kept less_eq_char_def del: upper_text.simps)

lemma send_extends: "valid_settings st \<Longrightarrow> extends s (fst (send w st rq s))"
  by (erule send_trace [of st w rq s]) (auto simp: extends_def)

lemma send_other:
  assumes "valid_settings st" "rq_method rq \<noteq> ''POST'' \<or> rq_path rq \<noteq> ''/v1/runs''"
  shows "run_posts (fst (send w st rq s)) = run_posts s"
proof -
  obtain n where "cs_sent (fst (send w st rq s)) = cs_sent s @ replicate n rq" by (rule send_trace [OF assms(1), of w rq s])
  with assms(2) show ?thesis by (auto simp: run_posts_def)
qed

lemma send_run:
  assumes "valid_settings st" "rq_method rq = ''POST''" "rq_path rq = ''/v1/runs''"
  shows "run_posts (fst (send w st rq s)) = Suc (run_posts s)"
proof -
  obtain n where "cs_sent (fst (send w st rq s)) = cs_sent s @ replicate n rq" "n = 1"
    using post_not_retried assms(2) by (metis send_trace [OF assms(1), of w rq s])
  with assms(2,3) show ?thesis by (auto simp: run_posts_def)
qed

text \<open>Every operation extends the state; only \<open>create_run\<close> submits a run.\<close>

definition posts_none :: "client_state \<Rightarrow> client_state \<Rightarrow> bool" where
  "posts_none s s' \<longleftrightarrow> extends s s' \<and> run_posts s' = run_posts s"

lemma posts_none_refl [simp]: "posts_none s s"
  by (simp add: posts_none_def)

lemma posts_none_trans: "posts_none s1 s2 \<Longrightarrow> posts_none s2 s3 \<Longrightarrow> posts_none s1 s3"
  by (auto simp: posts_none_def intro: extends_trans)

lemma posts_none_elapse [simp]: "posts_none s (elapse s)"
  by (simp add: posts_none_def)

lemma posts_none_sleep: "0 \<le> d \<Longrightarrow> posts_none s (sleep_for d s)"
  by (simp add: posts_none_def extends_def sleep_for_def run_posts_def)

lemma posts_none_send: "valid_settings st \<Longrightarrow> rq_method rq \<noteq> ''POST'' \<or> rq_path rq \<noteq> ''/v1/runs'' \<Longrightarrow> posts_none s (fst (send w st rq s))"
  by (simp add: posts_none_def send_extends send_other)

lemma posts_none_bind:
  assumes "posts_none s (fst x)" "\<And>s1 a. x = (s1, Inr a) \<Longrightarrow> posts_none s1 (fst (f s1 a))"
  shows "posts_none s (fst (bind_s x f))"
proof (cases "snd x")
  case (Inr a)
  then have x: "x = (fst x, Inr a)" by (metis prod.collapse)
  show ?thesis using posts_none_trans [OF assms(1) assms(2) [OF x]] by (subst x) simp
qed (use assms(1) in \<open>auto simp: bind_s_def split: prod.splits\<close>)

lemma posts_none_create_session: "valid_settings st \<Longrightarrow> posts_none s (fst (create_session_loop e st prompt n s))"
proof (induction n arbitrary: s)
  case (Suc n)
  then show ?case by (auto intro!: posts_none_bind posts_none_send simp: sessions_request_def split: sum.splits)
qed simp

lemma posts_none_prepare: "valid_settings st \<Longrightarrow> posts_none s (fst (prepare_session e st prompt sid s))"
  by (auto simp: prepare_session_def load_session_history_def get_request_def intro!: posts_none_bind posts_none_create_session posts_none_send split: option.splits sum.splits)

lemma posts_none_get_run: "valid_settings st \<Longrightarrow> posts_none s (fst (get_run e st i fb ag subs s))"
  by (auto simp: get_run_def get_request_def intro!: posts_none_bind posts_none_send split: sum.splits)

lemma posts_none_stop_run: "valid_settings st \<Longrightarrow> posts_none s (fst (stop_run e st i s))"
  by (auto simp: stop_run_def intro!: posts_none_bind posts_none_send split: sum.splits)

lemma create_run_posts:
  assumes st: "valid_settings st"
  shows "extends s (fst (create_run e st raw sid agent subagents mode s)) \<and>
    run_posts (fst (create_run e st raw sid agent subagents mode s)) \<le> Suc (run_posts s) \<and>
    (\<forall>r. snd (create_run e st raw sid agent subagents mode s) = Inr r \<longrightarrow> run_posts (fst (create_run e st raw sid agent subagents mode s)) = Suc (run_posts s))"
proof -
  have body: "extends s (fst out) \<and> run_posts (fst out) \<le> Suc (run_posts s) \<and> (\<forall>r. snd out = Inr r \<longrightarrow> run_posts (fst out) = Suc (run_posts s))"
    if "out = bind_s (prepare_session e st p sid s) (\<lambda>s1 (i, history). bind_s (send (ce_http e) st (run_request st p i history instr) s1)
          (\<lambda>s2 r. (s2, accepted_run e i agent subs r)))" for out p instr subs
  proof (cases "prepare_session e st p sid s")
    case (Pair s1 x)
    have q: "posts_none s s1" using posts_none_prepare [OF st, of s e p sid] Pair by simp
    show ?thesis
    proof (cases x)
      case (Inr ih)
      obtain i history where ih: "ih = (i, history)" by (cases ih)
      let ?rq = "run_request st p i history instr"
      have "extends s1 (fst (send (ce_http e) st ?rq s1))" "run_posts (fst (send (ce_http e) st ?rq s1)) = Suc (run_posts s1)"
        using st by (auto simp: send_extends send_run run_request_def)
      moreover have "fst out = fst (send (ce_http e) st ?rq s1)"
        by (cases "send (ce_http e) st ?rq s1"; cases "snd (send (ce_http e) st ?rq s1)") (auto simp: that Pair Inr ih)
      ultimately show ?thesis using q by (auto simp: posts_none_def intro: extends_trans)
    qed (use q that Pair in \<open>simp add: posts_none_def\<close>)
  qed
  consider err where "create_run e st raw sid agent subagents mode s = (s, Inl err)"
    | p instr subs where "create_run e st raw sid agent subagents mode s =
        bind_s (prepare_session e st p sid s) (\<lambda>s1 (i, history). bind_s (send (ce_http e) st (run_request st p i history instr) s1)
          (\<lambda>s2 r. (s2, accepted_run e i agent subs r)))"
  proof (cases "strip raw = [] \<or> code_points (strip raw) > MAX_PROMPT_CHARS")
    case True
    then have "\<exists>err. create_run e st raw sid agent subagents mode s = (s, Inl err)" by (auto simp: create_run_def Let_def)
    with that(1) show thesis by blast
  next
    case False
    with that show thesis by (cases "instructions (ce_strict_json e) agent subagents mode") (simp_all add: create_run_def Let_def)
  qed
  then show ?thesis
  proof cases
    case 2
    then show ?thesis by (rule body)
  qed simp
qed

lemma posts_none_poll:
  assumes "valid_settings st"
  shows "poll_loop e st i fb ag subs n deadline latest s = Some (s', r) \<Longrightarrow> posts_none s s'"
proof (induction n arbitrary: latest s)
  case (Suc n)
  show ?case
  proof (cases "hermes_terminal (pr_status latest) \<or> deadline - loop_time e s \<le> 0")
    case True
    with Suc.prems show ?thesis by (auto simp: Let_def split: if_splits intro: posts_none_trans [OF posts_none_elapse posts_none_elapse])
  next
    case False
    let ?s = "sleep_for (min (st_run_poll_interval_seconds st) (deadline - loop_time e s)) (elapse s)"
    have "posts_none (elapse s) ?s" using False assms by (intro posts_none_sleep) (auto simp: valid_settings_def)
    then have "posts_none s ?s" by (rule posts_none_trans [OF posts_none_elapse])
    moreover have "posts_none ?s (fst (get_run e st i fb ag subs ?s))" using assms by (rule posts_none_get_run)
    ultimately have q: "posts_none s (fst (get_run e st i fb ag subs ?s))" by (rule posts_none_trans)
    show ?thesis
    proof (cases "get_run e st i fb ag subs ?s")
      case (Pair s1 x)
      show ?thesis
      proof (cases x)
        case (Inl err)
        with Suc.prems False Pair q show ?thesis by (simp add: Let_def)
      next
        case (Inr l)
        with Suc.prems False Pair have "poll_loop e st i fb ag subs n deadline l (elapse s1) = Some (s', r)" by (simp add: Let_def)
        then have "posts_none (elapse s1) s'" by (rule Suc.IH)
        with q Pair show ?thesis by (metis fst_conv posts_none_elapse posts_none_trans)
      qed
    qed
  qed
qed simp

lemma posts_none_wait:
  assumes "valid_settings st" "wait_for_run e st i fb ag subs fuel mw s = Some (s', r)"
  shows "posts_none s s'"
proof -
  let ?s2 = "elapse (elapse (elapse s))"
  have q: "posts_none s (fst (get_run e st i fb ag subs ?s2))"
    using posts_none_get_run [OF assms(1), of ?s2] by (metis posts_none_elapse posts_none_trans)
  have "posts_none s (fst (get_run e st i fb ag subs s))" using assms(1) by (rule posts_none_get_run)
  moreover have "posts_none s s'" if "wait_for_run_polling e st i fb ag subs fuel mw s = Some (s', r)"
  proof (cases "get_run e st i fb ag subs ?s2")
    case (Pair s3 x)
    show ?thesis
    proof (cases x)
      case (Inl err)
      with that Pair q show ?thesis by (simp add: wait_for_run_polling_def Let_def)
    next
      case (Inr l)
      with that Pair q posts_none_poll [OF assms(1)] show ?thesis
        by (auto simp: wait_for_run_polling_def Let_def intro: posts_none_trans)
    qed
  qed
  ultimately show ?thesis using assms(2)
    by (cases "validate_identifier i ''execution_id''") (auto simp: wait_for_run_def split: if_splits)
qed


text \<open>A service that creates a session and completes the run at once.\<close>

definition ok_answer :: "int \<Rightarrow> (string \<times> json) list \<Rightarrow> http_answer" where
  "ok_answer c kvs = Answer \<lparr>hr_status_code = c, hr_json = Some (JObj kvs), hr_reason_phrase = [], hr_retry_after = None\<rparr>"

definition sample_env :: client_env where
  "sample_env = \<lparr>ce_http = sample_world\<lparr>hw_net := (\<lambda>rqs. if rq_path (last rqs) = ''/api/sessions'' then ok_answer 201 [(''session'', JObj [(''id'', JStr ''s1'')])]
       else ok_answer 202 [(''run_id'', JStr ''r1''), (''status'', JStr ''completed'')])\<rparr>, ce_str = (\<lambda>_. ''value''), ce_uuid = (\<lambda>n. replicate 32 (CHR ''0'')),
     ce_strict_json = False, ce_time = (\<lambda>n ds. real n + sum_list ds)\<rparr>"

lemma sample_settings_ok: "valid_settings sample_settings"
  using sample_settings_valid by (auto simp: valid_settings_def sample_settings_def)

lemma sample_post:
  assumes "rq_method rq = ''POST''" "hw_net w (cs_sent s @ [rq]) = Answer r"
  shows "send w sample_settings rq s = (s\<lparr>cs_sent := cs_sent s @ [rq]\<rparr>, Inr r)"
  using sample_settings_valid assms post_not_retried [of "rq_path rq"]
  by (auto simp: send_def send_with_retry_def circuit_target_def Let_def)

lemma sample_prompt: "strip ''hello'' = ''hello''" "code_points ''hello'' = 5" "lower_text ''completed'' = ''completed''"
  by (simp_all add: code_points_def less_eq_char_def graphic_def strip_graphic lower_text_kept del: lower_text.simps)

lemma sample_idents: "re_ident ''._:-'' 127 ''s1''" "re_ident ''._:-'' 127 ''r1''"
  by (simp_all add: ascii_alnum_def ascii_lower_def less_eq_char_def)

lemma sample_session:
  "create_session_loop sample_env sample_settings p 3 s = (s\<lparr>cs_sent := cs_sent s @ [sessions_request sample_env sample_settings p s]\<rparr>, Inr ''s1'')"
proof -
  let ?rq = "sessions_request sample_env sample_settings p s"
  have "hw_net (ce_http sample_env) (cs_sent s @ [?rq]) = ok_answer 201 [(''session'', JObj [(''id'', JStr ''s1'')])]"
    by (simp add: sample_env_def sessions_request_def)
  then have "send (ce_http sample_env) sample_settings ?rq s = (s\<lparr>cs_sent := cs_sent s @ [?rq]\<rparr>,
      Inr \<lparr>hr_status_code = 201, hr_json = Some (JObj [(''session'', JObj [(''id'', JStr ''s1'')])]), hr_reason_phrase = [], hr_retry_after = None\<rparr>)"
    by (intro sample_post) (simp_all add: sessions_request_def ok_answer_def)
  then show ?thesis
    by (simp add: numeral_3_eq_3 created_session_def decode_def obj_get_def validate_identifier_def sample_idents del: re_ident.simps)
qed

lemma sample_create:
  "\<exists>s' res. create_run sample_env sample_settings ''hello'' None None None ORCH_AUTO s = (s', Inr res) \<and> pr_status res = COMPLETED"
proof -
  let ?s1 = "s\<lparr>cs_sent := cs_sent s @ [sessions_request sample_env sample_settings ''hello'' s]\<rparr>"
  let ?rq = "run_request sample_settings ''hello'' ''s1'' [] None"
  have "hw_net (ce_http sample_env) (cs_sent ?s1 @ [?rq]) = ok_answer 202 [(''run_id'', JStr ''r1''), (''status'', JStr ''completed'')]"
    by (simp add: sample_env_def run_request_def)
  then have "send (ce_http sample_env) sample_settings ?rq ?s1 = (?s1\<lparr>cs_sent := cs_sent ?s1 @ [?rq]\<rparr>,
      Inr \<lparr>hr_status_code = 202, hr_json = Some (JObj [(''run_id'', JStr ''r1''), (''status'', JStr ''completed'')]), hr_reason_phrase = [], hr_retry_after = None\<rparr>)"
    by (intro sample_post) (simp_all add: run_request_def ok_answer_def)
  moreover have "prepare_session sample_env sample_settings ''hello'' None s = (?s1, Inr (''s1'', []))"
    by (simp add: prepare_session_def SESSION_CREATE_ATTEMPTS_def sample_session)
  moreover have "instructions (ce_strict_json sample_env) None None ORCH_AUTO = Inr None" by (simp add: instructions_def sample_env_def)
  ultimately show ?thesis
    by (simp add: create_run_def Let_def sample_prompt MAX_PROMPT_CHARS_def accepted_run_def decode_def obj_get_def json_or_def str_json_def
        validate_identifier_def sample_idents normalize_def subagents_field_def text_field_def normalize_status_def status_aliases_def hermes_status_values_def
        del: re_ident.simps lower_text.simps)
qed


subsection \<open>Waiting ends\<close>

text \<open>The clock of the event loop: it never runs back, and it advances by at least what is slept.\<close>

definition clock_ok :: "client_env \<Rightarrow> bool" where
  "clock_ok e \<longleftrightarrow> (\<forall>n n' ds ds'. n \<le> n' \<longrightarrow> list_all (\<lambda>d. 0 \<le> d) ds' \<longrightarrow> ce_time e n ds + sum_list ds' \<le> ce_time e n' (ds @ ds'))"

lemma clock_extends:
  assumes "clock_ok e" "extends s s'"
  shows "loop_time e s \<le> loop_time e s'"
proof -
  obtain ds where ds: "cs_slept s' = cs_slept s @ ds" "list_all (\<lambda>d. 0 \<le> d) ds" "cs_ticks s \<le> cs_ticks s'"
    using assms(2) by (auto simp: extends_def)
  then have "0 \<le> sum_list ds" by (auto simp: list_all_iff intro: sum_list_nonneg)
  moreover have "ce_time e (cs_ticks s) (cs_slept s) + sum_list ds \<le> ce_time e (cs_ticks s') (cs_slept s @ ds)"
    using assms(1) ds(2,3) unfolding clock_ok_def by blast
  ultimately show ?thesis unfolding loop_time_def ds(1) by linarith
qed

lemma clock_sleep:
  assumes "clock_ok e" "0 \<le> d"
  shows "loop_time e s + d \<le> loop_time e (sleep_for d (elapse s))"
proof -
  have "ce_time e (cs_ticks s) (cs_slept s) + sum_list [d] \<le> ce_time e (Suc (cs_ticks s)) (cs_slept s @ [d])"
    using assms(1) [unfolded clock_ok_def, rule_format, of "cs_ticks s" "Suc (cs_ticks s)" "[d]"] assms(2) by simp
  then show ?thesis by (simp add: loop_time_def sleep_for_def elapse_def)
qed

lemma poll_ends:
  assumes "valid_settings st" "clock_ok e"
  shows "deadline - loop_time e s \<le> real n * st_run_poll_interval_seconds st \<Longrightarrow>
    \<exists>s' r. poll_loop e st i fb ag subs (Suc n) deadline latest s = Some (s', r) \<and>
      (case r of Inr res \<Rightarrow> hermes_terminal (pr_status res) \<or> deadline \<le> loop_time e s' | Inl err \<Rightarrow> True)"
proof (induction n arbitrary: latest s)
  case 0
  have "loop_time e s \<le> loop_time e (elapse (elapse s))"
    using assms(2) by (rule clock_extends) (rule extends_trans [OF extends_elapse extends_elapse])
  with 0 show ?case by (auto simp: Let_def)
next
  case (Suc n)
  let ?p = "st_run_poll_interval_seconds st"
  let ?rem = "deadline - loop_time e s"
  let ?s = "sleep_for (min ?p ?rem) (elapse s)"
  have p: "0 < ?p" using assms(1) by (simp add: valid_settings_def)
  show ?case
  proof (cases "hermes_terminal (pr_status latest) \<or> ?rem \<le> 0")
    case True
    have "loop_time e s \<le> loop_time e (elapse (elapse s))"
      using assms(2) by (rule clock_extends) (rule extends_trans [OF extends_elapse extends_elapse])
    with True show ?thesis by (auto simp: Let_def)
  next
    case False
    obtain s1 x where g: "get_run e st i fb ag subs ?s = (s1, x)" by (cases "get_run e st i fb ag subs ?s")
    have "extends ?s (elapse s1)"
      using posts_none_get_run [OF assms(1), of ?s e i fb ag subs] g by (metis fst_conv posts_none_def extends_elapse extends_trans)
    from clock_extends [OF assms(2) this] clock_sleep [OF assms(2), of "min ?p ?rem" s] False p
    have "deadline - loop_time e (elapse s1) \<le> max 0 (?rem - ?p)" by auto
    also have "\<dots> \<le> real n * ?p" using Suc.prems p by (auto simp: algebra_simps)
    finally have rem: "deadline - loop_time e (elapse s1) \<le> real n * ?p" .
    show ?thesis
    proof (cases x)
      case (Inl err)
      with g False show ?thesis by (auto simp: Let_def)
    next
      case (Inr l)
      with g False Suc.IH [OF rem, of l] show ?thesis by (simp add: Let_def del: poll_loop.simps(2)) (simp add: Let_def)
    qed
  qed
qed


lemma sample_clock: "clock_ok sample_env"
  by (simp add: clock_ok_def sample_env_def)


end
